(* ===== verification/Prelude.thy ===== *)
theory Prelude
  imports Main "HOL-Library.Word" "HOL-Library.Sublist" "HOL-Library.Char_ord"
    "HOL-Library.List_Lexorder" "HOL-Library.Product_Lexorder" "HOL-Library.Code_Target_Nat"
begin

text \<open>
  What every component of the development shares: the machine integers of the Rust
  sources, \<open>Result\<close> as a sum, and the part of the Rust standard library that the
  modelled code calls on strings and integers.

  A Rust \<open>str\<close> is the list of its UTF-8 bytes, so a \<open>string\<close> here is a list of bytes
  and \<open>length\<close> is Rust's \<open>str::len\<close>. The separators the sources split at are ASCII
  characters, and no byte of a multi-byte UTF-8 character is an ASCII byte, so
  searching bytes and searching characters agree. \<open>trim\<close> knows the UTF-8 spelling of
  every Unicode white space character.
\<close>

section \<open>Collections of rules\<close>

named_theorems str_simps \<open>unconditional equations of the string functions\<close>
named_theorems policy_defs \<open>definitions of the access decisions\<close>

section \<open>Machine integers and results\<close>

type_synonym u8 = "8 word"
type_synonym u16 = "16 word"
type_synonym u32 = "32 word"
type_synonym u64 = "64 word"

text \<open>\<open>Result<'a, 'e>\<close>: \<open>Inl\<close> is \<open>Err\<close> and \<open>Inr\<close> is \<open>Ok\<close>.\<close>

type_synonym ('e, 'a) result = "'e + 'a"

abbreviation Err :: "'e \<Rightarrow> ('e, 'a) result" where
  "Err \<equiv> Inl"

abbreviation Ok :: "'a \<Rightarrow> ('e, 'a) result" where
  "Ok \<equiv> Inr"

text \<open>The \<open>?\<close> operator.\<close>

definition bind_result :: "('e, 'a) result \<Rightarrow> ('a \<Rightarrow> ('e, 'b) result) \<Rightarrow> ('e, 'b) result" where
  "bind_result r f = (case r of Inl e \<Rightarrow> Inl e | Inr a \<Rightarrow> f a)"

lemma bind_result_simps [simp]:
  "bind_result (Inl e) f = Inl e"
  "bind_result (Inr a) f = f a"
  by (simp_all add: bind_result_def)

lemma bind_result_Inr_iff:
  "bind_result r f = Inr b \<longleftrightarrow> (\<exists>a. r = Inr a \<and> f a = Inr b)"
  by (cases r) auto

lemma bind_result_Inl_iff:
  "bind_result r f = Inl e \<longleftrightarrow> r = Inl e \<or> (\<exists>a. r = Inr a \<and> f a = Inl e)"
  by (cases r) auto

text \<open>\<open>usize\<close> and \<open>u64\<close> are 64 bits wide on the targets the host is built for.\<close>

definition usize_max :: nat where
  "usize_max = 2 ^ 64 - 1"

definition saturating_mul :: "nat \<Rightarrow> nat \<Rightarrow> nat" where
  "saturating_mul a b = min (a * b) usize_max"

definition div_ceil :: "nat \<Rightarrow> nat \<Rightarrow> nat" where
  "div_ceil a b = (a + b - 1) div b"

definition clamp :: "'a::linorder \<Rightarrow> 'a \<Rightarrow> 'a \<Rightarrow> 'a" where
  "clamp x lo hi = (if x < lo then lo else if hi < x then hi else x)"

lemma clamp_bounds: "lo \<le> hi \<Longrightarrow> lo \<le> clamp x lo hi \<and> clamp x lo hi \<le> hi"
  by (auto simp: clamp_def)

lemma div_ceil_least:
  assumes "0 < b"
  shows "div_ceil a b \<le> n \<longleftrightarrow> a \<le> n * b"
proof
  assume h: "div_ceil a b \<le> n"
  have "a \<le> ((a + b - 1) div b) * b"
    using div_mod_decomp [of "a + b - 1" b] mod_less_divisor [OF assms, of "a + b - 1"] assms
    by linarith
  also have "\<dots> \<le> n * b"
    using h by (simp add: div_ceil_def)
  finally show "a \<le> n * b" .
next
  assume "a \<le> n * b"
  then have "a + b - 1 < (n + 1) * b"
    using assms by (simp add: algebra_simps)
  then have "(a + b - 1) div b < n + 1"
    using assms by (simp add: div_less_iff_less_mult)
  then show "div_ceil a b \<le> n"
    by (simp add: div_ceil_def)
qed

text \<open>\<open>Iterator::find_map\<close>.\<close>

fun find_map :: "('a \<Rightarrow> 'b option) \<Rightarrow> 'a list \<Rightarrow> 'b option" where
  "find_map f [] = None"
| "find_map f (x # xs) = (case f x of Some y \<Rightarrow> Some y | None \<Rightarrow> find_map f xs)"

text \<open>Removing the entry at an index.\<close>

abbreviation remove_nth :: "nat \<Rightarrow> 'a list \<Rightarrow> 'a list" where
  "remove_nth i xs \<equiv> take i xs @ drop (Suc i) xs"

lemma length_filter_remove_nth:
  assumes "i < length xs"
  shows "length (filter P xs) = length (filter P (remove_nth i xs)) + (if P (xs ! i) then 1 else 0)"
proof -
  have "filter P xs = filter P (take i xs @ xs ! i # drop (Suc i) xs)"
    using id_take_nth_drop [OF assms] by simp
  then show ?thesis by simp
qed

lemma set_remove_nth_subset: "set (remove_nth i xs) \<subseteq> set xs"
  using set_take_subset set_drop_subset by fastforce

lemma remove_nth_distinct:
  assumes "distinct xs" "i < length xs"
  shows "set (remove_nth i xs) = set xs - {xs ! i}" "distinct (remove_nth i xs)"
proof -
  have xs: "xs = take i xs @ xs ! i # drop (Suc i) xs" using id_take_nth_drop [OF assms(2)] .
  have "distinct (take i xs @ xs ! i # drop (Suc i) xs)" using assms(1) xs by simp
  moreover have "set xs = set (take i xs @ xs ! i # drop (Suc i) xs)" using xs by simp
  ultimately show "set (remove_nth i xs) = set xs - {xs ! i}" "distinct (remove_nth i xs)" by auto
qed

section \<open>ASCII characters\<close>

abbreviation char_code :: "char \<Rightarrow> nat" where
  "char_code \<equiv> of_char"

definition is_ascii_char :: "char \<Rightarrow> bool" where
  "is_ascii_char c \<longleftrightarrow> char_code c < 128"

definition is_ascii_digit :: "char \<Rightarrow> bool" where
  "is_ascii_digit c \<longleftrightarrow> 48 \<le> char_code c \<and> char_code c \<le> 57"

definition is_ascii_upper :: "char \<Rightarrow> bool" where
  "is_ascii_upper c \<longleftrightarrow> 65 \<le> char_code c \<and> char_code c \<le> 90"

definition is_ascii_lower :: "char \<Rightarrow> bool" where
  "is_ascii_lower c \<longleftrightarrow> 97 \<le> char_code c \<and> char_code c \<le> 122"

definition is_ascii_alphanumeric :: "char \<Rightarrow> bool" where
  "is_ascii_alphanumeric c \<longleftrightarrow> is_ascii_digit c \<or> is_ascii_upper c \<or> is_ascii_lower c"

definition is_ascii_str :: "string \<Rightarrow> bool" where
  "is_ascii_str s \<longleftrightarrow> list_all is_ascii_char s"

definition lower_char :: "char \<Rightarrow> char" where
  "lower_char c = (if is_ascii_upper c then char_of (char_code c + 32) else c)"

definition to_ascii_lowercase :: "string \<Rightarrow> string" where
  "to_ascii_lowercase s = map lower_char s"

definition eq_ignore_ascii_case :: "string \<Rightarrow> string \<Rightarrow> bool" where
  "eq_ignore_ascii_case a b \<longleftrightarrow> to_ascii_lowercase a = to_ascii_lowercase b"

lemma char_code_less [simp]: "char_code c < 256"
proof -
  have "char_code c mod 256 < 256" by simp
  then show ?thesis by (simp only: of_char_mod_256)
qed

lemma lower_char_idem [simp]: "lower_char (lower_char c) = lower_char c"
  by (auto simp: lower_char_def is_ascii_upper_def)

lemma to_ascii_lowercase_idem [simp]:
  "to_ascii_lowercase (to_ascii_lowercase s) = to_ascii_lowercase s"
  by (simp add: to_ascii_lowercase_def)

lemma length_to_ascii_lowercase [simp]: "length (to_ascii_lowercase s) = length s"
  by (simp add: to_ascii_lowercase_def)

lemma to_ascii_lowercase_append [simp]:
  "to_ascii_lowercase (s @ t) = to_ascii_lowercase s @ to_ascii_lowercase t"
  by (simp add: to_ascii_lowercase_def)

lemma to_ascii_lowercase_Nil [simp]: "to_ascii_lowercase [] = []"
  by (simp add: to_ascii_lowercase_def)

lemma to_ascii_lowercase_Cons [simp]:
  "to_ascii_lowercase (c # s) = lower_char c # to_ascii_lowercase s"
  by (simp add: to_ascii_lowercase_def)

lemma to_ascii_lowercase_eq_Nil [simp]: "to_ascii_lowercase s = [] \<longleftrightarrow> s = []"
  by (simp add: to_ascii_lowercase_def)

lemma eq_ignore_ascii_case_refl [simp]: "eq_ignore_ascii_case s s"
  by (simp add: eq_ignore_ascii_case_def)

lemma eq_ignore_ascii_case_sym: "eq_ignore_ascii_case s t = eq_ignore_ascii_case t s"
  by (auto simp: eq_ignore_ascii_case_def)

lemma eq_ignore_ascii_case_trans:
  "eq_ignore_ascii_case s t \<Longrightarrow> eq_ignore_ascii_case t u \<Longrightarrow> eq_ignore_ascii_case s u"
  by (simp add: eq_ignore_ascii_case_def)

lemma eq_ignore_ascii_case_lower [simp]:
  "eq_ignore_ascii_case (to_ascii_lowercase s) t = eq_ignore_ascii_case s t"
  "eq_ignore_ascii_case s (to_ascii_lowercase t) = eq_ignore_ascii_case s t"
  by (simp_all add: eq_ignore_ascii_case_def)

section \<open>Searching and splitting strings\<close>

text \<open>\<open>str::strip_prefix\<close>, \<open>str::strip_suffix\<close> and \<open>strip_suffix(p).unwrap_or(s)\<close>.\<close>

definition strip_prefix :: "string \<Rightarrow> string \<Rightarrow> string option" where
  "strip_prefix p s = (if prefix p s then Some (drop (length p) s) else None)"

definition strip_suffix :: "string \<Rightarrow> string \<Rightarrow> string option" where
  "strip_suffix p s =
     (if suffix p s then Some (take (length s - length p) s) else None)"

definition strip_suffix_or :: "string \<Rightarrow> string \<Rightarrow> string" where
  "strip_suffix_or p s = (case strip_suffix p s of None \<Rightarrow> s | Some t \<Rightarrow> t)"

definition strip_prefix_or :: "string \<Rightarrow> string \<Rightarrow> string" where
  "strip_prefix_or p s = (case strip_prefix p s of None \<Rightarrow> s | Some t \<Rightarrow> t)"

text \<open>\<open>str::split_once\<close> and \<open>str::rsplit_once\<close> at a character.\<close>

fun split_once :: "char \<Rightarrow> string \<Rightarrow> (string \<times> string) option" where
  "split_once c [] = None"
| "split_once c (x # xs) =
     (if x = c then Some ([], xs)
      else map_option (\<lambda>(a, b). (x # a, b)) (split_once c xs))"

fun rsplit_once :: "char \<Rightarrow> string \<Rightarrow> (string \<times> string) option" where
  "rsplit_once c [] = None"
| "rsplit_once c (x # xs) =
     (case rsplit_once c xs of
        Some (a, b) \<Rightarrow> Some (x # a, b)
      | None \<Rightarrow> if x = c then Some ([], xs) else None)"

text \<open>\<open>str::split_once\<close> and \<open>str::contains\<close> with a string pattern.\<close>

fun split_once_str :: "string \<Rightarrow> string \<Rightarrow> (string \<times> string) option" where
  "split_once_str p [] = (if p = [] then Some ([], []) else None)"
| "split_once_str p (x # xs) =
     (if prefix p (x # xs) then Some ([], drop (length p) (x # xs))
      else map_option (\<lambda>(a, b). (x # a, b)) (split_once_str p xs))"

definition contains_str :: "string \<Rightarrow> string \<Rightarrow> bool" where
  "contains_str p s \<longleftrightarrow> split_once_str p s \<noteq> None"

text \<open>\<open>str::split\<close> at a character: never empty.\<close>

fun split_on :: "char \<Rightarrow> string \<Rightarrow> string list" where
  "split_on c [] = [[]]"
| "split_on c (x # xs) =
     (if x = c then [] # split_on c xs
      else (case split_on c xs of
              [] \<Rightarrow> [[x]]
            | p # ps \<Rightarrow> (x # p) # ps))"

text \<open>The inverse of \<^const>\<open>split_on\<close>: joining with the separator.\<close>

fun join_with :: "char \<Rightarrow> string list \<Rightarrow> string" where
  "join_with c [] = []"
| "join_with c [p] = p"
| "join_with c (p # q # ps) = p @ c # join_with c (q # ps)"

text \<open>\<open>str::trim_end_matches\<close> with a character.\<close>

definition trim_end_matches :: "char \<Rightarrow> string \<Rightarrow> string" where
  "trim_end_matches c s = rev (dropWhile (\<lambda>x. x = c) (rev s))"

lemma split_on_ne [simp]: "split_on c s \<noteq> []"
  by (induction s) (auto split: list.splits)

lemma length_split_on [simp]: "0 < length (split_on c s)"
  by simp

lemma split_on_no_sep: "p \<in> set (split_on c s) \<Longrightarrow> c \<notin> set p"
proof (induction s arbitrary: p)
  case Nil
  then show ?case by simp
next
  case (Cons x s)
  then show ?case
    by (cases "split_on c s") (auto split: if_splits)
qed

lemma split_on_single [simp]: "c \<notin> set s \<Longrightarrow> split_on c s = [s]"
  by (induction s) auto

lemma split_on_append [simp]:
  "c \<notin> set s \<Longrightarrow> split_on c (s @ c # t) = s # split_on c t"
  by (induction s) auto

lemma join_split_on [simp]: "join_with c (split_on c s) = s"
proof (induction s)
  case Nil
  then show ?case by simp
next
  case (Cons x s)
  then show ?case
    by (cases "split_on c s" rule: list.exhaust; cases "tl (split_on c s)") auto
qed

lemma split_on_join:
  "ps \<noteq> [] \<Longrightarrow> (\<forall>p \<in> set ps. c \<notin> set p) \<Longrightarrow> split_on c (join_with c ps) = ps"
  by (induction c ps rule: join_with.induct) auto

lemma split_once_Some_iff:
  "split_once c s = Some (a, b) \<longleftrightarrow> s = a @ c # b \<and> c \<notin> set a"
proof (induction s arbitrary: a)
  case Nil
  then show ?case by simp
next
  case (Cons x s)
  show ?case
    by (cases a) (auto simp: Cons.IH)
qed

lemma split_once_None_iff: "split_once c s = None \<longleftrightarrow> c \<notin> set s"
  by (induction s) auto

lemma rsplit_once_None_iff: "rsplit_once c s = None \<longleftrightarrow> c \<notin> set s"
  by (induction s) (auto split: option.splits)

lemma rsplit_once_Some_iff:
  "rsplit_once c s = Some (a, b) \<longleftrightarrow> s = a @ c # b \<and> c \<notin> set b"
proof (induction s arbitrary: a b)
  case Nil
  then show ?case by simp
next
  case (Cons x s)
  show ?case
  proof (cases "rsplit_once c s")
    case None
    then have "c \<notin> set s" by (simp add: rsplit_once_None_iff)
    with None show ?thesis by (cases a) auto
  next
    case (Some ab)
    then obtain a' b' where ab: "rsplit_once c s = Some (a', b')" by (cases ab) auto
    then have "s = a' @ c # b'" and "c \<notin> set b'" by (simp_all add: Cons.IH)
    with ab Cons.IH [of "tl a" b] show ?thesis by (cases a) auto
  qed
qed

lemma strip_suffix_Some_iff: "strip_suffix p s = Some t \<longleftrightarrow> s = t @ p"
  by (auto simp: strip_suffix_def suffix_def)

lemma strip_prefix_Some_iff: "strip_prefix p s = Some t \<longleftrightarrow> s = p @ t"
  by (auto simp: strip_prefix_def prefix_def)

lemma strip_suffix_append [simp]: "strip_suffix p (t @ p) = Some t" "strip_suffix p p = Some []"
  by (simp_all add: strip_suffix_Some_iff)

lemma strip_prefix_append [simp]: "strip_prefix p (p @ t) = Some t" "strip_prefix p p = Some []"
  by (simp_all add: strip_prefix_Some_iff)

lemma strip_suffix_None_iff: "strip_suffix p s = None \<longleftrightarrow> \<not> suffix p s"
  by (simp add: strip_suffix_def)

lemma strip_prefix_None_iff: "strip_prefix p s = None \<longleftrightarrow> \<not> prefix p s"
  by (simp add: strip_prefix_def)

lemma split_once_str_SomeD:
  "split_once_str p s = Some (a, b) \<Longrightarrow> s = a @ p @ b"
proof (induction p s arbitrary: a rule: split_once_str.induct)
  case (1 p)
  then show ?case by (auto split: if_splits)
next
  case (2 p x xs)
  then show ?case by (auto simp: prefix_def split: if_splits)
qed

lemma split_once_str_None_iff:
  "split_once_str p s = None \<longleftrightarrow> \<not> sublist p s"
proof (induction p s rule: split_once_str.induct)
  case (1 p)
  then show ?case by simp
next
  case (2 p x xs)
  then show ?case by (auto simp: sublist_Cons_right)
qed

lemma contains_str_iff: "contains_str p s \<longleftrightarrow> sublist p s"
  by (simp add: contains_str_def split_once_str_None_iff)

section \<open>White space\<close>

text \<open>The characters with the Unicode property \<open>White_Space\<close>, in UTF-8.\<close>

definition utf8 :: "nat list \<Rightarrow> string" where
  "utf8 ns = map char_of ns"

definition white_space :: "string list" where
  "white_space = map utf8
     ([[9], [10], [11], [12], [13], [32], [194, 133], [194, 160], [225, 154, 128]]
      @ map (\<lambda>n. [226, 128, n]) [128, 129, 130, 131, 132, 133, 134, 135, 136, 137, 138]
      @ [[226, 128, 168], [226, 128, 169], [226, 128, 175], [226, 129, 159], [227, 128, 128]])"

text \<open>Strip any of \<open>ws\<close> off the front for as long as one is there.\<close>

function strip_while :: "string list \<Rightarrow> string \<Rightarrow> string" where
  "strip_while ws s =
     (case find (\<lambda>w. w \<noteq> [] \<and> prefix w s) ws of
        None \<Rightarrow> s
      | Some w \<Rightarrow> strip_while ws (drop (length w) s))"
  by pat_completeness auto
termination
proof (relation "measure (length \<circ> snd)")
  fix ws s w
  assume "find (\<lambda>w. w \<noteq> [] \<and> prefix w s) ws = Some w"
  then have "w \<noteq> []" and "prefix w s"
    by (auto simp: find_Some_iff)
  then have "0 < length w" and "length w \<le> length s"
    by (auto dest: prefix_length_le)
  then show "((ws, drop (length w) s), ws, s) \<in> measure (length \<circ> snd)"
    by (simp del: length_greater_0_conv)
qed simp

declare strip_while.simps [simp del]

definition trim_start :: "string \<Rightarrow> string" where
  "trim_start s = strip_while white_space s"

definition trim_end :: "string \<Rightarrow> string" where
  "trim_end s = rev (strip_while (map rev white_space) (rev s))"

text \<open>\<open>str::trim\<close>.\<close>

definition trim :: "string \<Rightarrow> string" where
  "trim s = trim_end (trim_start s)"

text \<open>A printable ASCII character: never the first or last byte of white space.\<close>

definition is_ascii_graphic :: "char \<Rightarrow> bool" where
  "is_ascii_graphic c \<longleftrightarrow> 33 \<le> char_code c \<and> char_code c \<le> 126"

lemma strip_while_no_prefix:
  assumes "\<forall>w \<in> set ws. w \<noteq> [] \<longrightarrow> \<not> prefix w s"
  shows "strip_while ws s = s"
proof -
  have "find (\<lambda>w. w \<noteq> [] \<and> prefix w s) ws = None"
    using assms by (auto simp: find_None_iff)
  then show ?thesis by (subst strip_while.simps) simp
qed

lemma white_space_first:
  "w \<in> set white_space \<Longrightarrow> w \<noteq> [] \<and> \<not> is_ascii_graphic (hd w) \<and> \<not> is_ascii_graphic (last w)"
  by (auto simp: white_space_def utf8_def is_ascii_graphic_def)

lemma trim_graphic:
  assumes "s = [] \<or> (is_ascii_graphic (hd s) \<and> is_ascii_graphic (last s))"
  shows "trim s = s"
proof -
  have start: "trim_start s = s"
    unfolding trim_start_def
  proof (rule strip_while_no_prefix, intro ballI impI notI)
    fix w assume w: "w \<in> set white_space" "w \<noteq> []" "prefix w s"
    then have "s \<noteq> []" and "hd w = hd s" by (auto simp: prefix_def)
    with assms white_space_first [OF w(1)] show False by simp
  qed
  have "strip_while (map rev white_space) (rev s) = rev s"
  proof (rule strip_while_no_prefix, intro ballI impI notI)
    fix w assume w: "w \<in> set (map rev white_space)" "w \<noteq> []" "prefix w (rev s)"
    then obtain v where v: "v \<in> set white_space" "w = rev v" by auto
    with w(2,3) have "s \<noteq> []" and "hd w = hd (rev s)" by (auto simp: prefix_def)
    then have "last v = last s" using v(2) by (simp add: hd_rev)
    with assms \<open>s \<noteq> []\<close> white_space_first [OF v(1)] show False by simp
  qed
  with start show ?thesis by (simp add: trim_def trim_end_def)
qed

section \<open>Decimal numbers\<close>

definition digit_value :: "char \<Rightarrow> nat option" where
  "digit_value c = (if is_ascii_digit c then Some (char_code c - 48) else None)"

definition digit_char :: "nat \<Rightarrow> char" where
  "digit_char d = char_of (48 + d)"

fun parse_digits :: "nat \<Rightarrow> string \<Rightarrow> nat option" where
  "parse_digits acc [] = Some acc"
| "parse_digits acc (c # s) =
     (case digit_value c of
        None \<Rightarrow> None
      | Some d \<Rightarrow> parse_digits (acc * 10 + d) s)"

text \<open>
  \<open>str::parse\<close> at an unsigned type with the given largest value: an optional \<open>+\<close>, then
  at least one digit and nothing else.
\<close>

definition parse_unsigned :: "nat \<Rightarrow> string \<Rightarrow> nat option" where
  "parse_unsigned max_value s =
     (let ds = strip_prefix_or ''+'' s in
      if ds = [] then None
      else (case parse_digits 0 ds of
              None \<Rightarrow> None
            | Some n \<Rightarrow> if n \<le> max_value then Some n else None))"

definition parse_u16 :: "string \<Rightarrow> u16 option" where
  "parse_u16 s = map_option of_nat (parse_unsigned 65535 s)"

text \<open>\<open>Display\<close> of an unsigned integer.\<close>

fun show_nat :: "nat \<Rightarrow> string" where
  "show_nat n = (if n < 10 then [digit_char n] else show_nat (n div 10) @ [digit_char (n mod 10)])"

declare show_nat.simps [simp del]

definition show_u16 :: "u16 \<Rightarrow> string" where
  "show_u16 w = show_nat (unat w)"

lemma char_code_digit_char [simp]: "d < 10 \<Longrightarrow> char_code (digit_char d) = 48 + d"
  by (simp add: digit_char_def)

lemma is_ascii_digit_digit_char [simp]: "d < 10 \<Longrightarrow> is_ascii_digit (digit_char d)"
  by (simp add: is_ascii_digit_def)

lemma digit_value_digit_char [simp]: "d < 10 \<Longrightarrow> digit_value (digit_char d) = Some d"
  by (simp add: digit_value_def)

lemma show_nat_ne [simp]: "show_nat n \<noteq> []"
  by (subst show_nat.simps) simp

lemma show_nat_digits: "c \<in> set (show_nat n) \<Longrightarrow> is_ascii_digit c"
proof (induction n rule: show_nat.induct)
  case (1 n)
  then show ?case
    by (cases "n < 10") (auto simp: show_nat.simps [of n])
qed

lemma parse_digits_append:
  "parse_digits acc (s @ t) =
     (case parse_digits acc s of None \<Rightarrow> None | Some n \<Rightarrow> parse_digits n t)"
  by (induction s arbitrary: acc) (auto split: option.splits)

lemma parse_digits_show_nat: "parse_digits 0 (show_nat n) = Some n"
proof (induction n rule: show_nat.induct)
  case (1 n)
  show ?case
  proof (cases "n < 10")
    case True
    then show ?thesis by (simp add: show_nat.simps [of n])
  next
    case False
    with 1 have "parse_digits 0 (show_nat (n div 10)) = Some (n div 10)" by simp
    with False show ?thesis
      by (simp add: show_nat.simps [of n] parse_digits_append)
  qed
qed

lemma not_digit_chars:
  "\<not> is_ascii_digit CHR ''+''" "\<not> is_ascii_digit CHR ''-''" "\<not> is_ascii_digit CHR ''.''"
  "\<not> is_ascii_digit CHR ''*''" "\<not> is_ascii_digit CHR ''/''" "\<not> is_ascii_digit CHR '':''"
  by (simp_all add: is_ascii_digit_def)

lemma show_nat_avoids: "\<not> is_ascii_digit c \<Longrightarrow> c \<notin> set (show_nat n)"
  using show_nat_digits by blast

lemma parse_unsigned_show_nat:
  assumes "n \<le> m"
  shows "parse_unsigned m (show_nat n) = Some n"
proof -
  have "\<not> prefix ''+'' (show_nat n)"
    using show_nat_avoids [OF not_digit_chars(1), of n] by (cases "show_nat n") auto
  then have "strip_prefix_or ''+'' (show_nat n) = show_nat n"
    by (simp add: strip_prefix_or_def strip_prefix_def)
  with assms show ?thesis
    by (simp add: parse_unsigned_def parse_digits_show_nat)
qed

lemma parse_u16_show_u16 [simp]: "parse_u16 (show_u16 w) = Some w"
proof -
  have "unat w \<le> 65535" using unsigned_less [of w, where 'a = nat] by simp
  then show ?thesis by (simp add: parse_u16_def show_u16_def parse_unsigned_show_nat)
qed

lemma is_ascii_graphic_digit: "is_ascii_digit c \<Longrightarrow> is_ascii_graphic c"
  by (simp add: is_ascii_digit_def is_ascii_graphic_def)

lemma show_nat_graphic:
  "is_ascii_graphic (hd (show_nat n))" "is_ascii_graphic (last (show_nat n))"
  by (auto intro!: is_ascii_graphic_digit show_nat_digits [of _ n])

end
