(* ===== verification/Interfaces.thy ===== *)
theory Interfaces
  imports Prelude
begin

text \<open>
  The contracts components rely on, as locales, and the ordered collections of the Rust
  standard library.
  \<^item> \<open>allowlist\<close>: a policy is a list of entries and permits what some entry permits. Every
    allowlist of the host (hosts, names, loopback ports, NATS grants) has this shape.
  \<^item> \<open>keyed_store\<close>: the laws of a map with insert, remove and lookup, which the port
    table, the virtual network and the lookup history rely on.
  \<^item> \<open>transition_system\<close>: an invariant that holds initially and that every step keeps
    holds in every reachable state.
  \<open>BTreeMap\<close> and \<open>BTreeSet\<close> are strictly sorted lists; \<open>HashMap\<close> is a HOL map.
\<close>

section \<open>Allowlists\<close>

locale allowlist =
  fixes permits :: "'e \<Rightarrow> 'r \<Rightarrow> bool"
    and check :: "'e list \<Rightarrow> 'r \<Rightarrow> bool"
  assumes check_iff: "check ps r \<longleftrightarrow> (\<exists>p \<in> set ps. permits p r)"
begin

lemma empty_denies: "\<not> check [] r"
  by (simp add: check_iff)

lemma check_append: "check (ps @ qs) r \<longleftrightarrow> check ps r \<or> check qs r"
  by (auto simp: check_iff)

lemma check_mono: "set ps \<subseteq> set qs \<Longrightarrow> check ps r \<Longrightarrow> check qs r"
  by (auto simp: check_iff)

lemma check_order: "set ps = set qs \<Longrightarrow> check ps r = check qs r"
  by (auto simp: check_iff)

lemma denied_iff: "\<not> check ps r \<longleftrightarrow> (\<forall>p \<in> set ps. \<not> permits p r)"
  by (auto simp: check_iff)

end

section \<open>Keyed stores\<close>

locale keyed_store =
  fixes empty :: 'm
    and get :: "'m \<Rightarrow> 'k \<Rightarrow> 'v option"
    and ins :: "'k \<Rightarrow> 'v \<Rightarrow> 'm \<Rightarrow> 'm"
    and del :: "'k \<Rightarrow> 'm \<Rightarrow> 'm"
    and wf :: "'m \<Rightarrow> bool"
  assumes wf_empty: "wf empty"
    and wf_ins: "wf m \<Longrightarrow> wf (ins k v m)"
    and wf_del: "wf m \<Longrightarrow> wf (del k m)"
    and get_empty: "get empty k = None"
    and get_ins: "wf m \<Longrightarrow> get (ins k v m) k' = (if k' = k then Some v else get m k')"
    and get_del: "wf m \<Longrightarrow> get (del k m) k' = (if k' = k then None else get m k')"
begin

lemma get_ins_same: "wf m \<Longrightarrow> get (ins k v m) k = Some v"
  by (simp add: get_ins)

lemma get_ins_other: "wf m \<Longrightarrow> k' \<noteq> k \<Longrightarrow> get (ins k v m) k' = get m k'"
  by (simp add: get_ins)

lemma release_claim:
  "wf m \<Longrightarrow> get m k = None \<Longrightarrow> get (del k (ins k v m)) = get m"
  by (rule ext) (simp add: get_del get_ins wf_ins)

lemma get_del_claimed:
  "wf m \<Longrightarrow> get (del k m) k' = Some v \<longleftrightarrow> k' \<noteq> k \<and> get m k' = Some v"
  by (simp add: get_del)

end

section \<open>Transition systems\<close>

locale transition_system =
  fixes step :: "'s \<Rightarrow> 's \<Rightarrow> bool"
    and inv :: "'s \<Rightarrow> bool"
  assumes inv_step: "inv s \<Longrightarrow> step s s' \<Longrightarrow> inv s'"
begin

lemma inv_reachable: "step\<^sup>*\<^sup>* s s' \<Longrightarrow> inv s \<Longrightarrow> inv s'"
  by (induction rule: rtranclp_induct) (auto intro: inv_step)

end

section \<open>Ordered maps and sets\<close>

type_synonym ('k, 'v) btree_map = "('k \<times> 'v) list"
type_synonym 'a btree_set = "'a list"

definition bm_get :: "('k, 'v) btree_map \<Rightarrow> 'k \<Rightarrow> 'v option" where
  "bm_get m k = map_of m k"

fun bm_insert :: "'k::linorder \<Rightarrow> 'v \<Rightarrow> ('k, 'v) btree_map \<Rightarrow> ('k, 'v) btree_map" where
  "bm_insert k v [] = [(k, v)]"
| "bm_insert k v ((k', v') # m) =
     (if k < k' then (k, v) # (k', v') # m
      else if k = k' then (k, v) # m
      else (k', v') # bm_insert k v m)"

definition bm_remove :: "'k \<Rightarrow> ('k, 'v) btree_map \<Rightarrow> ('k, 'v) btree_map" where
  "bm_remove k m = filter (\<lambda>(k', _). k' \<noteq> k) m"

definition bm_contains :: "('k, 'v) btree_map \<Rightarrow> 'k \<Rightarrow> bool" where
  "bm_contains m k \<longleftrightarrow> bm_get m k \<noteq> None"

definition bm_wf :: "('k::linorder, 'v) btree_map \<Rightarrow> bool" where
  "bm_wf m \<longleftrightarrow> sorted_wrt (<) (map fst m)"

fun bs_insert :: "'a::linorder \<Rightarrow> 'a btree_set \<Rightarrow> 'a btree_set" where
  "bs_insert x [] = [x]"
| "bs_insert x (y # ys) =
     (if x < y then x # y # ys else if x = y then y # ys else y # bs_insert x ys)"

definition bs_remove :: "'a \<Rightarrow> 'a btree_set \<Rightarrow> 'a btree_set" where
  "bs_remove x s = filter (\<lambda>y. y \<noteq> x) s"

definition bs_first :: "'a btree_set \<Rightarrow> 'a option" where
  "bs_first s = (case s of [] \<Rightarrow> None | x # _ \<Rightarrow> Some x)"

definition bs_wf :: "'a::linorder btree_set \<Rightarrow> bool" where
  "bs_wf s \<longleftrightarrow> sorted_wrt (<) s"

lemma bm_insert_keys [simp]: "set (map fst (bm_insert k v m)) = insert k (set (map fst m))"
  by (induction k v m rule: bm_insert.induct) auto

lemma bm_insert_fst [simp]: "fst ` set (bm_insert k v m) = insert k (fst ` set m)"
  using bm_insert_keys [of k v m] by (simp only: set_map)

lemma bm_wf_empty [simp]: "bm_wf []"
  by (simp add: bm_wf_def)

lemma bm_wf_insert [simp]: "bm_wf m \<Longrightarrow> bm_wf (bm_insert k v m)"
  unfolding bm_wf_def
  by (induction k v m rule: bm_insert.induct) (auto simp del: set_map dest: less_trans)

lemma bm_wf_remove [simp]: "bm_wf m \<Longrightarrow> bm_wf (bm_remove k m)"
  unfolding bm_wf_def bm_remove_def
  by (induction m) (auto split: if_splits)

lemma bm_get_Nil [simp]: "bm_get [] k = None"
  by (simp add: bm_get_def)

lemma bm_get_insert:
  "bm_wf m \<Longrightarrow> bm_get (bm_insert k v m) k' = (if k' = k then Some v else bm_get m k')"
  unfolding bm_wf_def bm_get_def
  by (induction k v m rule: bm_insert.induct) auto

lemma bm_get_remove: "bm_get (bm_remove k m) k' = (if k' = k then None else bm_get m k')"
  unfolding bm_get_def bm_remove_def
  by (induction m) auto

lemma bm_get_None_iff: "bm_get m k = None \<longleftrightarrow> k \<notin> fst ` set m"
  by (simp add: bm_get_def map_of_eq_None_iff)

lemma bm_wf_distinct: "bm_wf m \<Longrightarrow> distinct (map fst m)"
  by (simp add: bm_wf_def strict_sorted_iff)

lemma bm_get_iff: "bm_wf m \<Longrightarrow> bm_get m k = Some v \<longleftrightarrow> (k, v) \<in> set m"
  by (simp add: bm_get_def bm_wf_distinct)

lemma length_bm_insert:
  "bm_wf m \<Longrightarrow>
     length (bm_insert k v m) = (if bm_get m k = None then Suc (length m) else length m)"
proof (induction k v m rule: bm_insert.induct)
  case (1 k v)
  then show ?case by simp
next
  case (2 k v k' v' m)
  then have "k < k' \<Longrightarrow> bm_get m k = None"
    by (auto simp: bm_wf_def bm_get_None_iff)
  with 2 show ?case
    by (auto simp: bm_wf_def bm_get_def split: if_splits)
qed

lemma bs_wf_Nil [simp]: "bs_wf []"
  by (simp add: bs_wf_def)

lemma set_bs_insert [simp]: "set (bs_insert x s) = insert x (set s)"
  by (induction x s rule: bs_insert.induct) auto

lemma bs_wf_insert [simp]: "bs_wf s \<Longrightarrow> bs_wf (bs_insert x s)"
  unfolding bs_wf_def
  by (induction x s rule: bs_insert.induct) auto

lemma set_bs_remove [simp]: "set (bs_remove x s) = set s - {x}"
  by (auto simp: bs_remove_def)

lemma bs_wf_remove [simp]: "bs_wf s \<Longrightarrow> bs_wf (bs_remove x s)"
  by (simp add: bs_wf_def bs_remove_def sorted_wrt_filter)

lemma bs_wf_distinct: "bs_wf s \<Longrightarrow> distinct s"
  by (simp add: bs_wf_def strict_sorted_iff)

lemma length_bs_insert:
  "bs_wf s \<Longrightarrow> length (bs_insert x s) = (if x \<in> set s then length s else Suc (length s))"
  unfolding bs_wf_def
  by (induction x s rule: bs_insert.induct) auto

lemma length_bs_remove:
  assumes "bs_wf s"
  shows "length (bs_remove x s) = (if x \<in> set s then length s - 1 else length s)"
proof -
  have "length (bs_remove x s) = card (set s - {x})"
    using distinct_card [OF bs_wf_distinct [OF bs_wf_remove [OF assms, of x]]] by simp
  then show ?thesis
    using distinct_card [OF bs_wf_distinct [OF assms]] by (simp add: card_Diff_singleton_if)
qed

lemma bs_first_None_iff: "bs_first s = None \<longleftrightarrow> s = []"
  by (cases s) (auto simp: bs_first_def)

lemma bs_first_least:
  "bs_wf s \<Longrightarrow> bs_first s = Some x \<Longrightarrow> x \<in> set s \<and> (\<forall>y \<in> set s. x \<le> y)"
  by (cases s) (auto simp: bs_first_def bs_wf_def)

interpretation btree: keyed_store "[]" bm_get bm_insert bm_remove bm_wf
  by unfold_locales (simp_all add: bm_get_insert bm_get_remove)

interpretation hash: keyed_store Map.empty "\<lambda>m k. m k" "\<lambda>k v m. m(k \<mapsto> v)" "\<lambda>k m. m(k := None)" "\<lambda>_. True"
  by unfold_locales simp_all

end
