(* ===== verification/Net_Addr.thy ===== *)
theory Net_Addr
  imports Prelude
begin

text \<open>
  The part of \<open>core::net\<close> the host relies on: addresses, the classification predicates,
  \<open>to_canonical\<close>, the textual forms (\<open>FromStr\<close> and \<open>Display\<close>) and socket addresses. The
  order on \<^emph>\<open>ipaddr\<close> is Rust's derived one, which the lookup history is indexed by.
\<close>

unbundle bit_operations_syntax

section \<open>Addresses\<close>

datatype ipv4 = Ipv4Addr u8 u8 u8 u8

datatype ipv6 = Ipv6Addr u16 u16 u16 u16 u16 u16 u16 u16

datatype ipaddr = V4 ipv4 | V6 ipv6

fun octets :: "ipv4 \<Rightarrow> u8 list" where
  "octets (Ipv4Addr a b c d) = [a, b, c, d]"

fun segments :: "ipv6 \<Rightarrow> u16 list" where
  "segments (Ipv6Addr a b c d e f g h) = [a, b, c, d, e, f, g, h]"

definition v4_localhost :: ipv4 where "v4_localhost = Ipv4Addr 127 0 0 1"
definition v4_unspecified :: ipv4 where "v4_unspecified = Ipv4Addr 0 0 0 0"
definition v6_localhost :: ipv6 where "v6_localhost = Ipv6Addr 0 0 0 0 0 0 0 1"
definition v6_unspecified :: ipv6 where "v6_unspecified = Ipv6Addr 0 0 0 0 0 0 0 0"

section \<open>Classification\<close>

fun v4_is_loopback :: "ipv4 \<Rightarrow> bool" where
  "v4_is_loopback (Ipv4Addr a b c d) = (a = 127)"

definition v4_is_unspecified :: "ipv4 \<Rightarrow> bool" where
  "v4_is_unspecified ip \<longleftrightarrow> ip = v4_unspecified"

fun v4_is_link_local :: "ipv4 \<Rightarrow> bool" where
  "v4_is_link_local (Ipv4Addr a b c d) = (a = 169 \<and> b = 254)"

fun v4_is_multicast :: "ipv4 \<Rightarrow> bool" where
  "v4_is_multicast (Ipv4Addr a b c d) = (224 \<le> a \<and> a \<le> 239)"

definition v4_is_broadcast :: "ipv4 \<Rightarrow> bool" where
  "v4_is_broadcast ip \<longleftrightarrow> ip = Ipv4Addr 255 255 255 255"

fun v4_is_private :: "ipv4 \<Rightarrow> bool" where
  "v4_is_private (Ipv4Addr a b c d) =
     (a = 10 \<or> (a = 172 \<and> 16 \<le> b \<and> b \<le> 31) \<or> (a = 192 \<and> b = 168))"

definition v6_is_loopback :: "ipv6 \<Rightarrow> bool" where
  "v6_is_loopback ip \<longleftrightarrow> ip = v6_localhost"

definition v6_is_unspecified :: "ipv6 \<Rightarrow> bool" where
  "v6_is_unspecified ip \<longleftrightarrow> ip = v6_unspecified"

fun v6_is_multicast :: "ipv6 \<Rightarrow> bool" where
  "v6_is_multicast (Ipv6Addr a b c d e f g h) = (a AND 0xff00 = 0xff00)"

text \<open>\<open>::ffff:a.b.c.d\<close> is the IPv4 address \<open>a.b.c.d\<close>, in big-endian bytes.\<close>

fun to_ipv4_mapped :: "ipv6 \<Rightarrow> ipv4 option" where
  "to_ipv4_mapped (Ipv6Addr a b c d e f g h) =
     (if a = 0 \<and> b = 0 \<and> c = 0 \<and> d = 0 \<and> e = 0 \<and> f = 0xffff
      then Some (Ipv4Addr (ucast (drop_bit 8 g)) (ucast g) (ucast (drop_bit 8 h)) (ucast h))
      else None)"

fun to_ipv6_mapped :: "ipv4 \<Rightarrow> ipv6" where
  "to_ipv6_mapped (Ipv4Addr a b c d) =
     Ipv6Addr 0 0 0 0 0 0xffff (push_bit 8 (ucast a) OR ucast b) (push_bit 8 (ucast c) OR ucast d)"

fun to_canonical :: "ipaddr \<Rightarrow> ipaddr" where
  "to_canonical (V4 v4) = V4 v4"
| "to_canonical (V6 v6) =
     (case to_ipv4_mapped v6 of Some v4 \<Rightarrow> V4 v4 | None \<Rightarrow> V6 v6)"

fun is_loopback :: "ipaddr \<Rightarrow> bool" where
  "is_loopback (V4 v4) = v4_is_loopback v4"
| "is_loopback (V6 v6) = v6_is_loopback v6"

fun is_unspecified :: "ipaddr \<Rightarrow> bool" where
  "is_unspecified (V4 v4) = v4_is_unspecified v4"
| "is_unspecified (V6 v6) = v6_is_unspecified v6"

fun is_multicast :: "ipaddr \<Rightarrow> bool" where
  "is_multicast (V4 v4) = v4_is_multicast v4"
| "is_multicast (V6 v6) = v6_is_multicast v6"

lemma to_canonical_idem [simp]: "to_canonical (to_canonical ip) = to_canonical ip"
  by (cases ip) (auto split: option.splits)

lemma to_canonical_V4 [simp]: "to_canonical (V4 v4) = V4 v4"
  by simp

lemma ucast_pair_high: "ucast (drop_bit 8 (push_bit 8 (ucast a) OR ucast b :: u16)) = (a :: u8)"
  for b :: u8
  by (rule bit_word_eqI)
    (auto simp: bit_ucast_iff bit_drop_bit_eq bit_push_bit_iff bit_or_iff dest: bit_imp_le_length)

lemma ucast_pair_low: "ucast (push_bit 8 (ucast a) OR ucast b :: u16) = (b :: u8)"
  for a :: u8
  by (rule bit_word_eqI)
    (auto simp: bit_ucast_iff bit_push_bit_iff bit_or_iff)

lemma to_ipv4_mapped_to_ipv6_mapped [simp]: "to_ipv4_mapped (to_ipv6_mapped v4) = Some v4"
  by (cases v4) (simp add: ucast_pair_high ucast_pair_low del: drop_bit_or)

lemma to_canonical_mapped [simp]: "to_canonical (V6 (to_ipv6_mapped v4)) = V4 v4"
  by simp

section \<open>Order\<close>

fun ip_key :: "ipaddr \<Rightarrow> nat list" where
  "ip_key (V4 ip) = 0 # map unat (octets ip)"
| "ip_key (V6 ip) = 1 # map unat (segments ip)"

lemma ip_key_inj: "ip_key a = ip_key b \<Longrightarrow> a = b"
proof (cases a; cases b)
  fix v w assume "ip_key a = ip_key b" "a = V4 v" "b = V4 w"
  then show ?thesis by (cases v; cases w) (simp add: word_unat_eq_iff)
next
  fix v w assume "ip_key a = ip_key b" "a = V6 v" "b = V6 w"
  then show ?thesis by (cases v; cases w) (simp add: word_unat_eq_iff)
qed auto

instantiation ipaddr :: linorder
begin

definition less_eq_ipaddr :: "ipaddr \<Rightarrow> ipaddr \<Rightarrow> bool" where
  "less_eq_ipaddr a b \<longleftrightarrow> ip_key a \<le> ip_key b"

definition less_ipaddr :: "ipaddr \<Rightarrow> ipaddr \<Rightarrow> bool" where
  "less_ipaddr a b \<longleftrightarrow> ip_key a < ip_key b"

instance
  by intro_classes (auto simp: less_eq_ipaddr_def less_ipaddr_def intro: ip_key_inj)

end

section \<open>Socket addresses\<close>

text \<open>\<open>SocketAddr\<close>: an IPv6 one carries a flow label and a scope id besides the port.\<close>

datatype socket_addr =
    SocketAddrV4 ipv4 u16
  | SocketAddrV6 ipv6 u16 u32 u32

fun sa_ip :: "socket_addr \<Rightarrow> ipaddr" where
  "sa_ip (SocketAddrV4 ip p) = V4 ip"
| "sa_ip (SocketAddrV6 ip p fl sc) = V6 ip"

fun sa_port :: "socket_addr \<Rightarrow> u16" where
  "sa_port (SocketAddrV4 ip p) = p"
| "sa_port (SocketAddrV6 ip p fl sc) = p"

fun sa_set_port :: "u16 \<Rightarrow> socket_addr \<Rightarrow> socket_addr" where
  "sa_set_port q (SocketAddrV4 ip p) = SocketAddrV4 ip q"
| "sa_set_port q (SocketAddrV6 ip p fl sc) = SocketAddrV6 ip q fl sc"

text \<open>\<open>SocketAddr::new\<close>: flow label and scope id are zero.\<close>

fun sa_new :: "ipaddr \<Rightarrow> u16 \<Rightarrow> socket_addr" where
  "sa_new (V4 ip) p = SocketAddrV4 ip p"
| "sa_new (V6 ip) p = SocketAddrV6 ip p 0 0"

lemma sa_new_sel [simp]: "sa_ip (sa_new ip p) = ip" "sa_port (sa_new ip p) = p"
  by (cases ip; simp)+

lemma sa_set_port_sel [simp]:
  "sa_port (sa_set_port q a) = q" "sa_ip (sa_set_port q a) = sa_ip a"
  by (cases a; simp)+

text \<open>The order of \<open>SocketAddr\<close>, which ordered maps keyed by an address use.\<close>

fun sa_key :: "socket_addr \<Rightarrow> nat list" where
  "sa_key (SocketAddrV4 ip p) = 0 # map unat (octets ip) @ [unat p]"
| "sa_key (SocketAddrV6 ip p fl sc) = 1 # map unat (segments ip) @ [unat p, unat fl, unat sc]"

lemma sa_key_inj: "sa_key a = sa_key b \<Longrightarrow> a = b"
proof (cases a; cases b)
  fix v p w q assume "sa_key a = sa_key b" "a = SocketAddrV4 v p" "b = SocketAddrV4 w q"
  then show ?thesis by (cases v; cases w) (simp add: word_unat_eq_iff)
next
  fix v p fl sc w q gl td
  assume "sa_key a = sa_key b" "a = SocketAddrV6 v p fl sc" "b = SocketAddrV6 w q gl td"
  then show ?thesis by (cases v; cases w) (simp add: word_unat_eq_iff)
qed auto

instantiation socket_addr :: linorder
begin

definition less_eq_socket_addr :: "socket_addr \<Rightarrow> socket_addr \<Rightarrow> bool" where
  "less_eq_socket_addr a b \<longleftrightarrow> sa_key a \<le> sa_key b"

definition less_socket_addr :: "socket_addr \<Rightarrow> socket_addr \<Rightarrow> bool" where
  "less_socket_addr a b \<longleftrightarrow> sa_key a < sa_key b"

instance
  by intro_classes (auto simp: less_eq_socket_addr_def less_socket_addr_def intro: sa_key_inj)

end

end
