(* ===== verification/Net_Text.thy ===== *)
theory Net_Text
  imports Net_Addr
begin

text \<open>
  The textual forms of addresses: the recursive-descent parser behind
  \<open>str::parse::<IpAddr>()\<close> and the \<open>Display\<close> of an address, as \<open>core::net\<close> has them.
  A reader takes the remaining input and returns what it read with the rest, or \<open>None\<close>
  with the input untouched.
\<close>

section \<open>Reading numbers\<close>

definition hex_value :: "char \<Rightarrow> nat option" where
  "hex_value c =
     (if is_ascii_digit c then Some (char_code c - 48)
      else if 97 \<le> char_code c \<and> char_code c \<le> 102 then Some (char_code c - 87)
      else if 65 \<le> char_code c \<and> char_code c \<le> 70 then Some (char_code c - 55)
      else None)"

definition to_digit :: "nat \<Rightarrow> char \<Rightarrow> nat option" where
  "to_digit radix c =
     (case hex_value c of Some d \<Rightarrow> if d < radix then Some d else None | None \<Rightarrow> None)"

definition read_number :: "nat \<Rightarrow> nat \<Rightarrow> bool \<Rightarrow> nat \<Rightarrow> string \<Rightarrow> (nat \<times> string) option" where
  "read_number radix max_digits allow_zero_prefix max_value s =
     (let ds = takeWhile (\<lambda>c. to_digit radix c \<noteq> None) s;
          n = foldl (\<lambda>r c. r * radix + the (to_digit radix c)) 0 ds
      in if max_digits < length ds then None
         else if ds = [] then None
         else if \<not> allow_zero_prefix \<and> hd ds = CHR ''0'' \<and> 1 < length ds then None
         else if n \<le> max_value then Some (n, drop (length ds) s) else None)"

definition read_separator ::
    "char \<Rightarrow> nat \<Rightarrow> (string \<Rightarrow> ('a \<times> string) option) \<Rightarrow> string \<Rightarrow> ('a \<times> string) option" where
  "read_separator sep index f s =
     (if index = 0 then f s
      else (case s of [] \<Rightarrow> None | c # r \<Rightarrow> if c = sep then f r else None))"

section \<open>Reading addresses\<close>

definition read_octet :: "string \<Rightarrow> (nat \<times> string) option" where
  "read_octet = read_number 10 3 False 255"

definition read_ipv4_addr :: "string \<Rightarrow> (ipv4 \<times> string) option" where
  "read_ipv4_addr s =
     (case read_separator CHR ''.'' 0 read_octet s of None \<Rightarrow> None | Some (a, s) \<Rightarrow>
     (case read_separator CHR ''.'' 1 read_octet s of None \<Rightarrow> None | Some (b, s) \<Rightarrow>
     (case read_separator CHR ''.'' 2 read_octet s of None \<Rightarrow> None | Some (c, s) \<Rightarrow>
     (case read_separator CHR ''.'' 3 read_octet s of None \<Rightarrow> None | Some (d, s) \<Rightarrow>
        Some (Ipv4Addr (of_nat a) (of_nat b) (of_nat c) (of_nat d), s)))))"

fun be_pairs :: "ipv4 \<Rightarrow> u16 list" where
  "be_pairs (Ipv4Addr a b c d) =
     [push_bit 8 (ucast a) OR ucast b, push_bit 8 (ucast c) OR ucast d]"

text \<open>
  \<open>read_groups\<close> fills at most \<open>limit\<close> groups and says whether the last two came from an
  embedded IPv4 address. \<open>fuel\<close> counts the groups still to fill, so the recursion is the
  loop over the slice.
\<close>

fun read_groups_from ::
    "nat \<Rightarrow> nat \<Rightarrow> nat \<Rightarrow> u16 list \<Rightarrow> string \<Rightarrow> u16 list \<times> bool \<times> string" where
  "read_groups_from 0 limit i acc s = (acc, False, s)"
| "read_groups_from (Suc left) limit i acc s =
     (case (if i + 1 < limit then read_separator CHR '':'' i read_ipv4_addr s else None) of
        Some (v4, r) \<Rightarrow> (acc @ be_pairs v4, True, r)
      | None \<Rightarrow>
          (case read_separator CHR '':'' i (read_number 16 4 True 65535) s of
             Some (g, r) \<Rightarrow> read_groups_from left limit (i + 1) (acc @ [of_nat g]) r
           | None \<Rightarrow> (acc, False, s)))"

definition read_groups :: "nat \<Rightarrow> string \<Rightarrow> u16 list \<times> bool \<times> string" where
  "read_groups limit s = read_groups_from limit limit 0 [] s"

fun ipv6_of_segments :: "u16 list \<Rightarrow> ipv6 option" where
  "ipv6_of_segments [a, b, c, d, e, f, g, h] = Some (Ipv6Addr a b c d e f g h)"
| "ipv6_of_segments _ = None"

definition read_ipv6_addr :: "string \<Rightarrow> (ipv6 \<times> string) option" where
  "read_ipv6_addr s =
     (case read_groups 8 s of (head, head_ipv4, r) \<Rightarrow>
        if length head = 8 then map_option (\<lambda>ip. (ip, r)) (ipv6_of_segments head)
        else if head_ipv4 then None
        else if prefix ''::'' r then
          (case read_groups (8 - (length head + 1)) (drop 2 r) of (tail, _, r) \<Rightarrow>
             map_option (\<lambda>ip. (ip, r))
               (ipv6_of_segments
                  (head @ replicate (8 - (length head + length tail)) 0 @ tail)))
        else None)"

definition read_ip_addr :: "string \<Rightarrow> (ipaddr \<times> string) option" where
  "read_ip_addr s =
     (case read_ipv4_addr s of
        Some (v4, r) \<Rightarrow> Some (V4 v4, r)
      | None \<Rightarrow> map_option (\<lambda>(v6, r). (V6 v6, r)) (read_ipv6_addr s))"

text \<open>\<open>parse_with\<close>: the whole input has to be read.\<close>

definition parse_ip_addr :: "string \<Rightarrow> ipaddr option" where
  "parse_ip_addr s =
     (case read_ip_addr s of Some (ip, []) \<Rightarrow> Some ip | _ \<Rightarrow> None)"

definition parse_ipv6_addr :: "string \<Rightarrow> ipv6 option" where
  "parse_ipv6_addr s =
     (case read_ipv6_addr s of Some (ip, []) \<Rightarrow> Some ip | _ \<Rightarrow> None)"

section \<open>Printing addresses\<close>

fun show_ipv4 :: "ipv4 \<Rightarrow> string" where
  "show_ipv4 (Ipv4Addr a b c d) =
     show_nat (unat a) @ ''.'' @ show_nat (unat b) @ ''.'' @
     show_nat (unat c) @ ''.'' @ show_nat (unat d)"

definition hex_char :: "nat \<Rightarrow> char" where
  "hex_char d = char_of (if d < 10 then 48 + d else 87 + d)"

fun show_hex :: "nat \<Rightarrow> string" where
  "show_hex n = (if n < 16 then [hex_char n] else show_hex (n div 16) @ [hex_char (n mod 16)])"

declare show_hex.simps [simp del]

text \<open>The first longest run of zero segments, as its start and length.\<close>

fun zero_run ::
    "nat \<Rightarrow> nat \<times> nat \<Rightarrow> nat \<times> nat \<Rightarrow> u16 list \<Rightarrow> nat \<times> nat" where
  "zero_run i current longest [] = longest"
| "zero_run i (cs, cl) (ls, ll) (x # xs) =
     (if x = 0 then
        let cs' = (if cl = 0 then i else cs); cl' = cl + 1
        in zero_run (i + 1) (cs', cl') (if ll < cl' then (cs', cl') else (ls, ll)) xs
      else zero_run (i + 1) (0, 0) (ls, ll) xs)"

fun show_subslice :: "u16 list \<Rightarrow> string" where
  "show_subslice [] = []"
| "show_subslice [x] = show_hex (unat x)"
| "show_subslice (x # y # xs) = show_hex (unat x) @ '':'' @ show_subslice (y # xs)"

definition show_ipv6 :: "ipv6 \<Rightarrow> string" where
  "show_ipv6 ip =
     (case to_ipv4_mapped ip of
        Some v4 \<Rightarrow> ''::ffff:'' @ show_ipv4 v4
      | None \<Rightarrow>
          (case zero_run 0 (0, 0) (0, 0) (segments ip) of (start, len) \<Rightarrow>
             if 1 < len
             then show_subslice (take start (segments ip)) @ ''::'' @
                  show_subslice (drop (start + len) (segments ip))
             else show_subslice (segments ip)))"

fun show_ip_addr :: "ipaddr \<Rightarrow> string" where
  "show_ip_addr (V4 ip) = show_ipv4 ip"
| "show_ip_addr (V6 ip) = show_ipv6 ip"

section \<open>Round trip of IPv4 addresses\<close>

lemma to_digit_10: "to_digit 10 c = digit_value c"
  by (auto simp: to_digit_def hex_value_def digit_value_def is_ascii_digit_def)

lemma length_show_nat_le: "n < 10 ^ Suc k \<Longrightarrow> length (show_nat n) \<le> Suc k"
proof (induction k arbitrary: n)
  case 0
  then show ?case by (simp add: show_nat.simps [of n])
next
  case (Suc k)
  show ?case
  proof (cases "n < 10")
    case True
    then show ?thesis by (simp add: show_nat.simps [of n])
  next
    case False
    from Suc.prems have "n div 10 < 10 ^ Suc k" by (simp add: div_less_iff_less_mult)
    then have "length (show_nat (n div 10)) \<le> Suc k" by (rule Suc.IH)
    with False show ?thesis by (simp add: show_nat.simps [of n])
  qed
qed

lemma digit_char_zeroD: "d < 10 \<Longrightarrow> digit_char d = CHR ''0'' \<Longrightarrow> d = 0"
  using char_code_digit_char [of d] by simp

lemma show_nat_leading_zero: "hd (show_nat n) = CHR ''0'' \<Longrightarrow> n = 0"
proof (induction n rule: show_nat.induct)
  case (1 n)
  show ?case
  proof (cases "n < 10")
    case True
    with 1 show ?thesis by (simp add: show_nat.simps [of n] digit_char_zeroD)
  next
    case False
    with 1 have "n div 10 = 0" by (simp add: show_nat.simps [of n])
    with False show ?thesis by simp
  qed
qed

lemma parse_digits_foldl:
  "(\<forall>c \<in> set ds. is_ascii_digit c) \<Longrightarrow>
     parse_digits acc ds = Some (foldl (\<lambda>r c. r * 10 + the (digit_value c)) acc ds)"
  by (induction ds arbitrary: acc) (auto simp: digit_value_def)

lemma foldl_show_nat: "foldl (\<lambda>r c. r * 10 + the (digit_value c)) 0 (show_nat n) = n"
  using parse_digits_foldl [of "show_nat n" 0] show_nat_digits parse_digits_show_nat [of n] by simp

lemma takeWhile_show_nat:
  assumes "r = [] \<or> \<not> is_ascii_digit (hd r)"
  shows "takeWhile (\<lambda>c. digit_value c \<noteq> None) (show_nat n @ r) = show_nat n"
proof -
  have "takeWhile (\<lambda>c. digit_value c \<noteq> None) r = []"
    using assms by (cases r) (auto simp: digit_value_def)
  moreover have "\<forall>c \<in> set (show_nat n). digit_value c \<noteq> None"
    using show_nat_digits by (auto simp: digit_value_def)
  ultimately show ?thesis by (simp add: takeWhile_append)
qed

lemma read_octet_show_nat:
  assumes "n \<le> 255" and "r = [] \<or> \<not> is_ascii_digit (hd r)"
  shows "read_octet (show_nat n @ r) = Some (n, r)"
proof -
  have "length (show_nat n) \<le> 3"
    using length_show_nat_le [of n 2] assms(1) by simp
  moreover have "hd (show_nat n) = CHR ''0'' \<Longrightarrow> length (show_nat n) = 1"
    by (drule show_nat_leading_zero) (simp add: show_nat.simps)
  ultimately show ?thesis
    using assms
    by (simp add: read_octet_def read_number_def to_digit_10 takeWhile_show_nat foldl_show_nat
        Let_def del: not_None_eq)
qed

lemma unat_u8_le [simp]: "unat (w :: u8) \<le> 255"
  using unsigned_less [of w, where 'a = nat] by simp

lemma read_ipv4_show:
  assumes "r = [] \<or> \<not> is_ascii_digit (hd r)"
  shows "read_ipv4_addr (show_ipv4 ip @ r) = Some (ip, r)"
  using assms
  by (cases ip) (simp add: read_ipv4_addr_def read_separator_def read_octet_show_nat not_digit_chars)

lemma parse_show_ipv4: "parse_ip_addr (show_ipv4 ip) = Some (V4 ip)"
  using read_ipv4_show [of "[]" ip] by (simp add: parse_ip_addr_def read_ip_addr_def)

end
