(* ===== verification/Allowed_Hosts.thy ===== *)
theory Allowed_Hosts
  imports Interfaces Net_Text
begin

text \<open>
  The outbound host allowlist, \<open>host/allowed_hosts.rs\<close>, and its check for \<open>wasi:http\<close>
  requests, \<open>check_allowed_hosts\<close> of \<open>host/http.rs\<close>.

  The crates \<open>http\<close> and \<open>url\<close> are not part of the repository. An authority, a URL and a
  request URI are records of what their accessors return, and the four parsers the code
  calls are the fields of a \<open>url_lib\<close>, a parameter of \<open>AllowedHost_from_str\<close>.
\<close>

section \<open>Values of the http and url crates\<close>

text \<open>\<open>http::uri::Authority\<close>: \<open>host\<close>, \<open>port_u16\<close>, \<open>as_str\<close>.\<close>

record authority =
  auth_host :: string
  auth_port_u16 :: "u16 option"
  auth_str :: string

text \<open>\<open>url::Url\<close>: \<open>scheme\<close>, \<open>username\<close>, \<open>password\<close>, \<open>host_str\<close>, \<open>port\<close>, \<open>port_or_known_default\<close>, \<open>path\<close>,
  \<open>query\<close>, \<open>fragment\<close> and \<open>as_str\<close>.\<close>

record url =
  url_scheme :: string
  url_username :: string
  url_password :: "string option"
  url_host_str :: "string option"
  url_port :: "u16 option"
  url_port_or_known_default :: "u16 option"
  url_path :: string
  url_query :: "string option"
  url_fragment :: "string option"
  url_str :: string

text \<open>\<open>http::Uri\<close> of a request: \<open>host\<close>, \<open>scheme_str\<close>, \<open>port_u16\<close>, \<open>path\<close>.\<close>

record uri =
  uri_host :: "string option"
  uri_scheme_str :: "string option"
  uri_port_u16 :: "u16 option"
  uri_path :: string

text \<open>\<open>url::Host\<close>.\<close>

datatype url_host = Domain string | Ipv4 ipv4 | Ipv6 ipv6

text \<open>\<open>Scheme::from_str\<close> (as the string of the scheme), \<open>Authority::from_str\<close>,
  \<open>Url::parse\<close> and \<open>Host::parse\<close>.\<close>

record url_lib =
  scheme_from_str :: "string \<Rightarrow> string option"
  authority_from_str :: "string \<Rightarrow> authority option"
  url_parse :: "string \<Rightarrow> url option"
  host_parse :: "string \<Rightarrow> url_host option"

section \<open>Entries\<close>

datatype allowed_host =
    AH_Any
  | AH_Authority authority
  | AH_Url url
  | AH_SuffixWildcard string "string option" "u16 option"

text \<open>The pinned port of an entry against the request's.\<close>

definition pinned_port :: "u16 option \<Rightarrow> u16 option \<Rightarrow> bool" where
  "pinned_port policy request =
     (case policy of Some p \<Rightarrow> Some p = request | None \<Rightarrow> True)"

fun AllowedHost_matches :: "allowed_host \<Rightarrow> uri \<Rightarrow> bool" where
  "AllowedHost_matches entry request =
     (case uri_host request of
        None \<Rightarrow> False
      | Some request_host \<Rightarrow>
          (case entry of
             AH_Any \<Rightarrow> True
           | AH_Authority authority \<Rightarrow>
               if \<not> eq_ignore_ascii_case (auth_host authority) request_host then False
               else pinned_port (auth_port_u16 authority) (uri_port_u16 request)
           | AH_Url url \<Rightarrow>
               (case url_host_str url of
                  None \<Rightarrow> False
                | Some policy_host \<Rightarrow>
                    if \<not> eq_ignore_ascii_case policy_host request_host then False
                    else if (case uri_scheme_str request of
                               Some req_scheme \<Rightarrow> \<not> eq_ignore_ascii_case (url_scheme url) req_scheme
                             | None \<Rightarrow> False) then False
                    else pinned_port (url_port url) (uri_port_u16 request))
           | AH_SuffixWildcard sfx scheme port \<Rightarrow>
               (case strip_suffix sfx (to_ascii_lowercase request_host) of
                  None \<Rightarrow> False
                | Some pre \<Rightarrow>
                    if pre = [] then False
                    else if (case (scheme, uri_scheme_str request) of
                               (Some pol_scheme, Some req_scheme) \<Rightarrow>
                                 \<not> eq_ignore_ascii_case pol_scheme req_scheme
                             | _ \<Rightarrow> False) then False
                    else pinned_port port (uri_port_u16 request))))"

section \<open>Default ports\<close>

datatype PortDefault = PD_Url | PD_Client

definition DEFAULT_PORTS :: "(string \<times> u16 \<times> PortDefault) list" where
  "DEFAULT_PORTS =
     [(''http'', 80, PD_Url), (''https'', 443, PD_Url), (''ws'', 80, PD_Url),
      (''wss'', 443, PD_Url), (''ftp'', 21, PD_Url),
      (''redis'', 6379, PD_Client), (''rediss'', 6379, PD_Client),
      (''valkey'', 6379, PD_Client), (''valkeys'', 6379, PD_Client),
      (''postgres'', 5432, PD_Client), (''postgresql'', 5432, PD_Client),
      (''nats'', 4222, PD_Client), (''tls'', 4222, PD_Client)]"

definition lookup_default_port :: "string \<Rightarrow> (PortDefault \<Rightarrow> bool) \<Rightarrow> u16 option" where
  "lookup_default_port scheme read =
     map_option (\<lambda>(_, port, _). port)
       (find (\<lambda>(known, _, by_whom). read by_whom \<and> eq_ignore_ascii_case scheme known)
          DEFAULT_PORTS)"

definition default_port :: "string \<Rightarrow> u16 option" where
  "default_port scheme = lookup_default_port scheme (\<lambda>by_whom. by_whom = PD_Url)"

definition client_default_port :: "string \<Rightarrow> u16 option" where
  "client_default_port scheme = lookup_default_port scheme (\<lambda>_. True)"

definition port_matches :: "u16 option \<Rightarrow> u16 \<Rightarrow> bool" where
  "port_matches permitted port =
     (case permitted of Some permitted \<Rightarrow> permitted = port | None \<Rightarrow> True)"

text \<open>\<open>Option::or_else\<close>.\<close>

definition or_else :: "'a option \<Rightarrow> 'a option \<Rightarrow> 'a option" where
  "or_else a b = (case a of Some x \<Rightarrow> Some x | None \<Rightarrow> b)"

fun AllowedHost_socket_port :: "allowed_host \<Rightarrow> u16 option" where
  "AllowedHost_socket_port AH_Any = None"
| "AllowedHost_socket_port (AH_Authority authority) = auth_port_u16 authority"
| "AllowedHost_socket_port (AH_Url url) = url_port_or_known_default url"
| "AllowedHost_socket_port (AH_SuffixWildcard sfx scheme port) =
     or_else port (Option.bind scheme default_port)"

fun AllowedHost_client_port :: "allowed_host \<Rightarrow> u16 option" where
  "AllowedHost_client_port (AH_Url url) =
     or_else (url_port_or_known_default url) (client_default_port (url_scheme url))"
| "AllowedHost_client_port (AH_SuffixWildcard sfx scheme port) =
     or_else port (Option.bind scheme client_default_port)"
| "AllowedHost_client_port entry = AllowedHost_socket_port entry"

section \<open>Raw sockets\<close>

text \<open>Whether the host text of an entry is a literal address equal to \<open>addr\<close>.\<close>

definition host_is_addr :: "string \<Rightarrow> ipaddr \<Rightarrow> bool" where
  "host_is_addr host addr =
     (let host = strip_prefix_or ''['' host; host = strip_suffix_or '']'' host
      in case parse_ip_addr host of
           Some policy \<Rightarrow> to_canonical policy = to_canonical addr
         | None \<Rightarrow> False)"

definition same_name :: "string \<Rightarrow> string \<Rightarrow> bool" where
  "same_name policy_host name = eq_ignore_ascii_case (strip_suffix_or ''.'' policy_host) name"

definition AllowedHost_permits_addr_on ::
    "allowed_host \<Rightarrow> socket_addr \<Rightarrow> u16 option \<Rightarrow> bool" where
  "AllowedHost_permits_addr_on entry addr permitted_port =
     (let on_host = (\<lambda>host. host_is_addr host (sa_ip addr) \<and> port_matches permitted_port (sa_port addr))
      in case entry of
           AH_Any \<Rightarrow> True
         | AH_Authority authority \<Rightarrow> on_host (auth_host authority)
         | AH_Url url \<Rightarrow> (case url_host_str url of Some host \<Rightarrow> on_host host | None \<Rightarrow> False)
         | AH_SuffixWildcard _ _ _ \<Rightarrow> False)"

definition AllowedHost_permits_addr :: "allowed_host \<Rightarrow> socket_addr \<Rightarrow> bool" where
  "AllowedHost_permits_addr entry addr =
     AllowedHost_permits_addr_on entry addr (AllowedHost_socket_port entry)"

definition AllowedHost_permits_client_addr :: "allowed_host \<Rightarrow> socket_addr \<Rightarrow> bool" where
  "AllowedHost_permits_client_addr entry addr =
     AllowedHost_permits_addr_on entry addr (AllowedHost_client_port entry)"

text \<open>
  \<open>name.get(name.len() - suffix.len()..)\<close> is \<open>None\<close> only when the cut falls inside a
  multi-byte character. The tail would then begin with a continuation byte, which no
  lowercased suffix equals, so comparing the bytes of the tail gives the same answer.
\<close>

fun AllowedHost_names :: "allowed_host \<Rightarrow> string \<Rightarrow> bool" where
  "AllowedHost_names AH_Any name = False"
| "AllowedHost_names (AH_Authority authority) name = same_name (auth_host authority) name"
| "AllowedHost_names (AH_Url url) name =
     (case url_host_str url of Some host \<Rightarrow> same_name host name | None \<Rightarrow> False)"
| "AllowedHost_names (AH_SuffixWildcard sfx _ _) name =
     (let sfx = strip_suffix_or ''.'' sfx
      in length sfx < length name \<and>
         eq_ignore_ascii_case (drop (length name - length sfx) name) sfx)"

definition AllowedHost_permits_name :: "allowed_host \<Rightarrow> string \<Rightarrow> u16 \<Rightarrow> bool" where
  "AllowedHost_permits_name entry name port \<longleftrightarrow>
     AllowedHost_names entry name \<and> port_matches (AllowedHost_socket_port entry) port"

definition AllowedHost_permits_client_name :: "allowed_host \<Rightarrow> string \<Rightarrow> u16 \<Rightarrow> bool" where
  "AllowedHost_permits_client_name entry name port \<longleftrightarrow>
     AllowedHost_names entry name \<and> port_matches (AllowedHost_client_port entry) port"

definition AllowedHost_permits_lookup :: "allowed_host \<Rightarrow> url_host \<Rightarrow> bool" where
  "AllowedHost_permits_lookup entry host =
     (let with_host = (\<lambda>policy_host.
            case host of
              Ipv4 addr \<Rightarrow> host_is_addr policy_host (V4 addr)
            | Ipv6 addr \<Rightarrow> host_is_addr policy_host (V6 addr)
            | Domain domain \<Rightarrow>
                AllowedHost_permits_name entry (strip_suffix_or ''.'' domain)
                  (case AllowedHost_socket_port entry of Some p \<Rightarrow> p | None \<Rightarrow> 0))
      in case entry of
           AH_Any \<Rightarrow> False
         | AH_Authority authority \<Rightarrow> with_host (auth_host authority)
         | AH_Url url \<Rightarrow> (case url_host_str url of Some host \<Rightarrow> with_host host | None \<Rightarrow> False)
         | AH_SuffixWildcard _ _ _ \<Rightarrow> with_host [])"

definition check_allowed_addr :: "allowed_host list \<Rightarrow> socket_addr \<Rightarrow> bool" where
  "check_allowed_addr policy addr = list_ex (\<lambda>entry. AllowedHost_permits_addr entry addr) policy"

section \<open>Parsing\<close>

datatype allowed_host_error =
    EmptyEntry
  | InvalidScheme string
  | HasPath string
  | InvalidWildcardHost string
  | NotAUrl
  | UrlHasNoHost
  | HasQuery
  | HasFragment
  | BareWildcard
  | InvalidAuthority
  | InvalidPort

definition reject_non_root_path :: "string \<Rightarrow> (allowed_host_error, unit) result" where
  "reject_non_root_path path = (if path \<noteq> [] then Err (HasPath path) else Ok ())"

definition split_host_port :: "string \<Rightarrow> (string \<times> u16 option) option" where
  "split_host_port s =
     (case rsplit_once CHR '':'' s of
        Some (host, port_s) \<Rightarrow>
          if host = [] then None
          else (case parse_u16 port_s of Some port \<Rightarrow> Some (host, Some port) | None \<Rightarrow> None)
      | None \<Rightarrow> if s = [] then None else Some (s, None))"

definition idna_host :: "url_lib \<Rightarrow> string \<Rightarrow> string" where
  "idna_host lib host =
     (if is_ascii_str host then host
      else (case host_parse lib host of Some (Domain domain) \<Rightarrow> domain | _ \<Rightarrow> host))"

definition idna_authority :: "url_lib \<Rightarrow> string \<Rightarrow> string" where
  "idna_authority lib text =
     (if is_ascii_str text then text
      else (let host = takeWhile (\<lambda>c. c \<noteq> CHR '':'' \<and> c \<noteq> CHR ''/'') text;
                tail = dropWhile (\<lambda>c. c \<noteq> CHR '':'' \<and> c \<noteq> CHR ''/'') text
            in idna_host lib host @ tail))"

text \<open>The two wildcard arms share the shape of the suffix they store.\<close>

definition wildcard_suffix :: "url_lib \<Rightarrow> string \<Rightarrow> string" where
  "wildcard_suffix lib host = CHR ''.'' # to_ascii_lowercase (idna_host lib host)"

definition AllowedHost_from_str :: "url_lib \<Rightarrow> string \<Rightarrow> (allowed_host_error, allowed_host) result" where
  "AllowedHost_from_str lib s =
     (let trimmed = trim s in
      if trimmed = [] then Err EmptyEntry
      else if trimmed = ''*'' then Ok AH_Any
      else (case split_once_str ''://'' trimmed of
        Some (scheme_part, rest) \<Rightarrow>
          (case scheme_from_str lib scheme_part of
             None \<Rightarrow> Err (InvalidScheme scheme_part)
           | Some scheme \<Rightarrow>
               (case strip_prefix ''*.'' rest of
                  Some wildcard_rest \<Rightarrow>
                    (let (host_port, path) =
                           (case split_once CHR ''/'' wildcard_rest of
                              Some (h, p) \<Rightarrow> (h, p) | None \<Rightarrow> (wildcard_rest, []))
                     in bind_result (reject_non_root_path path) (\<lambda>_.
                          (case split_host_port host_port of
                             None \<Rightarrow> Err (InvalidWildcardHost wildcard_rest)
                           | Some (suffix_no_dot, port) \<Rightarrow>
                               Ok (AH_SuffixWildcard (wildcard_suffix lib suffix_no_dot)
                                     (Some scheme) port))))
                | None \<Rightarrow>
                    (case url_parse lib (scheme_part @ ''://'' @ idna_authority lib rest) of
                       None \<Rightarrow> Err NotAUrl
                     | Some url \<Rightarrow>
                         if url_host_str url = None then Err UrlHasNoHost
                         else if url_path url \<noteq> [] \<and> url_path url \<noteq> ''/''
                         then Err (HasPath (url_path url))
                         else if url_query url \<noteq> None then Err HasQuery
                         else if url_fragment url \<noteq> None then Err HasFragment
                         else Ok (AH_Url url))))
      | None \<Rightarrow>
          (case strip_prefix ''*.'' trimmed of
             Some wildcard_rest \<Rightarrow>
               (case split_host_port wildcard_rest of
                  None \<Rightarrow> Err (InvalidWildcardHost wildcard_rest)
                | Some (suffix_no_dot, port) \<Rightarrow>
                    Ok (AH_SuffixWildcard (wildcard_suffix lib suffix_no_dot) None port))
           | None \<Rightarrow>
               if prefix ''*'' trimmed then Err BareWildcard
               else (case authority_from_str lib (idna_authority lib trimmed) of
                       None \<Rightarrow> Err InvalidAuthority
                     | Some authority \<Rightarrow>
                         (let str = auth_str authority;
                              has_port_suffix =
                                (if prefix ''['' str then contains_str '']:'' str
                                 else contains_str '':'' str)
                          in if has_port_suffix \<and> auth_port_u16 authority = None
                             then Err InvalidPort
                             else Ok (AH_Authority authority))))))"

fun AllowedHost_display :: "allowed_host \<Rightarrow> string" where
  "AllowedHost_display AH_Any = ''*''"
| "AllowedHost_display (AH_Authority authority) = auth_str authority"
| "AllowedHost_display (AH_Url url) = url_str url"
| "AllowedHost_display (AH_SuffixWildcard sfx scheme port) =
     (case scheme of Some scheme \<Rightarrow> scheme @ ''://'' | None \<Rightarrow> []) @ ''*'' @ sfx @
     (case port of Some port \<Rightarrow> CHR '':'' # show_u16 port | None \<Rightarrow> [])"

section \<open>The check of outgoing requests\<close>

datatype outgoing_denied = NoRequestHost | EmptyPolicy string | NotAllowed string

definition check_allowed_hosts :: "uri \<Rightarrow> allowed_host list \<Rightarrow> (outgoing_denied, unit) result" where
  "check_allowed_hosts uri allowed_hosts =
     (case uri_host uri of
        None \<Rightarrow> Err NoRequestHost
      | Some request_host \<Rightarrow>
          if allowed_hosts = [] then Err (EmptyPolicy request_host)
          else if list_ex (\<lambda>entry. AllowedHost_matches entry uri) allowed_hosts then Ok ()
          else Err (NotAllowed request_host))"

declare AllowedHost_matches.simps [simp del]

section \<open>Allowlists of hosts\<close>

interpretation host_addrs: allowlist AllowedHost_permits_addr check_allowed_addr
  by unfold_locales (simp add: check_allowed_addr_def list_ex_iff)

lemma check_allowed_hosts_Ok_iff:
  "check_allowed_hosts r ps = Ok () \<longleftrightarrow> (\<exists>e \<in> set ps. AllowedHost_matches e r)"
  by (auto simp: check_allowed_hosts_def list_ex_iff AllowedHost_matches.simps split: option.splits)

interpretation host_requests: allowlist AllowedHost_matches "\<lambda>ps r. check_allowed_hosts r ps = Ok ()"
  by unfold_locales (rule check_allowed_hosts_Ok_iff)

section \<open>Lemmas on entries\<close>

lemma port_matches_self [simp]: "port_matches (Some p) p"
  by (simp add: port_matches_def)

lemma pinned_port_None [simp]: "pinned_port None p"
  by (simp add: pinned_port_def)

lemma matches_needs_host: "AllowedHost_matches e r \<Longrightarrow> \<exists>h. uri_host r = Some h"
  by (auto simp: AllowedHost_matches.simps split: option.splits)

lemma matches_wildcardD:
  assumes "AllowedHost_matches (AH_SuffixWildcard sfx scheme port) r"
  obtains h p where "uri_host r = Some h" "to_ascii_lowercase h = p @ sfx" "p \<noteq> []"
    "pinned_port port (uri_port_u16 r)"
  using assms
  by (auto simp: AllowedHost_matches.simps strip_suffix_Some_iff split: option.splits if_splits)

lemma default_ports_agree: "default_port s = Some p \<Longrightarrow> client_default_port s = Some p"
  by (auto simp: default_port_def client_default_port_def lookup_default_port_def DEFAULT_PORTS_def
      split: if_splits)

lemma or_else_Some: "or_else a b = Some x \<longleftrightarrow> a = Some x \<or> (a = None \<and> b = Some x)"
  by (cases a) (auto simp: or_else_def)

lemma host_is_addr_canonical:
  "to_canonical a = to_canonical b \<Longrightarrow> host_is_addr h a = host_is_addr h b"
  by (simp add: host_is_addr_def split: option.split)

lemma permits_addr_on_canonical:
  "to_canonical (sa_ip a) = to_canonical (sa_ip b) \<Longrightarrow> sa_port a = sa_port b \<Longrightarrow>
   AllowedHost_permits_addr_on e a pp = AllowedHost_permits_addr_on e b pp"
  using host_is_addr_canonical [of "sa_ip a" "sa_ip b"]
  by (simp add: AllowedHost_permits_addr_on_def split: allowed_host.split option.split)

section \<open>Parsing wildcards\<close>

lemma wildcard_from_strD:
  assumes "AllowedHost_from_str lib s = Ok (AH_SuffixWildcard sfx scheme port)"
  obtains host where "sfx = wildcard_suffix lib host"
  using assms
  by (auto simp: AllowedHost_from_str_def Let_def bind_result_Inr_iff
      split: if_splits option.splits prod.splits)

lemma wildcard_suffix_shape:
  "\<exists>d. wildcard_suffix lib host = CHR ''.'' # d \<and> to_ascii_lowercase d = d"
  by (simp add: wildcard_suffix_def)

text \<open>What the round trip needs of \<open>Scheme::from_str\<close>: it accepts printable text without
  a colon, and the scheme's text is that text.\<close>

definition scheme_text_law :: "url_lib \<Rightarrow> bool" where
  "scheme_text_law lib \<longleftrightarrow>
     (\<forall>x y. scheme_from_str lib x = Some y \<longrightarrow>
        y = x \<and> (\<forall>c \<in> set x. is_ascii_graphic c \<and> c \<noteq> CHR '':''))"

definition port_text :: "u16 option \<Rightarrow> string" where
  "port_text port = (case port of Some port \<Rightarrow> CHR '':'' # show_u16 port | None \<Rightarrow> [])"

text \<open>The host text of a wildcard entry that \<open>split_host_port\<close> accepts.\<close>

definition wildcard_host :: "string \<Rightarrow> u16 option \<Rightarrow> bool" where
  "wildcard_host h port \<longleftrightarrow>
     h \<noteq> [] \<and> (\<forall>c \<in> set h. is_ascii_graphic c) \<and> (port = None \<longrightarrow> CHR '':'' \<notin> set h)"

lemma lower_char_eq_iff:
  assumes "\<not> is_ascii_upper d" "\<not> is_ascii_lower d"
  shows "lower_char c = d \<longleftrightarrow> c = d"
proof
  assume l: "lower_char c = d"
  show "c = d"
  proof (cases "is_ascii_upper c")
    case True
    then have "char_code (lower_char c) = char_code c + 32"
      by (simp add: lower_char_def is_ascii_upper_def)
    with True l assms(2) show ?thesis by (auto simp: is_ascii_upper_def is_ascii_lower_def)
  next
    case False
    with l show ?thesis by (simp add: lower_char_def)
  qed
qed (use assms in \<open>simp add: lower_char_def\<close>)

lemma separators_not_letters:
  "\<not> is_ascii_upper CHR '':''" "\<not> is_ascii_lower CHR '':''"
  "\<not> is_ascii_upper CHR ''/''" "\<not> is_ascii_lower CHR ''/''"
  by (simp_all add: is_ascii_upper_def is_ascii_lower_def)

lemma lower_separators:
  "lower_char c = CHR '':'' \<longleftrightarrow> c = CHR '':''" "lower_char c = CHR ''/'' \<longleftrightarrow> c = CHR ''/''"
  by (simp_all add: lower_char_eq_iff separators_not_letters)

lemma separator_in_lower:
  "CHR '':'' \<in> set (to_ascii_lowercase h) \<longleftrightarrow> CHR '':'' \<in> set h"
  "CHR ''/'' \<in> set (to_ascii_lowercase h) \<longleftrightarrow> CHR ''/'' \<in> set h"
  by (induction h) (auto simp: lower_separators eq_commute [of _ "lower_char _"])

lemma lower_graphic: "is_ascii_graphic c \<Longrightarrow> is_ascii_graphic (lower_char c)"
  by (auto simp: lower_char_def is_ascii_graphic_def is_ascii_upper_def)

lemma wildcard_host_lower: "wildcard_host h port \<Longrightarrow> wildcard_host (to_ascii_lowercase h) port"
  by (auto simp: wildcard_host_def separator_in_lower) (auto simp: to_ascii_lowercase_def lower_graphic)

lemma sublist_scheme_lower:
  assumes "sublist ''://'' (to_ascii_lowercase h)"
  shows "sublist ''://'' h"
proof -
  from assms obtain a b where "map lower_char h = a @ ''://'' @ b"
    by (auto simp: sublist_def to_ascii_lowercase_def)
  then obtain a' b' c d e where "h = a' @ [c, d, e] @ b'"
    and "lower_char c = CHR '':''" "lower_char d = CHR ''/''" "lower_char e = CHR ''/''"
    by (auto simp: map_eq_append_conv map_eq_Cons_conv)
  then have "h = a' @ ''://'' @ b'" by (simp add: lower_separators)
  then show ?thesis by (auto simp: sublist_def)
qed

lemma sublist_scheme_port:
  assumes "sublist ''://'' (h @ port_text port)"
  shows "sublist ''://'' h"
proof (cases port)
  case None
  with assms show ?thesis by (simp add: port_text_def)
next
  case (Some p)
  have free: "CHR ''/'' \<notin> set (port_text port)"
    using show_nat_avoids [OF not_digit_chars(5)] Some by (auto simp: port_text_def show_u16_def)
  from assms obtain a b where "h @ port_text port = (a @ ''://'') @ b"
    by (auto simp: sublist_def)
  then consider us where "h = (a @ ''://'') @ us" | us where "h @ us = a @ ''://''" "port_text port = us @ b"
    unfolding append_eq_append_conv2 by blast
  then show ?thesis
  proof cases
    case 1
    then show ?thesis by (auto simp: sublist_def)
  next
    case 2
    have "us = []"
    proof (rule ccontr)
      assume "us \<noteq> []"
      then have "last us = last (a @ ''://'')" using 2(1) by (metis last_appendR)
      with \<open>us \<noteq> []\<close> have "CHR ''/'' \<in> set us" using last_in_set by fastforce
      with free 2(2) show False by auto
    qed
    with 2(1) show ?thesis by (auto simp: sublist_def)
  qed
qed

lemma split_host_port_text:
  assumes "wildcard_host h port"
  shows "split_host_port (h @ port_text port) = Some (h, port)"
proof (cases port)
  case None
  with assms have "rsplit_once CHR '':'' h = None"
    by (simp add: wildcard_host_def rsplit_once_None_iff)
  with None assms show ?thesis by (simp add: split_host_port_def port_text_def wildcard_host_def)
next
  case (Some p)
  have "rsplit_once CHR '':'' (h @ CHR '':'' # show_u16 p) = Some (h, show_u16 p)"
    using show_nat_avoids [OF not_digit_chars(6)] by (simp add: rsplit_once_Some_iff show_u16_def)
  with Some assms show ?thesis by (simp add: split_host_port_def port_text_def wildcard_host_def)
qed

lemma split_host_portD:
  assumes "split_host_port t = Some (h, port)" "\<forall>c \<in> set t. is_ascii_graphic c"
  shows "wildcard_host h port" "set h \<subseteq> set t" "sublist h t"
  using assms
  by (auto simp: split_host_port_def wildcard_host_def rsplit_once_Some_iff rsplit_once_None_iff
      split: option.splits prod.splits if_splits)

lemma graphic_is_ascii: "\<forall>c \<in> set s. is_ascii_graphic c \<Longrightarrow> is_ascii_str s"
  by (auto simp: is_ascii_str_def list_all_iff is_ascii_char_def is_ascii_graphic_def)

lemma trim_all_graphic: "\<forall>c \<in> set s. is_ascii_graphic c \<Longrightarrow> trim s = s"
  by (rule trim_graphic) auto

lemma wildcard_suffix_graphic:
  "\<forall>c \<in> set h. is_ascii_graphic c \<Longrightarrow> wildcard_suffix lib h = CHR ''.'' # to_ascii_lowercase h"
  by (simp add: wildcard_suffix_def idna_host_def graphic_is_ascii)

lemma port_text_graphic: "c \<in> set (port_text port) \<Longrightarrow> is_ascii_graphic c"
  by (auto simp: port_text_def show_u16_def is_ascii_graphic_digit show_nat_digits
      split: option.splits) (simp add: is_ascii_graphic_def)

lemma split_once_str_None: "\<not> sublist p s \<Longrightarrow> split_once_str p s = None"
  by (simp add: split_once_str_None_iff)

lemma split_once_scheme:
  "CHR '':'' \<notin> set sc \<Longrightarrow> split_once_str ''://'' (sc @ ''://'' @ r) = Some (sc, r)"
  by (induction sc) auto

lemma sublist_star_dot: "sublist ''://'' (''*.'' @ t) \<longleftrightarrow> sublist ''://'' t"
  by (simp add: sublist_Cons_right)

lemma from_str_wildcard:
  assumes "wildcard_host h port" "\<not> sublist ''://'' h"
  shows "AllowedHost_from_str lib (''*.'' @ h @ port_text port) =
           Ok (AH_SuffixWildcard (CHR ''.'' # to_ascii_lowercase h) None port)"
proof -
  let ?t = "''*.'' @ h @ port_text port"
  have g: "\<forall>c \<in> set ?t. is_ascii_graphic c"
    using assms(1) port_text_graphic by (auto simp: wildcard_host_def) (simp_all add: is_ascii_graphic_def)
  have "\<not> sublist ''://'' ?t"
    using assms(2) sublist_scheme_port sublist_star_dot by blast
  moreover have "h @ port_text port \<noteq> []" using assms(1) by (simp add: wildcard_host_def)
  ultimately show ?thesis
    using assms(1) split_host_port_text [OF assms(1)] trim_all_graphic [OF g]
      wildcard_suffix_graphic [of h lib]
    by (simp add: AllowedHost_from_str_def split_once_str_None strip_prefix_def wildcard_host_def
        del: split_once_str.simps)
qed

lemma from_str_scheme_step:
  assumes "trim t = t" "t \<noteq> []" "t \<noteq> ''*''" "split_once_str ''://'' t = Some (sc, rest)"
    "scheme_from_str lib sc = Some scheme" "strip_prefix ''*.'' rest = Some w"
    "split_once CHR ''/'' w = None" "split_host_port w = Some (h, port)"
  shows "AllowedHost_from_str lib t = Ok (AH_SuffixWildcard (wildcard_suffix lib h) (Some scheme) port)"
  using assms by (simp add: AllowedHost_from_str_def reject_non_root_path_def)

lemma from_str_scheme_inv:
  assumes "AllowedHost_from_str lib t = Ok (AH_SuffixWildcard sfx scheme port)"
    "trim t = t" "split_once_str ''://'' t = Some (sc, rest)"
  obtains scheme' w hp h where "scheme_from_str lib sc = Some scheme'" "scheme = Some scheme'"
    "rest = ''*.'' @ w" "split_host_port hp = Some (h, port)" "sfx = wildcard_suffix lib h"
    "CHR ''/'' \<notin> set hp" "sublist hp w"
proof -
  have "t \<noteq> []" using assms(3) by auto
  moreover have "t \<noteq> ''*''" using assms(3) by auto
  ultimately obtain scheme' w where sw: "scheme_from_str lib sc = Some scheme'"
    "strip_prefix ''*.'' rest = Some w"
    using assms by (auto simp: AllowedHost_from_str_def split: option.splits if_splits)
  show ?thesis
  proof (cases "split_once CHR ''/'' w")
    case None
    with sw assms \<open>t \<noteq> []\<close> \<open>t \<noteq> ''*''\<close> obtain h where "split_host_port w = Some (h, port)"
      "sfx = wildcard_suffix lib h" "scheme = Some scheme'"
      by (auto simp: AllowedHost_from_str_def reject_non_root_path_def split: option.splits)
    with None sw show ?thesis
      by (intro that [of scheme' w w h]) (simp_all add: strip_prefix_Some_iff split_once_None_iff)
  next
    case (Some hp_path)
    then obtain hp path where hp: "split_once CHR ''/'' w = Some (hp, path)" by (cases hp_path) auto
    with sw assms \<open>t \<noteq> []\<close> \<open>t \<noteq> ''*''\<close> obtain h where "split_host_port hp = Some (h, port)"
      "sfx = wildcard_suffix lib h" "scheme = Some scheme'"
      by (auto simp: AllowedHost_from_str_def reject_non_root_path_def split: option.splits if_splits)
    with hp sw show ?thesis
      by (intro that [of scheme' w hp h]) (auto simp: strip_prefix_Some_iff split_once_Some_iff)
  qed
qed

lemma from_str_no_scheme_inv:
  assumes "AllowedHost_from_str lib t = Ok (AH_SuffixWildcard sfx scheme port)"
    "trim t = t" "split_once_str ''://'' t = None"
  obtains w h where "t = ''*.'' @ w" "split_host_port w = Some (h, port)"
    "sfx = wildcard_suffix lib h" "scheme = None"
proof -
  have "t \<noteq> []" "t \<noteq> ''*''" using assms by (auto simp: AllowedHost_from_str_def)
  with assms obtain w where w: "strip_prefix ''*.'' t = Some w"
    by (auto simp: AllowedHost_from_str_def Let_def split: option.splits if_splits)
  with assms \<open>t \<noteq> []\<close> \<open>t \<noteq> ''*''\<close> obtain h where "split_host_port w = Some (h, port)"
    "sfx = wildcard_suffix lib h" "scheme = None"
    by (auto simp: AllowedHost_from_str_def split: option.splits)
  with w show ?thesis by (intro that) (simp_all add: strip_prefix_Some_iff)
qed

lemma from_str_scheme_wildcard:
  assumes "wildcard_host h port" "CHR ''/'' \<notin> set h" "scheme_text_law lib"
    "scheme_from_str lib sc = Some sc"
  shows "AllowedHost_from_str lib (sc @ ''://*.'' @ h @ port_text port) =
           Ok (AH_SuffixWildcard (CHR ''.'' # to_ascii_lowercase h) (Some sc) port)"
proof -
  let ?w = "h @ port_text port" and ?t = "sc @ ''://*.'' @ h @ port_text port"
  have sc: "\<forall>c \<in> set sc. is_ascii_graphic c \<and> c \<noteq> CHR '':''"
    using assms(3,4) by (auto simp: scheme_text_law_def)
  have lits: "\<forall>c \<in> set ''://*.''. is_ascii_graphic c" by (simp add: is_ascii_graphic_def)
  have g: "\<forall>c \<in> set ?t. is_ascii_graphic c"
  proof
    fix c assume "c \<in> set ?t"
    then have "c \<in> set sc \<or> c \<in> set ''://*.'' \<or> c \<in> set h \<or> c \<in> set (port_text port)"
      by (simp only: set_append Un_iff)
    then show "is_ascii_graphic c"
      using sc lits assms(1) port_text_graphic [of c port] unfolding wildcard_host_def by blast
  qed
  have "CHR ''/'' \<notin> set ?w"
    using assms(2) show_nat_avoids [OF not_digit_chars(5)]
    by (auto simp: port_text_def show_u16_def split: option.splits)
  then have path: "split_once CHR ''/'' ?w = None" by (simp only: split_once_None_iff not_False_eq_True)
  have "?t = sc @ ''://'' @ ''*.'' @ ?w" by simp
  then have split: "split_once_str ''://'' ?t = Some (sc, ''*.'' @ ?w)"
    using split_once_scheme [of sc "''*.'' @ ?w"] sc by metis
  have "?t \<noteq> ''*''" by (cases sc) auto
  moreover have "strip_prefix ''*.'' (''*.'' @ ?w) = Some ?w" by (simp only: strip_prefix_Some_iff)
  moreover have "?t \<noteq> []" by simp
  ultimately have "AllowedHost_from_str lib ?t = Ok (AH_SuffixWildcard (wildcard_suffix lib h) (Some sc) port)"
    using from_str_scheme_step [OF trim_all_graphic [OF g] _ _ split assms(4) _ path split_host_port_text [OF assms(1)]]
    by blast
  then show ?thesis
    using wildcard_suffix_graphic [of h lib] assms(1) by (simp add: wildcard_host_def)
qed

text \<open>Every wildcard entry comes from a text of one of these two shapes.\<close>

lemma wildcard_from_str_inv:
  assumes g: "\<forall>c \<in> set s. is_ascii_graphic c" and law: "scheme_text_law lib"
    and parsed: "AllowedHost_from_str lib s = Ok (AH_SuffixWildcard sfx scheme port)"
  obtains h where "wildcard_host h port" "sfx = CHR ''.'' # to_ascii_lowercase h"
    "scheme = None \<Longrightarrow> \<not> sublist ''://'' h"
    "\<And>sc. scheme = Some sc \<Longrightarrow> CHR ''/'' \<notin> set h \<and> scheme_from_str lib sc = Some sc"
proof (cases "split_once_str ''://'' s")
  case None
  obtain w h where s: "s = ''*.'' @ w" "split_host_port w = Some (h, port)"
    and e: "sfx = wildcard_suffix lib h" "scheme = None"
    by (rule from_str_no_scheme_inv [OF parsed trim_all_graphic [OF g] None])
  have gw: "\<forall>c \<in> set w. is_ascii_graphic c" using g s(1) by simp
  note h = split_host_portD [OF s(2) gw]
  have "\<not> sublist ''://'' w" using None s(1) sublist_star_dot split_once_str_None_iff by metis
  then have "\<not> sublist ''://'' h" using h(3) sublist_order.order.trans by blast
  moreover have "\<forall>c \<in> set h. is_ascii_graphic c" using h(2) gw by blast
  ultimately show ?thesis using h(1) e by (intro that [of h]) (simp_all add: wildcard_suffix_graphic)
next
  case (Some ab)
  then obtain sc r where s: "split_once_str ''://'' s = Some (sc, r)" by (cases ab) auto
  obtain sc' w hp h where sch: "scheme_from_str lib sc = Some sc'" "scheme = Some sc'"
    and r: "r = ''*.'' @ w" and sh: "split_host_port hp = Some (h, port)"
    and e: "sfx = wildcard_suffix lib h" and hp: "CHR ''/'' \<notin> set hp" "sublist hp w"
    by (rule from_str_scheme_inv [OF parsed trim_all_graphic [OF g] s])
  have "set hp \<subseteq> set s"
    using split_once_str_SomeD [OF s] r set_mono_sublist [OF hp(2)] by auto
  then have gw: "\<forall>c \<in> set hp. is_ascii_graphic c" using g by blast
  note h = split_host_portD [OF sh gw]
  have "\<forall>c \<in> set h. is_ascii_graphic c" using h(2) gw by blast
  moreover have "sc' = sc" using law sch(1) by (auto simp: scheme_text_law_def)
  ultimately show ?thesis
    using h(1,2) e sch hp(1) by (intro that [of h]) (auto simp: wildcard_suffix_graphic)
qed

text \<open>
  C32. Printing a parsed wildcard entry and parsing the text again gives the same entry:
  suffix, scheme and port survive the wire format. The entry is written in printable
  ASCII and \<open>Scheme::from_str\<close> keeps the text of the scheme.
\<close>

theorem wildcard_entry_round_trip:
  assumes "\<forall>c \<in> set s. is_ascii_graphic c" and "scheme_text_law lib"
    and "AllowedHost_from_str lib s = Ok (AH_SuffixWildcard sfx scheme port)"
  shows "AllowedHost_from_str lib (AllowedHost_display (AH_SuffixWildcard sfx scheme port)) =
           Ok (AH_SuffixWildcard sfx scheme port)"
proof -
  obtain h where h: "wildcard_host h port" "sfx = CHR ''.'' # to_ascii_lowercase h"
    and none: "scheme = None \<Longrightarrow> \<not> sublist ''://'' h"
    and some: "\<And>sc. scheme = Some sc \<Longrightarrow> CHR ''/'' \<notin> set h \<and> scheme_from_str lib sc = Some sc"
    using wildcard_from_str_inv [OF assms] by metis
  note low = wildcard_host_lower [OF h(1)]
  show ?thesis
  proof (cases scheme)
    case None
    then have "\<not> sublist ''://'' (to_ascii_lowercase h)" using none sublist_scheme_lower by blast
    from from_str_wildcard [OF low this, of lib] None h(2) show ?thesis by (simp add: port_text_def)
  next
    case (Some sc)
    with some have "CHR ''/'' \<notin> set (to_ascii_lowercase h)" "scheme_from_str lib sc = Some sc"
      by (simp_all add: separator_in_lower)
    from from_str_scheme_wildcard [OF low this(1) assms(2) this(2)] Some h(2)
    show ?thesis by (simp add: port_text_def)
  qed
qed

definition text_lib :: url_lib where
  "text_lib = \<lparr>scheme_from_str = (\<lambda>x. if x = ''https'' then Some x else None),
     authority_from_str = (\<lambda>_. None), url_parse = (\<lambda>_. None), host_parse = (\<lambda>_. None)\<rparr>"

lemma text_lib_law: "scheme_text_law text_lib"
  by (auto simp: scheme_text_law_def text_lib_def is_ascii_graphic_def split: if_splits)

lemma text_lib_parse:
  "AllowedHost_from_str text_lib ''https://*.Example.com'' =
     Ok (AH_SuffixWildcard ''.example.com'' (Some ''https'') None)"
  by code_simp

theorem wildcard_entry_round_trip_witness:
  "AllowedHost_from_str text_lib
     (AllowedHost_display (AH_SuffixWildcard ''.example.com'' (Some ''https'') None)) =
       Ok (AH_SuffixWildcard ''.example.com'' (Some ''https'') None)"
proof (rule wildcard_entry_round_trip [OF _ text_lib_law text_lib_parse])
  show "\<forall>c \<in> set ''https://*.Example.com''. is_ascii_graphic c"
    by (simp add: is_ascii_graphic_def)
qed

text \<open>
  C31. A wildcard entry the parser accepted matches exactly the requests to a proper
  subdomain: the suffix begins with a dot, something precedes it in the lowercased request
  host (so neither the apex nor a name that merely ends in the same letters matches), the
  scheme agrees when both sides have one, and a pinned port is the request's port.
\<close>

theorem wildcard_matches_proper_subdomains:
  assumes "AllowedHost_from_str lib s = Ok (AH_SuffixWildcard sfx scheme port)"
  shows "AllowedHost_matches (AH_SuffixWildcard sfx scheme port) r \<longleftrightarrow>
    (\<exists>h label domain. uri_host r = Some h \<and> sfx = CHR ''.'' # domain \<and>
       to_ascii_lowercase h = label @ CHR ''.'' # domain \<and> label \<noteq> [] \<and>
       (\<forall>ps rs. scheme = Some ps \<longrightarrow> uri_scheme_str r = Some rs \<longrightarrow> eq_ignore_ascii_case ps rs) \<and>
       (\<forall>p. port = Some p \<longrightarrow> uri_port_u16 r = Some p))"
proof -
  obtain host where "sfx = wildcard_suffix lib host" by (rule wildcard_from_strD [OF assms])
  then obtain d where d: "sfx = CHR ''.'' # d" using wildcard_suffix_shape by blast
  have port: "pinned_port port (uri_port_u16 r) \<longleftrightarrow> (\<forall>p. port = Some p \<longrightarrow> uri_port_u16 r = Some p)"
    by (auto simp: pinned_port_def split: option.split)
  show ?thesis
  proof (cases "uri_host r")
    case (Some h)
    show ?thesis
    proof (cases "strip_suffix sfx (to_ascii_lowercase h)")
      case None
      then have "to_ascii_lowercase h \<noteq> l @ CHR ''.'' # d" for l
        using d by (auto simp: strip_suffix_None_iff suffix_def)
      with Some None show ?thesis by (auto simp: AllowedHost_matches.simps d)
    next
      case l: (Some l)
      then have "to_ascii_lowercase h = l @ CHR ''.'' # d" using d by (simp add: strip_suffix_Some_iff)
      with Some l show ?thesis
        by (cases scheme; cases "uri_scheme_str r") (auto simp: AllowedHost_matches.simps port d)
    qed
  qed (simp add: AllowedHost_matches.simps)
qed

theorem wildcard_matches_proper_subdomains_witness:
  "AllowedHost_matches (AH_SuffixWildcard ''.example.com'' (Some ''https'') None)
     \<lparr>uri_host = Some ''API.example.com'', uri_scheme_str = None, uri_port_u16 = Some 8443,
      uri_path = ''/''\<rparr> \<and>
   \<not> AllowedHost_matches (AH_SuffixWildcard ''.example.com'' (Some ''https'') None)
     \<lparr>uri_host = Some ''example.com'', uri_scheme_str = None, uri_port_u16 = None,
      uri_path = ''/''\<rparr>"
proof -
  have low: "to_ascii_lowercase ''API.example.com'' = ''api'' @ ''.example.com''" by code_simp
  have apex: "to_ascii_lowercase ''example.com'' = ''example.com''" by code_simp
  show ?thesis
    unfolding wildcard_matches_proper_subdomains [OF text_lib_parse]
    using low apex by (auto simp del: to_ascii_lowercase_Cons simp: Cons_eq_append_conv)
qed

text \<open>
  Whether a socket address is permitted depends only on its port and on its canonical
  address: an IPv4-mapped IPv6 spelling reaches exactly what the IPv4 spelling reaches, for
  the guest's own sockets and for the host's clients, over a whole policy.
\<close>

theorem allowed_addr_spelling_irrelevant:
  assumes "to_canonical (sa_ip a) = to_canonical (sa_ip b)" and "sa_port a = sa_port b"
  shows "check_allowed_addr policy a = check_allowed_addr policy b \<and>
    AllowedHost_permits_client_addr e a = AllowedHost_permits_client_addr e b"
  using permits_addr_on_canonical [OF assms]
  by (simp add: check_allowed_addr_def AllowedHost_permits_addr_def
      AllowedHost_permits_client_addr_def)

theorem allowed_addr_spelling_irrelevant_witness:
  "check_allowed_addr [AH_Authority \<lparr>auth_host = ''10.0.0.5'', auth_port_u16 = Some 5432, auth_str = ''10.0.0.5:5432''\<rparr>]
     (SocketAddrV6 (to_ipv6_mapped (Ipv4Addr 10 0 0 5)) 5432 0 0)"
proof -
  let ?e = "AH_Authority \<lparr>auth_host = ''10.0.0.5'', auth_port_u16 = Some 5432, auth_str = ''10.0.0.5:5432''\<rparr>"
  have "check_allowed_addr [?e] (SocketAddrV4 (Ipv4Addr 10 0 0 5) 5432)" by code_simp
  then show ?thesis
    using allowed_addr_spelling_irrelevant [of "SocketAddrV6 (to_ipv6_mapped (Ipv4Addr 10 0 0 5)) 5432 0 0"
        "SocketAddrV4 (Ipv4Addr 10 0 0 5) 5432" "[?e]" ?e]
    by (simp del: to_ipv6_mapped.simps to_canonical.simps(2))
qed

text \<open>
  A name may be looked up on the strength of a host entry exactly when the entry lets
  the workload connect to that name on some port: the lookup grant is neither wider nor
  narrower than the connect grant, and \<open>*\<close> grants no lookup.
\<close>

theorem lookup_granted_iff_connectable:
  "AllowedHost_permits_lookup e (Domain d) \<longleftrightarrow>
     (\<exists>port. AllowedHost_permits_name e (strip_suffix_or ''.'' d) port)"
proof -
  have "\<exists>port. port_matches pp port" for pp by (cases pp) (auto simp: port_matches_def)
  moreover have "port_matches pp (case pp of Some p \<Rightarrow> p | None \<Rightarrow> 0)" for pp
    by (cases pp) (auto simp: port_matches_def)
  ultimately show ?thesis
    by (cases e) (auto simp: AllowedHost_permits_lookup_def AllowedHost_permits_name_def split: option.splits)
qed

lemma client_port_within_socket_port:
  "port_matches (AllowedHost_client_port e) p \<Longrightarrow> port_matches (AllowedHost_socket_port e) p"
  by (cases e) (auto simp: port_matches_def or_else_def default_ports_agree
      split: option.splits Option.bind_splits dest: default_ports_agree)

lemma client_addr_permitted: "AllowedHost_permits_client_addr e addr \<Longrightarrow> AllowedHost_permits_addr e addr"
  using client_port_within_socket_port [of e]
  by (cases e) (auto simp: AllowedHost_permits_client_addr_def AllowedHost_permits_addr_def
      AllowedHost_permits_addr_on_def Let_def split: option.splits)

text \<open>
  The port a host client may dial on behalf of a guest is never wider than the port the
  guest's own socket may dial under the same entry: whatever the client grant permits, the
  socket grant permits, for names and for addresses.
\<close>

theorem client_grant_within_socket_grant:
  "(AllowedHost_permits_client_name e name port \<longrightarrow> AllowedHost_permits_name e name port) \<and>
   (AllowedHost_permits_client_addr e addr \<longrightarrow> AllowedHost_permits_addr e addr)"
  using client_port_within_socket_port client_addr_permitted
  by (auto simp: AllowedHost_permits_client_name_def AllowedHost_permits_name_def)

theorem client_grant_within_socket_grant_witness:
  "AllowedHost_permits_client_name (AH_SuffixWildcard ''.db.example'' (Some ''postgres'') None) ''eu.db.example'' 5432 \<and>
   \<not> AllowedHost_permits_client_name (AH_SuffixWildcard ''.db.example'' (Some ''postgres'') None) ''eu.db.example'' 80 \<and>
   AllowedHost_permits_name (AH_SuffixWildcard ''.db.example'' (Some ''postgres'') None) ''eu.db.example'' 5432"
proof -
  have "AllowedHost_permits_client_name (AH_SuffixWildcard ''.db.example'' (Some ''postgres'') None) ''eu.db.example'' 5432"
    by code_simp
  moreover have "\<not> AllowedHost_permits_client_name (AH_SuffixWildcard ''.db.example'' (Some ''postgres'') None) ''eu.db.example'' 80"
    by code_simp
  ultimately show ?thesis using client_grant_within_socket_grant by blast
qed

text \<open>
  An exact URL entry whose \<open>url.port()\<close> is absent, which is how the parser represents
  both no port and the scheme's default port, admits a request to any port of its host.
\<close>

theorem url_entry_without_port_admits_every_port:
  assumes "url_host_str u = Some host" and "url_port u = None"
    and "uri_host r = Some request_host" and "eq_ignore_ascii_case host request_host"
    and "uri_scheme_str r = Some (url_scheme u)"
  shows "AllowedHost_matches (AH_Url u) (r\<lparr>uri_port_u16 := port\<rparr>)"
  using assms by (simp add: AllowedHost_matches.simps)

theorem url_entry_without_port_admits_every_port_witness:
  "AllowedHost_matches
     (AH_Url \<lparr>url_scheme = ''https'', url_username = [], url_password = None, url_host_str = Some ''a.example'', url_port = None,
        url_port_or_known_default = Some 443, url_path = ''/'', url_query = None,
        url_fragment = None, url_str = ''https://a.example/''\<rparr>)
     (\<lparr>uri_host = Some ''a.example'', uri_scheme_str = Some ''https'', uri_port_u16 = Some 443,
        uri_path = ''/''\<rparr>
        \<lparr>uri_port_u16 := Some 8443\<rparr>)"
  by (rule url_entry_without_port_admits_every_port
      [where host = "''a.example''" and request_host = "''a.example''"]) simp_all

text \<open>
  A wildcard without a scheme keeps a path as part of its suffix instead of rejecting
  it, and such an entry matches no request host without a slash.
\<close>

theorem schemeless_wildcard_keeps_path:
  "AllowedHost_from_str lib ''*.example.com/v1'' = Ok (AH_SuffixWildcard ''.example.com/v1'' None None)"
proof -
  have "wildcard_host ''example.com/v1'' None" by (simp add: wildcard_host_def is_ascii_graphic_def)
  moreover have "\<not> sublist ''://'' ''example.com/v1''"
    by (simp add: sublist_Cons_right)
  moreover have "to_ascii_lowercase ''example.com/v1'' = ''example.com/v1''" by code_simp
  ultimately show ?thesis
    using from_str_wildcard [of "''example.com/v1''" None lib] by (simp add: port_text_def)
qed

end
