(* ===== verification/Allowed_Names.thy ===== *)
theory Allowed_Names
  imports Allowed_Hosts
begin

text \<open>
  The name allowlist of \<open>wasi:sockets/ip-name-lookup\<close>: \<open>host/allowed_ip_name.rs\<close>. A name may
  be looked up when this list names it or when the host allowlist lets the workload connect
  to it.
\<close>

datatype allowed_ip_name =
    IN_Any
  | IN_Exact string
  | IN_SuffixWildcard string
  | IN_Ip ipaddr

definition strip_root_dot :: "string \<Rightarrow> string" where
  "strip_root_dot domain = strip_suffix_or ''.'' domain"

text \<open>A \<open>url::Host::Domain\<close> is ASCII, so the slice at a byte offset never panics.\<close>

fun AllowedIpName_matches :: "allowed_ip_name \<Rightarrow> url_host \<Rightarrow> bool" where
  "AllowedIpName_matches IN_Any host = True"
| "AllowedIpName_matches (IN_Ip allowed) (Ipv4 addr) = (allowed = V4 addr)"
| "AllowedIpName_matches (IN_Ip allowed) (Ipv6 addr) = (allowed = V6 addr)"
| "AllowedIpName_matches (IN_Ip allowed) (Domain domain) = False"
| "AllowedIpName_matches (IN_Exact allowed) (Domain domain) =
     eq_ignore_ascii_case (strip_root_dot domain) allowed"
| "AllowedIpName_matches (IN_SuffixWildcard sfx) (Domain domain) =
     (let domain = strip_root_dot domain
      in length sfx < length domain \<and>
         eq_ignore_ascii_case (drop (length domain - length sfx) domain) sfx)"
| "AllowedIpName_matches (IN_Exact allowed) host = False"
| "AllowedIpName_matches (IN_SuffixWildcard sfx) host = False"

definition check_allowed_ip_name :: "allowed_ip_name list \<Rightarrow> url_host \<Rightarrow> bool" where
  "check_allowed_ip_name policy host = list_ex (\<lambda>entry. AllowedIpName_matches entry host) policy"

definition check_allowed_lookup :: "allowed_ip_name list \<Rightarrow> allowed_host list \<Rightarrow> url_host \<Rightarrow> bool" where
  "check_allowed_lookup lookups hosts host \<longleftrightarrow>
     check_allowed_ip_name lookups host \<or> list_ex (\<lambda>entry. AllowedHost_permits_lookup entry host) hosts"

text \<open>The two causes \<open>lookup_denial\<close> spells out.\<close>

datatype denial_cause = StarOpensNoLookup url_host | NobodyNames url_host

definition lookup_denial :: "allowed_host list \<Rightarrow> url_host \<Rightarrow> denial_cause" where
  "lookup_denial hosts host =
     (if list_ex (\<lambda>entry. entry = AH_Any) hosts then StarOpensNoLookup host else NobodyNames host)"

section \<open>Parsing\<close>

datatype allowed_name_error =
    NameEmpty
  | NameHas string
  | NameWildcardForm
  | NameHasPort
  | DomainEmpty
  | DomainTooLong
  | LabelEmpty
  | LabelTooLong
  | LabelCharacters
  | LabelHyphen

fun validate_labels :: "string list \<Rightarrow> (allowed_name_error, unit) result" where
  "validate_labels [] = Ok ()"
| "validate_labels (label # rest) =
     (if label = [] then Err LabelEmpty
      else if 63 < length label then Err LabelTooLong
      else if \<not> list_all (\<lambda>b. is_ascii_alphanumeric b \<or> b = CHR ''-'') label then Err LabelCharacters
      else if prefix ''-'' label \<or> suffix ''-'' label then Err LabelHyphen
      else validate_labels rest)"

definition validate_domain :: "string \<Rightarrow> (allowed_name_error, unit) result" where
  "validate_domain domain =
     (let domain = strip_root_dot domain in
      if domain = [] then Err DomainEmpty
      else if 253 < length domain then Err DomainTooLong
      else validate_labels (split_on CHR ''.'' domain))"

definition AllowedIpName_from_str :: "string \<Rightarrow> (allowed_name_error, allowed_ip_name) result" where
  "AllowedIpName_from_str s =
     (let trimmed = trim s in
      if trimmed = [] then Err NameEmpty
      else if trimmed = ''*'' then Ok IN_Any
      else (case find (\<lambda>(pattern, what). contains_str pattern trimmed)
                   [(''://'', ''a scheme''), (''/'', ''a path''), (''?'', ''a query string''), (''#'', ''a fragment'')] of
        Some (pattern, what) \<Rightarrow> Err (NameHas what)
      | None \<Rightarrow>
          (case strip_prefix ''*.'' trimmed of
             Some sfx \<Rightarrow>
               bind_result (validate_domain sfx) (\<lambda>_.
                 Ok (IN_SuffixWildcard (CHR ''.'' # to_ascii_lowercase sfx)))
           | None \<Rightarrow>
               if CHR ''*'' \<in> set trimmed then Err NameWildcardForm
               else (case parse_ip_addr trimmed of
                 Some addr \<Rightarrow> Ok (IN_Ip addr)
               | None \<Rightarrow>
                   if CHR '':'' \<in> set trimmed then Err NameHasPort
                   else bind_result (validate_domain trimmed) (\<lambda>_.
                          Ok (IN_Exact (to_ascii_lowercase trimmed)))))))"

fun AllowedIpName_display :: "allowed_ip_name \<Rightarrow> string" where
  "AllowedIpName_display IN_Any = ''*''"
| "AllowedIpName_display (IN_Exact name) = name"
| "AllowedIpName_display (IN_SuffixWildcard sfx) = ''*'' @ sfx"
| "AllowedIpName_display (IN_Ip addr) = show_ip_addr addr"

section \<open>Lemmas\<close>

interpretation lookup_names: allowlist AllowedIpName_matches check_allowed_ip_name
  by unfold_locales (simp add: check_allowed_ip_name_def list_ex_iff)

text \<open>A label of a host name.\<close>

definition label_ok :: "string \<Rightarrow> bool" where
  "label_ok l \<longleftrightarrow> l \<noteq> [] \<and> length l \<le> 63 \<and> (\<forall>b \<in> set l. is_ascii_alphanumeric b \<or> b = CHR ''-'') \<and>
     hd l \<noteq> CHR ''-'' \<and> last l \<noteq> CHR ''-''"

lemma validate_labels_Ok_iff: "validate_labels ls = Ok () \<longleftrightarrow> (\<forall>l \<in> set ls. label_ok l)"
proof (induction ls)
  case (Cons l ls)
  have "prefix ''-'' l \<longleftrightarrow> l \<noteq> [] \<and> hd l = CHR ''-''" by (cases l) auto
  moreover have "suffix ''-'' l \<longleftrightarrow> l \<noteq> [] \<and> last l = CHR ''-''"
    by (cases l rule: rev_cases) (auto simp: suffix_def)
  ultimately show ?case using Cons by (auto simp: label_ok_def list_all_iff)
qed simp

lemma strip_root_dot_cases:
  obtains "strip_root_dot d = d" "\<not> suffix ''.'' d" | e where "d = e @ ''.''" "strip_root_dot d = e"
  by (auto simp: strip_root_dot_def strip_suffix_or_def strip_suffix_def suffix_def split: option.splits if_splits)

lemma exact_from_strD:
  assumes "AllowedIpName_from_str s = Ok (IN_Exact n)"
  shows "n = to_ascii_lowercase (trim s)" "validate_domain (trim s) = Ok ()"
  using assms
  by (auto simp: AllowedIpName_from_str_def Let_def bind_result_Inr_iff
      split: if_splits option.splits)

lemma wildcard_name_from_strD:
  assumes "AllowedIpName_from_str s = Ok (IN_SuffixWildcard n)"
  obtains d where "trim s = ''*.'' @ d" "n = CHR ''.'' # to_ascii_lowercase d" "validate_domain d = Ok ()"
  using assms
  by (auto simp: AllowedIpName_from_str_def Let_def bind_result_Inr_iff strip_prefix_Some_iff
      split: if_splits option.splits)

lemma lower_dot: "lower_char c = CHR ''.'' \<longleftrightarrow> c = CHR ''.''"
  by (rule lower_char_eq_iff) (simp_all add: is_ascii_upper_def is_ascii_lower_def)

lemma suffix_wildcard_matches_iff:
  "AllowedIpName_matches (IN_SuffixWildcard sfx) (Domain d) \<longleftrightarrow>
     (\<exists>label. label \<noteq> [] \<and> to_ascii_lowercase (strip_root_dot d) = label @ to_ascii_lowercase sfx)"
    (is "_ \<longleftrightarrow> ?R")
proof -
  let ?n = "strip_root_dot d"
  have "?R" if "length sfx < length ?n" "to_ascii_lowercase (drop (length ?n - length sfx) ?n) = to_ascii_lowercase sfx"
  proof -
    have "to_ascii_lowercase ?n = to_ascii_lowercase (take (length ?n - length sfx) ?n) @ to_ascii_lowercase sfx"
      using that(2) by (metis append_take_drop_id to_ascii_lowercase_append)
    then show ?thesis using that(1) by (intro exI [of _ "to_ascii_lowercase (take (length ?n - length sfx) ?n)"]) auto
  qed
  moreover have "length sfx < length ?n \<and> to_ascii_lowercase (drop (length ?n - length sfx) ?n) = to_ascii_lowercase sfx" if ?R
  proof -
    from that obtain l where l: "l \<noteq> []" "to_ascii_lowercase ?n = l @ to_ascii_lowercase sfx" by blast
    then have len: "length ?n = length l + length sfx"
      using length_to_ascii_lowercase [of ?n] by simp
    have "to_ascii_lowercase (drop (length l) ?n) = drop (length l) (to_ascii_lowercase ?n)"
      by (simp add: to_ascii_lowercase_def drop_map)
    with l len show ?thesis by simp
  qed
  ultimately show ?thesis by (auto simp: eq_ignore_ascii_case_def Let_def)
qed

section \<open>Properties\<close>

text \<open>
  The domain names the parser accepts: one root dot is ignored, the rest is at most 253
  bytes and consists of labels of 1 to 63 bytes of letters, digits and hyphens that neither
  begin nor end with a hyphen.
\<close>

theorem validate_domain_accepts_exactly_host_names:
  "validate_domain d = Ok () \<longleftrightarrow>
     strip_root_dot d \<noteq> [] \<and> length (strip_root_dot d) \<le> 253 \<and>
     (\<exists>labels. labels \<noteq> [] \<and> strip_root_dot d = join_with CHR ''.'' labels \<and> list_all label_ok labels)"
proof -
  let ?n = "strip_root_dot d"
  have "(\<forall>l \<in> set (split_on CHR ''.'' ?n). label_ok l) \<longleftrightarrow>
      (\<exists>labels. labels \<noteq> [] \<and> ?n = join_with CHR ''.'' labels \<and> list_all label_ok labels)"
  proof
    assume "\<forall>l \<in> set (split_on CHR ''.'' ?n). label_ok l"
    then show "\<exists>labels. labels \<noteq> [] \<and> ?n = join_with CHR ''.'' labels \<and> list_all label_ok labels"
      by (intro exI [of _ "split_on CHR ''.'' ?n"]) (simp add: list_all_iff)
  next
    assume "\<exists>labels. labels \<noteq> [] \<and> ?n = join_with CHR ''.'' labels \<and> list_all label_ok labels"
    then obtain labels where l: "labels \<noteq> []" "?n = join_with CHR ''.'' labels" "list_all label_ok labels" by blast
    have "CHR ''.'' \<notin> set p" if "label_ok p" for p
      using that by (auto simp: label_ok_def is_ascii_alphanumeric_def is_ascii_digit_def is_ascii_upper_def is_ascii_lower_def)
    with l have "split_on CHR ''.'' ?n = labels" by (auto intro!: split_on_join simp: list_all_iff)
    with l(3) show "\<forall>l \<in> set (split_on CHR ''.'' ?n). label_ok l" by (simp add: list_all_iff)
  qed
  then show ?thesis
    by (auto simp: validate_domain_def Let_def validate_labels_Ok_iff)
qed

text \<open>
  An exact entry written fully qualified, with its root dot, is accepted and stored with
  the dot, while the requested name is compared without its own: such an entry matches only
  a name that ends in two dots, so it never grants the lookup it names.
\<close>

theorem root_dot_entry_matches_nothing:
  assumes "AllowedIpName_from_str s = Ok (IN_Exact n)" and "suffix ''.'' (trim s)"
    and "AllowedIpName_matches (IN_Exact n) (Domain d)"
  shows "suffix ''..'' d"
proof -
  obtain e where e: "trim s = e @ ''.''" using assms(2) by (auto simp: suffix_def)
  then have n: "n = to_ascii_lowercase e @ ''.''"
    using exact_from_strD(1) [OF assms(1)] lower_dot [of "CHR ''.''"] by simp
  have m: "to_ascii_lowercase (strip_root_dot d) = to_ascii_lowercase e @ ''.''"
    using assms(3) n lower_dot [of "CHR ''.''"] by (simp add: eq_ignore_ascii_case_def)
  then obtain f c where f: "strip_root_dot d = f @ [c]" "lower_char c = CHR ''.''"
    by (cases "strip_root_dot d" rule: rev_cases) auto
  then have dot: "strip_root_dot d = f @ ''.''" by (simp add: lower_dot)
  show ?thesis
  proof (cases d rule: strip_root_dot_cases)
    case 1
    with dot show ?thesis by (auto simp: suffix_def)
  next
    case (2 g)
    with dot show ?thesis by (auto simp: suffix_def)
  qed
qed

theorem root_dot_entry_matches_nothing_witness:
  "AllowedIpName_from_str ''example.com.'' = Ok (IN_Exact ''example.com.'') \<and>
   \<not> AllowedIpName_matches (IN_Exact ''example.com.'') (Domain ''example.com'') \<and>
   \<not> AllowedIpName_matches (IN_Exact ''example.com.'') (Domain ''example.com.'')"
proof -
  have p: "AllowedIpName_from_str ''example.com.'' = Ok (IN_Exact ''example.com.'')" by code_simp
  have t: "suffix ''.'' (trim ''example.com.'')" by code_simp
  have "\<not> suffix ''..'' ''example.com''" "\<not> suffix ''..'' ''example.com.''" by code_simp+
  with p t root_dot_entry_matches_nothing [OF p t] show ?thesis by blast
qed

end
