(* ===== verification/Egress_Policy.thy ===== *)
theory Egress_Policy
  imports Net_Text
begin

text \<open>
  The address-range policy of outbound connections: \<open>host/egress_policy.rs\<close>. It judges every
  address the host allowlist let through, in its canonical form.
\<close>

record EgressAddressPolicy =
  deny_special :: bool
  allow_private :: bool

definition EgressAddressPolicy_default :: EgressAddressPolicy where
  "EgressAddressPolicy_default = \<lparr>deny_special = True, allow_private = True\<rparr>"

definition EgressAddressPolicy_permissive :: EgressAddressPolicy where
  "EgressAddressPolicy_permissive = \<lparr>deny_special = False, allow_private = True\<rparr>"

definition METADATA_V4 :: ipv4 where
  "METADATA_V4 = Ipv4Addr 169 254 169 254"

definition METADATA_V6 :: ipv6 where
  "METADATA_V6 = Ipv6Addr 0xfd00 0xec2 0 0 0 0 0 0x254"

fun is_v4_documentation :: "ipv4 \<Rightarrow> bool" where
  "is_v4_documentation (Ipv4Addr a b c d) \<longleftrightarrow>
     (a, b, c) = (192, 0, 2) \<or> (a, b, c) = (198, 51, 100) \<or> (a, b, c) = (203, 0, 113)"

definition is_special :: "ipaddr \<Rightarrow> bool" where
  "is_special addr =
     (if addr = V6 METADATA_V6 then True
      else (case addr of
        V4 v4 \<Rightarrow>
          v4_is_loopback v4 \<or> v4_is_link_local v4 \<or> v4_is_unspecified v4 \<or> v4_is_multicast v4
          \<or> v4_is_broadcast v4 \<or> is_v4_documentation v4 \<or> 240 \<le> octets v4 ! 0
      | V6 v6 \<Rightarrow>
          v6_is_loopback v6 \<or> v6_is_unspecified v6 \<or> v6_is_multicast v6
          \<or> segments v6 ! 0 AND 0xffc0 = 0xfe80
          \<or> (segments v6 ! 0 = 0x2001 \<and> segments v6 ! 1 = 0x0db8)))"

definition is_private :: "ipaddr \<Rightarrow> bool" where
  "is_private addr =
     (case addr of
        V4 v4 \<Rightarrow> v4_is_private v4 \<or> (octets v4 ! 0 = 100 \<and> 64 \<le> octets v4 ! 1 \<and> octets v4 ! 1 < 128)
      | V6 v6 \<Rightarrow> segments v6 ! 0 AND 0xfe00 = 0xfc00)"

definition EgressAddressPolicy_permits :: "EgressAddressPolicy \<Rightarrow> ipaddr \<Rightarrow> bool" where
  "EgressAddressPolicy_permits p addr =
     (let addr = to_canonical addr in
      if deny_special p \<and> is_special addr then False
      else if \<not> allow_private p \<and> is_private addr then False
      else True)"

lemma permits_iff:
  "EgressAddressPolicy_permits p addr \<longleftrightarrow>
     \<not> (deny_special p \<and> is_special (to_canonical addr)) \<and> (allow_private p \<or> \<not> is_private (to_canonical addr))"
  by (auto simp: EgressAddressPolicy_permits_def Let_def)

lemma permits_canonical:
  "to_canonical a = to_canonical b \<Longrightarrow> EgressAddressPolicy_permits p a = EgressAddressPolicy_permits p b"
  by (simp add: permits_iff)

lemma to_canonical_eq_V4_iff:
  "to_canonical ip = V4 v4 \<longleftrightarrow> ip = V4 v4 \<or> (\<exists>v6. ip = V6 v6 \<and> to_ipv4_mapped v6 = Some v4)"
  by (cases ip) (auto split: option.splits)

text \<open>
  C33. With special ranges denied, an address that is permitted is none of the machine's own
  addresses, no metadata address and no multicast address, in any spelling: the judgement is
  made on the canonical form, so the IPv4-mapped spelling is covered too.
\<close>

theorem special_addresses_denied_in_every_spelling:
  assumes "deny_special p" and "EgressAddressPolicy_permits p ip"
  shows "\<not> is_loopback (to_canonical ip) \<and> \<not> is_unspecified (to_canonical ip) \<and>
    \<not> is_multicast (to_canonical ip) \<and> ip \<noteq> V6 METADATA_V6 \<and>
    ip \<noteq> V4 METADATA_V4 \<and> ip \<noteq> V6 (to_ipv6_mapped METADATA_V4) \<and>
    \<not> is_loopback ip \<and> ip \<noteq> V6 (to_ipv6_mapped v4_localhost) \<and> ip \<noteq> V6 (to_ipv6_mapped v4_unspecified)"
proof -
  have n: "\<not> is_special (to_canonical ip)" using assms by (simp add: permits_iff)
  then have c: "\<not> is_loopback (to_canonical ip)" "\<not> is_unspecified (to_canonical ip)" "\<not> is_multicast (to_canonical ip)"
    by (cases "to_canonical ip"; auto simp: is_special_def split: if_splits)+
  have "is_special (V4 METADATA_V4)" "is_special (V4 v4_localhost)" "is_special (V4 v4_unspecified)" "is_special (V6 METADATA_V6)"
    by code_simp+
  moreover have "to_canonical (V6 METADATA_V6) = V6 METADATA_V6" by code_simp
  ultimately have "ip \<noteq> V6 METADATA_V6" "ip \<noteq> V4 METADATA_V4" "ip \<noteq> V6 (to_ipv6_mapped METADATA_V4)"
    "ip \<noteq> V6 (to_ipv6_mapped v4_localhost)" "ip \<noteq> V6 (to_ipv6_mapped v4_unspecified)"
    using n to_canonical_mapped to_canonical_V4 by metis+
  moreover have "is_loopback (to_canonical ip)" if "is_loopback ip"
  proof (cases ip)
    case (V6 v6)
    with that have "ip = V6 v6_localhost" by (simp add: v6_is_loopback_def)
    moreover have "is_loopback (to_canonical (V6 v6_localhost))" by code_simp
    ultimately show ?thesis by simp
  qed (use that in simp)
  ultimately show ?thesis using c by blast
qed

theorem special_addresses_denied_in_every_spelling_witness:
  "EgressAddressPolicy_permits EgressAddressPolicy_default (V4 (Ipv4Addr 10 0 0 7)) \<and>
   \<not> EgressAddressPolicy_permits EgressAddressPolicy_default (V6 (to_ipv6_mapped METADATA_V4))"
proof -
  have d: "deny_special EgressAddressPolicy_default" by (simp add: EgressAddressPolicy_default_def)
  have "EgressAddressPolicy_permits EgressAddressPolicy_default (V4 (Ipv4Addr 10 0 0 7))" by code_simp
  with special_addresses_denied_in_every_spelling [OF d] show ?thesis by blast
qed

end
