(* ===== verification/Internal_Names.thy ===== *)
theory Internal_Names
  imports Net_Addr
begin

text \<open>
  The reserved zone \<open>wasmcloud.internal\<close>: \<open>sockets/internal_names.rs\<close>. Names in the zone are
  answered inside the host and never reach a resolver.
\<close>

definition HOST_SENTINEL :: ipv4 where
  "HOST_SENTINEL = Ipv4Addr 127 255 255 254"

definition ZONE :: string where
  "ZONE = ''wasmcloud.internal''"

datatype internal_name = Service | Host

fun InternalName_address :: "internal_name \<Rightarrow> ipaddr" where
  "InternalName_address Service = V4 v4_localhost"
| "InternalName_address Host = V4 HOST_SENTINEL"

datatype unknown_internal_name = UnknownInternalName

definition internal_resolve :: "string \<Rightarrow> (unknown_internal_name, internal_name) result option" where
  "internal_resolve name =
     (let name = to_ascii_lowercase (strip_suffix_or ''.'' name) in
      (case strip_suffix ZONE name of
         None \<Rightarrow> None
       | Some label \<Rightarrow>
           if label = [] then Some (Err UnknownInternalName)
           else (case strip_suffix ''.'' label of
             None \<Rightarrow> None
           | Some label \<Rightarrow>
               if label = ''service'' then Some (Ok Service)
               else if label = ''host'' then Some (Ok Host)
               else (case strip_suffix ''.svc'' label of
                 Some service \<Rightarrow>
                   if service \<noteq> [] \<and> CHR ''.'' \<notin> set service then Some (Ok Service)
                   else Some (Err UnknownInternalName)
               | None \<Rightarrow> Some (Err UnknownInternalName)))))"

definition is_host_sentinel :: "ipaddr \<Rightarrow> bool" where
  "is_host_sentinel addr =
     (case to_canonical addr of V4 v4 \<Rightarrow> v4 = HOST_SENTINEL | V6 _ \<Rightarrow> False)"

definition rewrite_sentinel :: "socket_addr \<Rightarrow> socket_addr" where
  "rewrite_sentinel addr =
     (let ip = (case addr of SocketAddrV4 _ _ \<Rightarrow> V4 v4_localhost | SocketAddrV6 _ _ _ _ \<Rightarrow> V6 v6_localhost)
      in sa_new ip (sa_port addr))"

section \<open>Lemmas\<close>

text \<open>A name of the zone: the zone itself, or whole labels in front of it.\<close>

definition in_zone :: "string \<Rightarrow> bool" where
  "in_zone name \<longleftrightarrow> name = ZONE \<or> (\<exists>l. name = l @ CHR ''.'' # ZONE)"

lemma internal_resolve_None_iff:
  "internal_resolve name = None \<longleftrightarrow> \<not> in_zone (to_ascii_lowercase (strip_suffix_or ''.'' name))"
proof -
  let ?n = "to_ascii_lowercase (strip_suffix_or ''.'' name)"
  show ?thesis
  proof (cases "strip_suffix ZONE ?n")
    case None
    then have "\<not> suffix ZONE ?n" by (simp add: strip_suffix_None_iff)
    with None show ?thesis by (auto simp: internal_resolve_def in_zone_def suffix_def)
  next
    case (Some l)
    then have n: "?n = l @ ZONE" by (simp add: strip_suffix_Some_iff)
    show ?thesis
    proof (cases "strip_suffix ''.'' l")
      case None
      then have "\<not> suffix ''.'' l" by (simp add: strip_suffix_None_iff)
      with Some None n show ?thesis by (auto simp: internal_resolve_def in_zone_def suffix_def)
    next
      case (Some k)
      then have "l = k @ ''.''" by (simp add: strip_suffix_Some_iff)
      with Some \<open>strip_suffix ZONE ?n = Some l\<close> n show ?thesis
        by (auto simp: internal_resolve_def in_zone_def Let_def split: option.splits)
    qed
  qed
qed

lemma host_sentinel_loopback: "is_loopback (V4 HOST_SENTINEL)"
  by (simp add: HOST_SENTINEL_def)

lemma ucast_split_join:
  "push_bit 8 (ucast (ucast (drop_bit 8 g) :: u8)) OR ucast (ucast g :: u8) = g" for g :: u16
proof (rule bit_word_eqI)
  fix n assume n: "n < LENGTH(16)"
  show "bit (push_bit 8 (ucast (ucast (drop_bit 8 g) :: u8)) OR ucast (ucast g :: u8) :: u16) n = bit g n"
    using n by (cases "n < 8") (auto simp: bit_or_iff bit_push_bit_iff bit_ucast_iff bit_drop_bit_eq)
qed

lemma to_ipv4_mapped_inj: "to_ipv4_mapped v6 = Some v4 \<Longrightarrow> v6 = to_ipv6_mapped v4"
  by (cases v6) (auto simp: ucast_split_join split: if_splits)

text \<open>
  No name of the reserved zone ever falls through to a resolver, and no name outside it
  is intercepted: the lookup is answered here exactly when the name, without its root dot and
  lowercased, is the zone or ends in it at a label boundary.
\<close>

theorem zone_is_closed:
  "internal_resolve name \<noteq> None \<longleftrightarrow>
     to_ascii_lowercase (strip_suffix_or ''.'' name) = ZONE \<or>
     (\<exists>labels. to_ascii_lowercase (strip_suffix_or ''.'' name) = labels @ CHR ''.'' # ZONE)"
  using internal_resolve_None_iff [of name] by (simp add: in_zone_def)

text \<open>
  The sentinel is recognised in exactly its two spellings, it lies in the loopback range
  so that a missed interception stays on the machine, and dialling it is rewritten to the
  real loopback address of the same family with the port kept.
\<close>

theorem sentinel_recognised_and_rewritten:
  "(is_host_sentinel ip \<longleftrightarrow> ip = V4 HOST_SENTINEL \<or> ip = V6 (to_ipv6_mapped HOST_SENTINEL)) \<and>
   is_host_sentinel (InternalName_address Host) \<and> is_loopback (V4 HOST_SENTINEL) \<and>
   is_loopback (sa_ip (rewrite_sentinel addr)) \<and> \<not> is_host_sentinel (sa_ip (rewrite_sentinel addr)) \<and>
   sa_port (rewrite_sentinel addr) = sa_port addr"
proof -
  have "is_host_sentinel ip \<longleftrightarrow> ip = V4 HOST_SENTINEL \<or> ip = V6 (to_ipv6_mapped HOST_SENTINEL)"
  proof (cases ip)
    case (V6 v6)
    have "to_ipv4_mapped v6 = Some HOST_SENTINEL \<longleftrightarrow> v6 = to_ipv6_mapped HOST_SENTINEL"
      using to_ipv4_mapped_inj to_ipv4_mapped_to_ipv6_mapped by blast
    with V6 show ?thesis by (auto simp: is_host_sentinel_def split: option.splits)
  qed (simp add: is_host_sentinel_def)
  moreover have "is_loopback (sa_ip (rewrite_sentinel addr))" "\<not> is_host_sentinel (sa_ip (rewrite_sentinel addr))"
    by (cases addr; simp add: rewrite_sentinel_def is_host_sentinel_def v4_localhost_def HOST_SENTINEL_def
        v6_is_loopback_def v6_localhost_def)+
  ultimately show ?thesis
    using host_sentinel_loopback
    by (simp add: rewrite_sentinel_def Let_def is_host_sentinel_def del: is_loopback.simps)
qed

end
