(* ===== verification/Declared_Ports.thy ===== *)
theory Declared_Ports
  imports Interfaces Net_Addr
begin

text \<open>
  Ports a guest listens on, declared in configuration: \<open>host/declared_port.rs\<close>. The checks
  of a whole \<open>ports\<close> list decide what an operator or a tenant may ask the host to expose.
\<close>

section \<open>Declarations\<close>

datatype protocol = Tcp | Udp

instantiation protocol :: linorder
begin

definition less_eq_protocol :: "protocol \<Rightarrow> protocol \<Rightarrow> bool" where
  "less_eq_protocol a b \<longleftrightarrow> a = Tcp \<or> b = Udp"

definition less_protocol :: "protocol \<Rightarrow> protocol \<Rightarrow> bool" where
  "less_protocol a b \<longleftrightarrow> a = Tcp \<and> b = Udp"

instance
proof
  fix x y z :: protocol
  show "(x < y) = (x \<le> y \<and> \<not> y \<le> x)" by (cases x; cases y) (auto simp: less_eq_protocol_def less_protocol_def)
  show "x \<le> x" by (cases x) (auto simp: less_eq_protocol_def)
  show "x \<le> y \<Longrightarrow> y \<le> z \<Longrightarrow> x \<le> z" by (cases x; cases y; cases z) (auto simp: less_eq_protocol_def)
  show "x \<le> y \<Longrightarrow> y \<le> x \<Longrightarrow> x = y" by (cases x; cases y) (auto simp: less_eq_protocol_def)
  show "x \<le> y \<or> y \<le> x" by (cases x; cases y) (auto simp: less_eq_protocol_def)
qed

end

definition Protocol_is_udp :: "protocol \<Rightarrow> bool" where
  "Protocol_is_udp p \<longleftrightarrow> p = Udp"

fun Protocol_display :: "protocol \<Rightarrow> string" where
  "Protocol_display Tcp = ''TCP''"
| "Protocol_display Udp = ''UDP''"

datatype port_mode = PM_Declared | PM_Splice u16 | PM_Direct ipaddr

record DeclaredPort =
  dp_name :: string
  dp_port :: u16
  dp_protocol :: protocol
  dp_publish :: "u16 option"
  dp_bind :: "ipaddr option"

definition DeclaredPort_mode :: "DeclaredPort \<Rightarrow> port_mode" where
  "DeclaredPort_mode p =
     (case (dp_bind p, dp_publish p) of
        (Some bind, _) \<Rightarrow> PM_Direct bind
      | (None, Some publish) \<Rightarrow> PM_Splice publish
      | (None, None) \<Rightarrow> PM_Declared)"

definition published_port :: "DeclaredPort \<Rightarrow> u16 option" where
  "published_port p =
     (case DeclaredPort_mode p of
        PM_Declared \<Rightarrow> None
      | PM_Splice publish \<Rightarrow> Some publish
      | PM_Direct _ \<Rightarrow> Some (dp_port p))"

section \<open>Checks\<close>

datatype port_error =
    NeedsName
  | ZeroPort string
  | PublishAndBind string
  | ZeroPublish string
  | BindUnspecified string
  | BindLoopback string
  | BindMulticast string
  | WorkloadBind string
  | PluginPublish string
  | DuplicateName string
  | DuplicatePort string string protocol u16

definition DeclaredPort_validate :: "DeclaredPort \<Rightarrow> (port_error, unit) result" where
  "DeclaredPort_validate p =
     (let name = dp_name p in
      if trim name = [] then Err NeedsName
      else if dp_port p = 0 then Err (ZeroPort name)
      else if dp_publish p \<noteq> None \<and> dp_bind p \<noteq> None then Err (PublishAndBind name)
      else (case DeclaredPort_mode p of
              PM_Declared \<Rightarrow> Ok ()
            | PM_Splice publish \<Rightarrow> if publish = 0 then Err (ZeroPublish name) else Ok ()
            | PM_Direct bind \<Rightarrow>
                if is_unspecified bind then Err (BindUnspecified name)
                else if is_loopback bind then Err (BindLoopback name)
                else if is_multicast bind then Err (BindMulticast name)
                else Ok ()))"

text \<open>
  The loop of \<open>validate_ports\<close>. \<open>seen_names.insert\<close> is false for a name already there;
  \<open>seen_published.insert\<close> returns the value it replaces.
\<close>

fun validate_ports_from ::
    "string btree_set \<Rightarrow> (u16 \<times> protocol, string) btree_map \<Rightarrow> DeclaredPort list \<Rightarrow> (port_error, unit) result" where
  "validate_ports_from seen_names seen_published [] = Ok ()"
| "validate_ports_from seen_names seen_published (port # ports) =
     bind_result (DeclaredPort_validate port) (\<lambda>_.
       if dp_name port \<in> set seen_names then Err (DuplicateName (dp_name port))
       else (let seen_names = bs_insert (dp_name port) seen_names in
         (case published_port port of
            None \<Rightarrow> validate_ports_from seen_names seen_published ports
          | Some published \<Rightarrow>
              (let key = (published, dp_protocol port) in
               (case bm_get seen_published key of
                  Some other \<Rightarrow> Err (DuplicatePort other (dp_name port) (dp_protocol port) published)
                | None \<Rightarrow>
                    validate_ports_from seen_names (bm_insert key (dp_name port) seen_published) ports)))))"

definition validate_ports :: "DeclaredPort list \<Rightarrow> (port_error, unit) result" where
  "validate_ports ports = validate_ports_from [] [] ports"

definition validate_workload_ports :: "DeclaredPort list \<Rightarrow> (port_error, unit) result" where
  "validate_workload_ports ports =
     (case find (\<lambda>p. dp_bind p \<noteq> None) ports of
        Some p \<Rightarrow> Err (WorkloadBind (dp_name p))
      | None \<Rightarrow> validate_ports ports)"

definition validate_plugin_ports :: "DeclaredPort list \<Rightarrow> (port_error, unit) result" where
  "validate_plugin_ports ports =
     (case find (\<lambda>p. case DeclaredPort_mode p of PM_Splice _ \<Rightarrow> True | _ \<Rightarrow> False) ports of
        Some p \<Rightarrow> Err (PluginPublish (dp_name p))
      | None \<Rightarrow> validate_ports ports)"

section \<open>Lemmas\<close>

text \<open>The real ports a list claims, with their transport.\<close>

definition claimed :: "DeclaredPort list \<Rightarrow> (u16 \<times> protocol) list" where
  "claimed ps =
     concat (map (\<lambda>p. case published_port p of None \<Rightarrow> [] | Some n \<Rightarrow> [(n, dp_protocol p)]) ps)"

lemma claimed_Cons:
  "claimed (p # ps) = (case published_port p of None \<Rightarrow> [] | Some n \<Rightarrow> [(n, dp_protocol p)]) @ claimed ps"
  by (simp add: claimed_def)

lemma validate_ports_from_Ok_iff:
  "bs_wf names \<Longrightarrow> bm_wf pub \<Longrightarrow>
   validate_ports_from names pub ps = Ok () \<longleftrightarrow>
     (\<forall>p \<in> set ps. DeclaredPort_validate p = Ok ()) \<and>
     distinct (map dp_name ps) \<and> set names \<inter> dp_name ` set ps = {} \<and>
     distinct (claimed ps) \<and> fst ` set pub \<inter> set (claimed ps) = {}"
proof (induction ps arbitrary: names pub)
  case Nil
  then show ?case by (simp add: claimed_def)
next
  case (Cons p ps)
  show ?case
  proof (cases "DeclaredPort_validate p = Ok () \<and> dp_name p \<notin> set names")
    case False
    then show ?thesis by (cases "DeclaredPort_validate p") auto
  next
    case True
    then have v: "DeclaredPort_validate p = Ok ()" and n: "dp_name p \<notin> set names" by auto
    show ?thesis
    proof (cases "published_port p")
      case None
      with v n Cons.IH [of "bs_insert (dp_name p) names" pub] Cons.prems show ?thesis
        by (auto simp: claimed_Cons)
    next
      case (Some q)
      let ?k = "(q, dp_protocol p)"
      show ?thesis
      proof (cases "bm_get pub ?k")
        case None
        have step: "validate_ports_from names pub (p # ps) =
            validate_ports_from (bs_insert (dp_name p) names) (bm_insert ?k (dp_name p) pub) ps"
          using None Some v n by simp
        have "?k \<notin> fst ` set pub" using None by (simp add: bm_get_None_iff)
        then show ?thesis
          unfolding step using Some v n Cons.IH [of "bs_insert (dp_name p) names" "bm_insert ?k (dp_name p) pub"] Cons.prems
          by (auto simp: claimed_Cons)
      next
        case (Some other)
        then have "?k \<in> fst ` set pub" using bm_get_None_iff [of pub ?k] by auto
        with Some v n \<open>published_port p = Some q\<close> show ?thesis by (auto simp: claimed_Cons)
      qed
    qed
  qed
qed

lemma validate_ports_Ok_iff:
  "validate_ports ps = Ok () \<longleftrightarrow>
     (\<forall>p \<in> set ps. DeclaredPort_validate p = Ok ()) \<and> distinct (map dp_name ps) \<and> distinct (claimed ps)"
  by (simp add: validate_ports_def validate_ports_from_Ok_iff)

section \<open>Properties\<close>

text \<open>
  The check of a workload's ports accepts a list exactly when no entry binds an address
  itself, every entry is valid on its own, no two entries share a name and no two entries
  claim the same real port of the same transport.
\<close>

theorem workload_ports_accepted_iff:
  "validate_workload_ports ps = Ok () \<longleftrightarrow>
     list_all (\<lambda>p. dp_bind p = None \<and> DeclaredPort_validate p = Ok ()) ps \<and>
     distinct (map dp_name ps) \<and> distinct (claimed ps)"
proof (cases "find (\<lambda>p. dp_bind p \<noteq> None) ps")
  case None
  then have "\<forall>p \<in> set ps. dp_bind p = None" by (auto simp: find_None_iff)
  with None show ?thesis by (auto simp: validate_workload_ports_def validate_ports_Ok_iff list_all_iff)
next
  case (Some p)
  then have "p \<in> set ps" "dp_bind p \<noteq> None" by (auto simp: find_Some_iff)
  with Some show ?thesis by (auto simp: validate_workload_ports_def list_all_iff)
qed

text \<open>
  A direct bind is refused only when the address as written is unspecified, loopback or
  multicast. The IPv4-mapped spelling of an unspecified or loopback address is none of
  these, so the declaration is accepted although the socket it asks for is the same one.
\<close>

theorem mapped_direct_bind_is_accepted:
  assumes "trim name \<noteq> []" and "port \<noteq> 0"
  shows "validate_plugin_ports
      [\<lparr>dp_name = name, dp_port = port, dp_protocol = Tcp, dp_publish = None, dp_bind = Some (V4 v4_unspecified)\<rparr>]
        = Err (BindUnspecified name) \<and>
    validate_plugin_ports
      [\<lparr>dp_name = name, dp_port = port, dp_protocol = Tcp, dp_publish = None,
        dp_bind = Some (V6 (to_ipv6_mapped v4_unspecified))\<rparr>] = Ok ()"
  using assms
  by (simp add: validate_plugin_ports_def validate_ports_def DeclaredPort_validate_def DeclaredPort_mode_def
      published_port_def v4_unspecified_def v4_is_unspecified_def v6_is_unspecified_def v6_unspecified_def
      v6_is_loopback_def v6_localhost_def)

theorem mapped_direct_bind_is_accepted_witness:
  "validate_plugin_ports
      [\<lparr>dp_name = ''grpc'', dp_port = 9090, dp_protocol = Tcp, dp_publish = None,
        dp_bind = Some (V6 (to_ipv6_mapped v4_unspecified))\<rparr>] = Ok ()"
proof -
  have "trim ''grpc'' = ''grpc''" by (rule trim_graphic) (simp add: is_ascii_graphic_def)
  then have "trim ''grpc'' \<noteq> []" by simp
  from mapped_direct_bind_is_accepted [OF this, of 9090] show ?thesis by simp
qed

end
