(* ===== verification/Loopback_Ports.thy ===== *)
theory Loopback_Ports
  imports Declared_Ports
begin

text \<open>
  The allowlist of the machine's own loopback ports: \<open>host/allowed_loopback.rs\<close>. An entry is
  one port and its transport; there is no range and no wildcard.
\<close>

record AllowedLoopbackPort =
  lp_port :: u16
  lp_protocol :: protocol

definition AllowedLoopbackPort_tcp :: "u16 \<Rightarrow> AllowedLoopbackPort" where
  "AllowedLoopbackPort_tcp port = \<lparr>lp_port = port, lp_protocol = Tcp\<rparr>"

definition AllowedLoopbackPort_udp :: "u16 \<Rightarrow> AllowedLoopbackPort" where
  "AllowedLoopbackPort_udp port = \<lparr>lp_port = port, lp_protocol = Udp\<rparr>"

definition AllowedLoopbackPort_permits :: "AllowedLoopbackPort \<Rightarrow> socket_addr \<Rightarrow> protocol \<Rightarrow> bool" where
  "AllowedLoopbackPort_permits entry addr protocol \<longleftrightarrow>
     lp_port entry = sa_port addr \<and> lp_protocol entry = protocol"

definition check_allowed_loopback :: "AllowedLoopbackPort list \<Rightarrow> socket_addr \<Rightarrow> protocol \<Rightarrow> bool" where
  "check_allowed_loopback policy addr protocol =
     list_ex (\<lambda>entry. AllowedLoopbackPort_permits entry addr protocol) policy"

datatype loopback_entry_error =
    LoopbackEmpty
  | LoopbackRange string
  | LoopbackWildcard string
  | LoopbackProtocol string string
  | LoopbackPort string
  | LoopbackZero string
  | LoopbackNegative int

definition loopback_protocol :: "string \<Rightarrow> string \<Rightarrow> (loopback_entry_error, protocol) result" where
  "loopback_protocol trimmed proto =
     (let proto = to_ascii_lowercase (trim proto) in
      if proto = ''tcp'' then Ok Tcp
      else if proto = ''udp'' then Ok Udp
      else Err (LoopbackProtocol trimmed proto))"

definition AllowedLoopbackPort_from_str :: "string \<Rightarrow> (loopback_entry_error, AllowedLoopbackPort) result" where
  "AllowedLoopbackPort_from_str s =
     (let trimmed = trim s in
      if trimmed = [] then Err LoopbackEmpty
      else if CHR ''-'' \<in> set trimmed \<or> contains_str ''..'' trimmed then Err (LoopbackRange trimmed)
      else if CHR ''*'' \<in> set trimmed then Err (LoopbackWildcard trimmed)
      else bind_result
        (case split_once CHR ''/'' trimmed of
           Some (port, proto) \<Rightarrow>
             bind_result (loopback_protocol trimmed proto) (\<lambda>protocol. Ok (trim port, protocol))
         | None \<Rightarrow> Ok (trimmed, Tcp))
        (\<lambda>(port, protocol).
           case parse_u16 port of
             None \<Rightarrow> Err (LoopbackPort trimmed)
           | Some port \<Rightarrow>
               if port = 0 then Err (LoopbackZero trimmed)
               else Ok \<lparr>lp_port = port, lp_protocol = protocol\<rparr>))"

definition AllowedLoopbackPort_display :: "AllowedLoopbackPort \<Rightarrow> string" where
  "AllowedLoopbackPort_display e =
     (case lp_protocol e of Tcp \<Rightarrow> show_u16 (lp_port e) | Udp \<Rightarrow> show_u16 (lp_port e) @ ''/udp'')"

text \<open>The visitor of \<open>Deserialize\<close>: a number is printed and parsed as text.\<close>

definition visit_u64 :: "u64 \<Rightarrow> (loopback_entry_error, AllowedLoopbackPort) result" where
  "visit_u64 value = AllowedLoopbackPort_from_str (show_nat (unat value))"

definition visit_i64 :: "64 word \<Rightarrow> (loopback_entry_error, AllowedLoopbackPort) result" where
  "visit_i64 value =
     (if sint value < 0 then Err (LoopbackNegative (sint value))
      else AllowedLoopbackPort_from_str (show_nat (nat (sint value))))"

definition visit_str :: "string \<Rightarrow> (loopback_entry_error, AllowedLoopbackPort) result" where
  "visit_str value = AllowedLoopbackPort_from_str value"

interpretation loopback_ports: allowlist "\<lambda>e (addr, protocol). AllowedLoopbackPort_permits e addr protocol"
    "\<lambda>ps (addr, protocol). check_allowed_loopback ps addr protocol"
  by unfold_locales (auto simp: check_allowed_loopback_def list_ex_iff)

section \<open>Lemmas\<close>

lemma show_u16_avoids: "\<not> is_ascii_digit c \<Longrightarrow> c \<notin> set (show_u16 w)"
  by (simp add: show_u16_def show_nat_avoids)

lemma trim_show_u16 [simp]: "trim (show_u16 w) = show_u16 w"
  by (rule trim_graphic) (simp add: show_u16_def show_nat_graphic)

lemma show_u16_ne [simp]: "show_u16 w \<noteq> []"
  by (simp add: show_u16_def)

lemma no_dots: "CHR ''.'' \<notin> set s \<Longrightarrow> \<not> contains_str ''..'' s"
  by (auto simp: contains_str_iff sublist_def)

lemma from_str_port_text:
  assumes "p \<noteq> 0" "CHR ''-'' \<notin> set s" "CHR ''.'' \<notin> set s" "CHR ''*'' \<notin> set s"
    and "CHR ''/'' \<notin> set s" "trim s = s" "s \<noteq> []" "parse_u16 s = Some p"
  shows "AllowedLoopbackPort_from_str s = Ok (AllowedLoopbackPort_tcp p)"
proof -
  have "split_once CHR ''/'' s = None" using assms(5) by (simp add: split_once_None_iff)
  with assms no_dots [OF assms(3)] show ?thesis
    by (simp add: AllowedLoopbackPort_from_str_def AllowedLoopbackPort_tcp_def)
qed

lemma from_str_udp_text:
  assumes "p \<noteq> 0"
  shows "AllowedLoopbackPort_from_str (show_u16 p @ ''/udp'') = Ok (AllowedLoopbackPort_udp p)"
proof -
  let ?s = "show_u16 p @ ''/udp''"
  have avoid: "CHR ''-'' \<notin> set ?s" "CHR ''.'' \<notin> set ?s" "CHR ''*'' \<notin> set ?s"
    using show_u16_avoids [OF not_digit_chars(2)] show_u16_avoids [OF not_digit_chars(3)]
      show_u16_avoids [OF not_digit_chars(4)] by simp_all
  have "split_once CHR ''/'' ?s = Some (show_u16 p, ''udp'')"
    using show_u16_avoids [OF not_digit_chars(5)] by (simp add: split_once_Some_iff)
  moreover have "trim ?s = ?s"
    by (rule trim_graphic) (simp add: show_u16_def show_nat_graphic, simp add: is_ascii_graphic_def)
  moreover have "loopback_protocol ?s ''udp'' = Ok Udp"
  proof -
    have "trim ''udp'' = ''udp''" by (rule trim_graphic) (simp add: is_ascii_graphic_def)
    moreover have "to_ascii_lowercase ''udp'' = ''udp''" by code_simp
    ultimately show ?thesis by (simp add: loopback_protocol_def)
  qed
  ultimately show ?thesis
    using assms avoid no_dots [OF avoid(2)]
    by (simp add: AllowedLoopbackPort_from_str_def AllowedLoopbackPort_udp_def)
qed

section \<open>Properties\<close>

text \<open>
  The wire format of a loopback grant is faithful: every entry with a port parses back
  to itself from its own text, whatever the transport, and no text at all parses to port 0.
\<close>

theorem loopback_entry_round_trip:
  "(AllowedLoopbackPort_from_str (AllowedLoopbackPort_display \<lparr>lp_port = p, lp_protocol = t\<rparr>) =
      (if p = 0 then Err (LoopbackZero (AllowedLoopbackPort_display \<lparr>lp_port = p, lp_protocol = t\<rparr>))
       else Ok \<lparr>lp_port = p, lp_protocol = t\<rparr>)) \<and>
   AllowedLoopbackPort_from_str s \<noteq> Ok \<lparr>lp_port = 0, lp_protocol = t\<rparr>"
proof -
  note av = show_u16_avoids [OF not_digit_chars(2)] show_u16_avoids [OF not_digit_chars(3)]
    show_u16_avoids [OF not_digit_chars(4)] show_u16_avoids [OF not_digit_chars(5)]
  have zero: "AllowedLoopbackPort_from_str (AllowedLoopbackPort_display \<lparr>lp_port = 0, lp_protocol = t\<rparr>) =
      Err (LoopbackZero (AllowedLoopbackPort_display \<lparr>lp_port = 0, lp_protocol = t\<rparr>))"
    by (cases t) (simp, code_simp)+
  have "AllowedLoopbackPort_from_str (show_u16 p) = Ok (AllowedLoopbackPort_tcp p)" if "p \<noteq> 0"
    using that av by (intro from_str_port_text) simp_all
  then have "p \<noteq> 0 \<Longrightarrow> AllowedLoopbackPort_from_str (AllowedLoopbackPort_display \<lparr>lp_port = p, lp_protocol = t\<rparr>) =
      Ok \<lparr>lp_port = p, lp_protocol = t\<rparr>"
    using from_str_udp_text [of p]
    by (cases t) (simp_all add: AllowedLoopbackPort_display_def AllowedLoopbackPort_tcp_def AllowedLoopbackPort_udp_def)
  moreover have "AllowedLoopbackPort_from_str s \<noteq> Ok \<lparr>lp_port = 0, lp_protocol = t\<rparr>"
    by (auto simp: AllowedLoopbackPort_from_str_def Let_def bind_result_Inr_iff split: if_splits option.splits)
  ultimately show ?thesis using zero by simp
qed

end
