(* ===== verification/Nats_Policy.thy ===== *)
theory Nats_Policy
  imports Interfaces
begin

text \<open>
  Authorization of NATS subjects, streams and buckets: \<open>plugin/wasmcloud_nats/policy.rs\<close>.

  A pattern denotes the set of concrete subjects it matches. The lemmas tie the three
  decision procedures on patterns to that meaning: \<open>matches\<close> is membership, \<open>contains\<close> is
  inclusion and \<open>overlaps\<close> is a common element. The checks a workload's publish and
  subscribe calls go through are then stated over concrete subjects.
\<close>

section \<open>Patterns\<close>

datatype token = Literal string | AnyToken

record NatsSubjectPattern =
  sp_tokens :: "token list"
  sp_trailing :: bool
  sp_valid :: bool

text \<open>The loop of \<open>parse\<close> over the remaining parts, which \<open>>\<close> leaves early.\<close>

fun parse_parts :: "string list \<Rightarrow> token list \<Rightarrow> bool \<Rightarrow> NatsSubjectPattern" where
  "parse_parts [] tokens valid = \<lparr>sp_tokens = tokens, sp_trailing = False, sp_valid = valid\<rparr>"
| "parse_parts (part # rest) tokens valid =
     (if part = ''>'' then
        \<lparr>sp_tokens = tokens, sp_trailing = True, sp_valid = (if rest \<noteq> [] then False else valid)\<rparr>
      else if part = ''*'' then parse_parts rest (tokens @ [AnyToken]) valid
      else if part = '''' then parse_parts rest tokens False
      else parse_parts rest (tokens @ [Literal part]) valid)"

definition NatsSubjectPattern_parse :: "string \<Rightarrow> NatsSubjectPattern" where
  "NatsSubjectPattern_parse raw = parse_parts (split_on CHR ''.'' raw) [] (raw \<noteq> [])"

definition token_matches :: "token \<Rightarrow> string \<Rightarrow> bool" where
  "token_matches token part = (case token of AnyToken \<Rightarrow> True | Literal literal \<Rightarrow> literal = part)"

definition NatsSubjectPattern_matches :: "NatsSubjectPattern \<Rightarrow> string \<Rightarrow> bool" where
  "NatsSubjectPattern_matches p subject =
     (if \<not> sp_valid p then False
      else (let parts = split_on CHR ''.'' subject in
        if sp_trailing p \<and> length parts \<le> length (sp_tokens p) then False
        else if \<not> sp_trailing p \<and> length parts \<noteq> length (sp_tokens p) then False
        else list_all (\<lambda>(token, part). token_matches token part) (zip (sp_tokens p) parts)))"

definition token_covers :: "token \<Rightarrow> token \<Rightarrow> bool" where
  "token_covers grant request =
     (case (grant, request) of
        (AnyToken, _) \<Rightarrow> True
      | (Literal g, Literal r) \<Rightarrow> g = r
      | (Literal _, AnyToken) \<Rightarrow> False)"

definition NatsSubjectPattern_contains :: "NatsSubjectPattern \<Rightarrow> NatsSubjectPattern \<Rightarrow> bool" where
  "NatsSubjectPattern_contains p other =
     (if \<not> sp_valid p \<or> \<not> sp_valid other then False
      else if sp_trailing other \<and> \<not> sp_trailing p then False
      else if sp_trailing p \<and>
        length (sp_tokens other) <
          (if sp_trailing other then length (sp_tokens p) else length (sp_tokens p) + 1) then False
      else if \<not> sp_trailing p \<and> length (sp_tokens p) \<noteq> length (sp_tokens other) then False
      else list_all (\<lambda>(grant, request). token_covers grant request)
             (zip (sp_tokens p) (sp_tokens other)))"

definition token_meets :: "token \<Rightarrow> token \<Rightarrow> bool" where
  "token_meets mine theirs =
     (case (mine, theirs) of
        (AnyToken, _) \<Rightarrow> True
      | (_, AnyToken) \<Rightarrow> True
      | (Literal a, Literal b) \<Rightarrow> a = b)"

definition NatsSubjectPattern_overlaps :: "NatsSubjectPattern \<Rightarrow> NatsSubjectPattern \<Rightarrow> bool" where
  "NatsSubjectPattern_overlaps p other =
     (if \<not> sp_valid p \<or> \<not> sp_valid other then False
      else if \<not> list_all (\<lambda>(mine, theirs). token_meets mine theirs)
                 (take (min (length (sp_tokens p)) (length (sp_tokens other)))
                    (zip (sp_tokens p) (sp_tokens other))) then False
      else if length (sp_tokens p) = length (sp_tokens other) then sp_trailing p = sp_trailing other
      else if length (sp_tokens p) < length (sp_tokens other) then sp_trailing p
      else sp_trailing other)"

section \<open>The policy engine\<close>

datatype denied = Reserved | NotGranted | WildcardNotAllowed

definition RESERVED_SUBJECT_PREFIXES :: "string list" where
  "RESERVED_SUBJECT_PREFIXES = [''$JS.'', ''$SYS.'', ''$KV.'', ''$OBJ.'', ''_nats_push.'']"

definition INBOX_TOKEN_PREFIX :: string where
  "INBOX_TOKEN_PREFIX = ''_INBOX''"

definition BUCKET_BACKING_STREAM_PREFIXES :: "string list" where
  "BUCKET_BACKING_STREAM_PREFIXES = [''KV_'', ''OBJ_'']"

record PolicySpec =
  spec_subject_allow :: "string list"
  spec_stream_allow :: "string list"
  spec_bucket_allow :: "string list"

record PolicyEngine =
  subject_allow :: "NatsSubjectPattern list"
  subject_allow_raw :: "string list"
  stream_allow :: "NatsSubjectPattern list"
  bucket_allow :: "NatsSubjectPattern list"
  lattice_prefixes :: "string list"

definition PolicyEngine_new :: "PolicySpec \<Rightarrow> string list \<Rightarrow> PolicyEngine" where
  "PolicyEngine_new spec lattice =
     \<lparr>subject_allow = map NatsSubjectPattern_parse (spec_subject_allow spec),
      subject_allow_raw = spec_subject_allow spec,
      stream_allow = map NatsSubjectPattern_parse (spec_stream_allow spec),
      bucket_allow = map NatsSubjectPattern_parse (spec_bucket_allow spec),
      lattice_prefixes = lattice\<rparr>"

definition reaches_reserved :: "string \<Rightarrow> string list \<Rightarrow> bool" where
  "reaches_reserved pattern lattice =
     (let first = hd (split_on CHR ''.'' pattern) in
      if first = ''*'' \<or> first = ''>'' then True
      else if prefix INBOX_TOKEN_PREFIX first then True
      else (let requested = NatsSubjectPattern_parse pattern in
        list_ex (\<lambda>pre. NatsSubjectPattern_overlaps requested (NatsSubjectPattern_parse (pre @ ''>'')))
          (RESERVED_SUBJECT_PREFIXES @ lattice)))"

definition granted_subject_patterns :: "PolicyEngine \<Rightarrow> string list" where
  "granted_subject_patterns p = subject_allow_raw p"

definition overlaps_subject_pattern :: "PolicyEngine \<Rightarrow> string \<Rightarrow> bool" where
  "overlaps_subject_pattern p pattern =
     (if reaches_reserved pattern (lattice_prefixes p) then False
      else (let other = NatsSubjectPattern_parse pattern in
        list_ex (\<lambda>granted. NatsSubjectPattern_overlaps granted other) (subject_allow p)))"

definition is_reserved :: "PolicyEngine \<Rightarrow> string \<Rightarrow> bool" where
  "is_reserved p subject \<longleftrightarrow>
     list_ex (\<lambda>pre. prefix pre subject \<or> subject = trim_end_matches CHR ''.'' pre)
       RESERVED_SUBJECT_PREFIXES
     \<or> list_ex (\<lambda>pre. prefix pre subject) (lattice_prefixes p)"

definition check_subject :: "PolicyEngine \<Rightarrow> string \<Rightarrow> (denied, unit) result" where
  "check_subject p subject =
     (if subject = [] \<or> list_ex (\<lambda>t. t = []) (split_on CHR ''.'' subject) then Err NotGranted
      else if list_ex (\<lambda>t. t = ''*'' \<or> t = ''>'') (split_on CHR ''.'' subject)
      then Err WildcardNotAllowed
      else if is_reserved p subject then Err Reserved
      else if list_ex (\<lambda>g. NatsSubjectPattern_matches g subject) (subject_allow p) then Ok ()
      else Err NotGranted)"

definition check_subscription :: "PolicyEngine \<Rightarrow> string \<Rightarrow> (denied, unit) result" where
  "check_subscription p pattern =
     (if is_reserved p pattern \<or> reaches_reserved pattern (lattice_prefixes p) then Err Reserved
      else (let requested = NatsSubjectPattern_parse pattern in
        if list_ex (\<lambda>g. NatsSubjectPattern_contains g requested) (subject_allow p) then Ok ()
        else Err NotGranted))"

definition check_filter :: "PolicyEngine \<Rightarrow> string \<Rightarrow> (denied, unit) result" where
  "check_filter p pattern =
     (let requested = NatsSubjectPattern_parse pattern in
      if list_ex (\<lambda>g. NatsSubjectPattern_contains g requested) (subject_allow p) then Ok ()
      else Err NotGranted)"

definition check_stored_subject :: "PolicyEngine \<Rightarrow> string \<Rightarrow> (denied, unit) result" where
  "check_stored_subject p subject =
     (if list_ex (\<lambda>g. NatsSubjectPattern_matches g subject) (subject_allow p) then Ok ()
      else Err NotGranted)"

definition check_stream :: "PolicyEngine \<Rightarrow> string \<Rightarrow> (denied, unit) result" where
  "check_stream p stream =
     (if prefix ''$'' stream then Err Reserved
      else (case find_map (\<lambda>pre. strip_prefix pre stream) BUCKET_BACKING_STREAM_PREFIXES of
              Some bucket \<Rightarrow>
                if list_ex (\<lambda>g. NatsSubjectPattern_matches g bucket) (bucket_allow p) then Ok ()
                else Err Reserved
            | None \<Rightarrow>
                if list_ex (\<lambda>g. NatsSubjectPattern_matches g stream) (stream_allow p) then Ok ()
                else Err NotGranted))"

definition check_bucket :: "PolicyEngine \<Rightarrow> string \<Rightarrow> (denied, unit) result" where
  "check_bucket p bucket =
     (if list_ex (\<lambda>g. NatsSubjectPattern_matches g bucket) (bucket_allow p) then Ok ()
      else Err NotGranted)"

section \<open>Grants as allowlists\<close>

interpretation nats_subjects: allowlist NatsSubjectPattern_matches
    "\<lambda>grants s. check_stored_subject (p\<lparr>subject_allow := grants\<rparr>) s = Ok ()" for p
  by unfold_locales (simp add: check_stored_subject_def list_ex_iff)

interpretation nats_filters: allowlist "\<lambda>g f. NatsSubjectPattern_contains g (NatsSubjectPattern_parse f)"
    "\<lambda>grants f. check_filter (p\<lparr>subject_allow := grants\<rparr>) f = Ok ()" for p
  by unfold_locales (simp add: check_filter_def Let_def list_ex_iff)

section \<open>The meaning of a pattern\<close>

text \<open>A subject a message can be published on: every token is there and none is a wildcard.\<close>

definition concrete_token :: "string \<Rightarrow> bool" where
  "concrete_token t \<longleftrightarrow> t \<noteq> [] \<and> t \<noteq> ''*'' \<and> t \<noteq> ''>'' \<and> CHR ''.'' \<notin> set t"

definition concrete :: "string \<Rightarrow> bool" where
  "concrete s \<longleftrightarrow> (\<forall>t \<in> set (split_on CHR ''.'' s). concrete_token t)"

text \<open>The lengths a pattern admits, and its literals are tokens.\<close>

definition admits_length :: "NatsSubjectPattern \<Rightarrow> nat \<Rightarrow> bool" where
  "admits_length p n \<longleftrightarrow> (if sp_trailing p then length (sp_tokens p) < n else n = length (sp_tokens p))"

definition pattern_wf :: "NatsSubjectPattern \<Rightarrow> bool" where
  "pattern_wf p \<longleftrightarrow> sp_valid p \<and> (sp_tokens p \<noteq> [] \<or> sp_trailing p) \<and>
     (\<forall>l. Literal l \<in> set (sp_tokens p) \<longrightarrow> concrete_token l)"

lemma matches_iff:
  "NatsSubjectPattern_matches p s \<longleftrightarrow> sp_valid p \<and>
     admits_length p (length (split_on CHR ''.'' s)) \<and>
     (\<forall>i < length (sp_tokens p). token_matches (sp_tokens p ! i) (split_on CHR ''.'' s ! i))"
  by (auto simp: NatsSubjectPattern_matches_def admits_length_def Let_def list_all_length)

lemma contains_iff:
  "NatsSubjectPattern_contains g r \<longleftrightarrow> sp_valid g \<and> sp_valid r \<and>
     (if sp_trailing r then sp_trailing g \<and> length (sp_tokens g) \<le> length (sp_tokens r)
      else admits_length g (length (sp_tokens r))) \<and>
     (\<forall>i < length (sp_tokens g). token_covers (sp_tokens g ! i) (sp_tokens r ! i))"
  by (auto simp: NatsSubjectPattern_contains_def admits_length_def list_all_length)

lemma overlaps_iff:
  "NatsSubjectPattern_overlaps a b \<longleftrightarrow> sp_valid a \<and> sp_valid b \<and>
     (if length (sp_tokens a) = length (sp_tokens b) then sp_trailing a = sp_trailing b
      else if length (sp_tokens a) < length (sp_tokens b) then sp_trailing a else sp_trailing b) \<and>
     (\<forall>i < min (length (sp_tokens a)) (length (sp_tokens b)).
        token_meets (sp_tokens a ! i) (sp_tokens b ! i))"
  by (auto simp: NatsSubjectPattern_overlaps_def list_all_length)

definition token_of :: "string \<Rightarrow> token" where
  "token_of q = (if q = ''*'' then AnyToken else Literal q)"

lemma parse_parts_valid:
  "sp_valid (parse_parts ps ts v) \<Longrightarrow>
   \<exists>qs tr. v \<and> (\<forall>q \<in> set qs. q \<noteq> [] \<and> q \<noteq> ''>'') \<and> ps = qs @ (if tr then [''>''] else []) \<and>
     parse_parts ps ts v = \<lparr>sp_tokens = ts @ map token_of qs, sp_trailing = tr, sp_valid = True\<rparr>"
proof (induction ps arbitrary: ts v)
  case Nil
  then show ?case by (intro exI [of _ "[]"] exI [of _ False]) auto
next
  case (Cons part rest)
  show ?case
  proof (cases "part = ''>''")
    case True
    with Cons.prems show ?thesis by (intro exI [of _ "[]"] exI [of _ True]) (auto split: if_splits)
  next
    case False
    have ne: "part \<noteq> []" using Cons.IH [of ts False] Cons.prems False by auto
    then have step: "parse_parts (part # rest) ts v = parse_parts rest (ts @ [token_of part]) v"
      using False by (simp add: token_of_def)
    with Cons.prems have "sp_valid (parse_parts rest (ts @ [token_of part]) v)" by (simp only:)
    from Cons.IH [OF this] obtain qs tr where q: "v" "\<forall>q \<in> set qs. q \<noteq> [] \<and> q \<noteq> ''>''"
      "rest = qs @ (if tr then [''>''] else [])"
      "parse_parts rest (ts @ [token_of part]) v =
         \<lparr>sp_tokens = (ts @ [token_of part]) @ map token_of qs, sp_trailing = tr, sp_valid = True\<rparr>"
      by blast
    have "part # rest = (part # qs) @ (if tr then [''>''] else [])" by (simp add: q(3))
    moreover have "\<forall>q \<in> set (part # qs). q \<noteq> [] \<and> q \<noteq> ''>''" using q(2) ne False by simp
    moreover have "parse_parts (part # rest) ts v =
        \<lparr>sp_tokens = ts @ map token_of (part # qs), sp_trailing = tr, sp_valid = True\<rparr>"
      unfolding step q(4) by simp
    ultimately show ?thesis using q(1) by blast
  qed
qed

lemma parse_wf:
  assumes "sp_valid (NatsSubjectPattern_parse raw)"
  shows "pattern_wf (NatsSubjectPattern_parse raw)"
proof -
  obtain qs tr where q: "\<forall>q \<in> set qs. q \<noteq> [] \<and> q \<noteq> ''>''"
    "split_on CHR ''.'' raw = qs @ (if tr then [''>''] else [])"
    "NatsSubjectPattern_parse raw = \<lparr>sp_tokens = map token_of qs, sp_trailing = tr, sp_valid = True\<rparr>"
    using parse_parts_valid [OF assms [unfolded NatsSubjectPattern_parse_def]]
    by (auto simp: NatsSubjectPattern_parse_def)
  have "CHR ''.'' \<notin> set q" if "q \<in> set qs" for q
    using split_on_no_sep [of q "CHR ''.''" raw] q(2) that by simp
  moreover have "qs \<noteq> [] \<or> tr" using q(2) split_on_ne [of "CHR ''.''" raw] by (metis append_Nil)
  ultimately show ?thesis
    unfolding q(3) using q(1) by (auto simp: pattern_wf_def concrete_token_def token_of_def split: if_splits)
qed

lemma parse_parts_literal:
  "(\<forall>t \<in> set ts. concrete_token t) \<Longrightarrow>
   parse_parts ts acc v = \<lparr>sp_tokens = acc @ map Literal ts, sp_trailing = False, sp_valid = v\<rparr>"
  by (induction ts arbitrary: acc) (auto simp: concrete_token_def)

lemma parse_parts_literal_tail:
  "(\<forall>t \<in> set ts. concrete_token t) \<Longrightarrow>
   parse_parts (ts @ [''>'']) acc v = \<lparr>sp_tokens = acc @ map Literal ts, sp_trailing = True, sp_valid = v\<rparr>"
  by (induction ts arbitrary: acc) (auto simp: concrete_token_def)

text \<open>A subject from its tokens.\<close>

lemma concrete_join:
  assumes "ts \<noteq> []" "\<forall>t \<in> set ts. concrete_token t"
  shows "split_on CHR ''.'' (join_with CHR ''.'' ts) = ts" "concrete (join_with CHR ''.'' ts)"
proof -
  show "split_on CHR ''.'' (join_with CHR ''.'' ts) = ts"
    using assms by (intro split_on_join) (auto simp: concrete_token_def)
  with assms show "concrete (join_with CHR ''.'' ts)" by (simp add: concrete_def)
qed

text \<open>A token that is none of the given ones.\<close>

definition fresh_token :: "string list \<Rightarrow> string" where
  "fresh_token ls = replicate (Suc (sum_list (map length ls))) CHR ''x''"

lemma fresh_token_concrete: "concrete_token (fresh_token ls)"
  by (simp add: fresh_token_def concrete_token_def)

lemma fresh_token_fresh: "fresh_token ls \<notin> set ls"
proof
  assume "fresh_token ls \<in> set ls"
  then have "length (fresh_token ls) \<le> sum_list (map length ls)"
    by (intro member_le_sum_list) auto
  then show False by (simp add: fresh_token_def)
qed

definition literals :: "token list \<Rightarrow> string list" where
  "literals ts = concat (map (\<lambda>t. case t of Literal l \<Rightarrow> [l] | AnyToken \<Rightarrow> []) ts)"

lemma set_literals: "l \<in> set (literals ts) \<longleftrightarrow> Literal l \<in> set ts"
  by (auto simp: literals_def split: token.splits)

text \<open>A subject the pattern \<open>r\<close> matches, of any length it admits: a wildcard becomes \<open>x\<close>.\<close>

definition instance_of :: "NatsSubjectPattern \<Rightarrow> string \<Rightarrow> nat \<Rightarrow> string list" where
  "instance_of r x n =
     map (\<lambda>i. if i < length (sp_tokens r)
              then (case sp_tokens r ! i of Literal l \<Rightarrow> l | AnyToken \<Rightarrow> x) else x) [0..<n]"

lemma length_instance_of [simp]: "length (instance_of r x n) = n"
  by (simp add: instance_of_def)

lemma instance_of_matches:
  assumes "pattern_wf r" "concrete_token x" "admits_length r n"
  shows "NatsSubjectPattern_matches r (join_with CHR ''.'' (instance_of r x n))"
    "concrete (join_with CHR ''.'' (instance_of r x n))"
    "split_on CHR ''.'' (join_with CHR ''.'' (instance_of r x n)) = instance_of r x n"
proof -
  have n: "length (sp_tokens r) \<le> n" "0 < n"
    using assms by (auto simp: admits_length_def pattern_wf_def split: if_splits)
  have "instance_of r x n \<noteq> []" using n by (simp add: instance_of_def)
  moreover have "\<forall>t \<in> set (instance_of r x n). concrete_token t"
    using assms nth_mem by (fastforce simp: instance_of_def pattern_wf_def split: token.splits)
  ultimately show "concrete (join_with CHR ''.'' (instance_of r x n))"
    and s: "split_on CHR ''.'' (join_with CHR ''.'' (instance_of r x n)) = instance_of r x n"
    using concrete_join by blast+
  show "NatsSubjectPattern_matches r (join_with CHR ''.'' (instance_of r x n))"
    unfolding matches_iff s
    using assms n by (auto simp: pattern_wf_def instance_of_def token_matches_def split: token.splits)
qed

section \<open>Containment and overlap\<close>

lemma covers_matches: "token_covers g r \<Longrightarrow> token_matches r x \<Longrightarrow> token_matches g x"
  by (auto simp: token_covers_def token_matches_def split: token.splits)

lemma contains_sound:
  assumes "NatsSubjectPattern_contains g r" "NatsSubjectPattern_matches r s"
  shows "NatsSubjectPattern_matches g s"
proof -
  let ?ps = "split_on CHR ''.'' s"
  have r: "admits_length r (length ?ps)" "\<forall>i < length (sp_tokens r). token_matches (sp_tokens r ! i) (?ps ! i)"
    using assms(2) by (simp_all add: matches_iff)
  have g: "sp_valid g" "\<forall>i < length (sp_tokens g). token_covers (sp_tokens g ! i) (sp_tokens r ! i)"
    and l: "length (sp_tokens g) \<le> length (sp_tokens r)" "admits_length g (length ?ps)"
    using assms(1) r(1) by (auto simp: contains_iff admits_length_def split: if_splits)
  then show ?thesis
    using r(2) covers_matches by (auto simp: matches_iff)
qed

lemma instance_covers:
  assumes "i < length (sp_tokens r)" "i < n" "x \<notin> set (literals (sp_tokens g))" "i < length (sp_tokens g)"
    "token_matches (sp_tokens g ! i) (instance_of r x n ! i)"
  shows "token_covers (sp_tokens g ! i) (sp_tokens r ! i)"
proof (cases "sp_tokens g ! i")
  case (Literal l)
  then have "l \<noteq> x" using assms(3,4) set_literals nth_mem by metis
  with assms Literal show ?thesis
    by (auto simp: token_covers_def token_matches_def instance_of_def split: token.splits)
qed (simp add: token_covers_def)

lemma contains_complete:
  assumes wf: "pattern_wf r" and g: "sp_valid g"
    and sub: "\<And>s. concrete s \<Longrightarrow> NatsSubjectPattern_matches r s \<Longrightarrow> NatsSubjectPattern_matches g s"
  shows "NatsSubjectPattern_contains g r"
proof -
  let ?x = "fresh_token (literals (sp_tokens g))" and ?r = "length (sp_tokens r)"
  have g_inst: "admits_length g n \<and> (\<forall>i < length (sp_tokens g). token_matches (sp_tokens g ! i) (instance_of r ?x n ! i))"
    if "admits_length r n" for n
  proof -
    note m = instance_of_matches [OF wf fresh_token_concrete [of "literals (sp_tokens g)"] that]
    have "NatsSubjectPattern_matches g (join_with CHR ''.'' (instance_of r ?x n))" using sub m(1,2) by blast
    then show ?thesis by (simp add: matches_iff m(3))
  qed
  have cov: "token_covers (sp_tokens g ! i) (sp_tokens r ! i)"
    if "i < length (sp_tokens g)" "i < ?r" "admits_length r n" for i n
  proof (rule instance_covers [OF that(2) _ fresh_token_fresh that(1)])
    show "i < n" using that(2,3) by (auto simp: admits_length_def split: if_splits)
    show "token_matches (sp_tokens g ! i) (instance_of r ?x n ! i)" using g_inst [OF that(3)] that(1) by blast
  qed
  show ?thesis
  proof (cases "sp_trailing r")
    case True
    then have a: "admits_length r (Suc ?r)" "admits_length r (Suc (Suc ?r))" by (auto simp: admits_length_def)
    then have "admits_length g (Suc ?r)" "admits_length g (Suc (Suc ?r))" using g_inst by blast+
    then have "sp_trailing g" "length (sp_tokens g) \<le> ?r" by (auto simp: admits_length_def split: if_splits)
    then show ?thesis using True wf g cov [OF _ _ a(1)] by (auto simp: contains_iff pattern_wf_def)
  next
    case False
    then have a: "admits_length r ?r" by (auto simp: admits_length_def)
    then have "admits_length g ?r" using g_inst by blast
    moreover from this have "length (sp_tokens g) \<le> ?r" by (auto simp: admits_length_def split: if_splits)
    ultimately show ?thesis using False wf g cov [OF _ _ a] by (auto simp: contains_iff pattern_wf_def)
  qed
qed

lemma meets_matches: "token_matches t x \<Longrightarrow> token_matches u x \<Longrightarrow> token_meets t u"
  by (auto simp: token_meets_def token_matches_def split: token.splits)

lemma overlaps_complete:
  assumes "NatsSubjectPattern_matches a s" "NatsSubjectPattern_matches b s"
  shows "NatsSubjectPattern_overlaps a b"
  using assms meets_matches
  by (auto simp: overlaps_iff matches_iff admits_length_def split: if_splits)

text \<open>A subject in both patterns: each position takes the literal of either side.\<close>

definition token_at :: "token list \<Rightarrow> nat \<Rightarrow> token" where
  "token_at ts i = (if i < length ts then ts ! i else AnyToken)"

definition common_token :: "token \<Rightarrow> token \<Rightarrow> string" where
  "common_token t u = (case t of Literal l \<Rightarrow> l | AnyToken \<Rightarrow> (case u of Literal l \<Rightarrow> l | AnyToken \<Rightarrow> ''x''))"

lemma common_token_matches:
  "token_meets t u \<Longrightarrow> token_matches t (common_token t u) \<and> token_matches u (common_token t u)"
  by (auto simp: token_meets_def token_matches_def common_token_def split: token.splits)

lemma common_token_concrete:
  assumes "pattern_wf a" "pattern_wf b"
  shows "concrete_token (common_token (token_at (sp_tokens a) i) (token_at (sp_tokens b) i))"
proof -
  have "concrete_token l" if "pattern_wf p" "token_at (sp_tokens p) i = Literal l" for p l
    using that nth_mem by (fastforce simp: token_at_def pattern_wf_def split: if_splits)
  then show ?thesis
    using assms by (auto simp: common_token_def concrete_token_def split: token.splits)
qed

lemma overlaps_sound:
  assumes wf: "pattern_wf a" "pattern_wf b" and o: "NatsSubjectPattern_overlaps a b"
  shows "\<exists>s. concrete s \<and> NatsSubjectPattern_matches a s \<and> NatsSubjectPattern_matches b s"
proof -
  let ?la = "length (sp_tokens a)" and ?lb = "length (sp_tokens b)"
  define n where "n = (if sp_trailing a \<and> sp_trailing b then Suc (max ?la ?lb)
                       else if sp_trailing a then ?lb else ?la)"
  define ts where "ts = map (\<lambda>i. common_token (token_at (sp_tokens a) i) (token_at (sp_tokens b) i)) [0..<n]"
  have n: "admits_length a n" "admits_length b n" "0 < n" "?la \<le> n" "?lb \<le> n"
    using o wf by (auto simp: n_def overlaps_iff admits_length_def pattern_wf_def split: if_splits)
  have "ts \<noteq> []" "\<forall>t \<in> set ts. concrete_token t"
    using n(3) common_token_concrete [OF wf] by (auto simp: ts_def)
  note s = concrete_join [OF this]
  have meet: "token_meets (token_at (sp_tokens a) i) (token_at (sp_tokens b) i)" for i
    using o by (auto simp: overlaps_iff token_at_def token_meets_def split: token.split)
  have "token_matches (sp_tokens a ! i) (ts ! i)" if "i < ?la" for i
    using common_token_matches [OF meet, of i] that n(4) by (auto simp: ts_def token_at_def split: if_splits)
  moreover have "token_matches (sp_tokens b ! i) (ts ! i)" if "i < ?lb" for i
    using common_token_matches [OF meet, of i] that n(5) by (auto simp: ts_def token_at_def split: if_splits)
  moreover have "length ts = n" by (simp add: ts_def)
  ultimately have "NatsSubjectPattern_matches a (join_with CHR ''.'' ts)" "NatsSubjectPattern_matches b (join_with CHR ''.'' ts)"
    using s(1) n wf by (auto simp: matches_iff pattern_wf_def)
  with s(2) show ?thesis by blast
qed

section \<open>Reserved subjects\<close>

text \<open>A prefix of whole tokens, each a literal, as the lattice prefixes of the host are.\<close>

definition prefix_wf :: "string \<Rightarrow> bool" where
  "prefix_wf pre \<longleftrightarrow>
     (\<exists>ts. ts \<noteq> [] \<and> (\<forall>t \<in> set ts. concrete_token t) \<and> pre = join_with CHR ''.'' ts @ ''.'')"

lemma split_on_dotted:
  assumes "ts \<noteq> []" "\<forall>t \<in> set ts. CHR ''.'' \<notin> set t"
  shows "split_on CHR ''.'' (join_with CHR ''.'' ts @ CHR ''.'' # s) = ts @ split_on CHR ''.'' s"
  using assms by (induction "CHR ''.''" ts rule: join_with.induct) auto

lemma prefix_wf_parse:
  assumes ts: "ts \<noteq> []" "\<forall>t \<in> set ts. concrete_token t" "pre = join_with CHR ''.'' ts @ ''.''"
  shows "NatsSubjectPattern_parse (pre @ ''>'') = \<lparr>sp_tokens = map Literal ts, sp_trailing = True, sp_valid = True\<rparr>"
proof -
  have "\<forall>t \<in> set ts. CHR ''.'' \<notin> set t" using ts(2) by (auto simp: concrete_token_def)
  from split_on_dotted [OF ts(1) this, of "''>''"]
  have "split_on CHR ''.'' (pre @ ''>'') = ts @ [''>'']" using ts(3) by simp
  then show ?thesis
    using parse_parts_literal_tail [OF ts(2), of "[]" True] by (simp add: NatsSubjectPattern_parse_def)
qed

lemma prefix_wf_matches:
  assumes pre: "prefix_wf pre" and p: "prefix pre s"
  shows "NatsSubjectPattern_matches (NatsSubjectPattern_parse (pre @ ''>'')) s"
proof -
  obtain ts where ts: "ts \<noteq> []" "\<forall>t \<in> set ts. concrete_token t" "pre = join_with CHR ''.'' ts @ ''.''"
    using pre by (auto simp: prefix_wf_def)
  then have nodot: "\<forall>t \<in> set ts. CHR ''.'' \<notin> set t" by (auto simp: concrete_token_def)
  obtain r where "s = pre @ r" using p by (auto simp: prefix_def)
  then have "split_on CHR ''.'' s = ts @ split_on CHR ''.'' r"
    using split_on_dotted [OF ts(1) nodot, of r] ts(3) by simp
  then show ?thesis
    unfolding prefix_wf_parse [OF ts] by (simp add: matches_iff admits_length_def token_matches_def nth_append)
qed

lemma join_with_append:
  "ts \<noteq> [] \<Longrightarrow> us \<noteq> [] \<Longrightarrow> join_with c (ts @ us) = join_with c ts @ c # join_with c us"
proof (induction c ts rule: join_with.induct)
  case (2 c p)
  then show ?case by (cases us) auto
qed auto

lemma prefix_wf_matchesD:
  assumes pre: "prefix_wf pre" and m: "NatsSubjectPattern_matches (NatsSubjectPattern_parse (pre @ ''>'')) s"
  shows "prefix pre s"
proof -
  obtain ts where ts: "ts \<noteq> []" "\<forall>t \<in> set ts. concrete_token t" "pre = join_with CHR ''.'' ts @ ''.''"
    using pre by (auto simp: prefix_wf_def)
  let ?ps = "split_on CHR ''.'' s"
  have m': "length ts < length ?ps \<and> (\<forall>i < length ts. ts ! i = ?ps ! i)"
    using m unfolding prefix_wf_parse [OF ts] by (auto simp: matches_iff admits_length_def token_matches_def)
  then have "?ps = ts @ drop (length ts) ?ps"
    by (intro nth_equalityI) (auto simp: nth_append)
  then have "s = join_with CHR ''.'' (ts @ drop (length ts) ?ps)" by (metis join_split_on)
  also have "\<dots> = pre @ join_with CHR ''.'' (drop (length ts) ?ps)"
    using m' ts(1,3) by (simp add: join_with_append)
  finally show ?thesis by (rule prefixI)
qed

lemma reserved_prefixes_wf: "pre \<in> set RESERVED_SUBJECT_PREFIXES \<Longrightarrow> prefix_wf pre"
proof -
  have one: "concrete_token t \<Longrightarrow> prefix_wf (t @ ''.'')" for t
    unfolding prefix_wf_def by (rule exI [of _ "[t]"]) simp
  assume "pre \<in> set RESERVED_SUBJECT_PREFIXES"
  then show ?thesis
    using one [of "''$JS''"] one [of "''$SYS''"] one [of "''$KV''"] one [of "''$OBJ''"] one [of "''_nats_push''"]
    by (auto simp: RESERVED_SUBJECT_PREFIXES_def concrete_token_def)
qed

lemma matches_head:
  assumes "NatsSubjectPattern_matches (NatsSubjectPattern_parse pat) s"
    "hd (split_on CHR ''.'' pat) \<noteq> ''*''" "hd (split_on CHR ''.'' pat) \<noteq> ''>''"
  shows "hd (split_on CHR ''.'' s) = hd (split_on CHR ''.'' pat)"
proof -
  have v: "sp_valid (NatsSubjectPattern_parse pat)" using assms(1) by (simp add: matches_iff)
  obtain qs tr where q: "split_on CHR ''.'' pat = qs @ (if tr then [''>''] else [])"
    "NatsSubjectPattern_parse pat = \<lparr>sp_tokens = map token_of qs, sp_trailing = tr, sp_valid = True\<rparr>"
    using parse_parts_valid [OF v [unfolded NatsSubjectPattern_parse_def]]
    by (auto simp: NatsSubjectPattern_parse_def)
  show ?thesis
  proof (cases qs)
    case Nil
    with q(1) assms(3) split_on_ne [of "CHR ''.''" pat] show ?thesis by (auto split: if_splits)
  next
    case (Cons h t)
    with q assms show ?thesis
      by (cases "split_on CHR ''.'' s") (auto simp: matches_iff token_of_def token_matches_def)
  qed
qed

lemma inbox_head: "prefix INBOX_TOKEN_PREFIX s \<Longrightarrow> prefix INBOX_TOKEN_PREFIX (hd (split_on CHR ''.'' s))"
proof -
  have gen: "CHR ''.'' \<notin> set w \<Longrightarrow> prefix w s \<Longrightarrow> prefix w (hd (split_on CHR ''.'' s))" for w s
  proof (induction w arbitrary: s)
    case (Cons c w)
    then obtain s' where s: "s = c # s'" "prefix w s'" by (cases s) auto
    with Cons.IH [of s'] Cons.prems show ?case by (cases "split_on CHR ''.'' s'") auto
  qed simp
  assume "prefix INBOX_TOKEN_PREFIX s"
  then show ?thesis by (intro gen) (simp_all add: INBOX_TOKEN_PREFIX_def)
qed

lemma single_token_pattern:
  assumes "NatsSubjectPattern_matches (NatsSubjectPattern_parse pat) t" "CHR ''.'' \<notin> set t"
    "hd (split_on CHR ''.'' pat) \<noteq> ''*''" "hd (split_on CHR ''.'' pat) \<noteq> ''>''"
  shows "pat = t"
proof -
  have v: "sp_valid (NatsSubjectPattern_parse pat)" using assms(1) by (simp add: matches_iff)
  obtain qs tr where q: "split_on CHR ''.'' pat = qs @ (if tr then [''>''] else [])"
    "NatsSubjectPattern_parse pat = \<lparr>sp_tokens = map token_of qs, sp_trailing = tr, sp_valid = True\<rparr>"
    using parse_parts_valid [OF v [unfolded NatsSubjectPattern_parse_def]]
    by (auto simp: NatsSubjectPattern_parse_def)
  have "split_on CHR ''.'' t = [t]" using assms(2) by simp
  with assms(1) q(2) have "qs = [] \<and> tr \<or> (\<exists>h. qs = [h] \<and> \<not> tr)"
    by (auto simp: matches_iff admits_length_def Suc_length_conv split: if_splits)
  with q(1) assms(4) obtain h where "split_on CHR ''.'' pat = [h]" by (auto split: if_splits)
  moreover from this have "pat = h" using join_split_on [of "CHR ''.''" pat] by simp
  ultimately show ?thesis using matches_head [OF assms(1,3,4)] assms(2) by simp
qed

lemma subscription_avoids_reserved:
  assumes lat: "\<forall>pre \<in> set (lattice_prefixes p). prefix_wf pre"
    and not_res: "\<not> is_reserved p pat" "\<not> reaches_reserved pat (lattice_prefixes p)"
    and m: "NatsSubjectPattern_matches (NatsSubjectPattern_parse pat) s" and s: "concrete s"
  shows "\<not> is_reserved p s" "\<not> prefix INBOX_TOKEN_PREFIX s"
proof -
  have hd: "hd (split_on CHR ''.'' pat) \<noteq> ''*''" "hd (split_on CHR ''.'' pat) \<noteq> ''>''"
    "\<not> prefix INBOX_TOKEN_PREFIX (hd (split_on CHR ''.'' pat))"
    and no: "\<forall>pre \<in> set (RESERVED_SUBJECT_PREFIXES @ lattice_prefixes p).
      \<not> NatsSubjectPattern_overlaps (NatsSubjectPattern_parse pat) (NatsSubjectPattern_parse (pre @ ''>''))"
    using not_res(2) by (auto simp: reaches_reserved_def Let_def list_ex_iff split: if_splits)
  show "\<not> prefix INBOX_TOKEN_PREFIX s" using inbox_head [of s] matches_head [OF m hd(1,2)] hd(3) by auto
  have pre: "\<not> prefix pre s" if "pre \<in> set (RESERVED_SUBJECT_PREFIXES @ lattice_prefixes p)" for pre
    using that no lat reserved_prefixes_wf prefix_wf_matches [of pre s] overlaps_complete [OF m]
    by (metis Un_iff set_append)
  have "s \<noteq> trim_end_matches CHR ''.'' pre" if "pre \<in> set RESERVED_SUBJECT_PREFIXES" for pre
  proof
    assume eq: "s = trim_end_matches CHR ''.'' pre"
    with that have "CHR ''.'' \<notin> set s" by (auto simp: RESERVED_SUBJECT_PREFIXES_def trim_end_matches_def)
    with m hd have "pat = s" using single_token_pattern by blast
    with eq that not_res(1) show False by (auto simp: is_reserved_def list_ex_iff)
  qed
  with pre show "\<not> is_reserved p s" by (auto simp: is_reserved_def list_ex_iff)
qed

section \<open>Literal subscriptions\<close>

lemma concrete_tokenD:
  "concrete s \<Longrightarrow> t \<in> set (split_on CHR ''.'' s) \<Longrightarrow> t \<noteq> [] \<and> t \<noteq> ''*'' \<and> t \<noteq> ''>''"
  by (simp add: concrete_def concrete_token_def)

lemma concrete_not_empty: "concrete s \<Longrightarrow> s \<noteq> []"
  using concrete_tokenD [of s "[]"] by (cases s) simp_all

lemma parse_concrete:
  assumes "concrete s"
  shows "NatsSubjectPattern_parse s =
     \<lparr>sp_tokens = map Literal (split_on CHR ''.'' s), sp_trailing = False, sp_valid = True\<rparr>"
proof -
  have "\<forall>t \<in> set (split_on CHR ''.'' s). concrete_token t" using assms by (simp only: concrete_def)
  from parse_parts_literal [OF this, of "[]" True] show ?thesis
    using concrete_not_empty [OF assms] by (simp only: NatsSubjectPattern_parse_def not_False_eq_True append_Nil)
qed

lemma contains_literal:
  "concrete s \<Longrightarrow> NatsSubjectPattern_contains g (NatsSubjectPattern_parse s) = NatsSubjectPattern_matches g s"
proof -
  have "token_covers t (Literal x) = token_matches t x" for t x
    by (simp add: token_covers_def token_matches_def split: token.split)
  moreover assume "concrete s"
  ultimately show ?thesis
    by (auto simp: parse_concrete contains_iff matches_iff admits_length_def split: if_splits)
qed

lemma matches_literal:
  assumes "concrete s" "NatsSubjectPattern_matches (NatsSubjectPattern_parse s) s'"
  shows "s' = s"
proof -
  have "split_on CHR ''.'' s' = split_on CHR ''.'' s"
    using assms by (intro nth_equalityI) (auto simp: parse_concrete matches_iff admits_length_def token_matches_def)
  then show ?thesis by (metis join_split_on)
qed

lemma overlaps_literal:
  assumes "concrete s" "prefix_wf pre"
  shows "NatsSubjectPattern_overlaps (NatsSubjectPattern_parse s) (NatsSubjectPattern_parse (pre @ ''>'')) \<longleftrightarrow> prefix pre s"
proof
  assume o: "NatsSubjectPattern_overlaps (NatsSubjectPattern_parse s) (NatsSubjectPattern_parse (pre @ ''>''))"
  then have "sp_valid (NatsSubjectPattern_parse s)" "sp_valid (NatsSubjectPattern_parse (pre @ ''>''))"
    by (simp_all add: overlaps_iff)
  from overlaps_sound [OF parse_wf [OF this(1)] parse_wf [OF this(2)] o]
  show "prefix pre s" using matches_literal [OF assms(1)] prefix_wf_matchesD [OF assms(2)] by blast
next
  assume p: "prefix pre s"
  have "NatsSubjectPattern_matches (NatsSubjectPattern_parse s) s"
    using assms(1) by (simp add: parse_concrete matches_iff admits_length_def token_matches_def)
  then show "NatsSubjectPattern_overlaps (NatsSubjectPattern_parse s) (NatsSubjectPattern_parse (pre @ ''>''))"
    using prefix_wf_matches [OF assms(2) p] by (rule overlaps_complete)
qed

lemma hd_split_on_prefix: "prefix (hd (split_on c s)) s"
proof (induction s)
  case (Cons x s)
  then show ?case by (cases "split_on c s") auto
qed simp

lemma reaches_reserved_literal:
  assumes "concrete s" "\<forall>pre \<in> set lattice. prefix_wf pre"
  shows "reaches_reserved s lattice \<longleftrightarrow>
    prefix INBOX_TOKEN_PREFIX s \<or> (\<exists>pre \<in> set (RESERVED_SUBJECT_PREFIXES @ lattice). prefix pre s)"
proof -
  have "hd (split_on CHR ''.'' s) \<in> set (split_on CHR ''.'' s)" by simp
  then have "hd (split_on CHR ''.'' s) \<noteq> ''*''" "hd (split_on CHR ''.'' s) \<noteq> ''>''"
    using assms(1) by (auto simp: concrete_def concrete_token_def)
  moreover have "prefix INBOX_TOKEN_PREFIX (hd (split_on CHR ''.'' s)) \<longleftrightarrow> prefix INBOX_TOKEN_PREFIX s"
    using inbox_head hd_split_on_prefix prefix_order.order_trans by blast
  moreover have "\<forall>pre \<in> set (RESERVED_SUBJECT_PREFIXES @ lattice). prefix_wf pre"
    using assms(2) reserved_prefixes_wf by auto
  ultimately show ?thesis
    using overlaps_literal [OF assms(1)] by (auto simp: reaches_reserved_def Let_def list_ex_iff)
qed

section \<open>Properties\<close>

text \<open>
  C13. \<open>contains\<close> decides set inclusion: a grant contains a well-formed request exactly when
  every concrete subject the request matches is matched by the grant.
\<close>

theorem contains_iff_inclusion:
  assumes "sp_valid (NatsSubjectPattern_parse r)"
  shows "NatsSubjectPattern_contains (NatsSubjectPattern_parse g) (NatsSubjectPattern_parse r) \<longleftrightarrow>
    (\<forall>s. concrete s \<longrightarrow> NatsSubjectPattern_matches (NatsSubjectPattern_parse r) s \<longrightarrow>
         NatsSubjectPattern_matches (NatsSubjectPattern_parse g) s)"
    (is "_ \<longleftrightarrow> ?sub")
proof
  assume ?sub
  let ?n = "if sp_trailing (NatsSubjectPattern_parse r) then Suc (length (sp_tokens (NatsSubjectPattern_parse r)))
            else length (sp_tokens (NatsSubjectPattern_parse r))"
  have "admits_length (NatsSubjectPattern_parse r) ?n" by (simp add: admits_length_def)
  from instance_of_matches(1,2) [OF parse_wf [OF assms] fresh_token_concrete this] \<open>?sub\<close>
  have "\<exists>s. NatsSubjectPattern_matches (NatsSubjectPattern_parse g) s" by blast
  then have "sp_valid (NatsSubjectPattern_parse g)" by (auto simp: matches_iff)
  with \<open>?sub\<close> parse_wf [OF assms]
  show "NatsSubjectPattern_contains (NatsSubjectPattern_parse g) (NatsSubjectPattern_parse r)"
    by (intro contains_complete) auto
qed (use contains_sound in blast)

theorem contains_iff_inclusion_witness:
  "NatsSubjectPattern_matches (NatsSubjectPattern_parse ''orders.*'') ''orders.new'' \<and>
   \<not> NatsSubjectPattern_contains (NatsSubjectPattern_parse ''orders.*'') (NatsSubjectPattern_parse ''orders.>'') \<and>
   (\<exists>s. concrete s \<and> NatsSubjectPattern_matches (NatsSubjectPattern_parse ''orders.>'') s \<and>
      \<not> NatsSubjectPattern_matches (NatsSubjectPattern_parse ''orders.*'') s)"
proof -
  have v: "sp_valid (NatsSubjectPattern_parse ''orders.>'')" by code_simp
  have "NatsSubjectPattern_matches (NatsSubjectPattern_parse ''orders.*'') ''orders.new''" by code_simp
  moreover have "\<not> NatsSubjectPattern_contains (NatsSubjectPattern_parse ''orders.*'') (NatsSubjectPattern_parse ''orders.>'')"
    by code_simp
  ultimately show ?thesis using contains_iff_inclusion [OF v, of "''orders.*''"] by blast
qed

text \<open>
  C14. \<open>overlaps\<close> decides whether two patterns meet: it holds exactly when some concrete
  subject is matched by both.
\<close>

theorem overlaps_iff_common_subject:
  "NatsSubjectPattern_overlaps (NatsSubjectPattern_parse a) (NatsSubjectPattern_parse b) \<longleftrightarrow>
    (\<exists>s. concrete s \<and> NatsSubjectPattern_matches (NatsSubjectPattern_parse a) s \<and>
         NatsSubjectPattern_matches (NatsSubjectPattern_parse b) s)"
proof
  assume o: "NatsSubjectPattern_overlaps (NatsSubjectPattern_parse a) (NatsSubjectPattern_parse b)"
  then have "sp_valid (NatsSubjectPattern_parse a)" "sp_valid (NatsSubjectPattern_parse b)"
    by (simp_all add: overlaps_iff)
  then show "\<exists>s. concrete s \<and> NatsSubjectPattern_matches (NatsSubjectPattern_parse a) s \<and>
         NatsSubjectPattern_matches (NatsSubjectPattern_parse b) s"
    using overlaps_sound [OF parse_wf parse_wf o] by blast
qed (use overlaps_complete in blast)

text \<open>
  C15. A subscription that is accepted can only deliver what the policy allows: every
  concrete subject its pattern matches is covered by a subject grant, lies outside the
  reserved and lattice subjects, and is nobody's inbox. The lattice prefixes are whole
  tokens followed by a dot, as the host passes them.
\<close>

theorem accepted_subscription_is_safe:
  assumes "\<forall>pre \<in> set (lattice_prefixes p). prefix_wf pre"
    and "check_subscription p pat = Ok ()"
    and "NatsSubjectPattern_matches (NatsSubjectPattern_parse pat) s" and "concrete s"
  shows "(\<exists>g \<in> set (subject_allow p). NatsSubjectPattern_matches g s) \<and> \<not> is_reserved p s \<and>
    \<not> prefix INBOX_TOKEN_PREFIX s"
proof -
  have "\<not> is_reserved p pat" "\<not> reaches_reserved pat (lattice_prefixes p)"
    "\<exists>g \<in> set (subject_allow p). NatsSubjectPattern_contains g (NatsSubjectPattern_parse pat)"
    using assms(2) by (auto simp: check_subscription_def Let_def list_ex_iff split: if_splits)
  then show ?thesis
    using subscription_avoids_reserved [OF assms(1) _ _ assms(3,4)] contains_sound assms(3) by blast
qed

definition example_engine :: PolicyEngine where
  "example_engine = PolicyEngine_new
     \<lparr>spec_subject_allow = [''orders.>''], spec_stream_allow = [], spec_bucket_allow = []\<rparr> [''runtime.host.'']"

lemma example_engine_lattice: "\<forall>pre \<in> set (lattice_prefixes example_engine). prefix_wf pre"
  unfolding example_engine_def PolicyEngine_new_def prefix_wf_def
  by (auto intro!: exI [of _ "[''runtime'', ''host'']"] simp: concrete_token_def)

theorem accepted_subscription_is_safe_witness:
  "(\<exists>g \<in> set (subject_allow example_engine). NatsSubjectPattern_matches g ''orders.new'') \<and>
   \<not> is_reserved example_engine ''orders.new'' \<and> \<not> prefix INBOX_TOKEN_PREFIX ''orders.new''"
proof (rule accepted_subscription_is_safe [OF example_engine_lattice, where pat = "''orders.*''"])
  show "check_subscription example_engine ''orders.*'' = Ok ()" by code_simp
  show "NatsSubjectPattern_matches (NatsSubjectPattern_parse ''orders.*'') ''orders.new''" by code_simp
  show "concrete ''orders.new''" by code_simp
qed

text \<open>
  On a concrete subject the two checks agree up to inboxes: subscribing to it is
  accepted exactly when publishing to it is accepted and it is no inbox. Publishing to an
  inbox is how a responder answers; subscribing to one would read another workload's replies.
\<close>

theorem literal_subscription_agrees_with_publish:
  assumes "\<forall>pre \<in> set (lattice_prefixes p). prefix_wf pre" and "concrete s"
  shows "check_subscription p s = Ok () \<longleftrightarrow> check_subject p s = Ok () \<and> \<not> prefix INBOX_TOKEN_PREFIX s"
proof -
  have "s \<noteq> [] \<and> \<not> list_ex (\<lambda>t. t = []) (split_on CHR ''.'' s) \<and>
    \<not> list_ex (\<lambda>t. t = ''*'' \<or> t = ''>'') (split_on CHR ''.'' s)"
    using concrete_tokenD [OF assms(2)] concrete_not_empty [OF assms(2)] unfolding list_ex_iff by blast
  moreover have "list_ex (\<lambda>g. NatsSubjectPattern_contains g (NatsSubjectPattern_parse s)) (subject_allow p) =
      list_ex (\<lambda>g. NatsSubjectPattern_matches g s) (subject_allow p)"
    by (simp only: contains_literal [OF assms(2)])
  moreover have "is_reserved p s \<or> reaches_reserved s (lattice_prefixes p) \<longleftrightarrow>
      is_reserved p s \<or> prefix INBOX_TOKEN_PREFIX s"
    by (auto simp: reaches_reserved_literal [OF assms(2,1)] is_reserved_def list_ex_iff)
  ultimately show ?thesis by (simp add: check_subscription_def check_subject_def Let_def)
qed

theorem literal_subscription_agrees_with_publish_witness:
  "check_subscription example_engine ''orders.new'' = Ok () \<and>
   check_subject example_engine ''orders.new'' = Ok () \<and>
   check_subscription example_engine ''_INBOX.a'' = Err Reserved"
proof -
  have "concrete ''orders.new''" by code_simp
  moreover have "check_subject example_engine ''orders.new'' = Ok ()" by code_simp
  moreover have "\<not> prefix INBOX_TOKEN_PREFIX ''orders.new''" by code_simp
  moreover have "check_subscription example_engine ''_INBOX.a'' = Err Reserved" by code_simp
  ultimately show ?thesis using literal_subscription_agrees_with_publish [OF example_engine_lattice] by blast
qed

text \<open>
  A stream that backs a bucket answers to the bucket grant and to nothing else: reaching
  \<open>KV_b\<close> or \<open>OBJ_b\<close> through the stream surface is accepted exactly when the bucket \<open>b\<close> is
  granted, whatever \<open>stream-allow\<close> says, and the server's own \<open>$\<close> streams are never reachable.
\<close>

theorem backing_stream_follows_bucket_grant:
  "(check_stream p (''KV_'' @ b) = Ok () \<longleftrightarrow> check_bucket p b = Ok ()) \<and>
   (check_stream p (''OBJ_'' @ b) = Ok () \<longleftrightarrow> check_bucket p b = Ok ()) \<and>
   check_stream p (''$'' @ b) = Err Reserved"
  by (simp add: check_stream_def check_bucket_def BUCKET_BACKING_STREAM_PREFIXES_def strip_prefix_def)

end
