(* ===== verification/Port_Table.thy ===== *)
theory Port_Table
  imports Declared_Ports
begin

text \<open>
  The host's record of which real ports are spoken for: \<open>host/ports.rs\<close>. A reservation is
  claimed from the table and released when its handle is dropped; the step relation
  interleaves claims and drops of any number of holders.
\<close>

section \<open>The table\<close>

datatype port_owner = PO_Host string | PO_Workload string | PO_Plugin string

fun PortOwner_display :: "port_owner \<Rightarrow> string" where
  "PortOwner_display (PO_Host name) = ''host '' @ name"
| "PortOwner_display (PO_Workload i) = ''workload '' @ [CHR 0x27] @ i @ [CHR 0x27]"
| "PortOwner_display (PO_Plugin i) = ''host plugin '' @ [CHR 0x27] @ i @ [CHR 0x27]"

type_synonym port_key = "protocol \<times> socket_addr"

text \<open>The map behind its mutex; \<open>pt_poisoned\<close> is the poison flag of the lock.\<close>

record PortTable =
  pt_reserved :: "(port_key, port_owner) btree_map"
  pt_poisoned :: bool

definition PortTable_new :: PortTable where
  "PortTable_new = \<lparr>pt_reserved = [], pt_poisoned = False\<rparr>"

record PortReservation =
  pr_key :: port_key

definition PortReservation_addr :: "PortReservation \<Rightarrow> socket_addr" where
  "PortReservation_addr r = snd (pr_key r)"

datatype reserve_error = LockPoisoned | AlreadyPublished protocol socket_addr port_owner

definition PortTable_reserve ::
    "protocol \<Rightarrow> socket_addr \<Rightarrow> port_owner \<Rightarrow> PortTable \<Rightarrow> (reserve_error, PortReservation) result \<times> PortTable" where
  "PortTable_reserve protocol addr owner t =
     (let key = (protocol, addr) in
      if pt_poisoned t then (Err LockPoisoned, t)
      else (case bm_get (pt_reserved t) key of
              Some holder \<Rightarrow> (Err (AlreadyPublished protocol addr holder), t)
            | None \<Rightarrow> (Ok \<lparr>pr_key = key\<rparr>, t\<lparr>pt_reserved := bm_insert key owner (pt_reserved t)\<rparr>)))"

definition PortTable_is_published :: "protocol \<Rightarrow> socket_addr \<Rightarrow> PortTable \<Rightarrow> bool" where
  "PortTable_is_published protocol addr t \<longleftrightarrow>
     \<not> pt_poisoned t \<and> bm_contains (pt_reserved t) (protocol, addr)"

definition PortTable_release :: "port_key \<Rightarrow> PortTable \<Rightarrow> PortTable" where
  "PortTable_release key t =
     (if pt_poisoned t then t else t\<lparr>pt_reserved := bm_remove key (pt_reserved t)\<rparr>)"

text \<open>\<open>Drop for PortReservation\<close>.\<close>

definition PortReservation_drop :: "PortReservation \<Rightarrow> PortTable \<Rightarrow> PortTable" where
  "PortReservation_drop r t = PortTable_release (pr_key r) t"

section \<open>The network of an incarnation\<close>

text \<open>
  \<open>NetworkHandle\<close>: a swappable reference, at most one network at a time. Networks are named
  by the heap address of their \<open>Arc\<close>; \<open>replace\<close> stores a newly allocated one.
\<close>

type_synonym network_ref = nat

definition NetworkHandle_pinned :: "network_ref \<Rightarrow> network_ref option" where
  "NetworkHandle_pinned network = Some network"

definition NetworkHandle_replace :: "network_ref \<Rightarrow> network_ref option \<Rightarrow> network_ref \<times> network_ref option" where
  "NetworkHandle_replace fresh h = (fresh, Some fresh)"

definition NetworkHandle_current :: "network_ref option \<Rightarrow> network_ref option" where
  "NetworkHandle_current h = h"

definition NetworkHandle_clear :: "network_ref option \<Rightarrow> network_ref option" where
  "NetworkHandle_clear h = None"

section \<open>Claims and drops in any order\<close>

record port_world =
  pw_table :: PortTable
  pw_live :: "PortReservation list"

inductive port_step :: "port_world \<Rightarrow> port_world \<Rightarrow> bool" where
  claim: "PortTable_reserve protocol addr owner (pw_table w) = (Ok r, t) \<Longrightarrow>
    port_step w \<lparr>pw_table = t, pw_live = r # pw_live w\<rparr>"
| refused: "PortTable_reserve protocol addr owner (pw_table w) = (Err e, t) \<Longrightarrow>
    port_step w (w\<lparr>pw_table := t\<rparr>)"
| dropped: "i < length (pw_live w) \<Longrightarrow>
    port_step w \<lparr>pw_table = PortReservation_drop (pw_live w ! i) (pw_table w),
                 pw_live = remove_nth i (pw_live w)\<rparr>"

inductive_cases port_stepE: "port_step w w'"

definition port_inv :: "port_world \<Rightarrow> bool" where
  "port_inv w \<longleftrightarrow> \<not> pt_poisoned (pw_table w) \<and> bm_wf (pt_reserved (pw_table w)) \<and>
     distinct (map pr_key (pw_live w)) \<and>
     set (map pr_key (pw_live w)) = fst ` set (pt_reserved (pw_table w))"

lemma reserve_Ok_iff:
  "PortTable_reserve protocol addr owner t = (Ok r, t') \<longleftrightarrow>
     \<not> pt_poisoned t \<and> bm_get (pt_reserved t) (protocol, addr) = None \<and> r = \<lparr>pr_key = (protocol, addr)\<rparr> \<and>
     t' = t\<lparr>pt_reserved := bm_insert (protocol, addr) owner (pt_reserved t)\<rparr>"
  by (auto simp: PortTable_reserve_def Let_def split: option.splits)

lemma fst_set_bm_remove [simp]: "fst ` set (bm_remove k m) = fst ` set m - {k}"
  by (auto simp: bm_remove_def)

lemma port_inv_step: "port_inv w \<Longrightarrow> port_step w w' \<Longrightarrow> port_inv w'"
proof (erule port_stepE)
  fix protocol addr owner r t
  assume "port_inv w" "PortTable_reserve protocol addr owner (pw_table w) = (Ok r, t)"
    "w' = \<lparr>pw_table = t, pw_live = r # pw_live w\<rparr>"
  then show ?thesis
    unfolding reserve_Ok_iff port_inv_def bm_get_None_iff by (simp del: split_paired_All)
next
  fix protocol addr owner e t
  assume "port_inv w" "PortTable_reserve protocol addr owner (pw_table w) = (Err e, t)"
    "w' = w\<lparr>pw_table := t\<rparr>"
  then show ?thesis
    by (auto simp: PortTable_reserve_def Let_def split: if_splits option.splits)
next
  fix i
  assume inv: "port_inv w" and i: "i < length (pw_live w)"
    and w': "w' = \<lparr>pw_table = PortReservation_drop (pw_live w ! i) (pw_table w),
                 pw_live = remove_nth i (pw_live w)\<rparr>"
  have d: "distinct (map pr_key (pw_live w))" "i < length (map pr_key (pw_live w))"
    using inv i by (simp_all add: port_inv_def)
  from remove_nth_distinct [OF d] show ?thesis
    using inv i
    unfolding w' port_inv_def PortReservation_drop_def PortTable_release_def
    by (simp add: take_map drop_map)
qed

lemma published_iff_live:
  assumes "port_inv w"
  shows "PortTable_is_published protocol addr (pw_table w) \<longleftrightarrow> (protocol, addr) \<in> set (map pr_key (pw_live w))"
proof -
  have "bm_contains (pt_reserved (pw_table w)) k \<longleftrightarrow> k \<in> set (map pr_key (pw_live w))" for k
    using assms bm_get_None_iff [of "pt_reserved (pw_table w)" k] by (auto simp: port_inv_def bm_contains_def)
  with assms show ?thesis by (simp add: port_inv_def PortTable_is_published_def)
qed

interpretation ports: transition_system port_step port_inv
  by unfold_locales (rule port_inv_step)

section \<open>Properties\<close>

text \<open>
  C16. Over every interleaving of claims, refused claims and drops from an empty table, no two
  live reservations hold the same port, and a port is published exactly while a reservation
  on it is live.
\<close>

theorem port_reservations_are_exclusive:
  assumes "port_step\<^sup>*\<^sup>* \<lparr>pw_table = PortTable_new, pw_live = []\<rparr> w"
  shows "distinct (map pr_key (pw_live w)) \<and>
    (\<forall>protocol addr. PortTable_is_published protocol addr (pw_table w) \<longleftrightarrow>
       (protocol, addr) \<in> set (map pr_key (pw_live w)))"
proof -
  have "port_inv w"
    by (rule ports.inv_reachable [OF assms]) (simp add: port_inv_def PortTable_new_def)
  then show ?thesis by (simp add: published_iff_live) (simp add: port_inv_def)
qed

theorem port_reservations_are_exclusive_witness:
  "PortTable_is_published Tcp (SocketAddrV4 v4_localhost 80)
     (snd (PortTable_reserve Tcp (SocketAddrV4 v4_localhost 80) (PO_Host ''api'') PortTable_new))"
proof -
  let ?a = "SocketAddrV4 v4_localhost 80"
  have r: "PortTable_reserve Tcp ?a (PO_Host ''api'') PortTable_new =
      (Ok \<lparr>pr_key = (Tcp, ?a)\<rparr>, \<lparr>pt_reserved = [((Tcp, ?a), PO_Host ''api'')], pt_poisoned = False\<rparr>)"
    by (simp add: PortTable_reserve_def PortTable_new_def Let_def)
  have "port_step \<lparr>pw_table = PortTable_new, pw_live = []\<rparr>
      \<lparr>pw_table = snd (PortTable_reserve Tcp ?a (PO_Host ''api'') PortTable_new), pw_live = [\<lparr>pr_key = (Tcp, ?a)\<rparr>]\<rparr>"
    using port_step.claim [of Tcp ?a "PO_Host ''api''" "\<lparr>pw_table = PortTable_new, pw_live = []\<rparr>"] r by simp
  then have "port_step\<^sup>*\<^sup>* \<lparr>pw_table = PortTable_new, pw_live = []\<rparr>
      \<lparr>pw_table = snd (PortTable_reserve Tcp ?a (PO_Host ''api'') PortTable_new), pw_live = [\<lparr>pr_key = (Tcp, ?a)\<rparr>]\<rparr>"
    by (rule r_into_rtranclp)
  from port_reservations_are_exclusive [OF this] show ?thesis by simp
qed

text \<open>
  A claim and the drop of its reservation leave the table answering every question as
  before, and while the reservation is live a second claim on the same port is refused with
  the name of the holder.
\<close>

theorem reserve_then_drop_restores_table:
  assumes "bm_wf (pt_reserved t)" and "PortTable_reserve protocol addr owner t = (Ok r, t')"
  shows "PortTable_is_published protocol' addr' (PortReservation_drop r t') =
      PortTable_is_published protocol' addr' t \<and>
    PortTable_reserve protocol addr other t' = (Err (AlreadyPublished protocol addr owner), t')"
proof -
  let ?k = "(protocol, addr)"
  have free: "\<not> pt_poisoned t" "bm_get (pt_reserved t) ?k = None" "r = \<lparr>pr_key = ?k\<rparr>"
    and t': "t' = t\<lparr>pt_reserved := bm_insert ?k owner (pt_reserved t)\<rparr>"
    using assms(2) by (simp_all add: reserve_Ok_iff)
  have "bm_get (bm_remove ?k (bm_insert ?k owner (pt_reserved t))) = bm_get (pt_reserved t)"
    using btree.release_claim [OF assms(1) free(2)] .
  moreover have "bm_get (bm_insert ?k owner (pt_reserved t)) ?k = Some owner"
    using btree.get_ins_same [OF assms(1)] .
  ultimately show ?thesis
    using free t'
    by (simp add: PortReservation_drop_def PortTable_release_def PortTable_is_published_def
        bm_contains_def PortTable_reserve_def)
qed

theorem reserve_then_drop_restores_table_witness:
  "\<not> PortTable_is_published Udp (SocketAddrV4 v4_localhost 53)
     (PortReservation_drop \<lparr>pr_key = (Udp, SocketAddrV4 v4_localhost 53)\<rparr>
       (snd (PortTable_reserve Udp (SocketAddrV4 v4_localhost 53) (PO_Plugin ''dns'') PortTable_new)))"
proof -
  let ?a = "SocketAddrV4 v4_localhost 53"
  have "PortTable_reserve Udp ?a (PO_Plugin ''dns'') PortTable_new =
      (Ok \<lparr>pr_key = (Udp, ?a)\<rparr>, snd (PortTable_reserve Udp ?a (PO_Plugin ''dns'') PortTable_new))"
    by (simp add: PortTable_reserve_def PortTable_new_def Let_def)
  from reserve_then_drop_restores_table [OF _ this, of Udp ?a "PO_Plugin ''dns''"] show ?thesis
    by (simp add: PortTable_new_def PortTable_is_published_def bm_contains_def)
qed

end
