(* ===== verification/Quota.thy ===== *)
theory Quota
  imports Interfaces
begin

text \<open>
  Connection quotas: \<open>host/quota.rs\<close>. The host-wide ceilings derived from the descriptor
  limit, the allowance of one guest per surface, the registry that mints one allowance per
  guest, and the counters of the socket policy.

  A tokio semaphore, the cache of the registry and the resource limits of the process are
  not part of the repository. A semaphore is a parameter with the operations the code calls
  and the laws its documentation states; the cache is a map that may lose an entry at any
  moment, which covers its idle expiry; the resource limits are a parameter as well.
\<close>

section \<open>Ceilings from the descriptor limit\<close>

definition ASSUMED_MAX_CONNECTIONS :: nat where "ASSUMED_MAX_CONNECTIONS = 512"
definition FD_BUDGET_NUMERATOR :: nat where "FD_BUDGET_NUMERATOR = 1"
definition FD_BUDGET_DENOMINATOR :: nat where "FD_BUDGET_DENOMINATOR = 2"
definition MIN_DERIVED_MAX_CONNECTIONS :: nat where "MIN_DERIVED_MAX_CONNECTIONS = 64"
definition MAX_DERIVED_MAX_CONNECTIONS :: nat where "MAX_DERIVED_MAX_CONNECTIONS = 32768"
definition INGRESS_BUDGET_NUMERATOR :: nat where "INGRESS_BUDGET_NUMERATOR = 1"
definition INGRESS_BUDGET_DENOMINATOR :: nat where "INGRESS_BUDGET_DENOMINATOR = 4"
definition MIN_INGRESS_CONNECTIONS :: nat where "MIN_INGRESS_CONNECTIONS = 256"
definition MAX_RAISED_DESCRIPTORS :: nat where "MAX_RAISED_DESCRIPTORS = 1048576"

lemmas budget_defs = ASSUMED_MAX_CONNECTIONS_def FD_BUDGET_NUMERATOR_def FD_BUDGET_DENOMINATOR_def
  MIN_DERIVED_MAX_CONNECTIONS_def MAX_DERIVED_MAX_CONNECTIONS_def INGRESS_BUDGET_NUMERATOR_def
  INGRESS_BUDGET_DENOMINATOR_def MIN_INGRESS_CONNECTIONS_def MAX_RAISED_DESCRIPTORS_def

definition share_of :: "nat option \<Rightarrow> nat \<Rightarrow> nat \<Rightarrow> nat" where
  "share_of soft numerator denominator =
     (case soft of
        None \<Rightarrow> ASSUMED_MAX_CONNECTIONS
      | Some soft \<Rightarrow>
          clamp (saturating_mul soft numerator div denominator)
            MIN_DERIVED_MAX_CONNECTIONS MAX_DERIVED_MAX_CONNECTIONS)"

text \<open>\<open>usize::try_from\<close> of a \<open>u64\<close> always succeeds at 64 bits.\<close>

definition soft_limit_as_budget :: "nat option \<Rightarrow> nat option" where
  "soft_limit_as_budget reported =
     (let n = (case reported of Some n \<Rightarrow> n | None \<Rightarrow> MAX_RAISED_DESCRIPTORS)
      in if n \<le> usize_max then Some n else None)"

text \<open>\<open>getrlimit\<close> and \<open>setrlimit\<close> on \<open>RLIMIT_NOFILE\<close>: the current and the maximal limit,
  absent for unlimited.\<close>

record 'os rlimit_lib =
  getrlimit :: "'os \<Rightarrow> nat option \<times> nat option"
  setrlimit :: "nat option \<times> nat option \<Rightarrow> 'os \<Rightarrow> 'os option"

definition descriptor_soft_limit :: "'os rlimit_lib \<Rightarrow> 'os \<Rightarrow> nat option" where
  "descriptor_soft_limit lib os = soft_limit_as_budget (fst (getrlimit lib os))"

definition descriptor_share :: "'os rlimit_lib \<Rightarrow> 'os \<Rightarrow> nat \<Rightarrow> nat \<Rightarrow> nat" where
  "descriptor_share lib os numerator denominator =
     share_of (descriptor_soft_limit lib os) numerator denominator"

definition default_max_connections :: "'os rlimit_lib \<Rightarrow> 'os \<Rightarrow> nat" where
  "default_max_connections lib os = descriptor_share lib os FD_BUDGET_NUMERATOR FD_BUDGET_DENOMINATOR"

definition default_max_http_ingress_connections :: "'os rlimit_lib \<Rightarrow> 'os \<Rightarrow> nat" where
  "default_max_http_ingress_connections lib os =
     max (descriptor_share lib os INGRESS_BUDGET_NUMERATOR INGRESS_BUDGET_DENOMINATOR)
       MIN_INGRESS_CONNECTIONS"

section \<open>Raising the descriptor limit\<close>

text \<open>The loop of \<open>raise_plan\<close>; the plan is built in the order it is tried.\<close>

fun raise_from :: "nat \<Rightarrow> nat \<Rightarrow> nat list" where
  "raise_from have target = (if have < target then target # raise_from have (target div 2) else [])"

declare raise_from.simps [simp del]

definition raise_plan :: "nat option \<Rightarrow> nat option \<Rightarrow> nat list" where
  "raise_plan soft hard =
     (let have = (case soft of Some n \<Rightarrow> n | None \<Rightarrow> 2 ^ 64 - 1);
          target = min (case hard of Some n \<Rightarrow> n | None \<Rightarrow> MAX_RAISED_DESCRIPTORS) MAX_RAISED_DESCRIPTORS
      in raise_from have target)"

fun try_raise :: "'os rlimit_lib \<Rightarrow> nat option \<Rightarrow> nat list \<Rightarrow> 'os \<Rightarrow> 'os" where
  "try_raise lib maximum [] os = os"
| "try_raise lib maximum (target # plan) os =
     (case setrlimit lib (Some target, maximum) os of
        Some os' \<Rightarrow> os'
      | None \<Rightarrow> try_raise lib maximum plan os)"

definition raise_descriptor_limit :: "'os rlimit_lib \<Rightarrow> 'os \<Rightarrow> nat option \<times> 'os" where
  "raise_descriptor_limit lib os =
     (case getrlimit lib os of (current, maximum) \<Rightarrow>
        let os' = try_raise lib maximum (raise_plan current maximum) os
        in (descriptor_soft_limit lib os', os'))"

section \<open>The allowance of a guest\<close>

record 's semaphore_lib =
  sem_new :: "nat \<Rightarrow> 's"
  sem_available :: "'s \<Rightarrow> nat"
  sem_try_acquire :: "'s \<Rightarrow> 's option"
  sem_release :: "'s \<Rightarrow> 's"

text \<open>What the documentation of a semaphore states of these operations.\<close>

definition semaphore_laws :: "'s semaphore_lib \<Rightarrow> bool" where
  "semaphore_laws lib \<longleftrightarrow>
     (\<forall>n. sem_available lib (sem_new lib n) = n) \<and>
     (\<forall>s. sem_try_acquire lib s = None \<longleftrightarrow> sem_available lib s = 0) \<and>
     (\<forall>s s'. sem_try_acquire lib s = Some s' \<longrightarrow> Suc (sem_available lib s') = sem_available lib s) \<and>
     (\<forall>s. sem_available lib (sem_release lib s) = Suc (sem_available lib s))"

record QuotaLimits =
  lim_outbound_http :: nat
  lim_outbound_sockets :: nat
  lim_inbound_sockets :: nat

definition QuotaLimits_default :: QuotaLimits where
  "QuotaLimits_default =
     \<lparr>lim_outbound_http = 128, lim_outbound_sockets = 256, lim_inbound_sockets = 256\<rparr>"

datatype surface = OutboundHttp | OutboundSockets | InboundSockets

record QuotaStats =
  outbound_http_granted :: u64
  outbound_http_refused :: u64
  outbound_sockets_granted :: u64
  outbound_sockets_refused :: u64
  inbound_sockets_granted :: u64
  inbound_sockets_refused :: u64

definition QuotaStats_default :: QuotaStats where
  "QuotaStats_default =
     \<lparr>outbound_http_granted = 0, outbound_http_refused = 0, outbound_sockets_granted = 0,
      outbound_sockets_refused = 0, inbound_sockets_granted = 0, inbound_sockets_refused = 0\<rparr>"

text \<open>
  The semaphores and counters behind the \<open>Arc\<close>s of a \<open>GuestConnectionQuota\<close>. The host-wide
  semaphore is shared by every quota of a registry, so it is passed beside the quota.
\<close>

record 's GuestConnectionQuota =
  gq_outbound_http :: 's
  gq_outbound_sockets :: 's
  gq_inbound_sockets :: 's
  gq_stats :: QuotaStats

record ConnectionSlot =
  slot_surface :: surface
  slot_global :: bool

definition GuestConnectionQuota_new :: "'s semaphore_lib \<Rightarrow> QuotaLimits \<Rightarrow> 's GuestConnectionQuota" where
  "GuestConnectionQuota_new lib limits =
     \<lparr>gq_outbound_http = sem_new lib (max (lim_outbound_http limits) 1),
      gq_outbound_sockets = sem_new lib (max (lim_outbound_sockets limits) 1),
      gq_inbound_sockets = sem_new lib (max (lim_inbound_sockets limits) 1),
      gq_stats = QuotaStats_default\<rparr>"

fun gq_sem :: "surface \<Rightarrow> 's GuestConnectionQuota \<Rightarrow> 's" where
  "gq_sem OutboundHttp q = gq_outbound_http q"
| "gq_sem OutboundSockets q = gq_outbound_sockets q"
| "gq_sem InboundSockets q = gq_inbound_sockets q"

fun gq_set_sem :: "surface \<Rightarrow> 's \<Rightarrow> 's GuestConnectionQuota \<Rightarrow> 's GuestConnectionQuota" where
  "gq_set_sem OutboundHttp s q = q\<lparr>gq_outbound_http := s\<rparr>"
| "gq_set_sem OutboundSockets s q = q\<lparr>gq_outbound_sockets := s\<rparr>"
| "gq_set_sem InboundSockets s q = q\<lparr>gq_inbound_sockets := s\<rparr>"

text \<open>\<open>fetch_add(1)\<close> on the counter of the surface; it wraps at 64 bits.\<close>

fun count_granted :: "surface \<Rightarrow> QuotaStats \<Rightarrow> QuotaStats" where
  "count_granted OutboundHttp st = st\<lparr>outbound_http_granted := outbound_http_granted st + 1\<rparr>"
| "count_granted OutboundSockets st = st\<lparr>outbound_sockets_granted := outbound_sockets_granted st + 1\<rparr>"
| "count_granted InboundSockets st = st\<lparr>inbound_sockets_granted := inbound_sockets_granted st + 1\<rparr>"

fun count_refused :: "surface \<Rightarrow> QuotaStats \<Rightarrow> QuotaStats" where
  "count_refused OutboundHttp st = st\<lparr>outbound_http_refused := outbound_http_refused st + 1\<rparr>"
| "count_refused OutboundSockets st = st\<lparr>outbound_sockets_refused := outbound_sockets_refused st + 1\<rparr>"
| "count_refused InboundSockets st = st\<lparr>inbound_sockets_refused := inbound_sockets_refused st + 1\<rparr>"

text \<open>The guest's permit is taken first and returned when the host-wide one is refused.\<close>

definition GuestConnectionQuota_try_acquire ::
    "'s semaphore_lib \<Rightarrow> surface \<Rightarrow> 's GuestConnectionQuota \<Rightarrow> 's option \<Rightarrow>
     ConnectionSlot option \<times> 's GuestConnectionQuota \<times> 's option" where
  "GuestConnectionQuota_try_acquire lib surface q global =
     (case sem_try_acquire lib (gq_sem surface q) of
        None \<Rightarrow> (None, q\<lparr>gq_stats := count_refused surface (gq_stats q)\<rparr>, global)
      | Some guest \<Rightarrow>
          let taken = gq_set_sem surface guest q in
          (case global of
             None \<Rightarrow>
               (Some \<lparr>slot_surface = surface, slot_global = False\<rparr>,
                taken\<lparr>gq_stats := count_granted surface (gq_stats q)\<rparr>, None)
           | Some g \<Rightarrow>
               (case sem_try_acquire lib g of
                  Some g' \<Rightarrow>
                    (Some \<lparr>slot_surface = surface, slot_global = True\<rparr>,
                     taken\<lparr>gq_stats := count_granted surface (gq_stats q)\<rparr>, Some g')
                | None \<Rightarrow>
                    (None,
                     (gq_set_sem surface (sem_release lib guest) q)
                       \<lparr>gq_stats := count_refused surface (gq_stats q)\<rparr>,
                     Some g))))"

definition try_acquire_outbound_socket where
  "try_acquire_outbound_socket lib q global = GuestConnectionQuota_try_acquire lib OutboundSockets q global"

definition try_acquire_outbound_http where
  "try_acquire_outbound_http lib q global = GuestConnectionQuota_try_acquire lib OutboundHttp q global"

definition try_acquire_inbound_socket where
  "try_acquire_inbound_socket lib q global = GuestConnectionQuota_try_acquire lib InboundSockets q global"

text \<open>Dropping a slot returns both permits.\<close>

definition ConnectionSlot_drop ::
    "'s semaphore_lib \<Rightarrow> ConnectionSlot \<Rightarrow> 's GuestConnectionQuota \<Rightarrow> 's option \<Rightarrow>
     's GuestConnectionQuota \<times> 's option" where
  "ConnectionSlot_drop lib slot q global =
     (gq_set_sem (slot_surface slot) (sem_release lib (gq_sem (slot_surface slot) q)) q,
      if slot_global slot then map_option (sem_release lib) global else global)"

definition quota_available :: "'s semaphore_lib \<Rightarrow> surface \<Rightarrow> 's GuestConnectionQuota \<Rightarrow> nat" where
  "quota_available lib surface q = sem_available lib (gq_sem surface q)"

definition GuestConnectionQuota_counts :: "'s GuestConnectionQuota \<Rightarrow> QuotaStats" where
  "GuestConnectionQuota_counts q = gq_stats q"

section \<open>The registry\<close>

text \<open>
  The registry with everything it handed out: the quotas it ever minted, in order, the cache
  from a guest to its quota, and the slots held, each with the quota it was taken from. A
  quota outlives its cache entry for as long as a clone or a slot refers to it.
\<close>

record 's QuotaRegistry =
  qr_limits :: QuotaLimits
  qr_global :: "'s option"
  qr_http_wait :: nat
  qr_cache :: "string \<rightharpoonup> nat"
  qr_minted :: "'s GuestConnectionQuota list"
  qr_slots :: "(nat \<times> ConnectionSlot) list"

definition DEFAULT_HTTP_WAIT :: nat where "DEFAULT_HTTP_WAIT = 5"

definition QuotaRegistry_new :: "'s semaphore_lib \<Rightarrow> QuotaLimits \<Rightarrow> nat option \<Rightarrow> 's QuotaRegistry" where
  "QuotaRegistry_new lib limits host_wide =
     \<lparr>qr_limits = limits, qr_global = map_option (\<lambda>total. sem_new lib (max total 1)) host_wide,
      qr_http_wait = DEFAULT_HTTP_WAIT, qr_cache = Map.empty, qr_minted = [], qr_slots = []\<rparr>"

definition with_http_wait :: "nat \<Rightarrow> 's QuotaRegistry \<Rightarrow> 's QuotaRegistry" where
  "with_http_wait wait r = r\<lparr>qr_http_wait := wait\<rparr>"

definition QuotaRegistry_for_guest :: "'s semaphore_lib \<Rightarrow> string \<Rightarrow> 's QuotaRegistry \<Rightarrow> nat \<times> 's QuotaRegistry" where
  "QuotaRegistry_for_guest lib guest_id r =
     (case qr_cache r guest_id of
        Some q \<Rightarrow> (q, r)
      | None \<Rightarrow>
          (length (qr_minted r),
           r\<lparr>qr_cache := (qr_cache r)(guest_id \<mapsto> length (qr_minted r)),
             qr_minted := qr_minted r @ [GuestConnectionQuota_new lib (qr_limits r)]\<rparr>))"

inductive quota_step :: "'s semaphore_lib \<Rightarrow> 's QuotaRegistry \<Rightarrow> 's QuotaRegistry \<Rightarrow> bool"
  for lib :: "'s semaphore_lib" where
  looked_up: "QuotaRegistry_for_guest lib guest_id r = (q, r') \<Longrightarrow> quota_step lib r r'"
| expired: "quota_step lib r (r\<lparr>qr_cache := (qr_cache r)(guest_id := None)\<rparr>)"
| acquired: "q < length (qr_minted r) \<Longrightarrow>
    GuestConnectionQuota_try_acquire lib surface (qr_minted r ! q) (qr_global r) = (Some slot, q', g') \<Longrightarrow>
    quota_step lib r (r\<lparr>qr_minted := (qr_minted r)[q := q'], qr_global := g', qr_slots := (q, slot) # qr_slots r\<rparr>)"
| refused: "q < length (qr_minted r) \<Longrightarrow>
    GuestConnectionQuota_try_acquire lib surface (qr_minted r ! q) (qr_global r) = (None, q', g') \<Longrightarrow>
    quota_step lib r (r\<lparr>qr_minted := (qr_minted r)[q := q'], qr_global := g'\<rparr>)"
| released: "i < length (qr_slots r) \<Longrightarrow> qr_slots r ! i = (q, slot) \<Longrightarrow>
    ConnectionSlot_drop lib slot (qr_minted r ! q) (qr_global r) = (q', g') \<Longrightarrow>
    quota_step lib r (r\<lparr>qr_minted := (qr_minted r)[q := q'], qr_global := g',
      qr_slots := remove_nth i (qr_slots r)\<rparr>)"

inductive_cases quota_stepE: "quota_step lib r r'"

section \<open>Meters of the socket policy\<close>

datatype deny_reason =
    NotPermitted
  | BindNotPermitted
  | HostLoopbackNotPermitted
  | HostOwnedPort
  | BlockedRange
  | NoCapacity

definition DENY_REASONS :: nat where "DENY_REASONS = 6"

fun reason_index :: "deny_reason \<Rightarrow> nat" where
  "reason_index NotPermitted = 0"
| "reason_index BindNotPermitted = 1"
| "reason_index HostLoopbackNotPermitted = 2"
| "reason_index HostOwnedPort = 3"
| "reason_index BlockedRange = 4"
| "reason_index NoCapacity = 5"

definition ALL_REASONS :: "deny_reason list" where
  "ALL_REASONS = [NotPermitted, BindNotPermitted, HostLoopbackNotPermitted, HostOwnedPort, BlockedRange, NoCapacity]"

record PolicyMeters =
  pm_denied :: "u64 list"
  pm_would_deny :: "u64 list"
  pm_host_path_denied :: u64

definition PolicyMeters_default :: PolicyMeters where
  "PolicyMeters_default =
     \<lparr>pm_denied = replicate DENY_REASONS 0, pm_would_deny = replicate DENY_REASONS 0, pm_host_path_denied = 0\<rparr>"

text \<open>\<open>get(i)\<close> with a \<open>fetch_add\<close> on the counter that is there.\<close>

definition bump :: "nat \<Rightarrow> u64 list \<Rightarrow> u64 list" where
  "bump i cs = (if i < length cs then cs[i := cs ! i + 1] else cs)"

definition record_deny :: "deny_reason \<Rightarrow> PolicyMeters \<Rightarrow> PolicyMeters" where
  "record_deny reason m = m\<lparr>pm_denied := bump (reason_index reason) (pm_denied m)\<rparr>"

definition record_would_deny :: "deny_reason \<Rightarrow> PolicyMeters \<Rightarrow> PolicyMeters" where
  "record_would_deny reason m = m\<lparr>pm_would_deny := bump (reason_index reason) (pm_would_deny m)\<rparr>"

definition meter_denied :: "deny_reason \<Rightarrow> PolicyMeters \<Rightarrow> u64" where
  "meter_denied reason m =
     (if reason_index reason < length (pm_denied m) then pm_denied m ! reason_index reason else 0)"

definition meter_would_deny :: "deny_reason \<Rightarrow> PolicyMeters \<Rightarrow> u64" where
  "meter_would_deny reason m =
     (if reason_index reason < length (pm_would_deny m) then pm_would_deny m ! reason_index reason else 0)"

definition record_host_path_denied :: "PolicyMeters \<Rightarrow> PolicyMeters" where
  "record_host_path_denied m = m\<lparr>pm_host_path_denied := pm_host_path_denied m + 1\<rparr>"

definition meters_nonzero :: "PolicyMeters \<Rightarrow> (deny_reason \<times> u64 \<times> u64) list" where
  "meters_nonzero m =
     filter (\<lambda>(_, d, w). 0 < d \<or> 0 < w) (map (\<lambda>r. (r, meter_denied r m, meter_would_deny r m)) ALL_REASONS)"

section \<open>Accounting\<close>

definition surface_limit :: "surface \<Rightarrow> QuotaLimits \<Rightarrow> nat" where
  "surface_limit s limits =
     max (case s of OutboundHttp \<Rightarrow> lim_outbound_http limits
                  | OutboundSockets \<Rightarrow> lim_outbound_sockets limits
                  | InboundSockets \<Rightarrow> lim_inbound_sockets limits) 1"

text \<open>The slots of a quota held on a surface.\<close>

definition held :: "nat \<Rightarrow> surface \<Rightarrow> (nat \<times> ConnectionSlot) list \<Rightarrow> nat" where
  "held q s slots = length (filter (\<lambda>(i, slot). i = q \<and> slot_surface slot = s) slots)"

text \<open>The host-wide semaphore with \<open>n\<close> slots out.\<close>

definition global_ok :: "'s semaphore_lib \<Rightarrow> nat option \<Rightarrow> 's option \<Rightarrow> nat \<Rightarrow> bool" where
  "global_ok lib host_wide g n =
     (case host_wide of
        None \<Rightarrow> g = None
      | Some cap \<Rightarrow> \<exists>s. g = Some s \<and> sem_available lib s + n = max cap 1)"

definition quota_inv :: "'s semaphore_lib \<Rightarrow> QuotaLimits \<Rightarrow> nat option \<Rightarrow> 's QuotaRegistry \<Rightarrow> bool" where
  "quota_inv lib limits host_wide r \<longleftrightarrow> semaphore_laws lib \<and> qr_limits r = limits \<and>
     (\<forall>q < length (qr_minted r). \<forall>s.
        quota_available lib s (qr_minted r ! q) + held q s (qr_slots r) = surface_limit s limits) \<and>
     (\<forall>(q, slot) \<in> set (qr_slots r). q < length (qr_minted r) \<and> slot_global slot = (host_wide \<noteq> None)) \<and>
     (\<forall>g q. qr_cache r g = Some q \<longrightarrow> q < length (qr_minted r)) \<and>
     global_ok lib host_wide (qr_global r) (length (qr_slots r))"

lemma gq_sem_set [simp]:
  "gq_sem s (gq_set_sem t x q) = (if s = t then x else gq_sem s q)"
  "gq_sem s (q\<lparr>gq_stats := st\<rparr>) = gq_sem s q"
  by (cases s; cases t; simp)+

lemma new_available: "semaphore_laws lib \<Longrightarrow>
  quota_available lib s (GuestConnectionQuota_new lib limits) = surface_limit s limits"
  by (cases s) (simp_all add: quota_available_def GuestConnectionQuota_new_def surface_limit_def semaphore_laws_def)

lemma try_acquire_Some:
  assumes "semaphore_laws lib" "GuestConnectionQuota_try_acquire lib s q g = (Some slot, q', g')"
  shows "slot = \<lparr>slot_surface = s, slot_global = (g \<noteq> None)\<rparr>"
    "quota_available lib t q = quota_available lib t q' + (if t = s then 1 else 0)"
    "g = None \<Longrightarrow> g' = None"
    "g = Some x \<Longrightarrow> \<exists>y. g' = Some y \<and> sem_available lib x = Suc (sem_available lib y)"
  using assms
  by (auto simp: GuestConnectionQuota_try_acquire_def quota_available_def semaphore_laws_def Let_def
      split: option.splits dest: sym)

lemma try_acquire_None:
  assumes "semaphore_laws lib" "GuestConnectionQuota_try_acquire lib s q g = (None, q', g')"
  shows "quota_available lib t q' = quota_available lib t q" "g' = g"
  using assms
  by (auto simp: GuestConnectionQuota_try_acquire_def quota_available_def semaphore_laws_def Let_def
      split: option.splits)

lemma slot_drop_available:
  assumes "semaphore_laws lib" "ConnectionSlot_drop lib slot q g = (q', g')"
  shows "quota_available lib t q' = quota_available lib t q + (if t = slot_surface slot then 1 else 0)"
    "slot_global slot \<Longrightarrow> g' = map_option (sem_release lib) g" "\<not> slot_global slot \<Longrightarrow> g' = g"
  using assms by (auto simp: ConnectionSlot_drop_def quota_available_def semaphore_laws_def)

lemma held_Nil [simp]: "held q s [] = 0"
  by (simp add: held_def)

lemma held_Cons [simp]:
  "held q s ((p, slot) # slots) = held q s slots + (if p = q \<and> slot_surface slot = s then 1 else 0)"
  by (simp add: held_def)

lemma held_remove_nth:
  "i < length slots \<Longrightarrow> slots ! i = (p, slot) \<Longrightarrow>
   held q s slots = held q s (remove_nth i slots) + (if p = q \<and> slot_surface slot = s then 1 else 0)"
  using length_filter_remove_nth [of i slots "\<lambda>(i, slot). i = q \<and> slot_surface slot = s"]
  by (simp add: held_def)

lemma held_fresh: "(\<forall>(p, slot) \<in> set slots. p < n) \<Longrightarrow> held n s slots = 0"
  by (auto simp: held_def filter_empty_conv)

lemma quota_inv_looked_up:
  assumes inv: "quota_inv lib limits hw r" and f: "QuotaRegistry_for_guest lib g r = (q, r')"
  shows "quota_inv lib limits hw r'"
proof (cases "qr_cache r g")
  case (Some p)
  with f inv show ?thesis by (simp add: QuotaRegistry_for_guest_def)
next
  case None
  let ?n = "length (qr_minted r)"
  have r': "r' = r\<lparr>qr_cache := (qr_cache r)(g \<mapsto> ?n), qr_minted := qr_minted r @ [GuestConnectionQuota_new lib (qr_limits r)]\<rparr>"
    using f None by (auto simp: QuotaRegistry_for_guest_def)
  have "held ?n s (qr_slots r) = 0" for s using inv by (intro held_fresh) (auto simp: quota_inv_def)
  moreover have "semaphore_laws lib" "qr_limits r = limits" using inv by (simp_all add: quota_inv_def)
  ultimately have acc: "\<forall>p < length (qr_minted r'). \<forall>s.
      quota_available lib s (qr_minted r' ! p) + held p s (qr_slots r') = surface_limit s limits"
    using inv new_available by (auto simp: r' quota_inv_def nth_append less_Suc_eq)
  have "\<forall>h p. qr_cache r' h = Some p \<longrightarrow> p < length (qr_minted r')"
    using inv by (auto simp: r' quota_inv_def less_Suc_eq)
  with acc inv show ?thesis unfolding quota_inv_def r' by auto
qed

lemma quota_inv_acquired:
  assumes inv: "quota_inv lib limits hw r" and q: "q < length (qr_minted r)"
    and t: "GuestConnectionQuota_try_acquire lib s (qr_minted r ! q) (qr_global r) = (Some slot, q', g')"
  shows "quota_inv lib limits hw
    (r\<lparr>qr_minted := (qr_minted r)[q := q'], qr_global := g', qr_slots := (q, slot) # qr_slots r\<rparr>)"
proof -
  have laws: "semaphore_laws lib" using inv by (simp add: quota_inv_def)
  note a = try_acquire_Some [OF laws t]
  have "quota_available lib u ((qr_minted r)[q := q'] ! p) + held p u ((q, slot) # qr_slots r) = surface_limit u limits"
    if "p < length (qr_minted r)" for p u
  proof (cases "p = q")
    case True
    have "quota_available lib u (qr_minted r ! q) + held q u (qr_slots r) = surface_limit u limits"
      using inv q by (simp add: quota_inv_def)
    with True q a(1) a(2) [of u] show ?thesis by (cases "u = s") auto
  next
    case False
    with that inv show ?thesis by (simp add: quota_inv_def)
  qed
  moreover have "global_ok lib hw g' (length ((q, slot) # qr_slots r))"
    using inv a(3,4) by (auto simp: quota_inv_def global_ok_def split: option.splits)
  moreover have "slot_global slot = (hw \<noteq> None)"
    using inv a(1) by (auto simp: quota_inv_def global_ok_def split: option.splits)
  ultimately show ?thesis using inv q by (auto simp: quota_inv_def)
qed

lemma quota_inv_refused:
  assumes inv: "quota_inv lib limits hw r" and q: "q < length (qr_minted r)"
    and t: "GuestConnectionQuota_try_acquire lib s (qr_minted r ! q) (qr_global r) = (None, q', g')"
  shows "quota_inv lib limits hw (r\<lparr>qr_minted := (qr_minted r)[q := q'], qr_global := g'\<rparr>)"
proof -
  have laws: "semaphore_laws lib" using inv by (simp add: quota_inv_def)
  note a = try_acquire_None [OF laws t]
  have "quota_available lib u ((qr_minted r)[q := q'] ! p) = quota_available lib u (qr_minted r ! p)"
    if "p < length (qr_minted r)" for p u
    using a(1) [of u] that by (cases "p = q") auto
  with inv a(2) show ?thesis by (auto simp: quota_inv_def)
qed

lemma quota_inv_released:
  assumes inv: "quota_inv lib limits hw r" and i: "i < length (qr_slots r)" "qr_slots r ! i = (q, slot)"
    and d: "ConnectionSlot_drop lib slot (qr_minted r ! q) (qr_global r) = (q', g')"
  shows "quota_inv lib limits hw
    (r\<lparr>qr_minted := (qr_minted r)[q := q'], qr_global := g', qr_slots := remove_nth i (qr_slots r)\<rparr>)"
proof -
  have laws: "semaphore_laws lib" using inv by (simp add: quota_inv_def)
  note a = slot_drop_available [OF laws d]
  have mem: "(q, slot) \<in> set (qr_slots r)" using i nth_mem by metis
  then have q: "q < length (qr_minted r)" "slot_global slot = (hw \<noteq> None)" using inv by (auto simp: quota_inv_def)
  have "quota_available lib u ((qr_minted r)[q := q'] ! p) + held p u (remove_nth i (qr_slots r)) = surface_limit u limits"
    if "p < length (qr_minted r)" for p u
  proof -
    have "quota_available lib u (qr_minted r ! p) + held p u (qr_slots r) = surface_limit u limits"
      using inv that by (simp add: quota_inv_def)
    with held_remove_nth [OF i, of p u] a(1) [of u] q(1) show ?thesis by (cases "p = q") (auto split: if_splits)
  qed
  moreover have "global_ok lib hw g' (length (remove_nth i (qr_slots r)))"
    using inv a(2,3) q(2) i(1) laws by (auto simp: quota_inv_def global_ok_def semaphore_laws_def split: option.splits)
  moreover have "\<forall>x \<in> set (remove_nth i (qr_slots r)).
      case x of (p, slot) \<Rightarrow> p < length (qr_minted r) \<and> slot_global slot = (hw \<noteq> None)"
    using inv set_remove_nth_subset [of i "qr_slots r"] unfolding quota_inv_def by blast
  ultimately show ?thesis using inv by (simp add: quota_inv_def del: set_append)
qed

lemma quota_inv_step: "quota_inv lib limits hw r \<Longrightarrow> quota_step lib r r' \<Longrightarrow> quota_inv lib limits hw r'"
proof (erule quota_stepE)
  fix g
  assume "quota_inv lib limits hw r" "r' = r\<lparr>qr_cache := (qr_cache r)(g := None)\<rparr>"
  then show ?thesis by (auto simp: quota_inv_def split: if_splits)
qed (auto intro: quota_inv_looked_up quota_inv_acquired quota_inv_refused quota_inv_released)

interpretation quotas: transition_system "quota_step lib" "quota_inv lib limits hw" for lib limits hw
  by unfold_locales (rule quota_inv_step)

lemma quota_inv_new: "semaphore_laws lib \<Longrightarrow> quota_inv lib limits hw (QuotaRegistry_new lib limits hw)"
  by (auto simp: quota_inv_def QuotaRegistry_new_def global_ok_def semaphore_laws_def split: option.split)

section \<open>Properties\<close>


text \<open>The semaphore of the witnesses: a counter.\<close>

definition counter_lib :: "nat semaphore_lib" where
  "counter_lib = \<lparr>sem_new = (\<lambda>n. n), sem_available = (\<lambda>n. n),
     sem_try_acquire = (\<lambda>n. if n = 0 then None else Some (n - 1)), sem_release = Suc\<rparr>"

lemma counter_lib_laws: "semaphore_laws counter_lib"
  by (auto simp: semaphore_laws_def counter_lib_def)




text \<open>
  A refused attempt takes nothing: neither the guest's surfaces nor the host-wide ceiling
  change, also when the guest's own permit had been taken before the host-wide one was
  refused. Refusal happens exactly when the surface or the ceiling is exhausted, and a
  granted slot gives back on drop exactly what it took.
\<close>

theorem try_acquire_is_all_or_nothing:
  assumes "semaphore_laws lib" and "GuestConnectionQuota_try_acquire lib s q g = (res, q', g')"
  shows "(res = None \<longleftrightarrow> quota_available lib s q = 0 \<or> (\<exists>x. g = Some x \<and> sem_available lib x = 0)) \<and>
    (res = None \<longrightarrow> g' = g \<and> (\<forall>t. quota_available lib t q' = quota_available lib t q)) \<and>
    (\<forall>slot q'' g''. res = Some slot \<longrightarrow> ConnectionSlot_drop lib slot q' g' = (q'', g'') \<longrightarrow>
       (\<forall>t. quota_available lib t q'' = quota_available lib t q) \<and>
       map_option (sem_available lib) g'' = map_option (sem_available lib) g)"
proof -
  have zero: "sem_available lib x = 0 \<longleftrightarrow> sem_try_acquire lib x = None" for x
    using assms(1) by (simp add: semaphore_laws_def)
  have "res = None \<longleftrightarrow> quota_available lib s q = 0 \<or> (\<exists>x. g = Some x \<and> sem_available lib x = 0)"
    using assms(2)
    by (auto simp: GuestConnectionQuota_try_acquire_def quota_available_def zero Let_def split: option.splits)
  moreover have "g' = g \<and> (\<forall>t. quota_available lib t q' = quota_available lib t q)" if "res = None"
    using try_acquire_None [OF assms(1), of s q g q' g'] assms(2) that by simp
  moreover have "(\<forall>t. quota_available lib t q'' = quota_available lib t q) \<and>
       map_option (sem_available lib) g'' = map_option (sem_available lib) g"
    if "res = Some slot" and d: "ConnectionSlot_drop lib slot q' g' = (q'', g'')" for slot q'' g''
  proof -
    have t: "GuestConnectionQuota_try_acquire lib s q g = (Some slot, q', g')" using assms(2) that(1) by simp
    note a = try_acquire_Some [OF assms(1) t] and b = slot_drop_available [OF assms(1) d]
    have "quota_available lib t q'' = quota_available lib t q" for t using a(1) a(2) [of t] b(1) [of t] by simp
    moreover have "map_option (sem_available lib) g'' = map_option (sem_available lib) g"
      using a(1,3,4) b(2,3) assms(1) by (cases g) (auto simp: semaphore_laws_def)
    ultimately show ?thesis by blast
  qed
  ultimately show ?thesis by blast
qed

theorem try_acquire_is_all_or_nothing_witness:
  "fst (GuestConnectionQuota_try_acquire counter_lib InboundSockets
      (GuestConnectionQuota_new counter_lib QuotaLimits_default) (Some 0)) = None"
proof -
  let ?t = "GuestConnectionQuota_try_acquire counter_lib InboundSockets
      (GuestConnectionQuota_new counter_lib QuotaLimits_default) (Some 0)"
  have "?t = (fst ?t, fst (snd ?t), snd (snd ?t))" by simp
  from try_acquire_is_all_or_nothing [OF counter_lib_laws this] show ?thesis by (simp add: counter_lib_def)
qed

text \<open>
  When the cached allowance of a guest expires, its next lookup mints a second, full
  allowance whatever the guest still holds from the first: the slots held under the first no
  longer count against the guest.
\<close>

theorem expired_allowance_is_minted_again:
  assumes "semaphore_laws lib" and "(quota_step lib)\<^sup>*\<^sup>* (QuotaRegistry_new lib limits host_wide) r"
    and "qr_cache r guest = Some old"
    and "QuotaRegistry_for_guest lib guest (r\<lparr>qr_cache := (qr_cache r)(guest := None)\<rparr>) = (new, r')"
  shows "new \<noteq> old \<and> quota_available lib s (qr_minted r' ! new) = surface_limit s limits \<and>
    qr_slots r' = qr_slots r"
proof -
  have inv: "quota_inv lib limits host_wide r"
    by (rule quotas.inv_reachable [OF assms(2) quota_inv_new [OF assms(1)]])
  then have "old < length (qr_minted r)" using assms(3) by (simp add: quota_inv_def)
  moreover have "new = length (qr_minted r)" "qr_slots r' = qr_slots r"
    "qr_minted r' ! new = GuestConnectionQuota_new lib limits"
    using assms(4) inv by (auto simp: QuotaRegistry_for_guest_def quota_inv_def)
  ultimately show ?thesis using new_available [OF assms(1)] by simp
qed

theorem expired_allowance_is_minted_again_witness:
  "let r = snd (QuotaRegistry_for_guest counter_lib ''w'' (QuotaRegistry_new counter_lib QuotaLimits_default None));
       r' = snd (QuotaRegistry_for_guest counter_lib ''w'' (r\<lparr>qr_cache := (qr_cache r)(''w'' := None)\<rparr>))
   in quota_available counter_lib OutboundHttp (qr_minted r' ! 1) = 128"
proof -
  let ?n = "QuotaRegistry_new counter_lib QuotaLimits_default None"
  let ?r = "snd (QuotaRegistry_for_guest counter_lib ''w'' ?n)"
  let ?f = "QuotaRegistry_for_guest counter_lib ''w'' (?r\<lparr>qr_cache := (qr_cache ?r)(''w'' := None)\<rparr>)"
  have "quota_step counter_lib ?n ?r" by (rule quota_step.looked_up [where q = "fst (QuotaRegistry_for_guest counter_lib ''w'' ?n)"]) simp
  then have s: "(quota_step counter_lib)\<^sup>*\<^sup>* ?n ?r" by (rule r_into_rtranclp)
  have c: "qr_cache ?r ''w'' = Some 0" by (simp add: QuotaRegistry_for_guest_def QuotaRegistry_new_def)
  have f: "?f = (1, snd ?f)" by (simp add: QuotaRegistry_for_guest_def QuotaRegistry_new_def)
  from expired_allowance_is_minted_again [OF counter_lib_laws s c f, of OutboundHttp] show ?thesis
    by (simp add: Let_def surface_limit_def QuotaLimits_default_def)
qed

lemma raise_from_bounds: "t \<in> set (raise_from have target) \<Longrightarrow> have < t \<and> t \<le> target"
proof (induction "have" target rule: raise_from.induct)
  case (1 "have" target)
  show ?case
  proof (cases "have < target")
    case True
    with 1 show ?thesis by (auto simp: raise_from.simps [of "have" target])
  next
    case False
    with 1(2) show ?thesis by (simp add: raise_from.simps [of "have" target])
  qed
qed

lemma raise_from_decreasing: "sorted_wrt (>) (raise_from have target)"
proof (induction "have" target rule: raise_from.induct)
  case (1 "have" target)
  show ?case
  proof (cases "have < target")
    case True
    then have "t < target" if "t \<in> set (raise_from have (target div 2))" for t
      using raise_from_bounds [OF that] by linarith
    with True 1 show ?thesis by (simp add: raise_from.simps [of "have" target])
  qed (simp add: raise_from.simps [of "have" target])
qed

lemma raise_plan_bounds:
  assumes "t \<in> set (raise_plan soft hard)"
  shows "soft = Some n \<Longrightarrow> n < t" "hard = Some h \<Longrightarrow> t \<le> h" "t \<le> MAX_RAISED_DESCRIPTORS"
  using raise_from_bounds assms by (fastforce simp: raise_plan_def Let_def split: option.splits)+

definition rlimit_laws :: "'os rlimit_lib \<Rightarrow> bool" where
  "rlimit_laws lib \<longleftrightarrow> (\<forall>l os os'. setrlimit lib l os = Some os' \<longrightarrow> getrlimit lib os' = l)"

lemma try_raise_result:
  "rlimit_laws lib \<Longrightarrow> try_raise lib hard plan os = os' \<Longrightarrow>
   os' = os \<or> (\<exists>t \<in> set plan. getrlimit lib os' = (Some t, hard))"
  by (induction plan) (auto simp: rlimit_laws_def split: option.splits)

text \<open>
  Raising the descriptor limit never lowers it: the limit in force afterwards is the one
  before or a larger one, at most the hard limit and at most the ceiling of the plan. The plan
  itself is finite and strictly decreasing, so the largest limit the kernel takes is the one
  asked for first.
\<close>

theorem raise_never_lowers_the_limit:
  assumes "rlimit_laws lib" and "getrlimit lib os = (Some n, hard)" and "n \<le> usize_max"
  shows "sorted_wrt (>) (raise_plan (Some n) hard) \<and>
    (\<exists>m. fst (raise_descriptor_limit lib os) = Some m \<and> n \<le> m \<and>
       (m = n \<or> m \<le> MAX_RAISED_DESCRIPTORS \<and> (\<forall>h. hard = Some h \<longrightarrow> m \<le> h)))"
proof -
  define os' where "os' = try_raise lib hard (raise_plan (Some n) hard) os"
  have r: "fst (raise_descriptor_limit lib os) = soft_limit_as_budget (fst (getrlimit lib os'))"
    using assms(2) by (simp add: raise_descriptor_limit_def descriptor_soft_limit_def os'_def Let_def)
  from try_raise_result [OF assms(1) os'_def [symmetric]]
  have "\<exists>m. soft_limit_as_budget (fst (getrlimit lib os')) = Some m \<and> n \<le> m \<and>
       (m = n \<or> m \<le> MAX_RAISED_DESCRIPTORS \<and> (\<forall>h. hard = Some h \<longrightarrow> m \<le> h))"
  proof
    assume "os' = os"
    with assms(2,3) show ?thesis by (simp add: soft_limit_as_budget_def)
  next
    assume "\<exists>t \<in> set (raise_plan (Some n) hard). getrlimit lib os' = (Some t, hard)"
    then obtain t where t: "t \<in> set (raise_plan (Some n) hard)" "getrlimit lib os' = (Some t, hard)" by blast
    then have "t \<le> usize_max" using raise_plan_bounds(3) [OF t(1)] by (simp add: MAX_RAISED_DESCRIPTORS_def usize_max_def)
    with t raise_plan_bounds [OF t(1)] show ?thesis
      by (auto simp: soft_limit_as_budget_def intro: less_imp_le)
  qed
  with r raise_from_decreasing show ?thesis by (simp add: raise_plan_def Let_def)
qed

theorem raise_never_lowers_the_limit_witness:
  "fst (raise_descriptor_limit
      \<lparr>getrlimit = (\<lambda>os. os), setrlimit = (\<lambda>l os. if fst l = Some 65536 then Some l else None)\<rparr>
      (Some 1024, Some 1048576)) = Some 65536"
proof -
  let ?lib = "\<lparr>getrlimit = (\<lambda>os. os), setrlimit = (\<lambda>l os. if fst l = Some 65536 then Some l else None)\<rparr>
    :: (nat option \<times> nat option) rlimit_lib"
  have laws: "rlimit_laws ?lib" by (auto simp: rlimit_laws_def split: if_splits)
  have "raise_plan (Some 1024) (Some 1048576) =
      [1048576, 524288, 262144, 131072, 65536, 32768, 16384, 8192, 4096, 2048]"
    by (simp add: raise_plan_def raise_from.simps MAX_RAISED_DESCRIPTORS_def)
  then have "fst (raise_descriptor_limit ?lib (Some 1024, Some 1048576)) = Some 65536"
    by (simp add: raise_descriptor_limit_def descriptor_soft_limit_def soft_limit_as_budget_def usize_max_def)
  moreover have "sorted_wrt (>) (raise_plan (Some 1024) (Some 1048576))"
    using raise_never_lowers_the_limit [OF laws, of "(Some 1024, Some 1048576)" 1024 "Some 1048576"]
    by (simp add: usize_max_def)
  ultimately show ?thesis by blast
qed

text \<open>
  The ceilings derived from a descriptor limit stay within their stated bounds, and from
  a limit of 512 up the guests' ceiling and the ingress ceiling together fit in it.
\<close>

theorem derived_ceilings_fit_the_budget:
  "64 \<le> default_max_connections lib os \<and> default_max_connections lib os \<le> 32768 \<and>
   256 \<le> default_max_http_ingress_connections lib os \<and> default_max_http_ingress_connections lib os \<le> 32768 \<and>
   (\<forall>soft. descriptor_soft_limit lib os = Some soft \<longrightarrow> 512 \<le> soft \<longrightarrow>
      default_max_connections lib os + default_max_http_ingress_connections lib os \<le> soft)"
proof -
  have b: "64 \<le> share_of s n d \<and> share_of s n d \<le> 32768" for s n d
    by (auto simp: share_of_def budget_defs clamp_def split: option.split)
  have "default_max_connections lib os + default_max_http_ingress_connections lib os \<le> soft"
    if "descriptor_soft_limit lib os = Some soft" "512 \<le> soft" for soft
  proof -
    have "share_of (Some soft) 1 2 \<le> soft div 2" "share_of (Some soft) 1 4 \<le> max (soft div 4) 64"
      using that(2) by (auto simp: share_of_def budget_defs clamp_def saturating_mul_def div_le_mono)
    then show ?thesis
      using that by (auto simp: default_max_connections_def default_max_http_ingress_connections_def
          descriptor_share_def budget_defs)
  qed
  then show ?thesis
    using b by (simp add: default_max_connections_def default_max_http_ingress_connections_def
        descriptor_share_def budget_defs)
qed

theorem derived_ceilings_fit_the_budget_witness:
  "default_max_connections \<lparr>getrlimit = (\<lambda>os. (Some 1024, None)), setrlimit = (\<lambda>_ _. None)\<rparr> () = 512 \<and>
   default_max_connections \<lparr>getrlimit = (\<lambda>os. (Some 1024, None)), setrlimit = (\<lambda>_ _. None)\<rparr> () +
   default_max_http_ingress_connections \<lparr>getrlimit = (\<lambda>os. (Some 1024, None)), setrlimit = (\<lambda>_ _. None)\<rparr> () \<le> 1024"
proof -
  let ?lib = "\<lparr>getrlimit = (\<lambda>os. (Some 1024, None)), setrlimit = (\<lambda>_ _. None)\<rparr> :: unit rlimit_lib"
  have s: "descriptor_soft_limit ?lib () = Some 1024"
    by (simp add: descriptor_soft_limit_def soft_limit_as_budget_def usize_max_def)
  moreover from this have "default_max_connections ?lib () = 512"
    by (simp add: default_max_connections_def descriptor_share_def share_of_def budget_defs clamp_def
        saturating_mul_def usize_max_def)
  ultimately show ?thesis using derived_ceilings_fit_the_budget [of ?lib "()"] by simp
qed

end
