(* ===== verification/Resolved_Names.thy ===== *)
theory Resolved_Names
  imports Allowed_Hosts "HOL-Library.While_Combinator"
begin

text \<open>
  What one store has resolved: \<open>sockets/resolved_names.rs\<close>. An association of a name, an
  address and the moment of its latest observation is held in four indexes. The abstraction
  \<open>assoc\<close> reads them as one partial function; the lemmas show that the indexes always agree
  with it, that the bounds hold, and what each operation does to it.

  An \<open>Instant\<close> is a number of nanoseconds on the monotonic clock, and \<open>checked_add\<close> fails
  past the largest one. A loop is \<open>while_option\<close>, whose value is \<open>None\<close> if it does not end;
  that it ends is part of what is proved.
\<close>

section \<open>Instants\<close>

type_synonym instant = nat
type_synonym duration = nat

definition checked_add :: "instant \<Rightarrow> duration \<Rightarrow> instant option" where
  "checked_add t d = (if t + d < 2 ^ 63 * 10 ^ 9 then Some (t + d) else None)"

section \<open>The table\<close>

record ResolvedNameLimits =
  rl_lifetime :: "duration option"
  rl_max_names :: nat
  rl_max_associations :: nat

definition ResolvedNameLimits_default :: ResolvedNameLimits where
  "ResolvedNameLimits_default = \<lparr>rl_lifetime = None, rl_max_names = 256, rl_max_associations = 4096\<rparr>"

record NameEntry =
  ne_addrs :: "ipaddr btree_set"
  ne_newest :: instant

record Inner =
  by_addr :: "(ipaddr, (string, instant) btree_map) btree_map"
  names :: "(string, NameEntry) btree_map"
  by_observed :: "(instant \<times> ipaddr \<times> string) btree_set"
  by_newest :: "(instant \<times> string) btree_set"

definition Inner_default :: Inner where
  "Inner_default = \<lparr>by_addr = [], names = [], by_observed = [], by_newest = []\<rparr>"

record ResolvedNames =
  rn_limits :: ResolvedNameLimits
  rn_inner :: Inner

definition ResolvedNames_new :: "ResolvedNameLimits \<Rightarrow> ResolvedNames" where
  "ResolvedNames_new limits = \<lparr>rn_limits = limits, rn_inner = Inner_default\<rparr>"

definition Inner_touch :: "string \<Rightarrow> instant \<Rightarrow> Inner \<Rightarrow> Inner" where
  "Inner_touch name observed i =
     (case bm_get (names i) name of
        None \<Rightarrow> i
      | Some entry \<Rightarrow>
          if ne_newest entry < observed then
            i\<lparr>by_newest := bs_insert (observed, name) (bs_remove (ne_newest entry, name) (by_newest i)),
              names := bm_insert name (entry\<lparr>ne_newest := observed\<rparr>) (names i)\<rparr>
          else i)"

definition Inner_remove :: "ipaddr \<Rightarrow> string \<Rightarrow> Inner \<Rightarrow> Inner" where
  "Inner_remove addr name i =
     (case bm_get (by_addr i) addr of
        None \<Rightarrow> i
      | Some grants \<Rightarrow>
          (case bm_get grants name of
             None \<Rightarrow> i
           | Some observed \<Rightarrow>
               let grants = bm_remove name grants;
                   i = i\<lparr>by_addr := (if grants = [] then bm_remove addr (by_addr i)
                                     else bm_insert addr grants (by_addr i)),
                         by_observed := bs_remove (observed, addr, name) (by_observed i)\<rparr>
               in (case bm_get (names i) name of
                     None \<Rightarrow> i
                   | Some entry \<Rightarrow>
                       let addrs = bs_remove addr (ne_addrs entry) in
                       if addrs = [] then
                         i\<lparr>by_newest := bs_remove (ne_newest entry, name) (by_newest i),
                           names := bm_remove name (names i)\<rparr>
                       else i\<lparr>names := bm_insert name (entry\<lparr>ne_addrs := addrs\<rparr>) (names i)\<rparr>)))"

text \<open>Removing the first of \<open>by_observed\<close>.\<close>

definition remove_oldest :: "Inner \<Rightarrow> Inner" where
  "remove_oldest i =
     (case bs_first (by_observed i) of None \<Rightarrow> i | Some (_, addr, name) \<Rightarrow> Inner_remove addr name i)"

definition lapsed_by :: "duration \<Rightarrow> instant \<Rightarrow> instant \<Rightarrow> bool" where
  "lapsed_by lifetime observed now =
     (case checked_add observed lifetime of None \<Rightarrow> False | Some deadline \<Rightarrow> deadline \<le> now)"

definition purge_expired :: "instant \<Rightarrow> duration option \<Rightarrow> Inner \<Rightarrow> Inner option" where
  "purge_expired now lifetime i =
     (case lifetime of
        None \<Rightarrow> Some i
      | Some lifetime \<Rightarrow>
          while_option
            (\<lambda>i. case bs_first (by_observed i) of
                   None \<Rightarrow> False | Some (observed, _) \<Rightarrow> lapsed_by lifetime observed now)
            remove_oldest i)"

definition evict_stalest_name :: "Inner \<Rightarrow> bool \<times> Inner" where
  "evict_stalest_name i =
     (case bs_first (by_newest i) of
        None \<Rightarrow> (False, i)
      | Some (_, name) \<Rightarrow>
          let addrs = (case bm_get (names i) name of Some entry \<Rightarrow> ne_addrs entry | None \<Rightarrow> [])
          in (True, fold (\<lambda>addr. Inner_remove addr name) addrs i))"

text \<open>
  The end of \<open>insert\<close>: the entry of a known or a new name gains the address, then the
  association is recorded.
\<close>

definition Inner_enter :: "string \<Rightarrow> ipaddr \<Rightarrow> instant \<Rightarrow> Inner \<Rightarrow> Inner" where
  "Inner_enter name addr observed i =
     (let i = (case bm_get (names i) name of
                 Some _ \<Rightarrow> i
               | None \<Rightarrow>
                   i\<lparr>names := bm_insert name \<lparr>ne_addrs = [], ne_newest = observed\<rparr> (names i),
                     by_newest := bs_insert (observed, name) (by_newest i)\<rparr>)
      in (case bm_get (names i) name of
            Some entry \<Rightarrow>
              i\<lparr>names := bm_insert name (entry\<lparr>ne_addrs := bs_insert addr (ne_addrs entry)\<rparr>) (names i)\<rparr>
          | None \<Rightarrow> i))"

definition Inner_link :: "string \<Rightarrow> ipaddr \<Rightarrow> instant \<Rightarrow> Inner \<Rightarrow> Inner" where
  "Inner_link name addr observed i =
     (let i = Inner_touch name observed (Inner_enter name addr observed i);
          grants = (case bm_get (by_addr i) addr of Some grants \<Rightarrow> grants | None \<Rightarrow> [])
      in i\<lparr>by_addr := bm_insert addr (bm_insert name observed grants) (by_addr i),
           by_observed := bs_insert (observed, addr, name) (by_observed i)\<rparr>)"

text \<open>The refresh of an association that is there already.\<close>

definition Inner_refresh :: "string \<Rightarrow> ipaddr \<Rightarrow> instant \<Rightarrow> instant \<Rightarrow> (string, instant) btree_map \<Rightarrow> Inner \<Rightarrow> Inner" where
  "Inner_refresh name addr observed recorded grants i =
     Inner_touch name observed
       (if recorded < observed then
          i\<lparr>by_observed := bs_insert (observed, addr, name) (bs_remove (recorded, addr, name) (by_observed i)),
            by_addr := bm_insert addr (bm_insert name observed grants) (by_addr i)\<rparr>
        else i)"

text \<open>\<open>by_addr.get_mut(&addr).and_then(|g| g.get_mut(name))\<close> under a known name.\<close>

definition recorded_under :: "string \<Rightarrow> ipaddr \<Rightarrow> Inner \<Rightarrow> (instant \<times> (string, instant) btree_map) option" where
  "recorded_under name addr i =
     (if bm_contains (names i) name then
        (case bm_get (by_addr i) addr of
           Some grants \<Rightarrow> map_option (\<lambda>t. (t, grants)) (bm_get grants name)
         | None \<Rightarrow> None)
      else None)"

definition Inner_insert ::
    "string \<Rightarrow> ipaddr \<Rightarrow> instant \<Rightarrow> instant \<Rightarrow> ResolvedNameLimits \<Rightarrow> Inner \<Rightarrow> Inner option" where
  "Inner_insert name addr observed now limits i =
     (case recorded_under name addr i of
        Some (recorded, grants) \<Rightarrow> Some (Inner_refresh name addr observed recorded grants i)
      | None \<Rightarrow>
          let is_new_name = (\<not> bm_contains (names i) name) in
          Option.bind
            (if rl_max_associations limits \<le> length (by_observed i)
                \<or> (is_new_name \<and> rl_max_names limits \<le> length (names i))
             then purge_expired now (rl_lifetime limits) i else Some i) (\<lambda>i.
          Option.bind
            (while_option
               (\<lambda>i. rl_max_associations limits \<le> length (by_observed i) \<and> by_observed i \<noteq> [])
               remove_oldest i) (\<lambda>i.
          if rl_max_associations limits \<le> length (by_observed i) then Some i
          else Option.bind
            (while_option
               (\<lambda>i. \<not> bm_contains (names i) name \<and> rl_max_names limits \<le> length (names i) \<and> by_newest i \<noteq> [])
               (\<lambda>i. snd (evict_stalest_name i)) i) (\<lambda>i.
          if \<not> bm_contains (names i) name \<and> rl_max_names limits \<le> length (names i) then Some i
          else Some (Inner_link name addr observed i)))))"

fun record_addrs ::
    "string \<Rightarrow> instant \<Rightarrow> instant \<Rightarrow> ResolvedNameLimits \<Rightarrow> ipaddr list \<Rightarrow> Inner \<Rightarrow> Inner option" where
  "record_addrs name observed now limits [] i = Some i"
| "record_addrs name observed now limits (addr # addrs) i =
     Option.bind (Inner_insert name (to_canonical addr) observed now limits i)
       (record_addrs name observed now limits addrs)"

definition record_at ::
    "string \<Rightarrow> ipaddr list \<Rightarrow> instant \<Rightarrow> instant \<Rightarrow> ResolvedNames \<Rightarrow> ResolvedNames option" where
  "record_at name addrs observed now r =
     (let limits = rn_limits r;
          lapsed = (case rl_lifetime limits of
                      None \<Rightarrow> False | Some lifetime \<Rightarrow> lapsed_by lifetime observed now)
      in if lapsed \<or> rl_max_names limits = 0 \<or> rl_max_associations limits = 0 then Some r
         else map_option (\<lambda>i. r\<lparr>rn_inner := i\<rparr>) (record_addrs name observed now limits addrs (rn_inner r)))"

section \<open>The connect path\<close>

text \<open>\<open>one.zip(other).map(|(one, other)| one.max(other))\<close> and \<open>Iterator::reduce\<close>.\<close>

definition later :: "instant option \<Rightarrow> instant option \<Rightarrow> instant option" where
  "later one other = (case (one, other) of (Some a, Some b) \<Rightarrow> Some (max a b) | _ \<Rightarrow> None)"

fun reduce :: "('a \<Rightarrow> 'a \<Rightarrow> 'a) \<Rightarrow> 'a list \<Rightarrow> 'a option" where
  "reduce f [] = None"
| "reduce f (x # xs) = Some (foldl f x xs)"

definition grant_deadline ::
    "ResolvedNameLimits \<Rightarrow> allowed_host list \<Rightarrow> u16 \<Rightarrow> instant \<Rightarrow> string \<times> instant \<Rightarrow> instant option option" where
  "grant_deadline limits policy port now grant =
     (case grant of (name, observed) \<Rightarrow>
        let deadline = Option.bind (rl_lifetime limits) (checked_add observed)
        in if (case deadline of None \<Rightarrow> True | Some deadline \<Rightarrow> now < deadline)
              \<and> list_ex (\<lambda>entry. AllowedHost_permits_name entry name port) policy
           then Some deadline else None)"

definition permitted_until_at :: "allowed_host list \<Rightarrow> socket_addr \<Rightarrow> instant \<Rightarrow> ResolvedNames \<Rightarrow> instant option option" where
  "permitted_until_at policy addr now r =
     (case bm_get (by_addr (rn_inner r)) (to_canonical (sa_ip addr)) of
        None \<Rightarrow> None
      | Some grants \<Rightarrow>
          reduce later (List.map_filter (grant_deadline (rn_limits r) policy (sa_port addr) now) grants))"

text \<open>The public entry points read the clock.\<close>

definition ResolvedNames_record :: "instant \<Rightarrow> string \<Rightarrow> ipaddr list \<Rightarrow> instant \<Rightarrow> ResolvedNames \<Rightarrow> ResolvedNames option" where
  "ResolvedNames_record clock name addrs observed r = record_at name addrs observed clock r"

definition ResolvedNames_permitted_until ::
    "instant \<Rightarrow> allowed_host list \<Rightarrow> socket_addr \<Rightarrow> ResolvedNames \<Rightarrow> instant option option" where
  "ResolvedNames_permitted_until clock policy addr r = permitted_until_at policy addr clock r"

section \<open>Lookups\<close>

definition normalize_name :: "url_host \<Rightarrow> string option" where
  "normalize_name host =
     (case host of
        Domain domain \<Rightarrow>
          let domain = strip_suffix_or ''.'' domain
          in if domain \<noteq> [] then Some (to_ascii_lowercase domain) else None
      | Ipv4 _ \<Rightarrow> None
      | Ipv6 _ \<Rightarrow> None)"

record Observation =
  ob_name :: string
  ob_observed :: instant

record Lookup =
  lk_addresses :: "ipaddr list"
  lk_observation :: "Observation option"

definition Lookup_fixed :: "ipaddr list \<Rightarrow> Lookup" where
  "Lookup_fixed addresses = \<lparr>lk_addresses = addresses, lk_observation = None\<rparr>"

text \<open>
  The system resolver answers \<open>to_socket_addrs\<close> with a list of addresses or an I/O error;
  the clock is read when it has answered.
\<close>

definition lookup_blocking :: "(string \<Rightarrow> ('e, ipaddr list) result) \<Rightarrow> instant \<Rightarrow> url_host \<Rightarrow> ('e, Lookup) result" where
  "lookup_blocking resolver clock host =
     (case host of
        Ipv4 addr \<Rightarrow> Ok (Lookup_fixed [V4 addr])
      | Ipv6 addr \<Rightarrow> Ok (Lookup_fixed [V6 addr])
      | Domain domain \<Rightarrow>
          if suffix ''.localhost'' domain \<and> domain \<noteq> ''localhost''
          then Ok (Lookup_fixed [V4 v4_localhost, V6 v6_localhost])
          else bind_result (resolver domain) (\<lambda>addrs.
            Ok \<lparr>lk_addresses = map to_canonical addrs,
                lk_observation =
                  map_option (\<lambda>name. \<lparr>ob_name = name, ob_observed = clock\<rparr>) (normalize_name host)\<rparr>))"

section \<open>The abstraction and the invariant\<close>

definition assoc :: "Inner \<Rightarrow> ipaddr \<Rightarrow> string \<Rightarrow> instant option" where
  "assoc i a n = (case bm_get (by_addr i) a of None \<Rightarrow> None | Some grants \<Rightarrow> bm_get grants n)"

definition inner_inv :: "Inner \<Rightarrow> bool" where
  "inner_inv i \<longleftrightarrow>
     bm_wf (by_addr i) \<and> (\<forall>a g. bm_get (by_addr i) a = Some g \<longrightarrow> bm_wf g) \<and>
     bm_wf (names i) \<and> bs_wf (by_observed i) \<and> bs_wf (by_newest i) \<and>
     (\<forall>t a n. (t, a, n) \<in> set (by_observed i) \<longleftrightarrow> assoc i a n = Some t) \<and>
     (\<forall>n e. bm_get (names i) n = Some e \<longrightarrow>
        ne_addrs e \<noteq> [] \<and> (\<forall>a. a \<in> set (ne_addrs e) \<longleftrightarrow> assoc i a n \<noteq> None)) \<and>
     (\<forall>a n. assoc i a n \<noteq> None \<longrightarrow> bm_get (names i) n \<noteq> None) \<and>
     (\<forall>t n. (t, n) \<in> set (by_newest i) \<longleftrightarrow> (\<exists>e. bm_get (names i) n = Some e \<and> ne_newest e = t))"

lemma inner_invD:
  assumes "inner_inv i"
  shows "bm_wf (by_addr i)" "\<And>a g. bm_get (by_addr i) a = Some g \<Longrightarrow> bm_wf g"
    "bm_wf (names i)" "bs_wf (by_observed i)" "bs_wf (by_newest i)"
    "\<And>t a n. (t, a, n) \<in> set (by_observed i) \<longleftrightarrow> assoc i a n = Some t"
    "\<And>n e. bm_get (names i) n = Some e \<Longrightarrow> ne_addrs e \<noteq> []"
    "\<And>n e a. bm_get (names i) n = Some e \<Longrightarrow> a \<in> set (ne_addrs e) \<longleftrightarrow> assoc i a n \<noteq> None"
    "\<And>a n. assoc i a n \<noteq> None \<Longrightarrow> bm_get (names i) n \<noteq> None"
    "\<And>t n. (t, n) \<in> set (by_newest i) \<longleftrightarrow> (\<exists>e. bm_get (names i) n = Some e \<and> ne_newest e = t)"
  using assms unfolding inner_inv_def by blast+

lemma inner_inv_default: "inner_inv Inner_default"
  by (simp add: inner_inv_def Inner_default_def assoc_def)

lemma assoc_default [simp]: "assoc Inner_default a n = None"
  by (simp add: assoc_def Inner_default_def)

subsection \<open>Removing\<close>

lemma remove_absent: "assoc i a n = None \<Longrightarrow> Inner_remove a n i = i"
  by (simp add: assoc_def Inner_remove_def split: option.splits)

text \<open>The state after removing an association that is there.\<close>

lemma remove_present:
  assumes "assoc i a n = Some t" "bm_get (by_addr i) a = Some g" "bm_get (names i) n = Some e"
  shows "Inner_remove a n i =
    i\<lparr>by_addr := (if bm_remove n g = [] then bm_remove a (by_addr i) else bm_insert a (bm_remove n g) (by_addr i)),
      by_observed := bs_remove (t, a, n) (by_observed i),
      by_newest := (if bs_remove a (ne_addrs e) = [] then bs_remove (ne_newest e, n) (by_newest i) else by_newest i),
      names := (if bs_remove a (ne_addrs e) = [] then bm_remove n (names i)
                else bm_insert n (e\<lparr>ne_addrs := bs_remove a (ne_addrs e)\<rparr>) (names i))\<rparr>"
  using assms by (simp add: assoc_def Inner_remove_def Let_def)

lemma remove_presentE:
  assumes "inner_inv i" "assoc i a n = Some t"
  obtains g e where "bm_get (by_addr i) a = Some g" "bm_get (names i) n = Some e"
proof -
  obtain g where "bm_get (by_addr i) a = Some g" using assms(2) by (auto simp: assoc_def split: option.splits)
  moreover obtain e where "bm_get (names i) n = Some e" using inner_invD(9) [OF assms(1), of a n] assms(2) by auto
  ultimately show ?thesis using that by blast
qed

lemma assoc_remove:
  assumes inv: "inner_inv i"
  shows "assoc (Inner_remove a n i) a' n' = (if a' = a \<and> n' = n then None else assoc i a' n')"
proof (cases "assoc i a n")
  case None
  then show ?thesis using remove_absent [OF None] by auto
next
  case (Some t)
  obtain g e where ge: "bm_get (by_addr i) a = Some g" "bm_get (names i) n = Some e"
    by (rule remove_presentE [OF inv Some])
  show ?thesis
  proof (cases "bm_remove n g = []")
    case True
    then have "n' \<noteq> n \<Longrightarrow> bm_get g n' = None" by (metis bm_get_Nil bm_get_remove)
    with True show ?thesis
      unfolding remove_present [OF Some ge] using ge(1)
      by (auto simp: assoc_def bm_get_remove split: option.splits)
  next
    case False
    then show ?thesis
      unfolding remove_present [OF Some ge] using ge(1) inner_invD(1) [OF inv]
      by (auto simp: assoc_def bm_get_remove bm_get_insert split: option.splits)
  qed
qed

lemma names_remove:
  assumes inv: "inner_inv i"
  shows "bm_get (names (Inner_remove a n i)) n' =
    (if n' = n \<and> assoc i a n \<noteq> None then
       (case bm_get (names i) n of
          None \<Rightarrow> None
        | Some e \<Rightarrow> if bs_remove a (ne_addrs e) = [] then None else Some (e\<lparr>ne_addrs := bs_remove a (ne_addrs e)\<rparr>))
     else bm_get (names i) n')"
proof (cases "assoc i a n")
  case None
  then show ?thesis using remove_absent [OF None] by auto
next
  case (Some t)
  obtain g e where ge: "bm_get (by_addr i) a = Some g" "bm_get (names i) n = Some e"
    by (rule remove_presentE [OF inv Some])
  show ?thesis
    unfolding remove_present [OF Some ge] using ge(2) Some inner_invD(3) [OF inv]
    by (auto simp: bm_get_remove bm_get_insert)
qed

lemma inner_inv_remove:
  assumes inv: "inner_inv i"
  shows "inner_inv (Inner_remove a n i)"
proof (cases "assoc i a n")
  case None
  then show ?thesis using remove_absent [OF None] inv by simp
next
  case (Some t)
  obtain g e where ge: "bm_get (by_addr i) a = Some g" "bm_get (names i) n = Some e"
    by (rule remove_presentE [OF inv Some])
  note d = inner_invD [OF inv] and r = remove_present [OF Some ge]
  let ?i = "Inner_remove a n i"
  have as: "assoc ?i a' n' = (if a' = a \<and> n' = n then None else assoc i a' n')" for a' n'
    by (rule assoc_remove [OF inv])
  have nm: "bm_get (names ?i) n' =
    (if n' = n then (if bs_remove a (ne_addrs e) = [] then None else Some (e\<lparr>ne_addrs := bs_remove a (ne_addrs e)\<rparr>))
     else bm_get (names i) n')" for n'
    using names_remove [OF inv, of a n n'] Some ge(2) by simp
  have bo: "by_observed ?i = bs_remove (t, a, n) (by_observed i)"
    and bn: "by_newest ?i = (if bs_remove a (ne_addrs e) = [] then bs_remove (ne_newest e, n) (by_newest i) else by_newest i)"
    by (simp_all add: r)
  have "bm_wf (by_addr ?i)" "bm_wf (names ?i)" "bs_wf (by_observed ?i)" "bs_wf (by_newest ?i)"
    using d(1,3,4,5) by (simp_all add: r)
  moreover have "bm_wf g'" if "bm_get (by_addr ?i) a' = Some g'" for a' g'
    using that d(1) d(2) ge(1)
    by (auto simp: r bm_get_remove bm_get_insert split: if_splits)
  moreover have "(t', a', n') \<in> set (by_observed ?i) \<longleftrightarrow> assoc ?i a' n' = Some t'" for t' a' n'
    unfolding bo as using d(6) Some by auto
  moreover have "ne_addrs e' \<noteq> [] \<and> (\<forall>a'. a' \<in> set (ne_addrs e') \<longleftrightarrow> assoc ?i a' n' \<noteq> None)"
    if "bm_get (names ?i) n' = Some e'" for n' e'
    using that d(7,8) ge(2) unfolding nm as by (auto split: if_splits)
  moreover have "bm_get (names ?i) n' \<noteq> None" if "assoc ?i a' n' \<noteq> None" for a' n'
  proof (cases "n' = n")
    case True
    then have "a' \<noteq> a" "assoc i a' n \<noteq> None" using that by (auto simp: as split: if_splits)
    then have "a' \<in> set (bs_remove a (ne_addrs e))" using d(8) [OF ge(2)] by simp
    then have "bs_remove a (ne_addrs e) \<noteq> []" by (metis empty_iff empty_set)
    then show ?thesis using True by (simp add: nm)
  next
    case False
    then show ?thesis using that d(9) by (auto simp: as nm split: if_splits)
  qed
  moreover have "(t', n') \<in> set (by_newest ?i) \<longleftrightarrow> (\<exists>e. bm_get (names ?i) n' = Some e \<and> ne_newest e = t')" for t' n'
    unfolding nm bn using d(10) ge(2) by auto
  ultimately show ?thesis unfolding inner_inv_def by blast
qed

lemma length_remove:
  assumes inv: "inner_inv i" and s: "assoc i a n \<noteq> None"
  shows "Suc (length (by_observed (Inner_remove a n i))) = length (by_observed i)"
proof -
  from s obtain t where t: "assoc i a n = Some t" by auto
  obtain g e where ge: "bm_get (by_addr i) a = Some g" "bm_get (names i) n = Some e"
    by (rule remove_presentE [OF inv t])
  have mem: "(t, a, n) \<in> set (by_observed i)" using inner_invD(6) [OF inv] t by blast
  then have "0 < length (by_observed i)" by (cases "by_observed i") auto
  then show ?thesis
    using length_bs_remove [OF inner_invD(4) [OF inv], of "(t, a, n)"] mem
    by (simp add: remove_present [OF t ge])
qed

lemma names_remove_subset:
  "inner_inv i \<Longrightarrow> fst ` set (names (Inner_remove a n i)) \<subseteq> fst ` set (names i)"
proof -
  assume inv: "inner_inv i"
  have "bm_get (names (Inner_remove a n i)) k \<noteq> None \<Longrightarrow> bm_get (names i) k \<noteq> None" for k
    unfolding names_remove [OF inv] by (auto split: if_splits option.splits)
  then show ?thesis by (auto simp: bm_get_None_iff)
qed

subsection \<open>The loops end\<close>

lemma remove_oldest_step:
  assumes "inner_inv i" "by_observed i \<noteq> []"
  shows "inner_inv (remove_oldest i)" "Suc (length (by_observed (remove_oldest i))) = length (by_observed i)"
    "assoc (remove_oldest i) a n = Some t \<Longrightarrow> assoc i a n = Some t"
proof -
  obtain t a' n' where f: "bs_first (by_observed i) = Some (t, a', n')"
    using assms(2) by (cases "by_observed i") (auto simp: bs_first_def)
  then have "assoc i a' n' = Some t"
    using bs_first_least [OF inner_invD(4) [OF assms(1)]] inner_invD(6) [OF assms(1)] by blast
  then have pres: "assoc i a' n' \<noteq> None" by simp
  have ro: "remove_oldest i = Inner_remove a' n' i" by (simp add: remove_oldest_def f)
  show "inner_inv (remove_oldest i)" using inner_inv_remove [OF assms(1)] ro by simp
  show "Suc (length (by_observed (remove_oldest i))) = length (by_observed i)"
    using length_remove [OF assms(1) pres] ro by simp
  show "assoc i a n = Some t" if "assoc (remove_oldest i) a n = Some t" for t
    using that assoc_remove [OF assms(1), of a' n' a n] ro by (auto split: if_splits)
qed

lemma names_remove_oldest_subset:
  assumes "inner_inv i"
  shows "fst ` set (names (remove_oldest i)) \<subseteq> fst ` set (names i)"
  using names_remove_subset [OF assms] by (auto simp: remove_oldest_def split: option.split)

text \<open>What a state that only lost associations keeps.\<close>

definition shrunk :: "Inner \<Rightarrow> Inner \<Rightarrow> bool" where
  "shrunk i j \<longleftrightarrow> inner_inv j \<and> (\<forall>a n t. assoc j a n = Some t \<longrightarrow> assoc i a n = Some t) \<and>
     fst ` set (names j) \<subseteq> fst ` set (names i)"

lemma shrunk_refl: "inner_inv i \<Longrightarrow> shrunk i i"
  by (simp add: shrunk_def)

lemma shrunk_trans:
  assumes "shrunk i j" "shrunk j k"
  shows "shrunk i k"
proof -
  have "fst ` set (names k) \<subseteq> fst ` set (names i)"
    using assms subset_trans unfolding shrunk_def by blast
  with assms show ?thesis unfolding shrunk_def by blast
qed

lemma shrunk_inv: "shrunk i j \<Longrightarrow> inner_inv j"
  by (simp add: shrunk_def)

lemma shrunk_remove_oldest: "inner_inv i \<Longrightarrow> shrunk i (remove_oldest i)"
  using remove_oldest_step [of i] names_remove_oldest_subset [of i]
  by (cases "by_observed i = []") (auto simp: shrunk_def remove_oldest_def bs_first_def)

lemma shrunk_length:
  assumes "inner_inv i" "shrunk i j"
  shows "length (by_observed j) \<le> length (by_observed i)" "length (names j) \<le> length (names i)"
proof -
  have "set (by_observed j) \<subseteq> set (by_observed i)"
    using assms inner_invD(6) [of i] inner_invD(6) [of j] by (auto simp: shrunk_def)
  then show "length (by_observed j) \<le> length (by_observed i)"
    using assms bs_wf_distinct inner_invD(4) card_mono [of "set (by_observed i)"] unfolding shrunk_def
    by (metis List.finite_set distinct_card)
  have "card (fst ` set (names j)) \<le> card (fst ` set (names i))"
    using assms(2) by (intro card_mono) (auto simp: shrunk_def)
  moreover have "card (fst ` set (names k)) = length (names k)" if "inner_inv k" for k
    using distinct_card [OF bm_wf_distinct [OF inner_invD(3) [OF that]]] by simp
  ultimately show "length (names j) \<le> length (names i)" using assms by (simp add: shrunk_def)
qed

lemma while_remove_oldest:
  assumes inv: "inner_inv i" and b: "\<And>j. b j \<Longrightarrow> by_observed j \<noteq> []"
  obtains j where "while_option b remove_oldest i = Some j" "shrunk i j" "\<not> b j"
proof -
  have "\<exists>j. while_option b remove_oldest i = Some j"
  proof (rule measure_while_option_Some [where P = inner_inv and f = "\<lambda>i. length (by_observed i)", OF _ inv])
    fix s assume "inner_inv s" "b s"
    with b remove_oldest_step(1,2) [of s]
    show "inner_inv (remove_oldest s) \<and> length (by_observed (remove_oldest s)) < length (by_observed s)"
      by (metis lessI)
  qed
  then obtain j where j: "while_option b remove_oldest i = Some j" by blast
  have "shrunk i j"
    by (rule while_option_rule [where P = "shrunk i", OF _ j shrunk_refl [OF inv]])
      (use shrunk_trans shrunk_remove_oldest shrunk_inv in blast)
  with j that while_option_stop [OF j] show ?thesis by blast
qed

lemma purge_expired_ends:
  assumes "inner_inv i"
  obtains j where "purge_expired now lifetime i = Some j" "shrunk i j"
proof (cases lifetime)
  case None
  then show ?thesis using that shrunk_refl [OF assms] by (simp add: purge_expired_def)
next
  case (Some l)
  let ?b = "\<lambda>i. case bs_first (by_observed i) of None \<Rightarrow> False | Some (observed, _) \<Rightarrow> lapsed_by l observed now"
  have "by_observed j \<noteq> []" if "?b j" for j using that by (auto simp: bs_first_def split: list.splits)
  from while_remove_oldest [of i ?b, OF assms this] obtain j where
    "while_option ?b remove_oldest i = Some j" "shrunk i j" by blast
  with Some that show ?thesis by (simp add: purge_expired_def)
qed

lemma shrunk_remove: "inner_inv i \<Longrightarrow> shrunk i (Inner_remove a n i)"
  using inner_inv_remove assoc_remove names_remove_subset by (auto simp: shrunk_def split: if_splits)

lemma fold_remove:
  "inner_inv i \<Longrightarrow> shrunk i (fold (\<lambda>a. Inner_remove a n) as i) \<and>
     (\<forall>a \<in> set as. assoc (fold (\<lambda>a. Inner_remove a n) as i) a n = None)"
proof (induction as arbitrary: i)
  case Nil
  then show ?case by (simp add: shrunk_refl)
next
  case (Cons a as)
  let ?j = "Inner_remove a n i"
  have j: "inner_inv ?j" "assoc ?j a n = None"
    using inner_inv_remove [OF Cons.prems] assoc_remove [OF Cons.prems, of a n a n] by auto
  from Cons.IH [OF j(1)] have ih: "shrunk ?j (fold (\<lambda>a. Inner_remove a n) as ?j)"
    "\<forall>a \<in> set as. assoc (fold (\<lambda>a. Inner_remove a n) as ?j) a n = None" by blast+
  then have "assoc (fold (\<lambda>a. Inner_remove a n) as ?j) a n = None"
    using j(2) unfolding shrunk_def by (metis not_None_eq)
  with ih shrunk_trans [OF shrunk_remove [OF Cons.prems] ih(1)] show ?case by simp
qed

lemma evict_stalest_step:
  assumes inv: "inner_inv i" and ne: "by_newest i \<noteq> []"
  shows "shrunk i (snd (evict_stalest_name i))"
    "length (names (snd (evict_stalest_name i))) < length (names i)"
proof -
  obtain t n where f: "bs_first (by_newest i) = Some (t, n)"
    using ne by (cases "by_newest i") (auto simp: bs_first_def)
  then obtain e where e: "bm_get (names i) n = Some e"
    using bs_first_least [OF inner_invD(5) [OF inv]] inner_invD(10) [OF inv] by blast
  let ?j = "fold (\<lambda>a. Inner_remove a n) (ne_addrs e) i"
  have j: "snd (evict_stalest_name i) = ?j" by (simp add: evict_stalest_name_def f e)
  have s: "shrunk i ?j" and gone: "\<forall>a \<in> set (ne_addrs e). assoc ?j a n = None"
    using fold_remove [OF inv] by blast+
  then show "shrunk i (snd (evict_stalest_name i))" using j by simp
  have invj: "inner_inv ?j" using s by (simp add: shrunk_def)
  have "assoc ?j a n = None" for a
    using gone inner_invD(8) [OF inv e, of a] s unfolding shrunk_def by (metis not_None_eq)
  then have "bm_get (names ?j) n = None"
    using inner_invD(7,8) [OF invj, of n] by (metis list.set_intros(1) neq_Nil_conv not_None_eq)
  then have "n \<notin> fst ` set (names ?j)" by (simp add: bm_get_None_iff)
  moreover have "n \<in> fst ` set (names i)" using e bm_get_None_iff [of "names i" n] by auto
  ultimately have "fst ` set (names ?j) \<subset> fst ` set (names i)" using s by (auto simp: shrunk_def)
  then have "card (fst ` set (names ?j)) < card (fst ` set (names i))" by (simp add: psubset_card_mono)
  moreover have "card (fst ` set (names k)) = length (names k)" if "inner_inv k" for k
    using distinct_card [OF bm_wf_distinct [OF inner_invD(3) [OF that]]] by simp
  ultimately show "length (names (snd (evict_stalest_name i))) < length (names i)"
    using j inv invj by simp
qed

lemma while_evict:
  assumes inv: "inner_inv i" and b: "\<And>j. b j \<Longrightarrow> by_newest j \<noteq> []"
  obtains j where "while_option b (\<lambda>i. snd (evict_stalest_name i)) i = Some j" "shrunk i j" "\<not> b j"
proof -
  have "\<exists>j. while_option b (\<lambda>i. snd (evict_stalest_name i)) i = Some j"
    by (rule measure_while_option_Some [where P = inner_inv and f = "\<lambda>i. length (names i)"])
      (use b evict_stalest_step inv in \<open>auto simp: shrunk_def\<close>)
  then obtain j where j: "while_option b (\<lambda>i. snd (evict_stalest_name i)) i = Some j" by blast
  have "shrunk i j"
    by (rule while_option_rule [where P = "shrunk i", OF _ j shrunk_refl [OF inv]])
      (use b shrunk_trans evict_stalest_step(1) shrunk_inv in blast)
  with j that while_option_stop [OF j] show ?thesis by blast
qed

subsection \<open>Touching, linking, refreshing\<close>

lemma touch_fields [simp]:
  "by_addr (Inner_touch n t i) = by_addr i" "by_observed (Inner_touch n t i) = by_observed i"
  "assoc (Inner_touch n t i) a m = assoc i a m"
  by (simp_all add: Inner_touch_def assoc_def split: option.split)

lemma touch_names:
  "bm_wf (names i) \<Longrightarrow> bm_get (names (Inner_touch n t i)) m =
     (if m = n then map_option (\<lambda>e. e\<lparr>ne_newest := max (ne_newest e) t\<rparr>) (bm_get (names i) n) else bm_get (names i) m)"
  by (auto simp: Inner_touch_def bm_get_insert max_def split: option.split)

lemma touch_wf:
  "bm_wf (names i) \<Longrightarrow> bm_wf (names (Inner_touch n t i))"
  "bs_wf (by_newest i) \<Longrightarrow> bs_wf (by_newest (Inner_touch n t i))"
  by (simp_all add: Inner_touch_def split: option.split)

lemma touch_newest:
  assumes "bm_wf (names i)"
    "\<forall>t n. (t, n) \<in> set (by_newest i) \<longleftrightarrow> (\<exists>e. bm_get (names i) n = Some e \<and> ne_newest e = t)"
  shows "(u, m) \<in> set (by_newest (Inner_touch n t i)) \<longleftrightarrow>
    (\<exists>e. bm_get (names (Inner_touch n t i)) m = Some e \<and> ne_newest e = u)"
proof (cases "bm_get (names i) n")
  case None
  with assms(2) show ?thesis by (simp add: Inner_touch_def)
next
  case (Some e)
  with assms(2) show ?thesis
    unfolding touch_names [OF assms(1)]
    by (cases "m = n"; cases "ne_newest e < t") (auto simp: Inner_touch_def max_def)
qed

lemma inner_inv_touch:
  assumes "inner_inv i"
  shows "inner_inv (Inner_touch n t i)"
proof -
  note d = inner_invD [OF assms]
  have new: "(u, m) \<in> set (by_newest (Inner_touch n t i)) \<longleftrightarrow>
    (\<exists>e. bm_get (names (Inner_touch n t i)) m = Some e \<and> ne_newest e = u)" for u m
    by (rule touch_newest [OF d(3)]) (use d(10) in blast)
  have "ne_addrs e \<noteq> [] \<and> (\<forall>a. a \<in> set (ne_addrs e) \<longleftrightarrow> assoc i a m \<noteq> None)"
    if "bm_get (names (Inner_touch n t i)) m = Some e" for m e
    using that d(7,8) unfolding touch_names [OF d(3)] by (auto split: if_splits)
  moreover have "bm_get (names (Inner_touch n t i)) m \<noteq> None" if "assoc i a m \<noteq> None" for a m
    using that d(9) unfolding touch_names [OF d(3)] by auto
  ultimately show ?thesis
    using d touch_wf(1) [OF d(3)] touch_wf(2) [OF d(5)] new by (simp add: inner_inv_def)
qed

lemma enter_fields [simp]:
  "by_addr (Inner_enter n a t i) = by_addr i" "by_observed (Inner_enter n a t i) = by_observed i"
  by (simp_all add: Inner_enter_def Let_def split: option.split)

lemma enter_wf:
  assumes "bm_wf (names i)"
  shows "bm_wf (names (Inner_enter n a t i))"
  using assms by (cases "bm_get (names i) n") (simp_all add: Inner_enter_def Let_def bm_get_insert)

lemma enter_names:
  assumes "bm_wf (names i)"
  shows "bm_get (names (Inner_enter n a t i)) m =
    (if m = n then
       Some (case bm_get (names i) n of
               None \<Rightarrow> \<lparr>ne_addrs = [a], ne_newest = t\<rparr>
             | Some e \<Rightarrow> e\<lparr>ne_addrs := bs_insert a (ne_addrs e)\<rparr>)
     else bm_get (names i) m)"
  using assms by (cases "bm_get (names i) n") (simp_all add: Inner_enter_def Let_def bm_get_insert)

lemma enter_newest:
  assumes "bm_wf (names i)"
  shows "by_newest (Inner_enter n a t i) =
    (if bm_get (names i) n = None then bs_insert (t, n) (by_newest i) else by_newest i)"
  using assms by (cases "bm_get (names i) n") (simp_all add: Inner_enter_def Let_def bm_get_insert)

lemma enter_newest_agrees:
  assumes wf: "bm_wf (names i)"
    and i: "\<forall>t n. (t, n) \<in> set (by_newest i) \<longleftrightarrow> (\<exists>e. bm_get (names i) n = Some e \<and> ne_newest e = t)"
  shows "\<forall>u m. (u, m) \<in> set (by_newest (Inner_enter n a t i)) \<longleftrightarrow>
    (\<exists>e. bm_get (names (Inner_enter n a t i)) m = Some e \<and> ne_newest e = u)"
  unfolding enter_names [OF wf] enter_newest [OF wf]
  by (cases "bm_get (names i) n") (auto simp: i)

lemma link_fields:
  "by_addr (Inner_link n a t i) =
     bm_insert a (bm_insert n t (case bm_get (by_addr i) a of Some g \<Rightarrow> g | None \<Rightarrow> [])) (by_addr i)"
  "by_observed (Inner_link n a t i) = bs_insert (t, a, n) (by_observed i)"
  "names (Inner_link n a t i) = names (Inner_touch n t (Inner_enter n a t i))"
  "by_newest (Inner_link n a t i) = by_newest (Inner_touch n t (Inner_enter n a t i))"
  by (simp_all add: Inner_link_def Let_def)

lemma assoc_link:
  assumes "bm_wf (by_addr i)" "\<And>a g. bm_get (by_addr i) a = Some g \<Longrightarrow> bm_wf g"
  shows "assoc (Inner_link n a t i) a' n' = (if a' = a \<and> n' = n then Some t else assoc i a' n')"
proof -
  have "bm_wf (case bm_get (by_addr i) a of Some g \<Rightarrow> g | None \<Rightarrow> [])"
    using assms(2) by (simp split: option.split)
  then show ?thesis
    using assms(1) by (auto simp: assoc_def link_fields(1) bm_get_insert split: option.split)
qed

text \<open>The entry of the name after linking.\<close>

definition linked_entry :: "NameEntry option \<Rightarrow> ipaddr \<Rightarrow> instant \<Rightarrow> NameEntry" where
  "linked_entry e a t =
     (case e of
        None \<Rightarrow> \<lparr>ne_addrs = [a], ne_newest = t\<rparr>
      | Some e \<Rightarrow> e\<lparr>ne_addrs := bs_insert a (ne_addrs e), ne_newest := max (ne_newest e) t\<rparr>)"

lemma linked_addrs:
  "ne_addrs (linked_entry e a t) \<noteq> []"
  "set (ne_addrs (linked_entry e a t)) = insert a (case e of None \<Rightarrow> {} | Some e \<Rightarrow> set (ne_addrs e))"
proof -
  show "set (ne_addrs (linked_entry e a t)) = insert a (case e of None \<Rightarrow> {} | Some e \<Rightarrow> set (ne_addrs e))"
    by (simp add: linked_entry_def split: option.split)
  then show "ne_addrs (linked_entry e a t) \<noteq> []" by (metis empty_set insert_not_empty)
qed

lemma link_names:
  assumes "bm_wf (names i)"
  shows "bm_get (names (Inner_link n a t i)) m =
    (if m = n then Some (linked_entry (bm_get (names i) n) a t) else bm_get (names i) m)"
  unfolding link_fields touch_names [OF enter_wf [OF assms]] enter_names [OF assms]
  by (simp add: linked_entry_def split: option.split)

lemma link_entry_addrs:
  assumes inv: "inner_inv i"
  shows "b \<in> set (ne_addrs (linked_entry (bm_get (names i) n) a t)) \<longleftrightarrow> b = a \<or> assoc i b n \<noteq> None"
proof (cases "bm_get (names i) n")
  case None
  then have "assoc i b n = None" using inner_invD(9) [OF inv, of b n] by blast
  then show ?thesis by (simp only: linked_addrs None) simp
next
  case (Some e)
  show ?thesis by (simp only: linked_addrs Some) (simp add: inner_invD(8) [OF inv Some])
qed

lemma bm_wf_single [simp]: "bm_wf [x]"
  by (simp add: bm_wf_def)

lemma inner_inv_link:
  assumes inv: "inner_inv i" and new: "assoc i a n = None"
  shows "inner_inv (Inner_link n a t i)" (is "inner_inv ?j")
proof -
  note d = inner_invD [OF inv]
  have as: "assoc ?j a' n' = (if a' = a \<and> n' = n then Some t else assoc i a' n')" for a' n'
    by (rule assoc_link [OF d(1,2)])
  note nm = link_names [OF d(3)]
  have wf: "bm_wf (by_addr ?j)" "bs_wf (by_observed ?j)" "bm_wf (names ?j)" "bs_wf (by_newest ?j)"
    using d(1,3,4,5) by (simp_all add: link_fields enter_wf enter_newest touch_wf)
  have inner: "bm_wf g" if "bm_get (by_addr ?j) b = Some g" for b g
    using that d(2) unfolding link_fields(1) bm_get_insert [OF d(1)]
    by (auto split: if_splits option.splits)
  have obs: "(u, b, m) \<in> set (by_observed ?j) \<longleftrightarrow> assoc ?j b m = Some u" for u b m
    using new by (auto simp: link_fields(2) as d(6))
  have entry: "ne_addrs e \<noteq> [] \<and> (\<forall>b. b \<in> set (ne_addrs e) \<longleftrightarrow> assoc ?j b m \<noteq> None)"
    if "bm_get (names ?j) m = Some e" for m e
  proof (cases "m = n")
    case False
    then have "bm_get (names i) m = Some e" using that by (simp add: nm)
    with False d(7) d(8) show ?thesis by (simp add: as)
  next
    case True
    then have "e = linked_entry (bm_get (names i) n) a t" using that by (simp add: nm)
    then show ?thesis unfolding True by (simp add: linked_addrs(1) link_entry_addrs [OF inv] as)
  qed
  have known: "bm_get (names ?j) m \<noteq> None" if "assoc ?j b m \<noteq> None" for b m
    using that d(9) [of b m] by (simp add: nm as split: if_splits)
  have "(u, m) \<in> set (by_newest ?j) \<longleftrightarrow> (\<exists>e. bm_get (names ?j) m = Some e \<and> ne_newest e = u)" for u m
    unfolding link_fields by (intro touch_newest enter_wf enter_newest_agrees allI d(3) d(10))
  with wf inner obs entry known show ?thesis unfolding inner_inv_def by blast
qed

lemma link_sizes:
  assumes "inner_inv i" "assoc i a n = None"
  shows "length (by_observed (Inner_link n a t i)) = Suc (length (by_observed i))"
    "fst ` set (names (Inner_link n a t i)) = insert n (fst ` set (names i))"
proof -
  note d = inner_invD [OF assms(1)]
  have "(t, a, n) \<notin> set (by_observed i)" using d(6) assms(2) by simp
  then show "length (by_observed (Inner_link n a t i)) = Suc (length (by_observed i))"
    by (simp add: length_bs_insert [OF d(4)] link_fields)
  have "m \<in> fst ` set (names (Inner_link n a t i)) \<longleftrightarrow> m = n \<or> m \<in> fst ` set (names i)" for m
    using bm_get_None_iff link_names [OF d(3), of n a t m] by (metis option.distinct(1))
  then show "fst ` set (names (Inner_link n a t i)) = insert n (fst ` set (names i))" by blast
qed

text \<open>The two indexes the refresh of an older association changes.\<close>

definition Inner_renew :: "string \<Rightarrow> ipaddr \<Rightarrow> instant \<Rightarrow> instant \<Rightarrow> (string, instant) btree_map \<Rightarrow> Inner \<Rightarrow> Inner" where
  "Inner_renew n a t old g i =
     i\<lparr>by_observed := bs_insert (t, a, n) (bs_remove (old, a, n) (by_observed i)),
       by_addr := bm_insert a (bm_insert n t g) (by_addr i)\<rparr>"

lemma renew_spec:
  assumes inv: "inner_inv i" and g: "bm_get (by_addr i) a = Some g" "bm_get g n = Some old" and lt: "old < t"
  shows "inner_inv (Inner_renew n a t old g i)" (is "inner_inv ?j")
    "assoc (Inner_renew n a t old g i) a' n' = (if a' = a \<and> n' = n then Some t else assoc i a' n')"
    "length (by_observed (Inner_renew n a t old g i)) = length (by_observed i)"
proof -
  note d = inner_invD [OF inv]
  have old: "assoc i a n = Some old" using g by (simp add: assoc_def)
  have wfg: "bm_wf g" using d(2) g(1) by blast
  have as: "assoc ?j a' n' = (if a' = a \<and> n' = n then Some t else assoc i a' n')" for a' n'
    using g(1) by (simp add: Inner_renew_def assoc_def bm_get_insert [OF d(1)] bm_get_insert [OF wfg])
  then show "assoc ?j a' n' = (if a' = a \<and> n' = n then Some t else assoc i a' n')" .
  have nm: "names ?j = names i" "by_newest ?j = by_newest i" by (simp_all add: Inner_renew_def)
  have wf: "bm_wf (by_addr ?j)" "bs_wf (by_observed ?j)" using d(1,4) by (simp_all add: Inner_renew_def)
  have inner: "bm_wf h" if "bm_get (by_addr ?j) b = Some h" for b h
    using that d(2) wfg by (auto simp: Inner_renew_def bm_get_insert [OF d(1)] split: if_splits)
  have obs: "(u, b, m) \<in> set (by_observed ?j) \<longleftrightarrow> assoc ?j b m = Some u" for u b m
    unfolding as using old lt by (auto simp: Inner_renew_def d(6))
  have same: "assoc ?j b m \<noteq> None \<longleftrightarrow> assoc i b m \<noteq> None" for b m by (simp add: as old)
  show "inner_inv ?j"
    unfolding inner_inv_def nm same using wf inner d obs by blast
  have "(old, a, n) \<in> set (by_observed i)" "(t, a, n) \<notin> set (by_observed i)" using old lt by (auto simp: d(6))
  then show "length (by_observed ?j) = length (by_observed i)"
    using d(4) length_pos_if_in_set [of "(old, a, n)" "by_observed i"]
    by (simp add: Inner_renew_def length_bs_insert length_bs_remove)
qed

lemma length_names_touch:
  "bm_wf (names i) \<Longrightarrow> length (names (Inner_touch n t i)) = length (names i)"
  by (simp add: Inner_touch_def length_bm_insert split: option.split)

lemma refresh_spec:
  assumes inv: "inner_inv i" and r: "recorded_under n a i = Some (old, g)"
  shows "inner_inv (Inner_refresh n a t old g i)"
    "assoc (Inner_refresh n a t old g i) a' n' = (if a' = a \<and> n' = n then Some (max old t) else assoc i a' n')"
    "length (by_observed (Inner_refresh n a t old g i)) = length (by_observed i)"
    "length (names (Inner_refresh n a t old g i)) = length (names i)"
    "assoc i a n = Some old"
proof -
  have g: "bm_get (by_addr i) a = Some g" "bm_get g n = Some old"
    using r by (auto simp: recorded_under_def split: if_splits option.splits)
  then show old: "assoc i a n = Some old" by (simp add: assoc_def)
  have rj: "Inner_refresh n a t old g i =
      Inner_touch n t (if old < t then Inner_renew n a t old g i else i)"
    by (simp add: Inner_refresh_def Inner_renew_def)
  note s = renew_spec [OF inv g]
  show "inner_inv (Inner_refresh n a t old g i)"
    unfolding rj using inv s(1) by (auto intro: inner_inv_touch)
  show "assoc (Inner_refresh n a t old g i) a' n' = (if a' = a \<and> n' = n then Some (max old t) else assoc i a' n')"
    unfolding rj using s(2) old by (cases "old < t") simp_all
  show "length (by_observed (Inner_refresh n a t old g i)) = length (by_observed i)"
    unfolding rj using s(3) by simp
  show "length (names (Inner_refresh n a t old g i)) = length (names i)"
    unfolding rj using inner_invD(3) [OF inv] by (simp add: length_names_touch Inner_renew_def)
qed

subsection \<open>Inserting\<close>

definition within :: "ResolvedNameLimits \<Rightarrow> Inner \<Rightarrow> bool" where
  "within limits i \<longleftrightarrow>
     length (by_observed i) \<le> rl_max_associations limits \<and> length (names i) \<le> rl_max_names limits"

text \<open>What recording the association of \<open>n\<close> and \<open>a\<close> at \<open>t\<close> may turn a table into.\<close>

definition gained :: "string \<Rightarrow> ipaddr \<Rightarrow> instant \<Rightarrow> Inner \<Rightarrow> Inner \<Rightarrow> bool" where
  "gained n a t i j \<longleftrightarrow>
     (\<forall>a' n' u. assoc j a' n' = Some u \<longrightarrow> assoc i a' n' = Some u \<or> a' = a \<and> n' = n \<and> u = t) \<and>
     (\<exists>u \<ge> t. assoc j a n = Some u)"

lemma shrunk_within: "inner_inv i \<Longrightarrow> within limits i \<Longrightarrow> shrunk i j \<Longrightarrow> within limits j"
  using shrunk_length [of i j] by (auto simp: within_def intro: le_trans)

lemma recorded_under_None:
  assumes "inner_inv i" "recorded_under n a i = None"
  shows "assoc i a n = None"
proof (rule ccontr)
  assume s: "assoc i a n \<noteq> None"
  then have "bm_contains (names i) n"
    using inner_invD(9) [OF assms(1) s] by (simp add: bm_contains_def)
  with assms(2) s show False by (auto simp: recorded_under_def assoc_def split: option.splits)
qed

lemma link_spec:
  assumes inv: "inner_inv i" and new: "assoc i a n = None"
    and room: "length (by_observed i) < rl_max_associations limits"
      "bm_contains (names i) n \<or> length (names i) < rl_max_names limits"
    and w: "within limits i"
  shows "inner_inv (Inner_link n a t i) \<and> within limits (Inner_link n a t i) \<and> gained n a t i (Inner_link n a t i)"
proof -
  let ?j = "Inner_link n a t i"
  have ij: "inner_inv ?j" by (rule inner_inv_link [OF inv new])
  have card: "card (fst ` set (names k)) = length (names k)" if "inner_inv k" for k
    using distinct_card [OF bm_wf_distinct [OF inner_invD(3) [OF that]]] by simp
  have "n \<in> fst ` set (names i)" if "bm_contains (names i) n"
    using that bm_get_None_iff [of "names i" n] by (simp add: bm_contains_def)
  then have "length (names ?j) \<le> rl_max_names limits"
    using card [OF inv] card [OF ij] link_sizes(2) [OF inv new, of t] room(2) w
    by (auto simp: within_def card_insert_if split: if_splits)
  moreover have "length (by_observed ?j) \<le> rl_max_associations limits"
    using link_sizes(1) [OF inv new, of t] room(1) by simp
  moreover have "gained n a t i ?j"
    using assoc_link [OF inner_invD(1,2) [OF inv]] by (simp add: gained_def)
  ultimately show ?thesis using ij by (simp add: within_def)
qed

lemma gained_shrunk:
  "shrunk i j \<Longrightarrow> gained n a t j k \<Longrightarrow> gained n a t i k"
  unfolding gained_def shrunk_def by blast

lemma insert_new_spec:
  assumes inv: "inner_inv i" and w: "within limits i"
    and pos: "0 < rl_max_associations limits" "0 < rl_max_names limits"
    and r: "recorded_under n a i = None"
  shows "\<exists>j. Inner_insert n a t now limits i = Some j \<and> inner_inv j \<and> within limits j \<and> gained n a t i j"
proof -
  obtain i1 where i1: "(if rl_max_associations limits \<le> length (by_observed i)
                \<or> (\<not> bm_contains (names i) n \<and> rl_max_names limits \<le> length (names i))
             then purge_expired now (rl_lifetime limits) i else Some i) = Some i1" "shrunk i i1"
    using purge_expired_ends [OF inv] shrunk_refl [OF inv] by (metis (full_types))
  let ?b = "\<lambda>i. rl_max_associations limits \<le> length (by_observed i) \<and> by_observed i \<noteq> []"
  obtain i2 where i2: "while_option ?b remove_oldest i1 = Some i2" "shrunk i1 i2" "\<not> ?b i2"
    using while_remove_oldest [of i1 ?b] shrunk_inv [OF i1(2)] by blast
  have room: "length (by_observed i2) < rl_max_associations limits"
    using i2(3) pos(1) by (cases "by_observed i2 = []") auto
  let ?c = "\<lambda>i. \<not> bm_contains (names i) n \<and> rl_max_names limits \<le> length (names i) \<and> by_newest i \<noteq> []"
  obtain i3 where i3: "while_option ?c (\<lambda>i. snd (evict_stalest_name i)) i2 = Some i3" "shrunk i2 i3" "\<not> ?c i3"
    using while_evict [of i2 ?c] shrunk_inv [OF i2(2)] by blast
  have s3: "shrunk i i3" using i1(2) i2(2) i3(2) shrunk_trans by blast
  note inv3 = shrunk_inv [OF s3]
  have "names i3 = []" if "by_newest i3 = []"
  proof (rule ccontr)
    assume "names i3 \<noteq> []"
    then obtain m e where "bm_get (names i3) m = Some e"
      by (metis bm_get_iff inner_invD(3) inv3 list.set_intros(1) neq_Nil_conv surj_pair)
    then have "(ne_newest e, m) \<in> set (by_newest i3)" using inner_invD(10) [OF inv3] by blast
    with that show False by simp
  qed
  then have room3: "bm_contains (names i3) n \<or> length (names i3) < rl_max_names limits"
    using i3(3) pos(2) by (cases "by_newest i3 = []") auto
  have new: "assoc i3 a n = None"
    using recorded_under_None [OF inv r] s3 unfolding shrunk_def by (metis not_None_eq)
  have room2: "length (by_observed i3) < rl_max_associations limits"
    using shrunk_length(1) [OF shrunk_inv [OF i2(2)] i3(2)] room by simp
  have "Inner_insert n a t now limits i = Some (Inner_link n a t i3)"
    unfolding Inner_insert_def r Let_def option.case i1(1) bind.bind_lunit i2(1) i3(1)
    using room room3 by auto
  with link_spec [OF inv3 new room2 room3 shrunk_within [OF inv w s3]] gained_shrunk [OF s3] show ?thesis by blast
qed

lemma insert_spec:
  assumes inv: "inner_inv i" and w: "within limits i"
    and pos: "0 < rl_max_associations limits" "0 < rl_max_names limits"
  shows "\<exists>j. Inner_insert n a t now limits i = Some j \<and> inner_inv j \<and> within limits j \<and> gained n a t i j"
proof (cases "recorded_under n a i")
  case None
  then show ?thesis by (rule insert_new_spec [OF assms])
next
  case (Some p)
  obtain old g where p: "recorded_under n a i = Some (old, g)" using Some by (cases p) auto
  note s = refresh_spec [OF inv p]
  have "gained n a t i (Inner_refresh n a t old g i)"
    using s(2,5) by (auto simp: gained_def max_def split: if_splits)
  moreover have "within limits (Inner_refresh n a t old g i)" using w s(3,4) by (simp add: within_def)
  ultimately show ?thesis using p s(1) by (simp add: Inner_insert_def)
qed

text \<open>The whole answer of a lookup.\<close>

definition learned :: "string \<Rightarrow> ipaddr list \<Rightarrow> instant \<Rightarrow> Inner \<Rightarrow> Inner \<Rightarrow> bool" where
  "learned n as t i j \<longleftrightarrow>
     (\<forall>a' n' u. assoc j a' n' = Some u \<longrightarrow>
        assoc i a' n' = Some u \<or> a' \<in> to_canonical ` set as \<and> n' = n \<and> u = t) \<and>
     (as \<noteq> [] \<longrightarrow> (\<exists>u \<ge> t. assoc j (to_canonical (last as)) n = Some u))"

lemma record_addrs_spec:
  assumes "inner_inv i" "within limits i" and pos: "0 < rl_max_associations limits" "0 < rl_max_names limits"
  shows "\<exists>j. record_addrs n t now limits as i = Some j \<and> inner_inv j \<and> within limits j \<and> learned n as t i j"
  using assms(1,2)
proof (induction as arbitrary: i)
  case Nil
  then show ?case by (simp add: learned_def)
next
  case (Cons a as)
  obtain k where k: "Inner_insert n (to_canonical a) t now limits i = Some k"
    "inner_inv k" "within limits k" "gained n (to_canonical a) t i k"
    using insert_spec [OF Cons.prems pos] by blast
  obtain j where j: "record_addrs n t now limits as k = Some j" "inner_inv j" "within limits j" "learned n as t k j"
    using Cons.IH [OF k(2,3)] by blast
  have "learned n (a # as) t i j"
    using k(4) j(1,4) unfolding gained_def learned_def by (cases "as = []") (auto, metis+)
  with k(1) j show ?case by simp
qed

lemma record_at_spec:
  assumes "inner_inv (rn_inner r)" "within (rn_limits r) (rn_inner r)"
  shows "\<exists>r'. record_at n as t now r = Some r' \<and> inner_inv (rn_inner r') \<and>
    within (rn_limits r') (rn_inner r') \<and> rn_limits r' = rn_limits r \<and>
    (rn_inner r' = rn_inner r \<or> learned n as t (rn_inner r) (rn_inner r'))"
proof -
  let ?l = "rn_limits r"
  let ?skip = "(case rl_lifetime ?l of None \<Rightarrow> False | Some l \<Rightarrow> lapsed_by l t now)
    \<or> rl_max_names ?l = 0 \<or> rl_max_associations ?l = 0"
  show ?thesis
  proof (cases ?skip)
    case True
    then have "record_at n as t now r = Some r" by (simp add: record_at_def Let_def)
    with assms show ?thesis by simp
  next
    case False
    then have pos: "0 < rl_max_associations ?l" "0 < rl_max_names ?l" by auto
    obtain j where j: "record_addrs n t now ?l as (rn_inner r) = Some j" "inner_inv j" "within ?l j"
      "learned n as t (rn_inner r) j"
      using record_addrs_spec [OF assms pos] by blast
    have "record_at n as t now r = Some (r\<lparr>rn_inner := j\<rparr>)"
      using False j(1) by (simp add: record_at_def Let_def)
    with j show ?thesis by simp
  qed
qed

subsection \<open>Every history of recordings\<close>

record Recording =
  rec_name :: string
  rec_addrs :: "ipaddr list"
  rec_observed :: instant
  rec_now :: instant

fun run_recordings :: "Recording list \<Rightarrow> ResolvedNames \<Rightarrow> ResolvedNames option" where
  "run_recordings [] r = Some r"
| "run_recordings (c # cs) r =
     Option.bind (record_at (rec_name c) (rec_addrs c) (rec_observed c) (rec_now c) r) (run_recordings cs)"

definition observed_in :: "Recording list \<Rightarrow> ipaddr \<Rightarrow> string \<Rightarrow> instant \<Rightarrow> bool" where
  "observed_in cs a n t \<longleftrightarrow>
     (\<exists>c \<in> set cs. rec_name c = n \<and> a \<in> to_canonical ` set (rec_addrs c) \<and> rec_observed c = t)"

lemma run_recordings_spec:
  assumes "inner_inv (rn_inner r)" "within (rn_limits r) (rn_inner r)"
  shows "\<exists>r'. run_recordings cs r = Some r' \<and> inner_inv (rn_inner r') \<and>
    within (rn_limits r') (rn_inner r') \<and> rn_limits r' = rn_limits r \<and>
    (\<forall>a n t. assoc (rn_inner r') a n = Some t \<longrightarrow> assoc (rn_inner r) a n = Some t \<or> observed_in cs a n t)"
  using assms
proof (induction cs arbitrary: r)
  case Nil
  then show ?case by simp
next
  case (Cons c cs)
  obtain r1 where r1: "record_at (rec_name c) (rec_addrs c) (rec_observed c) (rec_now c) r = Some r1"
    "inner_inv (rn_inner r1)" "within (rn_limits r1) (rn_inner r1)" "rn_limits r1 = rn_limits r"
    "rn_inner r1 = rn_inner r \<or> learned (rec_name c) (rec_addrs c) (rec_observed c) (rn_inner r) (rn_inner r1)"
    using record_at_spec [OF Cons.prems] by blast
  obtain r' where r': "run_recordings cs r1 = Some r'" "inner_inv (rn_inner r')"
    "within (rn_limits r') (rn_inner r')" "rn_limits r' = rn_limits r1"
    "\<forall>a n t. assoc (rn_inner r') a n = Some t \<longrightarrow> assoc (rn_inner r1) a n = Some t \<or> observed_in cs a n t"
    using Cons.IH [OF r1(2,3)] by blast
  have step: "assoc (rn_inner r) a n = Some t \<or> observed_in [c] a n t" if "assoc (rn_inner r1) a n = Some t" for a n t
    using that r1(5) by (auto simp: learned_def observed_in_def)
  have "observed_in (c # cs) a n t \<longleftrightarrow> observed_in [c] a n t \<or> observed_in cs a n t" for a n t
    by (auto simp: observed_in_def)
  then have "\<forall>a n t. assoc (rn_inner r') a n = Some t \<longrightarrow> assoc (rn_inner r) a n = Some t \<or> observed_in (c # cs) a n t"
    using r'(5) step by blast
  with r1(1,4) r'(1-4) show ?case by auto
qed

lemma new_table:
  "inner_inv (rn_inner (ResolvedNames_new limits))"
  "within (rn_limits (ResolvedNames_new limits)) (rn_inner (ResolvedNames_new limits))"
  "assoc (rn_inner (ResolvedNames_new limits)) a n = None"
  "rn_limits (ResolvedNames_new limits) = limits"
  using inner_inv_default by (simp_all add: ResolvedNames_new_def within_def Inner_default_def assoc_def)

subsection \<open>The answer of the connect path\<close>

definition deadline_of :: "ResolvedNameLimits \<Rightarrow> instant \<Rightarrow> instant option" where
  "deadline_of limits observed = Option.bind (rl_lifetime limits) (checked_add observed)"

text \<open>The deadlines of the grants of an address that are current.\<close>

definition current_deadlines :: "allowed_host list \<Rightarrow> socket_addr \<Rightarrow> instant \<Rightarrow> ResolvedNames \<Rightarrow> instant option set" where
  "current_deadlines policy addr now r =
     {deadline_of (rn_limits r) t | n t.
        assoc (rn_inner r) (to_canonical (sa_ip addr)) n = Some t \<and>
        (\<forall>d. deadline_of (rn_limits r) t = Some d \<longrightarrow> now < d) \<and>
        (\<exists>entry \<in> set policy. AllowedHost_permits_name entry n (sa_port addr))}"

text \<open>The latest of a set of deadlines, in which no deadline at all is the latest.\<close>

definition latest :: "instant option set \<Rightarrow> instant option option" where
  "latest ds = (if ds = {} then None else if None \<in> ds then Some None else Some (Some (Max (the ` ds))))"

lemma later_None [simp]: "later None x = None" "later x None = None"
  by (simp_all add: later_def split: option.split)

lemma later_Some [simp]: "later (Some a) (Some b) = Some (max a b)"
  by (simp add: later_def)

lemma foldl_later_None: "foldl later None xs = None"
  by (induction xs) auto

lemma foldl_later: "Some (foldl later x xs) = latest (insert x (set xs))"
proof (induction xs arbitrary: x)
  case Nil
  then show ?case by (cases x) (simp_all add: latest_def)
next
  case (Cons y ys)
  show ?case
  proof (cases "x = None \<or> y = None")
    case True
    then show ?thesis by (auto simp: latest_def foldl_later_None)
  next
    case False
    then obtain a b where ab: "x = Some a" "y = Some b" by auto
    have "latest (insert (Some (max a b)) (set ys)) = latest (insert (Some a) (insert (Some b) (set ys)))"
    proof (cases "None \<in> set ys")
      case False
      have "Max (insert (max a b) (the ` set ys)) = Max (insert a (insert b (the ` set ys)))"
        by (cases "set ys = {}") (simp_all add: max.assoc)
      with False show ?thesis by (simp add: latest_def)
    qed (simp add: latest_def)
    with ab Cons.IH [of "Some (max a b)"] show ?thesis by simp
  qed
qed

lemma reduce_later: "reduce later xs = latest (set xs)"
  by (cases xs) (simp_all add: foldl_later latest_def [of "{}"])

lemma set_map_filter_iff: "y \<in> set (List.map_filter f xs) \<longleftrightarrow> (\<exists>x \<in> set xs. f x = Some y)"
  by (induction xs) (auto simp: List.map_filter_simps split: option.split)

lemma grant_deadline_iff:
  "grant_deadline limits policy port now (n, t) = Some d \<longleftrightarrow>
     d = deadline_of limits t \<and> (\<forall>x. deadline_of limits t = Some x \<longrightarrow> now < x) \<and>
     (\<exists>entry \<in> set policy. AllowedHost_permits_name entry n port)"
  by (auto simp: grant_deadline_def deadline_of_def list_ex_iff Let_def split: option.splits)

lemma permitted_until_latest:
  assumes "inner_inv (rn_inner r)"
  shows "permitted_until_at policy addr now r = latest (current_deadlines policy addr now r)"
proof (cases "bm_get (by_addr (rn_inner r)) (to_canonical (sa_ip addr))")
  case None
  then have "current_deadlines policy addr now r = {}" by (simp add: current_deadlines_def assoc_def)
  with None show ?thesis by (simp add: permitted_until_at_def latest_def)
next
  case (Some g)
  have g: "assoc (rn_inner r) (to_canonical (sa_ip addr)) n = Some t \<longleftrightarrow> (n, t) \<in> set g" for n t
    using Some bm_get_iff [OF inner_invD(2) [OF assms Some]] by (simp add: assoc_def)
  have "d \<in> set (List.map_filter (grant_deadline (rn_limits r) policy (sa_port addr) now) g) \<longleftrightarrow>
      (\<exists>n t. (n, t) \<in> set g \<and> grant_deadline (rn_limits r) policy (sa_port addr) now (n, t) = Some d)" for d
    unfolding set_map_filter_iff by auto
  also have "\<dots> d \<longleftrightarrow> d \<in> current_deadlines policy addr now r" for d
    unfolding current_deadlines_def g grant_deadline_iff by blast
  finally have "set (List.map_filter (grant_deadline (rn_limits r) policy (sa_port addr) now) g) =
      current_deadlines policy addr now r" by blast
  with Some show ?thesis by (simp add: permitted_until_at_def reduce_later)
qed

lemma latest_Some_member:
  assumes "finite ds" "latest ds = Some d"
  shows "d \<in> ds"
proof (cases "None \<in> ds")
  case False
  with assms have d: "ds \<noteq> {}" "d = Some (Max (the ` ds))" by (auto simp: latest_def split: if_splits)
  have "Max (the ` ds) \<in> the ` ds" using assms(1) d(1) by simp
  with d(2) False show ?thesis by (auto simp: image_iff) (metis option.collapse)
qed (use assms(2) in \<open>auto simp: latest_def split: if_splits\<close>)

lemma finite_current_deadlines:
  assumes "inner_inv (rn_inner r)"
  shows "finite (current_deadlines policy addr now r)"
proof -
  have "current_deadlines policy addr now r \<subseteq>
      (\<lambda>(t, _). deadline_of (rn_limits r) t) ` set (by_observed (rn_inner r))"
    unfolding current_deadlines_def using inner_invD(6) [OF assms] by (force simp: image_iff)
  then show ?thesis by (rule finite_subset) simp
qed

lemma deadline_mono:
  assumes "t \<le> u" "\<not> (case rl_lifetime limits of None \<Rightarrow> False | Some l \<Rightarrow> lapsed_by l t now)"
    "deadline_of limits u = Some d"
  shows "now < d"
  using assms
  by (auto simp: deadline_of_def lapsed_by_def checked_add_def split: option.splits bind_splits if_splits)

section \<open>Properties\<close>

text \<open>
  C11. From an empty table, any sequence of recordings ends, whatever the limits and the
  clocks; then the four indexes describe the same associations, and neither the names nor
  the associations exceed the limits of the table.
\<close>

theorem recordings_end_consistent_and_bounded:
  "\<exists>r. run_recordings cs (ResolvedNames_new limits) = Some r \<and> inner_inv (rn_inner r) \<and>
     length (by_observed (rn_inner r)) \<le> rl_max_associations limits \<and>
     length (names (rn_inner r)) \<le> rl_max_names limits"
  using run_recordings_spec [of "ResolvedNames_new limits" cs, OF new_table(1,2)] by (auto simp: new_table(4) within_def)

lemma permitted_until_answer:
  assumes run: "run_recordings cs (ResolvedNames_new limits) = Some r"
    and perm: "permitted_until_at policy addr now r = Some d"
  shows "\<exists>c \<in> set cs. to_canonical (sa_ip addr) \<in> to_canonical ` set (rec_addrs c) \<and>
    (\<exists>entry \<in> set policy. AllowedHost_permits_name entry (rec_name c) (sa_port addr)) \<and>
    d = deadline_of limits (rec_observed c) \<and> (\<forall>x. d = Some x \<longrightarrow> now < x)"
proof -
  have r: "inner_inv (rn_inner r)" "rn_limits r = limits"
    "\<And>a n t. assoc (rn_inner r) a n = Some t \<Longrightarrow> observed_in cs a n t"
    using run run_recordings_spec [of "ResolvedNames_new limits" cs, OF new_table(1,2)] by (auto simp: new_table)
  have "d \<in> current_deadlines policy addr now r"
    using perm permitted_until_latest [OF r(1)] latest_Some_member [OF finite_current_deadlines [OF r(1)]] by metis
  then obtain n t where g: "assoc (rn_inner r) (to_canonical (sa_ip addr)) n = Some t"
    "d = deadline_of limits t" "\<forall>x. d = Some x \<longrightarrow> now < x"
    "\<exists>entry \<in> set policy. AllowedHost_permits_name entry n (sa_port addr)"
    unfolding current_deadlines_def r(2) by blast
  from r(3) [OF g(1)] show ?thesis unfolding observed_in_def using g(2-4) by blast
qed

text \<open>
  C12. A connect permitted by name rests on one lookup: some recorded answer returned the
  address, in whatever spelling, for a name the policy grants on the port, that answer has
  not outlived its lifetime, and the deadline returned is that answer's.
\<close>

theorem name_grant_rests_on_current_answer:
  assumes run: "run_recordings cs (ResolvedNames_new limits) = Some r"
    and perm: "permitted_until_at policy addr now r = Some d"
  shows "\<exists>c \<in> set cs. to_canonical (sa_ip addr) \<in> to_canonical ` set (rec_addrs c) \<and>
    (\<exists>entry \<in> set policy. AllowedHost_permits_name entry (rec_name c) (sa_port addr)) \<and>
    d = deadline_of limits (rec_observed c) \<and> (\<forall>x. d = Some x \<longrightarrow> now < x)"
  by (rule permitted_until_answer [OF run perm])

text \<open>
  An answer that is still current when it is recorded permits its last address at
  once, whatever had to be evicted for it, on every port on which the policy grants the
  name.
\<close>

theorem recorded_answer_permits_its_last_address:
  assumes run: "run_recordings cs (ResolvedNames_new limits) = Some r"
    and rec: "record_at n as t now r = Some r'" and ne: "as \<noteq> []"
    and lim: "0 < rl_max_names limits" "0 < rl_max_associations limits"
    and cur: "\<not> (case rl_lifetime limits of None \<Rightarrow> False | Some l \<Rightarrow> lapsed_by l t now)"
    and addr: "to_canonical (sa_ip addr) = to_canonical (last as)"
    and pol: "\<exists>entry \<in> set policy. AllowedHost_permits_name entry n (sa_port addr)"
  shows "permitted_until_at policy addr now r' \<noteq> None"
proof -
  have r: "inner_inv (rn_inner r)" "rn_limits r = limits" "within limits (rn_inner r)"
    using run run_recordings_spec [of "ResolvedNames_new limits" cs, OF new_table(1,2)] by (auto simp: new_table)
  obtain j where j: "record_addrs n t now limits as (rn_inner r) = Some j" "inner_inv j" "learned n as t (rn_inner r) j"
    using record_addrs_spec [OF r(1,3) lim(2,1)] by blast
  have r': "r' = r\<lparr>rn_inner := j\<rparr>"
    using rec j(1) lim cur by (auto simp: record_at_def Let_def r(2))
  obtain u where u: "t \<le> u" "assoc j (to_canonical (sa_ip addr)) n = Some u"
    using j(3) ne addr by (auto simp: learned_def)
  have "\<forall>d. deadline_of limits u = Some d \<longrightarrow> now < d" using deadline_mono [OF u(1) cur] by blast
  with u(2) pol have "current_deadlines policy addr now r' \<noteq> {}"
    unfolding current_deadlines_def r' by (auto simp: r(2))
  then show ?thesis
    using permitted_until_latest [of r'] j(2) by (auto simp: r' latest_def)
qed

text \<open>A lookup of a database's address, as the witnesses use it.\<close>

definition db_limits :: ResolvedNameLimits where
  "db_limits = \<lparr>rl_lifetime = Some 60, rl_max_names = 1, rl_max_associations = 1\<rparr>"

definition db_lookup :: Recording where
  "db_lookup = \<lparr>rec_name = ''db.internal'', rec_addrs = [V4 (Ipv4Addr 10 0 0 5)], rec_observed = 10, rec_now = 10\<rparr>"

definition db_policy :: "allowed_host list" where
  "db_policy = [AH_Authority \<lparr>auth_host = ''db.internal'', auth_port_u16 = Some 5432, auth_str = ''db.internal:5432''\<rparr>]"

definition db_table :: ResolvedNames where
  "db_table = \<lparr>rn_limits = db_limits, rn_inner =
     \<lparr>by_addr = [(V4 (Ipv4Addr 10 0 0 5), [(''db.internal'', 10)])],
      names = [(''db.internal'', \<lparr>ne_addrs = [V4 (Ipv4Addr 10 0 0 5)], ne_newest = 10\<rparr>)],
      by_observed = [(10, V4 (Ipv4Addr 10 0 0 5), ''db.internal'')], by_newest = [(10, ''db.internal'')]\<rparr>\<rparr>"

lemma db_table_recorded: "run_recordings [db_lookup] (ResolvedNames_new db_limits) = Some db_table"
  by code_simp

lemma db_table_permits: "permitted_until_at db_policy (SocketAddrV4 (Ipv4Addr 10 0 0 5) 5432) 20 db_table = Some (Some 70)"
  by code_simp

theorem name_grant_rests_on_current_answer_witness:
  "permitted_until_at db_policy (SocketAddrV4 (Ipv4Addr 10 0 0 5) 5432) 20 db_table = Some (Some 70) \<and>
   Some 70 = deadline_of db_limits (rec_observed db_lookup)"
  using name_grant_rests_on_current_answer [OF db_table_recorded db_table_permits] db_table_permits by auto

theorem recorded_answer_permits_its_last_address_witness:
  "permitted_until_at [AH_SuffixWildcard ''.internal'' None None] (SocketAddrV4 (Ipv4Addr 10 0 0 6) 443) 30
     (the (record_at ''api.internal'' [V4 (Ipv4Addr 10 0 0 6)] 30 30 db_table)) \<noteq> None"
proof -
  have r: "record_at ''api.internal'' [V4 (Ipv4Addr 10 0 0 6)] 30 30 db_table
      = Some (the (record_at ''api.internal'' [V4 (Ipv4Addr 10 0 0 6)] 30 30 db_table))"
    by code_simp
  have n: "AllowedHost_permits_name (AH_SuffixWildcard ''.internal'' None None) ''api.internal'' 443"
    by code_simp
  show ?thesis
    by (rule recorded_answer_permits_its_last_address [OF db_table_recorded r])
      (simp_all add: n db_limits_def lapsed_by_def checked_add_def)
qed

end
