(* ===== verification/Socket_Util.thy ===== *)
theory Socket_Util
  imports Allowed_Hosts
begin

text \<open>
  The helpers of the socket layer: \<open>sockets/util.rs\<close> and the plain data of
  \<open>sockets/mod.rs\<close>. Error codes and their mapping from the errors of the operating system,
  the validity of addresses, and the socket options with the values that are passed on to
  the kernel. The system calls are parameters: a call takes the descriptor's state and
  returns an error number or the new state.
\<close>

section \<open>Error codes\<close>

datatype ErrorCode =
    Unknown
  | AccessDenied
  | NotSupported
  | InvalidArgument
  | OutOfMemory
  | Timeout
  | InvalidState
  | AddressNotBindable
  | AddressInUse
  | RemoteUnreachable
  | ConnectionRefused
  | ConnectionReset
  | ConnectionAborted
  | DatagramTooLarge
  | NotInProgress
  | ConcurrencyConflict

text \<open>The error numbers of the target (Linux) that the code names, and every other one.\<close>

datatype Errno =
    PERM | ACCESS | ADDRINUSE | ADDRNOTAVAIL | TIMEDOUT | CONNREFUSED | CONNRESET | CONNABORTED
  | INVAL | HOSTUNREACH | HOSTDOWN | NETDOWN | NETUNREACH | NONET | ISCONN | NOTCONN | DESTADDRREQ
  | MSGSIZE | NOMEM | NOBUFS | OPNOTSUPP | NOPROTOOPT | PFNOSUPPORT | PROTONOSUPPORT | PROTOTYPE
  | SOCKTNOSUPPORT | AFNOSUPPORT | OtherErrno nat

fun ErrorCode_from_errno :: "Errno \<Rightarrow> ErrorCode" where
  "ErrorCode_from_errno PERM = AccessDenied"
| "ErrorCode_from_errno ACCESS = AccessDenied"
| "ErrorCode_from_errno ADDRINUSE = AddressInUse"
| "ErrorCode_from_errno ADDRNOTAVAIL = AddressNotBindable"
| "ErrorCode_from_errno TIMEDOUT = Timeout"
| "ErrorCode_from_errno CONNREFUSED = ConnectionRefused"
| "ErrorCode_from_errno CONNRESET = ConnectionReset"
| "ErrorCode_from_errno CONNABORTED = ConnectionAborted"
| "ErrorCode_from_errno INVAL = InvalidArgument"
| "ErrorCode_from_errno HOSTUNREACH = RemoteUnreachable"
| "ErrorCode_from_errno HOSTDOWN = RemoteUnreachable"
| "ErrorCode_from_errno NETDOWN = RemoteUnreachable"
| "ErrorCode_from_errno NETUNREACH = RemoteUnreachable"
| "ErrorCode_from_errno NONET = RemoteUnreachable"
| "ErrorCode_from_errno ISCONN = InvalidState"
| "ErrorCode_from_errno NOTCONN = InvalidState"
| "ErrorCode_from_errno DESTADDRREQ = InvalidState"
| "ErrorCode_from_errno MSGSIZE = DatagramTooLarge"
| "ErrorCode_from_errno NOMEM = OutOfMemory"
| "ErrorCode_from_errno NOBUFS = OutOfMemory"
| "ErrorCode_from_errno OPNOTSUPP = NotSupported"
| "ErrorCode_from_errno NOPROTOOPT = NotSupported"
| "ErrorCode_from_errno PFNOSUPPORT = NotSupported"
| "ErrorCode_from_errno PROTONOSUPPORT = NotSupported"
| "ErrorCode_from_errno PROTOTYPE = NotSupported"
| "ErrorCode_from_errno SOCKTNOSUPPORT = NotSupported"
| "ErrorCode_from_errno AFNOSUPPORT = NotSupported"
| "ErrorCode_from_errno (OtherErrno _) = Unknown"

text \<open>\<open>std::io::Error\<close>: the kinds the code distinguishes, and the error number when the
  operating system raised it.\<close>

datatype ErrorKind =
    K_AddrInUse | K_AddrNotAvailable | K_ConnectionAborted | K_ConnectionRefused
  | K_ConnectionReset | K_InvalidInput | K_NotConnected | K_OutOfMemory | K_PermissionDenied
  | K_TimedOut | K_Unsupported | K_Other

record io_error =
  io_errno :: "Errno option"
  io_kind :: ErrorKind

fun ErrorCode_from_kind :: "ErrorKind \<Rightarrow> ErrorCode" where
  "ErrorCode_from_kind K_AddrInUse = AddressInUse"
| "ErrorCode_from_kind K_AddrNotAvailable = AddressNotBindable"
| "ErrorCode_from_kind K_ConnectionAborted = ConnectionAborted"
| "ErrorCode_from_kind K_ConnectionRefused = ConnectionRefused"
| "ErrorCode_from_kind K_ConnectionReset = ConnectionReset"
| "ErrorCode_from_kind K_InvalidInput = InvalidArgument"
| "ErrorCode_from_kind K_NotConnected = InvalidState"
| "ErrorCode_from_kind K_OutOfMemory = OutOfMemory"
| "ErrorCode_from_kind K_PermissionDenied = AccessDenied"
| "ErrorCode_from_kind K_TimedOut = Timeout"
| "ErrorCode_from_kind K_Unsupported = NotSupported"
| "ErrorCode_from_kind K_Other = Unknown"

definition ErrorCode_from_io_error :: "io_error \<Rightarrow> ErrorCode" where
  "ErrorCode_from_io_error err =
     (case io_errno err of
        Some errno \<Rightarrow> ErrorCode_from_errno errno
      | None \<Rightarrow> ErrorCode_from_kind (io_kind err))"

text \<open>The error codes of the p3 bindings the code maps to.\<close>

datatype P3ErrorCode =
    P3_Other | P3_AccessDenied | P3_NotSupported | P3_InvalidArgument | P3_OutOfMemory
  | P3_Timeout | P3_InvalidState | P3_AddressNotBindable | P3_AddressInUse
  | P3_RemoteUnreachable | P3_ConnectionRefused | P3_ConnectionReset | P3_ConnectionAborted
  | P3_DatagramTooLarge

fun p3_error_code_from_util :: "ErrorCode \<Rightarrow> P3ErrorCode" where
  "p3_error_code_from_util Unknown = P3_Other"
| "p3_error_code_from_util AccessDenied = P3_AccessDenied"
| "p3_error_code_from_util NotSupported = P3_NotSupported"
| "p3_error_code_from_util InvalidArgument = P3_InvalidArgument"
| "p3_error_code_from_util OutOfMemory = P3_OutOfMemory"
| "p3_error_code_from_util Timeout = P3_Timeout"
| "p3_error_code_from_util InvalidState = P3_InvalidState"
| "p3_error_code_from_util AddressNotBindable = P3_AddressNotBindable"
| "p3_error_code_from_util AddressInUse = P3_AddressInUse"
| "p3_error_code_from_util RemoteUnreachable = P3_RemoteUnreachable"
| "p3_error_code_from_util ConnectionRefused = P3_ConnectionRefused"
| "p3_error_code_from_util ConnectionReset = P3_ConnectionReset"
| "p3_error_code_from_util ConnectionAborted = P3_ConnectionAborted"
| "p3_error_code_from_util DatagramTooLarge = P3_DatagramTooLarge"
| "p3_error_code_from_util NotInProgress = P3_InvalidState"
| "p3_error_code_from_util ConcurrencyConflict = P3_InvalidState"

section \<open>Addresses\<close>

datatype Plane = PlaneVirtual | PlaneHost

datatype SocketAddressFamily = FamIpv4 | FamIpv6

fun is_deprecated_ipv4_compatible :: "ipv6 \<Rightarrow> bool" where
  "is_deprecated_ipv4_compatible (Ipv6Addr a b c d e f g h) \<longleftrightarrow>
     a = 0 \<and> b = 0 \<and> c = 0 \<and> d = 0 \<and> e = 0 \<and> f = 0 \<and>
     Ipv6Addr a b c d e f g h \<noteq> v6_unspecified \<and> Ipv6Addr a b c d e f g h \<noteq> v6_localhost"

fun is_valid_address_family :: "ipaddr \<Rightarrow> SocketAddressFamily \<Rightarrow> bool" where
  "is_valid_address_family (V4 _) FamIpv4 = True"
| "is_valid_address_family (V6 ip) FamIpv6 =
     (\<not> is_deprecated_ipv4_compatible ip \<and> to_ipv4_mapped ip = None)"
| "is_valid_address_family _ _ = False"

definition is_valid_remote_address :: "socket_addr \<Rightarrow> bool" where
  "is_valid_remote_address addr \<longleftrightarrow>
     \<not> is_unspecified (to_canonical (sa_ip addr)) \<and> sa_port addr \<noteq> 0"

definition is_valid_unicast_address :: "ipaddr \<Rightarrow> bool" where
  "is_valid_unicast_address addr =
     (case to_canonical addr of
        V4 ipv4 \<Rightarrow> \<not> v4_is_multicast ipv4 \<and> \<not> v4_is_broadcast ipv4
      | V6 ipv6 \<Rightarrow> \<not> v6_is_multicast ipv6)"

fun to_ipv4_addr :: "u8 \<times> u8 \<times> u8 \<times> u8 \<Rightarrow> ipv4" where
  "to_ipv4_addr (x0, x1, x2, x3) = Ipv4Addr x0 x1 x2 x3"

fun from_ipv4_addr :: "ipv4 \<Rightarrow> u8 \<times> u8 \<times> u8 \<times> u8" where
  "from_ipv4_addr (Ipv4Addr x0 x1 x2 x3) = (x0, x1, x2, x3)"

fun to_ipv6_addr :: "u16 \<times> u16 \<times> u16 \<times> u16 \<times> u16 \<times> u16 \<times> u16 \<times> u16 \<Rightarrow> ipv6" where
  "to_ipv6_addr (x0, x1, x2, x3, x4, x5, x6, x7) = Ipv6Addr x0 x1 x2 x3 x4 x5 x6 x7"

fun from_ipv6_addr :: "ipv6 \<Rightarrow> u16 \<times> u16 \<times> u16 \<times> u16 \<times> u16 \<times> u16 \<times> u16 \<times> u16" where
  "from_ipv6_addr (Ipv6Addr x0 x1 x2 x3 x4 x5 x6 x7) = (x0, x1, x2, x3, x4, x5, x6, x7)"

fun implicit_bind_addr :: "SocketAddressFamily \<Rightarrow> socket_addr" where
  "implicit_bind_addr FamIpv4 = sa_new (V4 v4_unspecified) 0"
| "implicit_bind_addr FamIpv6 = sa_new (V6 v6_unspecified) 0"

text \<open>\<open>url::Host::parse\<close> is a parameter; a bare IPv6 address, which it does not read, is read
  by the standard library's parser.\<close>

definition parse_host :: "url_lib \<Rightarrow> string \<Rightarrow> (ErrorCode, url_host) result" where
  "parse_host lib name =
     (case host_parse lib name of
        Some host \<Rightarrow> Ok host
      | None \<Rightarrow>
          (case parse_ipv6_addr name of
             Some addr \<Rightarrow> Ok (Ipv6 addr)
           | None \<Rightarrow> Err InvalidArgument))"

section \<open>Socket options\<close>

definition i32_max :: nat where "i32_max = 2147483647"
definition i16_max :: nat where "i16_max = 32767"
definition i8_max :: nat where "i8_max = 127"

text \<open>Linux reports twice the buffer size that was set.\<close>

definition normalize_get_buffer_size :: "nat \<Rightarrow> nat" where
  "normalize_get_buffer_size value = value div 2"

definition normalize_set_buffer_size :: "nat \<Rightarrow> nat" where
  "normalize_set_buffer_size value = clamp value 1 i32_max"

text \<open>A system call on a descriptor.\<close>

type_synonym ('fd, 'a) syscall = "'fd \<Rightarrow> (Errno, 'a \<times> 'fd) result"

definition os_call :: "('fd, 'a) syscall \<Rightarrow> 'fd \<Rightarrow> (ErrorCode, 'a \<times> 'fd) result" where
  "os_call call fd = (case call fd of Inl errno \<Rightarrow> Err (ErrorCode_from_errno errno) | Inr r \<Rightarrow> Ok r)"

record 'fd sockopt_lib =
  so_ip_ttl :: "('fd, u32) syscall"
  so_ipv6_unicast_hops :: "('fd, u8) syscall"
  so_set_ip_ttl :: "u32 \<Rightarrow> ('fd, unit) syscall"
  so_set_ipv6_unicast_hops :: "u8 \<Rightarrow> ('fd, unit) syscall"
  so_recv_buffer_size :: "('fd, nat) syscall"
  so_set_recv_buffer_size :: "nat \<Rightarrow> ('fd, unit) syscall"
  so_send_buffer_size :: "('fd, nat) syscall"
  so_set_send_buffer_size :: "nat \<Rightarrow> ('fd, unit) syscall"
  so_set_tcp_keepidle :: "nat \<Rightarrow> ('fd, unit) syscall"
  so_set_tcp_keepintvl :: "nat \<Rightarrow> ('fd, unit) syscall"
  so_set_tcp_keepcnt :: "nat \<Rightarrow> ('fd, unit) syscall"
  so_bind :: "socket_addr \<Rightarrow> ('fd, unit) syscall"
  so_connect :: "socket_addr \<Rightarrow> ('fd, unit) syscall"
  so_connect_unspec :: "('fd, unit) syscall"

definition get_ip_ttl :: "'fd sockopt_lib \<Rightarrow> 'fd \<Rightarrow> (ErrorCode, u8 \<times> 'fd) result" where
  "get_ip_ttl os fd =
     bind_result (os_call (so_ip_ttl os) fd) (\<lambda>(v, fd).
       if unat v < 256 then Ok (ucast v, fd) else Err NotSupported)"

definition get_ipv6_unicast_hops :: "'fd sockopt_lib \<Rightarrow> 'fd \<Rightarrow> (ErrorCode, u8 \<times> 'fd) result" where
  "get_ipv6_unicast_hops os fd = os_call (so_ipv6_unicast_hops os) fd"

fun get_unicast_hop_limit :: "'fd sockopt_lib \<Rightarrow> SocketAddressFamily \<Rightarrow> 'fd \<Rightarrow> (ErrorCode, u8 \<times> 'fd) result" where
  "get_unicast_hop_limit os FamIpv4 fd = get_ip_ttl os fd"
| "get_unicast_hop_limit os FamIpv6 fd = get_ipv6_unicast_hops os fd"

definition set_unicast_hop_limit ::
    "'fd sockopt_lib \<Rightarrow> SocketAddressFamily \<Rightarrow> u8 \<Rightarrow> 'fd \<Rightarrow> (ErrorCode, unit \<times> 'fd) result" where
  "set_unicast_hop_limit os family value fd =
     (if value = 0 then Err InvalidArgument
      else (case family of
              FamIpv4 \<Rightarrow> os_call (so_set_ip_ttl os (ucast value)) fd
            | FamIpv6 \<Rightarrow> os_call (so_set_ipv6_unicast_hops os value) fd))"

definition receive_buffer_size_opt :: "'fd sockopt_lib \<Rightarrow> 'fd \<Rightarrow> (ErrorCode, u64 \<times> 'fd) result" where
  "receive_buffer_size_opt os fd =
     bind_result (os_call (so_recv_buffer_size os) fd) (\<lambda>(v, fd). Ok (of_nat (normalize_get_buffer_size v), fd))"

text \<open>Setting a buffer size is a hint: \<open>ENOBUFS\<close> is success.\<close>

definition set_buffer_hint :: "(nat \<Rightarrow> ('fd, unit) syscall) \<Rightarrow> u64 \<Rightarrow> 'fd \<Rightarrow> (ErrorCode, nat \<times> 'fd) result" where
  "set_buffer_hint call value fd =
     (if value = 0 then Err InvalidArgument
      else let value = normalize_set_buffer_size (unat value) in
        (case call value fd of
           Inl errno \<Rightarrow> if errno = NOBUFS then Ok (value, fd) else Err (ErrorCode_from_errno errno)
         | Inr (_, fd) \<Rightarrow> Ok (value, fd)))"

definition set_receive_buffer_size_opt :: "'fd sockopt_lib \<Rightarrow> u64 \<Rightarrow> 'fd \<Rightarrow> (ErrorCode, nat \<times> 'fd) result" where
  "set_receive_buffer_size_opt os = set_buffer_hint (so_set_recv_buffer_size os)"

definition send_buffer_size_opt :: "'fd sockopt_lib \<Rightarrow> 'fd \<Rightarrow> (ErrorCode, u64 \<times> 'fd) result" where
  "send_buffer_size_opt os fd =
     bind_result (os_call (so_send_buffer_size os) fd) (\<lambda>(v, fd). Ok (of_nat (normalize_get_buffer_size v), fd))"

definition set_send_buffer_size_opt :: "'fd sockopt_lib \<Rightarrow> u64 \<Rightarrow> 'fd \<Rightarrow> (ErrorCode, nat \<times> 'fd) result" where
  "set_send_buffer_size_opt os = set_buffer_hint (so_set_send_buffer_size os)"

definition NANOS_PER_SEC :: nat where "NANOS_PER_SEC = 1000000000"

definition set_keep_alive_idle_time :: "'fd sockopt_lib \<Rightarrow> u64 \<Rightarrow> 'fd \<Rightarrow> (ErrorCode, u64 \<times> 'fd) result" where
  "set_keep_alive_idle_time os value fd =
     (if value = 0 then Err InvalidArgument
      else let value = clamp (unat value) NANOS_PER_SEC (i16_max * NANOS_PER_SEC)
           in bind_result (os_call (so_set_tcp_keepidle os value) fd) (\<lambda>(_, fd). Ok (of_nat value, fd)))"

text \<open>A \<open>Duration\<close> is a number of nanoseconds.\<close>

definition set_keep_alive_interval :: "'fd sockopt_lib \<Rightarrow> nat \<Rightarrow> 'fd \<Rightarrow> (ErrorCode, unit \<times> 'fd) result" where
  "set_keep_alive_interval os value fd =
     (if value \<le> 0 then Err InvalidArgument
      else os_call (so_set_tcp_keepintvl os (clamp value NANOS_PER_SEC (i16_max * NANOS_PER_SEC))) fd)"

definition set_keep_alive_count :: "'fd sockopt_lib \<Rightarrow> u32 \<Rightarrow> 'fd \<Rightarrow> (ErrorCode, unit \<times> 'fd) result" where
  "set_keep_alive_count os value fd =
     (if value = 0 then Err InvalidArgument
      else os_call (so_set_tcp_keepcnt os (clamp (unat value) 1 i8_max)) fd)"

section \<open>Binding and connecting\<close>

text \<open>tokio's \<open>TcpSocket::bind\<close> is a parameter; the reuse option is set before, and its error
  ignored, by the parameter \<open>reuse\<close>.\<close>

definition tcp_bind ::
    "('os \<Rightarrow> 'os) \<Rightarrow> (socket_addr \<Rightarrow> 'os \<Rightarrow> (io_error, 'os) result) \<Rightarrow> socket_addr \<Rightarrow> 'os \<Rightarrow> (ErrorCode, 'os) result" where
  "tcp_bind reuse bind local_address socket =
     (case bind local_address (reuse socket) of
        Inl err \<Rightarrow> Err (if io_errno err = Some AFNOSUPPORT then InvalidArgument else ErrorCode_from_io_error err)
      | Inr socket \<Rightarrow> Ok socket)"

definition udp_bind :: "'fd sockopt_lib \<Rightarrow> socket_addr \<Rightarrow> 'fd \<Rightarrow> (ErrorCode, unit \<times> 'fd) result" where
  "udp_bind os addr fd =
     (case so_bind os addr fd of
        Inl errno \<Rightarrow> Err (if errno = AFNOSUPPORT then InvalidArgument else ErrorCode_from_errno errno)
      | Inr r \<Rightarrow> Ok r)"

definition udp_disconnect :: "'fd sockopt_lib \<Rightarrow> ('fd, unit) syscall" where
  "udp_disconnect os fd = so_connect_unspec os fd"

text \<open>On Linux a connect refused with \<open>EINVAL\<close> dissolves the old association, whether or not
  that succeeds, and connects again.\<close>

definition udp_connect :: "'fd sockopt_lib \<Rightarrow> socket_addr \<Rightarrow> ('fd, unit) syscall" where
  "udp_connect os addr fd =
     (case so_connect os addr fd of
        Inl errno \<Rightarrow>
          if errno = INVAL then
            (let fd = (case udp_disconnect os fd of Inl _ \<Rightarrow> fd | Inr (_, fd) \<Rightarrow> fd)
             in so_connect os addr fd)
          else Inl errno
      | Inr r \<Rightarrow> Inr r)"

section \<open>What the helpers guarantee\<close>

lemma valid_family_canonical: "is_valid_address_family a f \<Longrightarrow> to_canonical a = a"
  by (cases "(a, f)" rule: is_valid_address_family.cases) auto

lemma ipv4_tuple_round_trip: "to_ipv4_addr (from_ipv4_addr a) = a" "from_ipv4_addr (to_ipv4_addr t) = t"
  by (cases a; simp) (cases t; simp)

lemma ipv6_tuple_round_trip: "to_ipv6_addr (from_ipv6_addr a) = a" "from_ipv6_addr (to_ipv6_addr u) = u"
  by (cases a; simp) (cases u rule: to_ipv6_addr.cases; simp)

end
