(* ===== verification/Virtual_Network.thy ===== *)
theory Virtual_Network
  imports Socket_Util
begin

text \<open>
  The in-process network of a workload: \<open>sockets/loopback/mod.rs\<close>, \<open>loopback/tcp.rs\<close> and
  \<open>loopback/udp.rs\<close>. Four maps from ports to endpoints, and the sockets that own an entry.

  Channels, connect futures and semaphores come from tokio. A channel is a handle of the
  type \<open>'ch\<close> into a state \<open>'w\<close> of all channels, a future is polled through a parameter, and
  the permits of a send buffer are a counter with the operations the code calls. The handle
  of an operating system stream is \<open>'os\<close>.
\<close>

section \<open>Ports\<close>

text \<open>\<open>for port in (1..=u16::MAX).rev()\<close>: the highest port that is vacant.\<close>

fun highest_free :: "(u16 \<rightharpoonup> 'a) \<Rightarrow> nat \<Rightarrow> u16 option" where
  "highest_free net 0 = None"
| "highest_free net (Suc n) =
     (if net (of_nat (Suc n)) = None then Some (of_nat (Suc n)) else highest_free net n)"

definition net_bind :: "(u16 \<rightharpoonup> 'a) \<Rightarrow> u16 \<Rightarrow> 'a \<Rightarrow> (ErrorCode, u16 \<times> (u16 \<rightharpoonup> 'a)) result" where
  "net_bind net port ep =
     (if port \<noteq> 0 then
        (case net port of
           Some _ \<Rightarrow> Err AddressInUse
         | None \<Rightarrow> Ok (port, net(port \<mapsto> ep)))
      else
        (case highest_free net 65535 of
           Some port \<Rightarrow> Ok (port, net(port \<mapsto> ep))
         | None \<Rightarrow> Err AddressInUse))"

section \<open>The network\<close>

datatype 'ch TcpEndpoint = EpBound | EpListening 'ch

record 'ch UdpEndpoint =
  ue_tx :: 'ch
  ue_connected_address :: "socket_addr option"

record 'ch Network =
  tcp_ipv4 :: "u16 \<rightharpoonup> 'ch TcpEndpoint"
  tcp_ipv6 :: "u16 \<rightharpoonup> 'ch TcpEndpoint"
  udp_ipv4 :: "u16 \<rightharpoonup> 'ch UdpEndpoint"
  udp_ipv6 :: "u16 \<rightharpoonup> 'ch UdpEndpoint"

definition Network_default :: "'ch Network" where
  "Network_default = \<lparr>tcp_ipv4 = Map.empty, tcp_ipv6 = Map.empty, udp_ipv4 = Map.empty, udp_ipv6 = Map.empty\<rparr>"

fun get_tcp_net :: "ipaddr \<Rightarrow> 'ch Network \<Rightarrow> u16 \<rightharpoonup> 'ch TcpEndpoint" where
  "get_tcp_net (V4 _) n = tcp_ipv4 n"
| "get_tcp_net (V6 _) n = tcp_ipv6 n"

fun put_tcp_net :: "ipaddr \<Rightarrow> (u16 \<rightharpoonup> 'ch TcpEndpoint) \<Rightarrow> 'ch Network \<Rightarrow> 'ch Network" where
  "put_tcp_net (V4 _) m n = n\<lparr>tcp_ipv4 := m\<rparr>"
| "put_tcp_net (V6 _) m n = n\<lparr>tcp_ipv6 := m\<rparr>"

fun get_udp_net :: "ipaddr \<Rightarrow> 'ch Network \<Rightarrow> u16 \<rightharpoonup> 'ch UdpEndpoint" where
  "get_udp_net (V4 _) n = udp_ipv4 n"
| "get_udp_net (V6 _) n = udp_ipv6 n"

fun put_udp_net :: "ipaddr \<Rightarrow> (u16 \<rightharpoonup> 'ch UdpEndpoint) \<Rightarrow> 'ch Network \<Rightarrow> 'ch Network" where
  "put_udp_net (V4 _) m n = n\<lparr>udp_ipv4 := m\<rparr>"
| "put_udp_net (V6 _) m n = n\<lparr>udp_ipv6 := m\<rparr>"

definition bind_tcp :: "socket_addr \<Rightarrow> 'ch Network \<Rightarrow> (ErrorCode, socket_addr \<times> 'ch Network) result" where
  "bind_tcp addr n =
     bind_result (net_bind (get_tcp_net (sa_ip addr) n) (sa_port addr) EpBound) (\<lambda>(port, m).
       Ok (sa_set_port port addr, put_tcp_net (sa_ip addr) m n))"

text \<open>The channel of a datagram endpoint is created by the caller of the model.\<close>

definition bind_udp :: "'ch \<Rightarrow> socket_addr \<Rightarrow> 'ch Network \<Rightarrow> (ErrorCode, socket_addr \<times> 'ch Network) result" where
  "bind_udp chan addr n =
     bind_result
       (net_bind (get_udp_net (sa_ip addr) n) (sa_port addr) \<lparr>ue_tx = chan, ue_connected_address = None\<rparr>)
       (\<lambda>(port, m). Ok (sa_set_port port addr, put_udp_net (sa_ip addr) m n))"

definition connect_tcp :: "socket_addr \<Rightarrow> 'ch Network \<Rightarrow> (ErrorCode, 'ch) result" where
  "connect_tcp addr n =
     (if sa_port addr = 0 then Err InvalidArgument
      else (case get_tcp_net (sa_ip addr) n (sa_port addr) of
              Some (EpListening tx) \<Rightarrow> Ok tx
            | _ \<Rightarrow> Err ConnectionRefused))"

definition connect_udp :: "socket_addr \<Rightarrow> socket_addr \<Rightarrow> 'ch Network \<Rightarrow> (ErrorCode, 'ch option) result" where
  "connect_udp local_address remote_address n =
     (if sa_port remote_address = 0 then Err InvalidArgument
      else (case get_udp_net (sa_ip remote_address) n (sa_port remote_address) of
              None \<Rightarrow> Ok None
            | Some ep \<Rightarrow>
                (case ue_connected_address ep of
                   Some addr \<Rightarrow> if local_address \<noteq> addr then Ok None else Ok (Some (ue_tx ep))
                 | None \<Rightarrow> Ok (Some (ue_tx ep)))))"

section \<open>Send buffers\<close>

text \<open>The permits of a send buffer: \<open>available_permits\<close>, \<open>forget_permits\<close>, which tells how
  many it took, and \<open>add_permits\<close>.\<close>

record 'p permits_lib =
  pl_new :: "nat \<Rightarrow> 'p"
  pl_available :: "'p \<Rightarrow> nat"
  pl_forget :: "nat \<Rightarrow> 'p \<Rightarrow> nat \<times> 'p"
  pl_add :: "nat \<Rightarrow> 'p \<Rightarrow> 'p"

definition u32_saturating_sub :: "u32 \<Rightarrow> u32 \<Rightarrow> u32" where
  "u32_saturating_sub a b = (if b \<le> a then a - b else 0)"

definition u32_checked_add :: "u32 \<Rightarrow> u32 \<Rightarrow> u32 option" where
  "u32_checked_add a b = (if unat a + unat b < 2 ^ 32 then Some (a + b) else None)"

text \<open>\<open>value.try_into().unwrap_or(MAX).min(MAX)\<close> of a \<open>u64\<close>.\<close>

definition capped_u32 :: "u32 \<Rightarrow> u64 \<Rightarrow> u32" where
  "capped_u32 cap value = (if unat value < 2 ^ 32 then min (ucast value) cap else cap)"

text \<open>The new size with live permits: shrinking forgets what is free and keeps the rest.\<close>

definition resize_permits ::
    "'p permits_lib \<Rightarrow> u32 \<Rightarrow> u32 \<Rightarrow> 'p \<Rightarrow> (ErrorCode, u32) result \<times> 'p" where
  "resize_permits lib current value permits =
     (let surplus = u32_saturating_sub current value in
      if 0 < surplus then
        (case pl_forget lib (unat surplus) permits of (reduced, permits) \<Rightarrow>
           let leaked = u32_saturating_sub surplus (of_nat reduced) in
           (case u32_checked_add value leaked of
              Some value \<Rightarrow> (Ok value, permits)
            | None \<Rightarrow> (Err Unknown, permits)))
      else (Ok value, pl_add lib (unat (u32_saturating_sub value current)) permits))"

section \<open>Stream sockets\<close>

record 'ch TcpConn =
  tc_local_address :: socket_addr
  tc_remote_address :: socket_addr
  tc_rx :: "'ch option"
  tc_tx :: "'ch option"

datatype try_recv_error = TryRecvEmpty | TryRecvDisconnected

text \<open>Creating a bounded channel may panic, which is the value \<open>None\<close>.\<close>

record ('ch, 'w) mpsc_lib =
  mpsc_channel :: "nat \<Rightarrow> 'w \<Rightarrow> ('ch \<times> 'w) option"
  mpsc_unbounded :: "'w \<Rightarrow> 'ch \<times> 'w"
  mpsc_send :: "'ch \<Rightarrow> 'ch TcpConn \<Rightarrow> 'w \<Rightarrow> 'w"
  mpsc_try_recv :: "'ch \<Rightarrow> 'w \<Rightarrow> (try_recv_error, 'ch TcpConn) result \<times> 'w"

definition TcpConn_pair ::
    "('ch, 'w) mpsc_lib \<Rightarrow> socket_addr \<Rightarrow> socket_addr \<Rightarrow> 'w \<Rightarrow> ('ch TcpConn \<times> 'ch TcpConn) \<times> 'w" where
  "TcpConn_pair lib local_address remote_address w =
     (case mpsc_unbounded lib w of (forward, w) \<Rightarrow>
      case mpsc_unbounded lib w of (back, w) \<Rightarrow>
        ((\<lparr>tc_local_address = local_address, tc_remote_address = remote_address,
           tc_rx = Some back, tc_tx = Some forward\<rparr>,
          \<lparr>tc_local_address = remote_address, tc_remote_address = local_address,
           tc_rx = Some forward, tc_tx = Some back\<rparr>), w))"

datatype ('os, 'ch) ConnectingTcpStream = CS_Network 'os | CS_Loopback 'ch

type_synonym ('os, 'ch) connect_result = "(io_error, ('os, 'ch) ConnectingTcpStream) result"

datatype ('os, 'ch, 'f, 'p) lo_state =
    L_BindStarted socket_addr
  | L_Bound socket_addr
  | L_ListenStarted socket_addr "'ch option"
  | L_Listening socket_addr 'ch "'ch TcpConn option"
  | L_Connecting socket_addr socket_addr "'f option"
  | L_ConnectReady socket_addr socket_addr "('os, 'ch) connect_result"
  | L_Connected "'ch TcpConn" bool
  | L_P2Streaming socket_addr socket_addr bool 'p "'ch option" "'ch option"
  | L_Closed

record ('os, 'ch, 'f, 'p) lo_socket =
  lo_st :: "('os, 'ch, 'f, 'p) lo_state"
  lo_listen_backlog_size :: u32
  lo_keep_alive_enabled :: bool
  lo_keep_alive_idle_time :: u64
  lo_keep_alive_interval :: u64
  lo_keep_alive_count :: u32
  lo_hop_limit :: u8
  lo_receive_buffer_size :: u64
  lo_send_buffer_size :: u32
  lo_family :: SocketAddressFamily

definition MAX_TCP_SEND_BUFFER_SIZE :: u32 where "MAX_TCP_SEND_BUFFER_SIZE = 0x100000"
definition MAX_LISTEN_BACKLOG_SIZE :: u32 where "MAX_LISTEN_BACKLOG_SIZE = 4096"

definition lo_finish_bind :: "('os, 'ch, 'f, 'p) lo_socket \<Rightarrow> (ErrorCode, unit) result \<times> ('os, 'ch, 'f, 'p) lo_socket" where
  "lo_finish_bind s =
     (case lo_st s of
        L_BindStarted addr \<Rightarrow> (Ok (), s\<lparr>lo_st := L_Bound addr\<rparr>)
      | _ \<Rightarrow> (Err NotInProgress, s))"

definition lo_start_connect ::
    "socket_addr \<Rightarrow> 'ch Network \<Rightarrow> ('os, 'ch, 'f, 'p) lo_socket \<Rightarrow> (ErrorCode, 'ch) result \<times> ('os, 'ch, 'f, 'p) lo_socket" where
  "lo_start_connect addr n s =
     (case lo_st s of
        L_Bound local_address \<Rightarrow>
          (case connect_tcp addr n of
             Inl e \<Rightarrow> (Err e, s)
           | Inr tx \<Rightarrow> (Ok tx, s\<lparr>lo_st := L_Connecting local_address addr None\<rparr>))
      | _ \<Rightarrow> (Err InvalidState, s))"

definition lo_set_pending_connect ::
    "'f \<Rightarrow> ('os, 'ch, 'f, 'p) lo_socket \<Rightarrow> (ErrorCode, unit) result \<times> ('os, 'ch, 'f, 'p) lo_socket" where
  "lo_set_pending_connect fut s =
     (case lo_st s of
        L_Connecting l r None \<Rightarrow> (Ok (), s\<lparr>lo_st := L_Connecting l r (Some fut)\<rparr>)
      | _ \<Rightarrow> (Err InvalidState, s))"

text \<open>Polling a future gives its result or the future itself, still pending.\<close>

definition lo_take_pending_connect ::
    "('f \<Rightarrow> ('os, 'ch) connect_result + 'f) \<Rightarrow> ('os, 'ch, 'f, 'p) lo_socket \<Rightarrow>
     (ErrorCode, ('os, 'ch) connect_result option) result \<times> ('os, 'ch, 'f, 'p) lo_socket" where
  "lo_take_pending_connect poll s =
     (case lo_st s of
        L_ConnectReady l r res \<Rightarrow> (Ok (Some res), s\<lparr>lo_st := L_Connecting l r None\<rparr>)
      | L_Connecting l r (Some fut) \<Rightarrow>
          (case poll fut of
             Inl res \<Rightarrow> (Ok (Some res), s\<lparr>lo_st := L_Connecting l r None\<rparr>)
           | Inr fut \<Rightarrow> (Ok None, s\<lparr>lo_st := L_Connecting l r (Some fut)\<rparr>))
      | _ \<Rightarrow> (Err NotInProgress, s))"

definition remove_port :: "socket_addr \<Rightarrow> 'ch Network \<Rightarrow> 'ch Network" where
  "remove_port addr n =
     put_tcp_net (sa_ip addr) ((get_tcp_net (sa_ip addr) n)(sa_port addr := None)) n"

definition lo_finish_connect ::
    "('ch, 'w) mpsc_lib \<Rightarrow> ('os, 'ch) connect_result \<Rightarrow> 'w \<Rightarrow> 'ch Network \<Rightarrow> ('os, 'ch, 'f, 'p) lo_socket \<Rightarrow>
     (ErrorCode, unit) result \<times> ('os, 'ch, 'f, 'p) lo_socket \<times> 'ch Network \<times> 'w" where
  "lo_finish_connect lib result w n s =
     (case lo_st s of
        L_Connecting local_address remote_address None \<Rightarrow>
          (case result of
             Inr (CS_Network _) \<Rightarrow> (Err InvalidState, s, n, w)
           | Inr (CS_Loopback tx) \<Rightarrow>
               (case TcpConn_pair lib local_address remote_address w of ((clt, srv), w) \<Rightarrow>
                  (Ok (), s\<lparr>lo_st := L_Connected clt False\<rparr>, n, mpsc_send lib tx srv w))
           | Inl err \<Rightarrow>
               let s = s\<lparr>lo_st := L_Closed\<rparr> in
               if sa_port local_address = 0 then (Err InvalidState, s, n, w)
               else (case get_tcp_net (sa_ip local_address) n (sa_port local_address) of
                       Some EpBound \<Rightarrow> (Err (ErrorCode_from_io_error err), s, remove_port local_address n, w)
                     | _ \<Rightarrow> (Err InvalidState, s, remove_port local_address n, w)))
      | _ \<Rightarrow> (Err InvalidState, s, n, w))"

definition lo_cancel_connect ::
    "'ch Network \<Rightarrow> ('os, 'ch, 'f, 'p) lo_socket \<Rightarrow> ('os, 'ch, 'f, 'p) lo_socket \<times> 'ch Network" where
  "lo_cancel_connect n s =
     (let closed = s\<lparr>lo_st := L_Closed\<rparr> in
      (case lo_st s of
         L_Connecting local_address _ _ \<Rightarrow>
           if sa_port local_address = 0 then (closed, n)
           else (case get_tcp_net (sa_ip local_address) n (sa_port local_address) of
                   Some EpBound \<Rightarrow> (closed, remove_port local_address n)
                 | _ \<Rightarrow> (closed, n))
       | _ \<Rightarrow> (closed, n)))"

text \<open>\<open>None\<close> when creating the channel panics.\<close>

definition lo_start_listen ::
    "('ch, 'w) mpsc_lib \<Rightarrow> 'w \<Rightarrow> 'ch Network \<Rightarrow> ('os, 'ch, 'f, 'p) lo_socket \<Rightarrow>
     ((ErrorCode, unit) result \<times> ('os, 'ch, 'f, 'p) lo_socket \<times> 'ch Network \<times> 'w) option" where
  "lo_start_listen lib w n s =
     (case lo_st s of
        L_Bound addr \<Rightarrow>
          if sa_port addr = 0 then Some (Err InvalidArgument, s, n, w)
          else (case get_tcp_net (sa_ip addr) n (sa_port addr) of
                  Some EpBound \<Rightarrow>
                    map_option (\<lambda>(chan, w).
                        (Ok (), s\<lparr>lo_st := L_ListenStarted addr (Some chan)\<rparr>,
                         put_tcp_net (sa_ip addr)
                           ((get_tcp_net (sa_ip addr) n)(sa_port addr \<mapsto> EpListening chan)) n, w))
                      (mpsc_channel lib (unat (min (lo_listen_backlog_size s) MAX_LISTEN_BACKLOG_SIZE)) w)
                | _ \<Rightarrow> Some (Err InvalidState, s, n, w))
      | _ \<Rightarrow> Some (Err InvalidState, s, n, w))"

definition lo_finish_listen :: "('os, 'ch, 'f, 'p) lo_socket \<Rightarrow> (ErrorCode, unit) result \<times> ('os, 'ch, 'f, 'p) lo_socket" where
  "lo_finish_listen s =
     (case lo_st s of
        L_ListenStarted local_address (Some rx) \<Rightarrow> (Ok (), s\<lparr>lo_st := L_Listening local_address rx None\<rparr>)
      | L_ListenStarted _ None \<Rightarrow> (Err InvalidState, s)
      | _ \<Rightarrow> (Err NotInProgress, s))"

text \<open>The connection to accept: the one \<open>ready\<close> parked, or the next one of the channel.\<close>

definition next_conn ::
    "('ch, 'w) mpsc_lib \<Rightarrow> 'ch \<Rightarrow> 'ch TcpConn option \<Rightarrow> 'w \<Rightarrow> (try_recv_error, 'ch TcpConn) result \<times> 'w" where
  "next_conn lib rx pending w =
     (case pending of Some conn \<Rightarrow> (Ok conn, w) | None \<Rightarrow> mpsc_try_recv lib rx w)"

definition lo_accept ::
    "('ch, 'w) mpsc_lib \<Rightarrow> 'w \<Rightarrow> ('os, 'ch, 'f, 'p) lo_socket \<Rightarrow>
     (ErrorCode, ('os, 'ch, 'f, 'p) lo_socket option) result \<times> ('os, 'ch, 'f, 'p) lo_socket \<times> 'w" where
  "lo_accept lib w s =
     (case lo_st s of
        L_Listening local_address rx pending \<Rightarrow>
          (let s' = s\<lparr>lo_st := L_Listening local_address rx None\<rparr> in
           (case next_conn lib rx pending w of
              (Inr conn, w) \<Rightarrow>
                if tc_local_address conn \<noteq> local_address then (Err Unknown, s', w)
                else (Ok (Some (s'\<lparr>lo_st := L_Connected conn True\<rparr>)), s', w)
            | (Inl TryRecvEmpty, w) \<Rightarrow> (Ok None, s', w)
            | (Inl TryRecvDisconnected, w) \<Rightarrow> (Err ConnectionReset, s', w)))
      | _ \<Rightarrow> (Err InvalidState, s, w))"

definition lo_local_address :: "('os, 'ch, 'f, 'p) lo_socket \<Rightarrow> (ErrorCode, socket_addr) result" where
  "lo_local_address s =
     (case lo_st s of
        L_Bound l \<Rightarrow> Ok l
      | L_Connected conn _ \<Rightarrow> Ok (tc_local_address conn)
      | L_Listening l _ _ \<Rightarrow> Ok l
      | L_P2Streaming l _ _ _ _ _ \<Rightarrow> Ok l
      | _ \<Rightarrow> Err InvalidState)"

definition lo_remote_address :: "('os, 'ch, 'f, 'p) lo_socket \<Rightarrow> (ErrorCode, socket_addr) result" where
  "lo_remote_address s =
     (case lo_st s of
        L_Connected conn _ \<Rightarrow> Ok (tc_remote_address conn)
      | L_P2Streaming _ r _ _ _ _ \<Rightarrow> Ok r
      | _ \<Rightarrow> Err InvalidState)"

definition lo_is_listening :: "('os, 'ch, 'f, 'p) lo_socket \<Rightarrow> bool" where
  "lo_is_listening s = (case lo_st s of L_Listening _ _ _ \<Rightarrow> True | _ \<Rightarrow> False)"

definition lo_set_listen_backlog_size ::
    "u64 \<Rightarrow> ('os, 'ch, 'f, 'p) lo_socket \<Rightarrow> (ErrorCode, unit) result \<times> ('os, 'ch, 'f, 'p) lo_socket" where
  "lo_set_listen_backlog_size value s =
     (let value = (if unat value < 2 ^ 32 then ucast value else - 1) in
      (case lo_st s of
         L_Bound _ \<Rightarrow> (Ok (), s\<lparr>lo_listen_backlog_size := value\<rparr>)
       | L_Listening _ _ _ \<Rightarrow> (Err NotSupported, s)
       | _ \<Rightarrow> (Err InvalidState, s)))"

definition lo_set_send_buffer_size ::
    "'p permits_lib \<Rightarrow> u64 \<Rightarrow> ('os, 'ch, 'f, 'p) lo_socket \<Rightarrow> (ErrorCode, unit) result \<times> ('os, 'ch, 'f, 'p) lo_socket" where
  "lo_set_send_buffer_size lib value s =
     (if value = 0 then (Err InvalidArgument, s)
      else let value = capped_u32 MAX_TCP_SEND_BUFFER_SIZE value in
        (case lo_st s of
           L_P2Streaming l r accepted permits rx tx \<Rightarrow>
             (case resize_permits lib (lo_send_buffer_size s) value permits of
                (Inr value, permits) \<Rightarrow>
                  (Ok (), s\<lparr>lo_send_buffer_size := value, lo_st := L_P2Streaming l r accepted permits rx tx\<rparr>)
              | (Inl e, permits) \<Rightarrow> (Err e, s\<lparr>lo_st := L_P2Streaming l r accepted permits rx tx\<rparr>))
         | _ \<Rightarrow> (Ok (), s\<lparr>lo_send_buffer_size := value\<rparr>)))"

text \<open>What \<open>ready\<close> leaves behind once the future has resolved or a connection has come in;
  every other state is left alone.\<close>

definition lo_ready ::
    "('f \<Rightarrow> ('os, 'ch) connect_result) \<Rightarrow> ('ch \<Rightarrow> 'ch TcpConn option) \<Rightarrow> ('os, 'ch, 'f, 'p) lo_socket \<Rightarrow>
     ('os, 'ch, 'f, 'p) lo_socket" where
  "lo_ready await recv s =
     (case lo_st s of
        L_Connecting l r (Some fut) \<Rightarrow> s\<lparr>lo_st := L_ConnectReady l r (await fut)\<rparr>
      | L_Listening l rx None \<Rightarrow> s\<lparr>lo_st := L_Listening l rx (recv rx)\<rparr>
      | _ \<Rightarrow> s)"

text \<open>The address a socket gives back when it is dropped: an accepted socket shares the
  listener's address and gives back nothing.\<close>

fun lo_owned :: "('os, 'ch, 'f, 'p) lo_state \<Rightarrow> socket_addr option" where
  "lo_owned (L_BindStarted l) = Some l"
| "lo_owned (L_Bound l) = Some l"
| "lo_owned (L_ListenStarted l _) = Some l"
| "lo_owned (L_Listening l _ _) = Some l"
| "lo_owned (L_Connecting l _ _) = Some l"
| "lo_owned (L_ConnectReady l _ _) = Some l"
| "lo_owned (L_Connected conn accepted) = (if accepted then None else Some (tc_local_address conn))"
| "lo_owned (L_P2Streaming l _ accepted _ _ _) = (if accepted then None else Some l)"
| "lo_owned L_Closed = None"

datatype drop_error = PortZero

definition lo_drop :: "('os, 'ch, 'f, 'p) lo_socket \<Rightarrow> 'ch Network \<Rightarrow> (drop_error, 'ch Network) result" where
  "lo_drop s n =
     (case lo_owned (lo_st s) of
        None \<Rightarrow> Ok n
      | Some addr \<Rightarrow> if sa_port addr = 0 then Err PortZero else Ok (remove_port addr n))"

section \<open>Datagram sockets\<close>

datatype ('ch, 'p) lu_state =
    LU_BindStarted socket_addr 'ch
  | LU_Bound socket_addr 'ch 'p
  | LU_Connected socket_addr socket_addr 'ch 'p
  | LU_Closed

record ('ch, 'p, 'c) lu_socket =
  lu_st :: "('ch, 'p) lu_state"
  lu_hop_limit :: u8
  lu_receive_buffer_size :: u64
  lu_send_buffer_size :: u32
  lu_family :: SocketAddressFamily
  lu_socket_addr_check :: "'c option"

definition MAX_UDP_SEND_BUFFER_SIZE :: u32 where "MAX_UDP_SEND_BUFFER_SIZE = 0x10000"

definition lu_finish_bind :: "'p permits_lib \<Rightarrow> ('ch, 'p, 'c) lu_socket \<Rightarrow> (ErrorCode, unit) result \<times> ('ch, 'p, 'c) lu_socket" where
  "lu_finish_bind lib s =
     (case lu_st s of
        LU_BindStarted local_address rx \<Rightarrow>
          (Ok (), s\<lparr>lu_st := LU_Bound local_address rx (pl_new lib (unat (lu_send_buffer_size s)))\<rparr>)
      | _ \<Rightarrow> (Err NotInProgress, s))"

definition lu_is_connected :: "('ch, 'p, 'c) lu_socket \<Rightarrow> bool" where
  "lu_is_connected s = (case lu_st s of LU_Connected _ _ _ _ \<Rightarrow> True | _ \<Rightarrow> False)"

definition lu_is_bound :: "('ch, 'p, 'c) lu_socket \<Rightarrow> bool" where
  "lu_is_bound s = (case lu_st s of LU_Connected _ _ _ _ \<Rightarrow> True | LU_Bound _ _ _ \<Rightarrow> True | _ \<Rightarrow> False)"

text \<open>Recording the peer of a bound port. A port that is not registered leaves the socket
  closed.\<close>

definition set_connected :: "socket_addr \<Rightarrow> socket_addr option \<Rightarrow> 'ch UdpEndpoint \<Rightarrow> 'ch Network \<Rightarrow> 'ch Network" where
  "set_connected local_address peer ep n =
     put_udp_net (sa_ip local_address)
       ((get_udp_net (sa_ip local_address) n)(sa_port local_address \<mapsto> ep\<lparr>ue_connected_address := peer\<rparr>)) n"

definition lu_disconnect ::
    "'ch Network \<Rightarrow> ('ch, 'p, 'c) lu_socket \<Rightarrow> (ErrorCode, unit) result \<times> ('ch, 'p, 'c) lu_socket \<times> 'ch Network" where
  "lu_disconnect n s =
     (case lu_st s of
        LU_Connected local_address _ rx permits \<Rightarrow>
          (let closed = s\<lparr>lu_st := LU_Closed\<rparr> in
           if sa_port local_address = 0 then (Err InvalidState, closed, n)
           else (case get_udp_net (sa_ip local_address) n (sa_port local_address) of
                   Some ep \<Rightarrow>
                     if ue_connected_address ep = None then (Err InvalidState, closed, n)
                     else (Ok (), s\<lparr>lu_st := LU_Bound local_address rx permits\<rparr>, set_connected local_address None ep n)
                 | None \<Rightarrow> (Err InvalidState, closed, n)))
      | _ \<Rightarrow> (Err InvalidState, s, n))"

text \<open>The part of \<open>connect\<close> that a bound and a connected socket share.\<close>

definition lu_connect_bound ::
    "socket_addr \<Rightarrow> socket_addr \<Rightarrow> 'ch \<Rightarrow> 'p \<Rightarrow> 'ch Network \<Rightarrow> ('ch, 'p, 'c) lu_socket \<Rightarrow>
     (ErrorCode, unit) result \<times> ('ch, 'p, 'c) lu_socket \<times> 'ch Network" where
  "lu_connect_bound addr local_address rx permits n s =
     (let closed = s\<lparr>lu_st := LU_Closed\<rparr> in
      if sa_port local_address = 0 then (Err InvalidState, closed, n)
      else (case get_udp_net (sa_ip local_address) n (sa_port local_address) of
              Some ep \<Rightarrow>
                (Ok (), s\<lparr>lu_st := LU_Connected local_address addr rx permits\<rparr>,
                 set_connected local_address (Some addr) ep n)
            | None \<Rightarrow> (Err InvalidState, closed, n)))"

definition lu_connect ::
    "socket_addr \<Rightarrow> 'ch Network \<Rightarrow> ('ch, 'p, 'c) lu_socket \<Rightarrow>
     (ErrorCode, unit) result \<times> ('ch, 'p, 'c) lu_socket \<times> 'ch Network" where
  "lu_connect addr n s =
     (if \<not> is_valid_address_family (sa_ip addr) (lu_family s) \<or> \<not> is_valid_remote_address addr
      then (Err InvalidArgument, s, n)
      else (case lu_st s of
              LU_Bound local_address rx permits \<Rightarrow> lu_connect_bound addr local_address rx permits n s
            | LU_Connected local_address _ rx permits \<Rightarrow> lu_connect_bound addr local_address rx permits n s
            | _ \<Rightarrow> (Err InvalidState, s, n)))"

definition lu_local_address :: "('ch, 'p, 'c) lu_socket \<Rightarrow> (ErrorCode, socket_addr) result" where
  "lu_local_address s =
     (case lu_st s of LU_Bound l _ _ \<Rightarrow> Ok l | LU_Connected l _ _ _ \<Rightarrow> Ok l | _ \<Rightarrow> Err InvalidState)"

definition lu_remote_address :: "('ch, 'p, 'c) lu_socket \<Rightarrow> (ErrorCode, socket_addr) result" where
  "lu_remote_address s = (case lu_st s of LU_Connected _ r _ _ \<Rightarrow> Ok r | _ \<Rightarrow> Err InvalidState)"

definition lu_set_unicast_hop_limit :: "u8 \<Rightarrow> ('ch, 'p, 'c) lu_socket \<Rightarrow> (ErrorCode, unit) result \<times> ('ch, 'p, 'c) lu_socket" where
  "lu_set_unicast_hop_limit value s =
     (if value = 0 then (Err InvalidArgument, s) else (Ok (), s\<lparr>lu_hop_limit := value\<rparr>))"

definition lu_set_receive_buffer_size :: "u64 \<Rightarrow> ('ch, 'p, 'c) lu_socket \<Rightarrow> (ErrorCode, unit) result \<times> ('ch, 'p, 'c) lu_socket" where
  "lu_set_receive_buffer_size value s =
     (if value = 0 then (Err InvalidArgument, s) else (Ok (), s\<lparr>lu_receive_buffer_size := value\<rparr>))"

fun lu_permits :: "('ch, 'p) lu_state \<Rightarrow> 'p option" where
  "lu_permits (LU_Bound _ _ p) = Some p"
| "lu_permits (LU_Connected _ _ _ p) = Some p"
| "lu_permits _ = None"

fun lu_put_permits :: "'p \<Rightarrow> ('ch, 'p) lu_state \<Rightarrow> ('ch, 'p) lu_state" where
  "lu_put_permits q (LU_Bound l rx p) = LU_Bound l rx q"
| "lu_put_permits q (LU_Connected l r rx p) = LU_Connected l r rx q"
| "lu_put_permits q st = st"

definition lu_set_send_buffer_size ::
    "'p permits_lib \<Rightarrow> u64 \<Rightarrow> ('ch, 'p, 'c) lu_socket \<Rightarrow> (ErrorCode, unit) result \<times> ('ch, 'p, 'c) lu_socket" where
  "lu_set_send_buffer_size lib value s =
     (if value = 0 then (Err InvalidArgument, s)
      else let value = capped_u32 MAX_UDP_SEND_BUFFER_SIZE value in
        (case lu_permits (lu_st s) of
           Some permits \<Rightarrow>
             (case resize_permits lib (lu_send_buffer_size s) value permits of
                (Inr value, permits) \<Rightarrow>
                  (Ok (), s\<lparr>lu_send_buffer_size := value, lu_st := lu_put_permits permits (lu_st s)\<rparr>)
              | (Inl e, permits) \<Rightarrow> (Err e, s\<lparr>lu_st := lu_put_permits permits (lu_st s)\<rparr>))
         | None \<Rightarrow> (Ok (), s\<lparr>lu_send_buffer_size := value\<rparr>)))"

fun lu_owned :: "('ch, 'p) lu_state \<Rightarrow> socket_addr option" where
  "lu_owned (LU_BindStarted l _) = Some l"
| "lu_owned (LU_Bound l _ _) = Some l"
| "lu_owned (LU_Connected l _ _ _) = Some l"
| "lu_owned LU_Closed = None"

definition lu_drop :: "('ch, 'p, 'c) lu_socket \<Rightarrow> 'ch Network \<Rightarrow> (drop_error, 'ch Network) result" where
  "lu_drop s n =
     (case lu_owned (lu_st s) of
        None \<Rightarrow> Ok n
      | Some addr \<Rightarrow>
          if sa_port addr = 0 then Err PortZero
          else Ok (put_udp_net (sa_ip addr) ((get_udp_net (sa_ip addr) n)(sa_port addr := None)) n))"

section \<open>The ports of the network\<close>

fun ip_family :: "ipaddr \<Rightarrow> SocketAddressFamily" where
  "ip_family (V4 _) = FamIpv4"
| "ip_family (V6 _) = FamIpv6"

definition sa_slot :: "socket_addr \<Rightarrow> SocketAddressFamily \<times> u16" where
  "sa_slot addr = (ip_family (sa_ip addr), sa_port addr)"

text \<open>The network read as one map from families and ports.\<close>

fun tcp_at :: "'ch Network \<Rightarrow> SocketAddressFamily \<times> u16 \<rightharpoonup> 'ch TcpEndpoint" where
  "tcp_at n (FamIpv4, p) = tcp_ipv4 n p"
| "tcp_at n (FamIpv6, p) = tcp_ipv6 n p"

lemma get_tcp_net_at: "get_tcp_net ip n p = tcp_at n (ip_family ip, p)"
  by (cases ip) simp_all

lemma tcp_at_put [simp]:
  "tcp_at (put_tcp_net ip m n) (f, p) = (if f = ip_family ip then m p else tcp_at n (f, p))"
  by (cases ip; cases f) simp_all

lemma tcp_at_remove_port: "tcp_at (remove_port addr n) k = (if k = sa_slot addr then None else tcp_at n k)"
  by (cases k) (auto simp: remove_port_def sa_slot_def get_tcp_net_at)

lemma ip_family_set_port [simp]: "ip_family (sa_ip (sa_set_port p a)) = ip_family (sa_ip a)"
  by (cases a) simp_all

lemma sa_port_set_port [simp]: "sa_port (sa_set_port p a) = p"
  by (cases a) simp_all

lemma sa_set_port_same [simp]: "sa_set_port (sa_port a) a = a"
  by (cases a) simp_all

lemma unat_u16_of_nat: "k < 65536 \<Longrightarrow> unat (of_nat k :: u16) = k"
  by (simp add: unsigned_of_nat take_bit_nat_eq_self)

lemma unat_u32_of_nat: "k < 4294967296 \<Longrightarrow> unat (of_nat k :: u32) = k"
  by (simp add: unsigned_of_nat take_bit_nat_eq_self)

lemma u16_bound: "unat (p :: u16) \<le> 65535"
  using unsigned_less [of p, where 'a = nat] by simp

lemma u32_bound: "unat (p :: u32) < 4294967296"
  using unsigned_less [of p, where 'a = nat] by simp

lemma highest_free_Some:
  "highest_free net n = Some p \<Longrightarrow> n < 65536 \<Longrightarrow>
     net p = None \<and> 0 < unat p \<and> unat p \<le> n \<and> (\<forall>q. unat p < unat q \<longrightarrow> unat q \<le> n \<longrightarrow> net q \<noteq> None)"
proof (induction n)
  case (Suc n)
  have u: "unat (of_nat (Suc n) :: u16) = Suc n" using Suc.prems(2) by (rule unat_u16_of_nat)
  show ?case
  proof (cases "net (of_nat (Suc n)) = None")
    case True
    with Suc.prems u show ?thesis by auto
  next
    case False
    then have "highest_free net n = Some p" using Suc.prems(1) by (auto split: if_splits)
    with Suc have ih: "net p = None \<and> 0 < unat p \<and> unat p \<le> n \<and> (\<forall>q. unat p < unat q \<longrightarrow> unat q \<le> n \<longrightarrow> net q \<noteq> None)"
      by simp
    moreover have "net q \<noteq> None" if "unat q = Suc n" for q
      using False that u by (metis word_unat_eq_iff)
    ultimately show ?thesis by (auto simp: le_Suc_eq)
  qed
qed simp

lemma highest_free_None:
  "highest_free net n = None \<Longrightarrow> n < 65536 \<Longrightarrow> 0 < unat p \<Longrightarrow> unat p \<le> n \<Longrightarrow> net p \<noteq> None"
proof (induction n)
  case (Suc n)
  have u: "unat (of_nat (Suc n) :: u16) = Suc n" using Suc.prems(2) by (rule unat_u16_of_nat)
  have "net (of_nat (Suc n)) \<noteq> None" "highest_free net n = None"
    using Suc.prems(1) by (auto split: if_splits)
  then show ?case using Suc.IH Suc.prems(2-4) u by (cases "unat p = Suc n") (auto, metis word_unat_eq_iff)
qed simp

lemma bind_tcp_Ok:
  assumes "bind_tcp addr n = Ok (addr', n')"
  shows "tcp_at n (sa_slot addr') = None" "sa_port addr' \<noteq> 0"
    "tcp_at n' = (tcp_at n)(sa_slot addr' \<mapsto> EpBound)"
    "sa_port addr \<noteq> 0 \<Longrightarrow> addr' = addr"
    "sa_port addr = 0 \<Longrightarrow> unat (sa_port addr') < unat q \<Longrightarrow> tcp_at n (ip_family (sa_ip addr), q) \<noteq> None"
    "addr' = sa_set_port (sa_port addr') addr"
proof -
  obtain p m where b: "net_bind (get_tcp_net (sa_ip addr) n) (sa_port addr) EpBound = Ok (p, m)"
    "addr' = sa_set_port p addr" "n' = put_tcp_net (sa_ip addr) m n"
    using assms by (auto simp: bind_tcp_def bind_result_Inr_iff)
  have p: "p \<noteq> 0 \<and> get_tcp_net (sa_ip addr) n p = None \<and> m = (get_tcp_net (sa_ip addr) n)(p \<mapsto> EpBound) \<and>
      (sa_port addr \<noteq> 0 \<longrightarrow> p = sa_port addr) \<and>
      (sa_port addr = 0 \<longrightarrow> unat p < unat q \<longrightarrow> get_tcp_net (sa_ip addr) n q \<noteq> None)"
    using b(1) highest_free_Some [of "get_tcp_net (sa_ip addr) n" 65535 p] u16_bound [of q]
    by (auto simp: net_bind_def split: if_splits option.splits)
  then show "tcp_at n (sa_slot addr') = None" "sa_port addr' \<noteq> 0" "sa_port addr \<noteq> 0 \<Longrightarrow> addr' = addr"
    "sa_port addr = 0 \<Longrightarrow> unat (sa_port addr') < unat q \<Longrightarrow> tcp_at n (ip_family (sa_ip addr), q) \<noteq> None"
    "addr' = sa_set_port (sa_port addr') addr"
    by (simp_all add: b(2) sa_slot_def get_tcp_net_at)
  show "tcp_at n' = (tcp_at n)(sa_slot addr' \<mapsto> EpBound)"
  proof (rule ext)
    fix k
    show "tcp_at n' k = ((tcp_at n)(sa_slot addr' \<mapsto> EpBound)) k"
      using p by (cases k) (simp add: b(2,3) sa_slot_def get_tcp_net_at)
  qed
qed

lemma bind_tcp_Err:
  assumes "bind_tcp addr n = Err e"
  shows "e = AddressInUse" "sa_port addr \<noteq> 0 \<Longrightarrow> tcp_at n (sa_slot addr) \<noteq> None"
    "sa_port addr = 0 \<Longrightarrow> p \<noteq> 0 \<Longrightarrow> tcp_at n (ip_family (sa_ip addr), p) \<noteq> None"
proof -
  have b: "net_bind (get_tcp_net (sa_ip addr) n) (sa_port addr) EpBound = Err e"
    using assms by (auto simp: bind_tcp_def bind_result_Inl_iff)
  show "e = AddressInUse" using b by (auto simp: net_bind_def split: if_splits option.splits)
  show "sa_port addr \<noteq> 0 \<Longrightarrow> tcp_at n (sa_slot addr) \<noteq> None"
    using b by (auto simp: net_bind_def sa_slot_def get_tcp_net_at split: option.splits)
  have "p \<noteq> 0 \<Longrightarrow> 0 < unat p" by (simp add: unat_gt_0)
  then show "sa_port addr = 0 \<Longrightarrow> p \<noteq> 0 \<Longrightarrow> tcp_at n (ip_family (sa_ip addr), p) \<noteq> None"
    using b highest_free_None [of "get_tcp_net (sa_ip addr) n" 65535 p] u16_bound [of p]
    by (auto simp: net_bind_def get_tcp_net_at split: option.splits)
qed

section \<open>The accounting of a send buffer\<close>

definition permits_laws :: "'p permits_lib \<Rightarrow> bool" where
  "permits_laws lib \<longleftrightarrow>
     (\<forall>k. pl_available lib (pl_new lib k) = k) \<and>
     (\<forall>k p. fst (pl_forget lib k p) = min k (pl_available lib p)) \<and>
     (\<forall>k p. pl_available lib (snd (pl_forget lib k p)) = pl_available lib p - k) \<and>
     (\<forall>k p. pl_available lib (pl_add lib k p) = pl_available lib p + k)"

lemma unat_u32_saturating_sub: "unat (u32_saturating_sub a b) = unat a - unat b"
  by (simp add: u32_saturating_sub_def word_le_nat_alt unat_sub)

lemma resize_permits_conserves:
  assumes laws: "permits_laws lib" and acc: "pl_available lib permits + in_flight = unat current"
  shows "\<exists>value' permits'. resize_permits lib current value permits = (Ok value', permits') \<and>
    pl_available lib permits' + in_flight = unat value' \<and> value \<le> value' \<and> unat value' = max (unat value) (min (unat current) in_flight)"
proof -
  define k where "k = unat current - unat value"
  have kk: "unat (u32_saturating_sub current value) = k"
    by (simp add: k_def unat_u32_saturating_sub)
  show ?thesis
  proof (cases "unat value < unat current")
    case False
    then have "u32_saturating_sub current value = 0" using kk by (simp add: k_def unat_eq_zero)
    moreover have "unat (u32_saturating_sub value current) = unat value - unat current"
      by (rule unat_u32_saturating_sub)
    ultimately show ?thesis
      using laws acc False by (simp add: resize_permits_def permits_laws_def)
  next
    case True
    obtain reduced permits' where f: "pl_forget lib k permits = (reduced, permits')" by (cases "pl_forget lib k permits")
    have r: "reduced = min k (pl_available lib permits)" "pl_available lib permits' = pl_available lib permits - k"
      using laws f unfolding permits_laws_def by (metis fst_conv, metis snd_conv)
    have "k < 4294967296" using u32_bound [of current] by (simp add: k_def)
    then have ur: "unat (of_nat reduced :: u32) = reduced" using r(1) by (simp add: unat_u32_of_nat)
    let ?leaked = "u32_saturating_sub (u32_saturating_sub current value) (of_nat reduced)"
    have l: "unat ?leaked = k - reduced"
      unfolding unat_u32_saturating_sub [of _ "of_nat reduced"] kk ur ..
    have fit: "unat value + unat ?leaked < 2 ^ 32" using u32_bound [of current] True by (simp add: l k_def)
    then have ca: "u32_checked_add value ?leaked = Some (value + ?leaked)" by (simp add: u32_checked_add_def)
    have v: "unat (value + ?leaked) = unat value + (k - reduced)"
      using fit l by (simp add: unat_word_ariths)
    have "0 < u32_saturating_sub current value" using kk True by (simp add: k_def word_less_nat_alt)
    then have "resize_permits lib current value permits = (Ok (value + ?leaked), permits')"
      unfolding resize_permits_def Let_def kk using f ca by simp
    moreover have "pl_available lib permits' + in_flight = unat (value + ?leaked)"
      "unat (value + ?leaked) = max (unat value) (min (unat current) in_flight)"
      unfolding v using acc True r by (auto simp: k_def min_def)
    ultimately show ?thesis using v by (auto simp: word_le_nat_alt)
  qed
qed

section \<open>Properties\<close>

text \<open>
  Binding in the virtual network claims one vacant port and touches no other: a named
  port is taken exactly when it is vacant, port 0 takes the highest vacant one, and the only
  error is that the named port, or every port, is taken.
\<close>

theorem virtual_bind_claims_one_vacant_port:
  "(case bind_tcp addr n of
      Inr (addr', n') \<Rightarrow>
        sa_port addr' \<noteq> 0 \<and> tcp_at n (sa_slot addr') = None \<and>
        tcp_at n' = (tcp_at n)(sa_slot addr' \<mapsto> EpBound) \<and> addr' = sa_set_port (sa_port addr') addr \<and>
        (if sa_port addr \<noteq> 0 then addr' = addr
         else \<forall>q. unat (sa_port addr') < unat q \<longrightarrow> tcp_at n (ip_family (sa_ip addr), q) \<noteq> None)
    | Inl e \<Rightarrow>
        e = AddressInUse \<and>
        (if sa_port addr \<noteq> 0 then tcp_at n (sa_slot addr) \<noteq> None
         else \<forall>p. p \<noteq> 0 \<longrightarrow> tcp_at n (ip_family (sa_ip addr), p) \<noteq> None))"
proof (cases "bind_tcp addr n")
  case (Inl e)
  from bind_tcp_Err [OF Inl] Inl show ?thesis by simp
next
  case (Inr r)
  obtain addr' n' where r: "r = (addr', n')" by (cases r)
  from bind_tcp_Ok [OF Inr [unfolded r]] Inr r show ?thesis by auto
qed

theorem virtual_bind_claims_one_vacant_port_witness:
  "\<exists>n'. bind_tcp (SocketAddrV4 v4_localhost 0) (Network_default :: nat Network) =
      Ok (SocketAddrV4 v4_localhost 65535, n') \<and> tcp_at n' (FamIpv4, 65535) = Some EpBound \<and> tcp_at n' (FamIpv4, 80) = None"
proof -
  let ?n = "Network_default :: nat Network"
  have "highest_free (Map.empty :: u16 \<rightharpoonup> nat TcpEndpoint) 65535 = Some 65535"
    using highest_free.simps(2) [of "Map.empty :: u16 \<rightharpoonup> nat TcpEndpoint" 65534] by simp
  then obtain n' where b: "bind_tcp (SocketAddrV4 v4_localhost 0) ?n = Ok (SocketAddrV4 v4_localhost 65535, n')"
    by (simp add: bind_tcp_def net_bind_def Network_default_def)
  have "tcp_at n' = (tcp_at ?n)(sa_slot (SocketAddrV4 v4_localhost 65535) \<mapsto> EpBound)"
    using virtual_bind_claims_one_vacant_port [of "SocketAddrV4 v4_localhost 0" ?n] by (simp add: b)
  then have "tcp_at n' (FamIpv4, 65535) = Some EpBound" "tcp_at n' (FamIpv4, 80) = tcp_at ?n (FamIpv4, 80)"
    by (simp_all add: sa_slot_def del: tcp_at.simps)
  with b show ?thesis by (auto simp: Network_default_def)
qed

text \<open>
  Resizing the send buffer of a datagram socket never loses account of what is in
  flight: the permits that are free and those held by datagrams still add up to the size
  that is recorded, which is the requested size (capped), or what is in flight if that is
  more. The call always succeeds on a non-zero size.
\<close>

theorem send_buffer_accounts_for_data_in_flight:
  assumes laws: "permits_laws lib" and p: "lu_permits (lu_st s) = Some p" and nz: "value \<noteq> 0"
    and acc: "pl_available lib p + in_flight = unat (lu_send_buffer_size s)"
  shows "\<exists>s' p'. lu_set_send_buffer_size lib value s = (Ok (), s') \<and> lu_permits (lu_st s') = Some p' \<and>
    pl_available lib p' + in_flight = unat (lu_send_buffer_size s') \<and>
    unat (lu_send_buffer_size s') = max (min (unat value) 65536) in_flight"
proof -
  have cap: "unat (capped_u32 MAX_UDP_SEND_BUFFER_SIZE value) = min (unat value) 65536"
  proof (cases "unat value < 2 ^ 32")
    case True
    then have "unat (ucast value :: u32) = unat value"
      by (simp add: unsigned_ucast_eq take_bit_nat_eq_self)
    with True show ?thesis by (auto simp: capped_u32_def MAX_UDP_SEND_BUFFER_SIZE_def min_def word_le_nat_alt)
  qed (simp add: capped_u32_def MAX_UDP_SEND_BUFFER_SIZE_def)
  obtain v p' where r: "resize_permits lib (lu_send_buffer_size s) (capped_u32 MAX_UDP_SEND_BUFFER_SIZE value) p = (Ok v, p')"
    "pl_available lib p' + in_flight = unat v"
    "unat v = max (unat (capped_u32 MAX_UDP_SEND_BUFFER_SIZE value)) (min (unat (lu_send_buffer_size s)) in_flight)"
    using resize_permits_conserves [OF laws acc] by blast
  have "min (unat (lu_send_buffer_size s)) in_flight = in_flight" using acc by simp
  moreover have "lu_permits (lu_put_permits p' (lu_st s)) = Some p'" using p by (cases "lu_st s") auto
  ultimately show ?thesis
    using r cap nz p by (simp add: lu_set_send_buffer_size_def Let_def)
qed

text \<open>A counter is a semaphore.\<close>

definition counter_permits :: "nat permits_lib" where
  "counter_permits = \<lparr>pl_new = id, pl_available = id, pl_forget = (\<lambda>k p. (min k p, p - k)), pl_add = (\<lambda>k p. p + k)\<rparr>"

theorem send_buffer_accounts_for_data_in_flight_witness:
  "\<exists>s'. lu_set_send_buffer_size counter_permits 100
      \<lparr>lu_st = LU_Bound (SocketAddrV4 v4_localhost 53) (0::nat) 24, lu_hop_limit = 64, lu_receive_buffer_size = 4096,
       lu_send_buffer_size = 1024, lu_family = FamIpv4, lu_socket_addr_check = None :: unit option\<rparr> = (Ok (), s') \<and>
    lu_send_buffer_size s' = 1000"
proof -
  let ?s = "\<lparr>lu_st = LU_Bound (SocketAddrV4 v4_localhost 53) (0::nat) 24, lu_hop_limit = 64, lu_receive_buffer_size = 4096,
       lu_send_buffer_size = 1024, lu_family = FamIpv4, lu_socket_addr_check = None :: unit option\<rparr>"
  have "permits_laws counter_permits" by (simp add: permits_laws_def counter_permits_def)
  from send_buffer_accounts_for_data_in_flight [OF this, of ?s 24 100 1000]
  obtain s' where "lu_set_send_buffer_size counter_permits 100 ?s = (Ok (), s')" "unat (lu_send_buffer_size s') = 1000"
    by (auto simp: counter_permits_def)
  then show ?thesis by (auto simp: word_unat_eq_iff)
qed

end
