(* ===== verification/Tcp_Socket.thy ===== *)
theory Tcp_Socket
  imports Virtual_Network Quota
begin

text \<open>
  The stream sockets a guest holds: \<open>sockets/tcp.rs\<close>. A socket is a real one, one of the
  virtual network, or, bound to an unspecified address and not yet connected, both. The
  operating system's sockets, listeners and streams are handles of the type \<open>'os\<close> behind
  the parameter \<open>tcp_os\<close>.
\<close>

section \<open>The real half\<close>

text \<open>What the code calls of the operating system. \<open>os_options\<close> reads the options of a
  socket in the order of \<open>loopback::TcpSocket::new\<close>.\<close>

record socket_options =
  opt_keep_alive_enabled :: bool
  opt_keep_alive_idle_time :: u64
  opt_keep_alive_interval :: u64
  opt_keep_alive_count :: u32
  opt_hop_limit :: u8
  opt_receive_buffer_size :: u64
  opt_send_buffer_size :: u64

record 'os tcp_os =
  os_new :: "SocketAddressFamily \<Rightarrow> (io_error, 'os) result"
  os_reuse :: "'os \<Rightarrow> 'os"
  os_bind :: "socket_addr \<Rightarrow> 'os \<Rightarrow> (io_error, 'os) result"
  os_local_addr :: "'os \<Rightarrow> (io_error, socket_addr) result"
  os_peer_addr :: "'os \<Rightarrow> (io_error, socket_addr) result"
  os_listen :: "u32 \<Rightarrow> 'os \<Rightarrow> (io_error, 'os) result"
  os_relisten :: "u32 \<Rightarrow> 'os \<Rightarrow> (Errno, unit) result"
  os_poll_accept :: "'os \<Rightarrow> (io_error, 'os) result option"
  os_options :: "'os \<Rightarrow> (ErrorCode, socket_options) result"

datatype ('os, 'ch, 'f) net_state =
    N_Default 'os
  | N_BindStarted 'os
  | N_Bound 'os
  | N_ListenStarted 'os
  | N_Listening 'os "(io_error, 'os) result option"
  | N_Connecting "'f option"
  | N_ConnectReady "('os, 'ch) connect_result"
  | N_Connected 'os
  | N_P2Streaming 'os
  | N_Closed

record ('os, 'ch, 'f) NetworkTcpSocket =
  nt_state :: "('os, 'ch, 'f) net_state"
  nt_listen_backlog_size :: u32
  nt_family :: SocketAddressFamily
  nt_send_taken :: bool
  nt_receive_taken :: bool
  nt_quota_slot :: "ConnectionSlot option"

definition DEFAULT_TCP_BACKLOG :: u32 where "DEFAULT_TCP_BACKLOG = 128"

definition nt_from_state :: "('os, 'ch, 'f) net_state \<Rightarrow> SocketAddressFamily \<Rightarrow> ('os, 'ch, 'f) NetworkTcpSocket" where
  "nt_from_state st family =
     \<lparr>nt_state = st, nt_listen_backlog_size = DEFAULT_TCP_BACKLOG, nt_family = family,
      nt_send_taken = False, nt_receive_taken = False, nt_quota_slot = None\<rparr>"

definition nt_as_std_view :: "('os, 'ch, 'f) NetworkTcpSocket \<Rightarrow> (ErrorCode, 'os) result" where
  "nt_as_std_view s =
     (case nt_state s of
        N_Default sk \<Rightarrow> Ok sk | N_BindStarted sk \<Rightarrow> Ok sk | N_Bound sk \<Rightarrow> Ok sk | N_ListenStarted sk \<Rightarrow> Ok sk
      | N_Connected sk \<Rightarrow> Ok sk | N_Listening sk _ \<Rightarrow> Ok sk | N_P2Streaming sk \<Rightarrow> Ok sk
      | _ \<Rightarrow> Err InvalidState)"

definition nt_start_bind ::
    "'os tcp_os \<Rightarrow> socket_addr \<Rightarrow> ('os, 'ch, 'f) NetworkTcpSocket \<Rightarrow> (ErrorCode, unit) result \<times> ('os, 'ch, 'f) NetworkTcpSocket" where
  "nt_start_bind os addr s =
     (case nt_state s of
        N_Default sk \<Rightarrow>
          (case tcp_bind (os_reuse os) (os_bind os) addr sk of
             Inl e \<Rightarrow> (Err e, s)
           | Inr sk \<Rightarrow> (Ok (), s\<lparr>nt_state := N_BindStarted sk\<rparr>))
      | _ \<Rightarrow> (Err InvalidState, s))"

definition nt_finish_bind :: "('os, 'ch, 'f) NetworkTcpSocket \<Rightarrow> (ErrorCode, unit) result \<times> ('os, 'ch, 'f) NetworkTcpSocket" where
  "nt_finish_bind s =
     (case nt_state s of
        N_BindStarted sk \<Rightarrow> (Ok (), s\<lparr>nt_state := N_Bound sk\<rparr>)
      | _ \<Rightarrow> (Err NotInProgress, s))"

text \<open>\<open>None\<close> is the \<open>unreachable!()\<close> of the source.\<close>

definition nt_start_connect :: "('os, 'ch, 'f) NetworkTcpSocket \<Rightarrow> ('os \<times> ('os, 'ch, 'f) NetworkTcpSocket) option" where
  "nt_start_connect s =
     (case nt_state s of
        N_Default sk \<Rightarrow> Some (sk, s\<lparr>nt_state := N_Connecting None\<rparr>)
      | N_Bound sk \<Rightarrow> Some (sk, s\<lparr>nt_state := N_Connecting None\<rparr>)
      | _ \<Rightarrow> None)"

definition nt_set_pending_connect ::
    "'f \<Rightarrow> ('os, 'ch, 'f) NetworkTcpSocket \<Rightarrow> (ErrorCode, unit) result \<times> ('os, 'ch, 'f) NetworkTcpSocket" where
  "nt_set_pending_connect fut s =
     (case nt_state s of
        N_Connecting None \<Rightarrow> (Ok (), s\<lparr>nt_state := N_Connecting (Some fut)\<rparr>)
      | _ \<Rightarrow> (Err InvalidState, s))"

definition nt_take_pending_connect ::
    "('f \<Rightarrow> ('os, 'ch) connect_result + 'f) \<Rightarrow> ('os, 'ch, 'f) NetworkTcpSocket \<Rightarrow>
     (ErrorCode, ('os, 'ch) connect_result option) result \<times> ('os, 'ch, 'f) NetworkTcpSocket" where
  "nt_take_pending_connect poll s =
     (case nt_state s of
        N_ConnectReady res \<Rightarrow> (Ok (Some res), s\<lparr>nt_state := N_Connecting None\<rparr>)
      | N_Connecting (Some fut) \<Rightarrow>
          (case poll fut of
             Inl res \<Rightarrow> (Ok (Some res), s\<lparr>nt_state := N_Connecting None\<rparr>)
           | Inr fut \<Rightarrow> (Ok None, s\<lparr>nt_state := N_Connecting (Some fut)\<rparr>))
      | _ \<Rightarrow> (Err NotInProgress, s))"

definition nt_finish_connect ::
    "('os, 'ch) connect_result \<Rightarrow> ('os, 'ch, 'f) NetworkTcpSocket \<Rightarrow> (ErrorCode, unit) result \<times> ('os, 'ch, 'f) NetworkTcpSocket" where
  "nt_finish_connect result s =
     (case nt_state s of
        N_Connecting None \<Rightarrow>
          (case result of
             Inr (CS_Network stream) \<Rightarrow> (Ok (), s\<lparr>nt_state := N_Connected stream\<rparr>)
           | Inr (CS_Loopback _) \<Rightarrow> (Err InvalidState, s)
           | Inl err \<Rightarrow> (Err (ErrorCode_from_io_error err), s\<lparr>nt_state := N_Closed\<rparr>))
      | _ \<Rightarrow> (Err InvalidState, s))"

definition nt_cancel_connect :: "('os, 'ch, 'f) NetworkTcpSocket \<Rightarrow> ('os, 'ch, 'f) NetworkTcpSocket" where
  "nt_cancel_connect s =
     (case nt_state s of
        N_Connecting _ \<Rightarrow> s\<lparr>nt_state := N_Closed, nt_quota_slot := None\<rparr>
      | _ \<Rightarrow> s)"

definition nt_start_listen :: "('os, 'ch, 'f) NetworkTcpSocket \<Rightarrow> (ErrorCode, unit) result \<times> ('os, 'ch, 'f) NetworkTcpSocket" where
  "nt_start_listen s =
     (case nt_state s of
        N_Bound sk \<Rightarrow> (Ok (), s\<lparr>nt_state := N_ListenStarted sk\<rparr>)
      | _ \<Rightarrow> (Err InvalidState, s))"

definition nt_finish_listen ::
    "'os tcp_os \<Rightarrow> ('os, 'ch, 'f) NetworkTcpSocket \<Rightarrow> (ErrorCode, unit) result \<times> ('os, 'ch, 'f) NetworkTcpSocket" where
  "nt_finish_listen os s =
     (case nt_state s of
        N_ListenStarted sk \<Rightarrow>
          (case os_listen os (nt_listen_backlog_size s) sk of
             Inr listener \<Rightarrow> (Ok (), s\<lparr>nt_state := N_Listening listener None\<rparr>)
           | Inl err \<Rightarrow> (Err (ErrorCode_from_io_error err), s\<lparr>nt_state := N_Closed\<rparr>))
      | _ \<Rightarrow> (Err NotInProgress, s))"

text \<open>Linux reports pending network errors of the new connection from \<open>accept\<close>; they become
  an aborted connection. Error numbers without a constructor of their own are given by
  \<open>pending_errnos\<close>.\<close>

definition pending_errnos :: "Errno list" where
  "pending_errnos =
     [CONNRESET, OtherErrno 102, HOSTUNREACH, HOSTDOWN, NETDOWN, NETUNREACH, OtherErrno 71, NOPROTOOPT, NONET, OPNOTSUPP]"

definition nt_new_accept ::
    "(io_error, 'os) result \<Rightarrow> SocketAddressFamily \<Rightarrow> (io_error, ('os, 'ch, 'f) NetworkTcpSocket) result" where
  "nt_new_accept result family =
     (case result of
        Inl err \<Rightarrow>
          Err (if (case io_errno err of Some e \<Rightarrow> e \<in> set pending_errnos | None \<Rightarrow> False)
               then \<lparr>io_errno = Some CONNABORTED, io_kind = K_ConnectionAborted\<rparr> else err)
      | Inr client \<Rightarrow> Ok (nt_from_state (N_Connected client) family))"

definition nt_accept ::
    "'os tcp_os \<Rightarrow> ('os, 'ch, 'f) NetworkTcpSocket \<Rightarrow>
     (ErrorCode, ('os, 'ch, 'f) NetworkTcpSocket option) result \<times> ('os, 'ch, 'f) NetworkTcpSocket" where
  "nt_accept os s =
     (case nt_state s of
        N_Listening listener pending \<Rightarrow>
          (let s' = s\<lparr>nt_state := N_Listening listener None\<rparr> in
           (case (case pending of Some r \<Rightarrow> Some r | None \<Rightarrow> os_poll_accept os listener) of
              None \<Rightarrow> (Ok None, s')
            | Some result \<Rightarrow>
                (case nt_new_accept result (nt_family s) of
                   Inl err \<Rightarrow> (Err (ErrorCode_from_io_error err), s')
                 | Inr client \<Rightarrow> (Ok (Some client), s'))))
      | _ \<Rightarrow> (Err InvalidState, s))"

definition nt_set_listen_backlog_size ::
    "'os tcp_os \<Rightarrow> u64 \<Rightarrow> ('os, 'ch, 'f) NetworkTcpSocket \<Rightarrow> (ErrorCode, unit) result \<times> ('os, 'ch, 'f) NetworkTcpSocket" where
  "nt_set_listen_backlog_size os value s =
     (if value = 0 then (Err InvalidArgument, s)
      else let value = (of_nat (clamp (unat value) 1 i32_max) :: u32) in
        (case nt_state s of
           N_Default _ \<Rightarrow> (Ok (), s\<lparr>nt_listen_backlog_size := value\<rparr>)
         | N_Bound _ \<Rightarrow> (Ok (), s\<lparr>nt_listen_backlog_size := value\<rparr>)
         | N_Listening listener _ \<Rightarrow>
             (case os_relisten os value listener of
                Inl _ \<Rightarrow> (Err NotSupported, s)
              | Inr _ \<Rightarrow> (Ok (), s\<lparr>nt_listen_backlog_size := value\<rparr>))
         | _ \<Rightarrow> (Err InvalidState, s)))"

definition nt_is_unbound :: "('os, 'ch, 'f) NetworkTcpSocket \<Rightarrow> bool" where
  "nt_is_unbound s = (case nt_state s of N_Default _ \<Rightarrow> True | _ \<Rightarrow> False)"

text \<open>A failing implicit bind leaves the socket closed.\<close>

definition nt_listen_p3 ::
    "'os tcp_os \<Rightarrow> ('os, 'ch, 'f) NetworkTcpSocket \<Rightarrow> (ErrorCode, 'os) result \<times> ('os, 'ch, 'f) NetworkTcpSocket" where
  "nt_listen_p3 os s =
     (let listen = (\<lambda>sk.
            case os_listen os (nt_listen_backlog_size s) sk of
              Inr listener \<Rightarrow> (Ok listener, s\<lparr>nt_state := N_Listening listener None\<rparr>)
            | Inl err \<Rightarrow> (Err (ErrorCode_from_io_error err), s\<lparr>nt_state := N_Closed\<rparr>))
      in (case nt_state s of
            N_Bound sk \<Rightarrow> listen sk
          | N_Default sk \<Rightarrow>
              (case tcp_bind (os_reuse os) (os_bind os) (implicit_bind_addr (nt_family s)) sk of
                 Inl e \<Rightarrow> (Err e, s\<lparr>nt_state := N_Closed\<rparr>)
               | Inr sk \<Rightarrow> listen sk)
          | _ \<Rightarrow> (Err InvalidState, s)))"

definition nt_take_send_stream ::
    "('os, 'ch, 'f) NetworkTcpSocket \<Rightarrow> (ErrorCode, 'os) result \<times> ('os, 'ch, 'f) NetworkTcpSocket" where
  "nt_take_send_stream s =
     (if nt_send_taken s then (Err InvalidState, s)
      else (case nt_state s of
              N_Connected stream \<Rightarrow> (Ok stream, s\<lparr>nt_send_taken := True\<rparr>)
            | _ \<Rightarrow> (Err InvalidState, s)))"

definition nt_take_receive_stream ::
    "('os, 'ch, 'f) NetworkTcpSocket \<Rightarrow> (ErrorCode, 'os) result \<times> ('os, 'ch, 'f) NetworkTcpSocket" where
  "nt_take_receive_stream s =
     (if nt_receive_taken s then (Err InvalidState, s)
      else (case nt_state s of
              N_Connected stream \<Rightarrow> (Ok stream, s\<lparr>nt_receive_taken := True\<rparr>)
            | _ \<Rightarrow> (Err InvalidState, s)))"

definition nt_is_listening :: "('os, 'ch, 'f) NetworkTcpSocket \<Rightarrow> bool" where
  "nt_is_listening s = (case nt_state s of N_Listening _ _ \<Rightarrow> True | _ \<Rightarrow> False)"

section \<open>The virtual half of a real socket\<close>

definition lo_new ::
    "'os tcp_os \<Rightarrow> ('os, 'ch, 'f) NetworkTcpSocket \<Rightarrow> ('os, 'ch, 'f, 'p) lo_state \<Rightarrow> (ErrorCode, ('os, 'ch, 'f, 'p) lo_socket) result" where
  "lo_new os socket st =
     bind_result (nt_as_std_view socket) (\<lambda>fd.
     bind_result (os_options os fd) (\<lambda>opts.
       Ok \<lparr>lo_st = st,
           lo_listen_backlog_size = min (nt_listen_backlog_size socket) MAX_LISTEN_BACKLOG_SIZE,
           lo_keep_alive_enabled = opt_keep_alive_enabled opts,
           lo_keep_alive_idle_time = opt_keep_alive_idle_time opts,
           lo_keep_alive_interval = opt_keep_alive_interval opts,
           lo_keep_alive_count = opt_keep_alive_count opts,
           lo_hop_limit = opt_hop_limit opts,
           lo_receive_buffer_size = opt_receive_buffer_size opts,
           lo_send_buffer_size = capped_u32 MAX_TCP_SEND_BUFFER_SIZE (opt_send_buffer_size opts),
           lo_family = nt_family socket\<rparr>))"

section \<open>The socket of a guest\<close>

datatype ('os, 'ch, 'f, 'p) TcpSocket =
    TS_Network "('os, 'ch, 'f) NetworkTcpSocket"
  | TS_Loopback "('os, 'ch, 'f, 'p) lo_socket"
  | TS_Unspecified "('os, 'ch, 'f) NetworkTcpSocket" "('os, 'ch, 'f, 'p) lo_socket"

datatype ('os, 'ch) ConnectingTcpSocket = CT_Network 'os | CT_Loopback 'ch

fun loopback_of :: "socket_addr \<Rightarrow> socket_addr" where
  "loopback_of (SocketAddrV4 ip p) = SocketAddrV4 v4_localhost p"
| "loopback_of (SocketAddrV6 ip p fl sc) = SocketAddrV6 v6_localhost p fl sc"

text \<open>The end of \<open>start_bind\<close>: claim the virtual port and build the virtual half.\<close>

definition bind_virtual ::
    "'os tcp_os \<Rightarrow> bool \<Rightarrow> socket_addr \<Rightarrow> 'ch Network \<Rightarrow> ('os, 'ch, 'f) NetworkTcpSocket \<Rightarrow>
     (ErrorCode, unit) result \<times> ('os, 'ch, 'f, 'p) TcpSocket \<times> 'ch Network" where
  "bind_virtual os unspecified addr n socket =
     (case bind_tcp addr n of
        Inl e \<Rightarrow> (Err e, TS_Network socket, n)
      | Inr (addr, n) \<Rightarrow>
          (case lo_new os socket (L_BindStarted addr) of
             Inl e \<Rightarrow> (Err e, TS_Network socket, n)
           | Inr lo \<Rightarrow>
               (Ok (),
                if unspecified
                then TS_Unspecified (socket\<lparr>nt_send_taken := False, nt_receive_taken := False\<rparr>) lo
                else TS_Loopback lo, n)))"

definition ts_start_bind ::
    "'os tcp_os \<Rightarrow> socket_addr \<Rightarrow> 'ch Network \<Rightarrow> ('os, 'ch, 'f, 'p) TcpSocket \<Rightarrow>
     (ErrorCode, unit) result \<times> ('os, 'ch, 'f, 'p) TcpSocket \<times> 'ch Network" where
  "ts_start_bind os addr n self =
     (case self of
        TS_Network socket \<Rightarrow>
          if \<not> is_valid_unicast_address (sa_ip addr) \<or> \<not> is_valid_address_family (sa_ip addr) (nt_family socket)
          then (Err InvalidArgument, self, n)
          else (let ip = to_canonical (sa_ip addr) in
            if is_loopback ip then bind_virtual os False addr n socket
            else (case nt_start_bind os (if is_unspecified ip then loopback_of addr else addr) socket of
                    (Inl e, socket) \<Rightarrow> (Err e, TS_Network socket, n)
                  | (Inr _, socket) \<Rightarrow>
                      if \<not> is_unspecified ip then (Ok (), TS_Network socket, n)
                      else (case nt_state socket of
                              N_BindStarted sk \<Rightarrow>
                                (case os_local_addr os sk of
                                   Inl err \<Rightarrow> (Err (ErrorCode_from_io_error err), TS_Network socket, n)
                                 | Inr addr \<Rightarrow> bind_virtual os True (loopback_of addr) n socket)
                            | _ \<Rightarrow> (Err InvalidState, TS_Network socket, n))))
      | _ \<Rightarrow> (Err InvalidState, self, n))"

definition ts_finish_bind ::
    "('os, 'ch, 'f, 'p) TcpSocket \<Rightarrow> (ErrorCode, unit) result \<times> ('os, 'ch, 'f, 'p) TcpSocket" where
  "ts_finish_bind self =
     (case self of
        TS_Network socket \<Rightarrow> (case nt_finish_bind socket of (r, s) \<Rightarrow> (r, TS_Network s))
      | TS_Loopback socket \<Rightarrow> (case lo_finish_bind socket of (r, s) \<Rightarrow> (r, TS_Loopback s))
      | TS_Unspecified net lo \<Rightarrow>
          (case nt_finish_bind net of
             (Inl e, net) \<Rightarrow> (Err e, TS_Unspecified net lo)
           | (Inr _, net) \<Rightarrow> (case lo_finish_bind lo of (r, lo) \<Rightarrow> (r, TS_Unspecified net lo))))"

text \<open>The checks before a connect.\<close>

definition nt_connectable :: "('os, 'ch, 'f) NetworkTcpSocket \<Rightarrow> (ErrorCode, unit) result" where
  "nt_connectable s =
     (case nt_state s of
        N_Default _ \<Rightarrow> Ok () | N_Bound _ \<Rightarrow> Ok () | N_Connecting _ \<Rightarrow> Err ConcurrencyConflict
      | _ \<Rightarrow> Err InvalidState)"

definition lo_connectable :: "('os, 'ch, 'f, 'p) lo_socket \<Rightarrow> (ErrorCode, unit) result" where
  "lo_connectable s =
     (case lo_st s of
        L_Bound _ \<Rightarrow> Ok () | L_Connecting _ _ _ \<Rightarrow> Err ConcurrencyConflict | _ \<Rightarrow> Err InvalidState)"

definition valid_peer :: "socket_addr \<Rightarrow> SocketAddressFamily \<Rightarrow> (ErrorCode, unit) result" where
  "valid_peer addr family =
     (if \<not> is_valid_unicast_address (sa_ip addr) \<or> \<not> is_valid_remote_address addr
         \<or> \<not> is_valid_address_family (sa_ip addr) family
      then Err InvalidArgument else Ok ())"

definition ts_connectable :: "socket_addr \<Rightarrow> ('os, 'ch, 'f, 'p) TcpSocket \<Rightarrow> (ErrorCode, unit) result" where
  "ts_connectable addr self =
     (let net = (\<lambda>s. bind_result (nt_connectable s) (\<lambda>_. valid_peer addr (nt_family s)));
          lo = (\<lambda>s. bind_result (lo_connectable s) (\<lambda>_. valid_peer addr (lo_family s)))
      in (case self of
            TS_Network s \<Rightarrow> net s
          | TS_Loopback s \<Rightarrow> lo s
          | TS_Unspecified s l \<Rightarrow> bind_result (net s) (\<lambda>_. lo l)))"

text \<open>A virtual connect from a socket that has no virtual half yet.\<close>

definition connect_unbound ::
    "'os tcp_os \<Rightarrow> socket_addr \<Rightarrow> 'ch Network \<Rightarrow> ('os, 'ch, 'f) NetworkTcpSocket \<Rightarrow>
     (ErrorCode, ('os, 'ch) ConnectingTcpSocket) result \<times> ('os, 'ch, 'f, 'p) TcpSocket \<times> 'ch Network" where
  "connect_unbound os addr n socket =
     (case nt_state socket of
        N_Bound _ \<Rightarrow> (Err InvalidState, TS_Network socket, n)
      | _ \<Rightarrow>
          (case bind_tcp (sa_set_port 0 addr) n of
             Inl e \<Rightarrow> (Err e, TS_Network socket, n)
           | Inr (local_address, n) \<Rightarrow>
               (case connect_tcp addr n of
                  Inl e \<Rightarrow> (Err e, TS_Network socket, n)
                | Inr tx \<Rightarrow>
                    (case lo_new os socket (L_Connecting local_address addr None) of
                       Inl e \<Rightarrow> (Err e, TS_Network socket, n)
                     | Inr lo \<Rightarrow> (Ok (CT_Loopback tx), TS_Loopback lo, n)))))"

definition ts_start_connect ::
    "'os tcp_os \<Rightarrow> socket_addr \<Rightarrow> Plane \<Rightarrow> 'ch Network \<Rightarrow> ('os, 'ch, 'f, 'p) TcpSocket \<Rightarrow>
     ((ErrorCode, ('os, 'ch) ConnectingTcpSocket) result \<times> ('os, 'ch, 'f, 'p) TcpSocket \<times> 'ch Network) option" where
  "ts_start_connect os addr plane n self =
     (case ts_connectable addr self of
        Inl e \<Rightarrow> Some (Err e, self, n)
      | Inr _ \<Rightarrow>
          let on_host = (\<lambda>socket. map_option (\<lambda>(sk, socket). (Ok (CT_Network sk), TS_Network socket, n)) (nt_start_connect socket))
          in (case self of
                TS_Network socket \<Rightarrow>
                  if plane = PlaneVirtual then Some (connect_unbound os addr n socket) else on_host socket
              | TS_Unspecified net lo \<Rightarrow>
                  if plane = PlaneVirtual then
                    (case lo_start_connect addr n lo of
                       (Inr tx, lo) \<Rightarrow> Some (Ok (CT_Loopback tx), TS_Loopback lo, n)
                     | (Inl e, lo) \<Rightarrow> Some (Err e, TS_Unspecified net lo, n))
                  else on_host net
              | TS_Loopback lo \<Rightarrow>
                  (case lo_start_connect addr n lo of
                     (Inr tx, lo) \<Rightarrow> Some (Ok (CT_Loopback tx), TS_Loopback lo, n)
                   | (Inl e, lo) \<Rightarrow> Some (Err e, TS_Loopback lo, n))))"

text \<open>Only a real socket holds the slot.\<close>

definition hold_quota_slot :: "ConnectionSlot option \<Rightarrow> ('os, 'ch, 'f, 'p) TcpSocket \<Rightarrow> ('os, 'ch, 'f, 'p) TcpSocket" where
  "hold_quota_slot permit self =
     (case (self, permit) of
        (TS_Network socket, Some permit) \<Rightarrow> TS_Network (socket\<lparr>nt_quota_slot := Some permit\<rparr>)
      | _ \<Rightarrow> self)"

definition ts_set_pending_connect ::
    "'f \<Rightarrow> ('os, 'ch, 'f, 'p) TcpSocket \<Rightarrow> (ErrorCode, unit) result \<times> ('os, 'ch, 'f, 'p) TcpSocket" where
  "ts_set_pending_connect fut self =
     (case self of
        TS_Network s \<Rightarrow> (case nt_set_pending_connect fut s of (r, s) \<Rightarrow> (r, TS_Network s))
      | TS_Loopback s \<Rightarrow> (case lo_set_pending_connect fut s of (r, s) \<Rightarrow> (r, TS_Loopback s))
      | TS_Unspecified _ _ \<Rightarrow> (Err InvalidState, self))"

definition ts_take_pending_connect ::
    "('f \<Rightarrow> ('os, 'ch) connect_result + 'f) \<Rightarrow> ('os, 'ch, 'f, 'p) TcpSocket \<Rightarrow>
     (ErrorCode, ('os, 'ch) connect_result option) result \<times> ('os, 'ch, 'f, 'p) TcpSocket" where
  "ts_take_pending_connect poll self =
     (case self of
        TS_Network s \<Rightarrow> (case nt_take_pending_connect poll s of (r, s) \<Rightarrow> (r, TS_Network s))
      | TS_Loopback s \<Rightarrow> (case lo_take_pending_connect poll s of (r, s) \<Rightarrow> (r, TS_Loopback s))
      | TS_Unspecified _ _ \<Rightarrow> (Err InvalidState, self))"

definition ts_finish_connect ::
    "('ch, 'w) mpsc_lib \<Rightarrow> ('os, 'ch) connect_result \<Rightarrow> 'w \<Rightarrow> 'ch Network \<Rightarrow> ('os, 'ch, 'f, 'p) TcpSocket \<Rightarrow>
     (ErrorCode, unit) result \<times> ('os, 'ch, 'f, 'p) TcpSocket \<times> 'ch Network \<times> 'w" where
  "ts_finish_connect lib result w n self =
     (case self of
        TS_Network s \<Rightarrow> (case nt_finish_connect result s of (r, s) \<Rightarrow> (r, TS_Network s, n, w))
      | TS_Loopback s \<Rightarrow> (case lo_finish_connect lib result w n s of (r, s, n, w) \<Rightarrow> (r, TS_Loopback s, n, w))
      | TS_Unspecified _ _ \<Rightarrow> (Err InvalidState, self, n, w))"

definition ts_cancel_connect ::
    "'ch Network \<Rightarrow> ('os, 'ch, 'f, 'p) TcpSocket \<Rightarrow> ('os, 'ch, 'f, 'p) TcpSocket \<times> 'ch Network" where
  "ts_cancel_connect n self =
     (case self of
        TS_Network s \<Rightarrow> (TS_Network (nt_cancel_connect s), n)
      | TS_Loopback s \<Rightarrow> (case lo_cancel_connect n s of (s, n) \<Rightarrow> (TS_Loopback s, n))
      | TS_Unspecified _ _ \<Rightarrow> (self, n))"

definition ts_start_listen ::
    "('ch, 'w) mpsc_lib \<Rightarrow> 'w \<Rightarrow> 'ch Network \<Rightarrow> ('os, 'ch, 'f, 'p) TcpSocket \<Rightarrow>
     ((ErrorCode, unit) result \<times> ('os, 'ch, 'f, 'p) TcpSocket \<times> 'ch Network \<times> 'w) option" where
  "ts_start_listen lib w n self =
     (case self of
        TS_Network s \<Rightarrow> (case nt_start_listen s of (r, s) \<Rightarrow> Some (r, TS_Network s, n, w))
      | TS_Loopback s \<Rightarrow> map_option (\<lambda>(r, s, n, w). (r, TS_Loopback s, n, w)) (lo_start_listen lib w n s)
      | TS_Unspecified net lo \<Rightarrow>
          (case nt_start_listen net of
             (Inl e, net) \<Rightarrow> Some (Err e, TS_Unspecified net lo, n, w)
           | (Inr _, net) \<Rightarrow> map_option (\<lambda>(r, lo, n, w). (r, TS_Unspecified net lo, n, w)) (lo_start_listen lib w n lo)))"

definition ts_finish_listen ::
    "'os tcp_os \<Rightarrow> ('os, 'ch, 'f, 'p) TcpSocket \<Rightarrow> (ErrorCode, unit) result \<times> ('os, 'ch, 'f, 'p) TcpSocket" where
  "ts_finish_listen os self =
     (case self of
        TS_Network s \<Rightarrow> (case nt_finish_listen os s of (r, s) \<Rightarrow> (r, TS_Network s))
      | TS_Loopback s \<Rightarrow> (case lo_finish_listen s of (r, s) \<Rightarrow> (r, TS_Loopback s))
      | TS_Unspecified net lo \<Rightarrow>
          (case nt_finish_listen os net of
             (Inl e, net) \<Rightarrow> (Err e, TS_Unspecified net lo)
           | (Inr _, net) \<Rightarrow> (case lo_finish_listen lo of (r, lo) \<Rightarrow> (r, TS_Unspecified net lo))))"

definition ts_accept ::
    "'os tcp_os \<Rightarrow> ('ch, 'w) mpsc_lib \<Rightarrow> 'w \<Rightarrow> ('os, 'ch, 'f, 'p) TcpSocket \<Rightarrow>
     (ErrorCode, ('os, 'ch, 'f, 'p) TcpSocket option) result \<times> ('os, 'ch, 'f, 'p) TcpSocket \<times> 'w" where
  "ts_accept os lib w self =
     (case self of
        TS_Network s \<Rightarrow> (case nt_accept os s of (r, s) \<Rightarrow> (map_sum id (map_option TS_Network) r, TS_Network s, w))
      | TS_Loopback s \<Rightarrow> (case lo_accept lib w s of (r, s, w) \<Rightarrow> (map_sum id (map_option TS_Loopback) r, TS_Loopback s, w))
      | TS_Unspecified net lo \<Rightarrow>
          (case nt_accept os net of
             (Inl e, net) \<Rightarrow> (Err e, TS_Unspecified net lo, w)
           | (Inr (Some sock), net) \<Rightarrow> (Ok (Some (TS_Network sock)), TS_Unspecified net lo, w)
           | (Inr None, net) \<Rightarrow>
               (case lo_accept lib w lo of (r, lo, w) \<Rightarrow>
                  (map_sum id (map_option TS_Loopback) r, TS_Unspecified net lo, w))))"

definition ts_is_listening :: "('os, 'ch, 'f, 'p) TcpSocket \<Rightarrow> bool" where
  "ts_is_listening self =
     (case self of
        TS_Network s \<Rightarrow> nt_is_listening s
      | TS_Loopback s \<Rightarrow> lo_is_listening s
      | TS_Unspecified net lo \<Rightarrow> nt_is_listening net \<and> lo_is_listening lo)"

definition ts_set_listen_backlog_size ::
    "'os tcp_os \<Rightarrow> u64 \<Rightarrow> ('os, 'ch, 'f, 'p) TcpSocket \<Rightarrow> (ErrorCode, unit) result \<times> ('os, 'ch, 'f, 'p) TcpSocket" where
  "ts_set_listen_backlog_size os value self =
     (case self of
        TS_Network s \<Rightarrow> (case nt_set_listen_backlog_size os value s of (r, s) \<Rightarrow> (r, TS_Network s))
      | TS_Loopback s \<Rightarrow> (case lo_set_listen_backlog_size value s of (r, s) \<Rightarrow> (r, TS_Loopback s))
      | TS_Unspecified net lo \<Rightarrow>
          (case nt_set_listen_backlog_size os value net of
             (Inl e, net) \<Rightarrow> (Err e, TS_Unspecified net lo)
           | (Inr _, net) \<Rightarrow> (case lo_set_listen_backlog_size value lo of (r, lo) \<Rightarrow> (r, TS_Unspecified net lo))))"

definition needs_implicit_bind :: "('os, 'ch, 'f, 'p) TcpSocket \<Rightarrow> bool" where
  "needs_implicit_bind self = (case self of TS_Network net \<Rightarrow> nt_is_unbound net | _ \<Rightarrow> False)"

definition ts_drop :: "('os, 'ch, 'f, 'p) TcpSocket \<Rightarrow> 'ch Network \<Rightarrow> (drop_error, 'ch Network) result" where
  "ts_drop self n =
     (case self of
        TS_Network _ \<Rightarrow> Ok n
      | TS_Loopback s \<Rightarrow> lo_drop s n
      | TS_Unspecified _ lo \<Rightarrow> lo_drop lo n)"

section \<open>Who owns a virtual port\<close>

fun ts_lo :: "('os, 'ch, 'f, 'p) TcpSocket \<Rightarrow> ('os, 'ch, 'f, 'p) lo_state option" where
  "ts_lo (TS_Network _) = None"
| "ts_lo (TS_Loopback lo) = Some (lo_st lo)"
| "ts_lo (TS_Unspecified _ lo) = Some (lo_st lo)"

definition owned_slot :: "('os, 'ch, 'f, 'p) lo_state option \<Rightarrow> (SocketAddressFamily \<times> u16) option" where
  "owned_slot st = map_option sa_slot (Option.bind st lo_owned)"

fun st_listens :: "('os, 'ch, 'f, 'p) lo_state \<Rightarrow> bool" where
  "st_listens (L_ListenStarted _ _) = True"
| "st_listens (L_Listening _ _ _) = True"
| "st_listens _ = False"

text \<open>The port of a socket is registered, as a listener exactly when the socket listens.\<close>

definition registered :: "('os, 'ch, 'f, 'p) lo_state option \<Rightarrow> 'ch Network \<Rightarrow> bool" where
  "registered st n \<longleftrightarrow>
     (\<forall>x addr. st = Some x \<longrightarrow> lo_owned x = Some addr \<longrightarrow>
        sa_port addr \<noteq> 0 \<and> (\<exists>ep. tcp_at n (sa_slot addr) = Some ep \<and> (ep = EpBound \<longleftrightarrow> \<not> st_listens x)))"

text \<open>What an operation on one socket may do to the network: its own port stays its own or is
  a port that was vacant, and the registered ports of others are untouched.\<close>

definition op_ok ::
    "('os, 'ch, 'f, 'p) lo_state option \<Rightarrow> 'ch Network \<Rightarrow> ('os, 'ch, 'f, 'p) lo_state option \<Rightarrow> 'ch Network \<Rightarrow> bool" where
  "op_ok st n st' n' \<longleftrightarrow>
     registered st' n' \<and>
     (\<forall>k. owned_slot st' = Some k \<longrightarrow> owned_slot st = Some k \<or> tcp_at n k = None) \<and>
     (\<forall>k. tcp_at n k \<noteq> None \<longrightarrow> owned_slot st \<noteq> Some k \<longrightarrow> tcp_at n' k = tcp_at n k)"

lemma registered_None [simp]: "registered None n"
  by (simp add: registered_def)

lemma op_ok_same: "registered st n \<Longrightarrow> op_ok st n st n"
  by (simp add: op_ok_def)

lemma op_ok_state:
  assumes "registered (Some x) n" "lo_owned y = lo_owned x \<and> st_listens y = st_listens x \<or> lo_owned y = None"
  shows "op_ok (Some x) n (Some y) n"
  using assms(2)
proof
  assume same: "lo_owned y = lo_owned x \<and> st_listens y = st_listens x"
  then have "registered (Some y) n" "owned_slot (Some y) = owned_slot (Some x)"
    using assms(1) by (simp_all add: registered_def owned_slot_def)
  then show ?thesis by (simp add: op_ok_def)
next
  assume "lo_owned y = None"
  then show ?thesis by (simp add: op_ok_def registered_def owned_slot_def)
qed

lemma op_ok_closed:
  assumes "lo_owned x = Some addr"
  shows "op_ok (Some x) n (Some L_Closed) (remove_port addr n)"
  using assms by (auto simp: op_ok_def registered_def owned_slot_def tcp_at_remove_port)

lemma lo_simple_ops:
  assumes "registered (Some (lo_st s)) n"
  shows "lo_finish_bind s = (r1, s1) \<Longrightarrow> op_ok (Some (lo_st s)) n (Some (lo_st s1)) n"
    "lo_start_connect addr n s = (r2, s2) \<Longrightarrow> op_ok (Some (lo_st s)) n (Some (lo_st s2)) n"
    "lo_set_pending_connect fut s = (r3, s3) \<Longrightarrow> op_ok (Some (lo_st s)) n (Some (lo_st s3)) n"
    "lo_take_pending_connect poll s = (r4, s4) \<Longrightarrow> op_ok (Some (lo_st s)) n (Some (lo_st s4)) n"
    "lo_finish_listen s = (r5, s5) \<Longrightarrow> op_ok (Some (lo_st s)) n (Some (lo_st s5)) n"
    "lo_accept lib w s = (r6, s6, w') \<Longrightarrow> op_ok (Some (lo_st s)) n (Some (lo_st s6)) n"
    "lo_set_listen_backlog_size v s = (r7, s7) \<Longrightarrow> op_ok (Some (lo_st s)) n (Some (lo_st s7)) n"
    "op_ok (Some (lo_st s)) n (Some (lo_st (lo_ready aw rv s))) n"
proof -
  have keep: "op_ok (Some (lo_st s)) n (Some y) n"
    if "lo_owned y = lo_owned (lo_st s) \<and> st_listens y = st_listens (lo_st s)" for y
    using op_ok_state [OF assms] that by blast
  show "lo_finish_bind s = (r1, s1) \<Longrightarrow> op_ok (Some (lo_st s)) n (Some (lo_st s1)) n"
    by (rule keep) (auto simp: lo_finish_bind_def split: lo_state.splits)
  show "lo_start_connect addr n s = (r2, s2) \<Longrightarrow> op_ok (Some (lo_st s)) n (Some (lo_st s2)) n"
    by (rule keep) (auto simp: lo_start_connect_def split: lo_state.splits sum.splits)
  show "lo_set_pending_connect fut s = (r3, s3) \<Longrightarrow> op_ok (Some (lo_st s)) n (Some (lo_st s3)) n"
    by (rule keep) (auto simp: lo_set_pending_connect_def split: lo_state.splits option.splits)
  show "lo_take_pending_connect poll s = (r4, s4) \<Longrightarrow> op_ok (Some (lo_st s)) n (Some (lo_st s4)) n"
    by (rule keep) (auto simp: lo_take_pending_connect_def split: lo_state.splits option.splits sum.splits)
  show "lo_finish_listen s = (r5, s5) \<Longrightarrow> op_ok (Some (lo_st s)) n (Some (lo_st s5)) n"
    by (rule keep) (auto simp: lo_finish_listen_def split: lo_state.splits option.splits)
  show "lo_accept lib w s = (r6, s6, w') \<Longrightarrow> op_ok (Some (lo_st s)) n (Some (lo_st s6)) n"
    by (rule keep) (auto simp: lo_accept_def Let_def split: lo_state.splits sum.splits prod.splits try_recv_error.splits if_splits)
  show "lo_set_listen_backlog_size v s = (r7, s7) \<Longrightarrow> op_ok (Some (lo_st s)) n (Some (lo_st s7)) n"
    by (rule keep) (auto simp: lo_set_listen_backlog_size_def Let_def split: lo_state.splits)
  show "op_ok (Some (lo_st s)) n (Some (lo_st (lo_ready aw rv s))) n"
    by (rule keep) (auto simp: lo_ready_def split: lo_state.splits option.splits)
qed

lemma TcpConn_pair_addresses:
  "TcpConn_pair lib l r w = ((clt, srv), w') \<Longrightarrow>
     tc_local_address clt = l \<and> tc_remote_address clt = r \<and> tc_local_address srv = r \<and> tc_remote_address srv = l"
  by (auto simp: TcpConn_pair_def split: prod.splits)

lemma lo_finish_connect_ok:
  assumes reg: "registered (Some (lo_st s)) n" and f: "lo_finish_connect lib res w n s = (r, s', n', w')"
  shows "op_ok (Some (lo_st s)) n (Some (lo_st s')) n'"
proof (cases "\<exists>l rm. lo_st s = L_Connecting l rm None")
  case False
  then have "s' = s \<and> n' = n" using f by (auto simp: lo_finish_connect_def split: lo_state.splits option.splits)
  with reg show ?thesis by (simp add: op_ok_same)
next
  case True
  then obtain l rm where st: "lo_st s = L_Connecting l rm None" by blast
  then have p: "sa_port l \<noteq> 0" using reg by (simp add: registered_def)
  show ?thesis
  proof (cases res)
    case (Inl err)
    then have "lo_st s' = L_Closed" "n' = remove_port l n"
      using f st p by (auto simp: lo_finish_connect_def Let_def split: option.splits TcpEndpoint.splits)
    then show ?thesis using op_ok_closed [of "lo_st s" l n] st by simp
  next
    case (Inr c)
    show ?thesis
    proof (cases c)
      case (CS_Network x)
      then have "s' = s \<and> n' = n" using f st Inr by (simp add: lo_finish_connect_def)
      with reg show ?thesis by (simp add: op_ok_same)
    next
      case (CS_Loopback tx)
      obtain clt srv w1 where pr: "TcpConn_pair lib l rm w = ((clt, srv), w1)" by (metis prod.collapse)
      have "lo_st s' = L_Connected clt False" "n' = n"
        using f st Inr CS_Loopback pr by (auto simp: lo_finish_connect_def)
      then show ?thesis
        using op_ok_state [OF reg, of "lo_st s'"] TcpConn_pair_addresses [OF pr] st by simp
    qed
  qed
qed

lemma lo_cancel_connect_ok:
  assumes reg: "registered (Some (lo_st s)) n" and f: "lo_cancel_connect n s = (s', n')"
  shows "op_ok (Some (lo_st s)) n (Some (lo_st s')) n'"
proof -
  have c: "lo_st s' = L_Closed" "n' = n \<or> (\<exists>l a b. lo_st s = L_Connecting l a b \<and> n' = remove_port l n)"
    using f by (auto simp: lo_cancel_connect_def Let_def split: lo_state.splits option.splits TcpEndpoint.splits if_splits)
  from c(2) show ?thesis
  proof
    assume "n' = n"
    then show ?thesis using op_ok_state [OF reg, of L_Closed] c(1) by simp
  next
    assume "\<exists>l a b. lo_st s = L_Connecting l a b \<and> n' = remove_port l n"
    then obtain l a b where "lo_st s = L_Connecting l a b" "n' = remove_port l n" by blast
    then show ?thesis using op_ok_closed [of "lo_st s" l n] c(1) by simp
  qed
qed

lemma lo_start_listen_ok:
  assumes reg: "registered (Some (lo_st s)) n" and f: "lo_start_listen lib w n s = Some (r, s', n', w')"
  shows "op_ok (Some (lo_st s)) n (Some (lo_st s')) n'"
proof (cases "s' = s \<and> n' = n")
  case True
  with reg show ?thesis by (simp add: op_ok_same)
next
  case False
  then obtain addr ch where st: "lo_st s = L_Bound addr" "lo_st s' = L_ListenStarted addr (Some ch)"
    "n' = put_tcp_net (sa_ip addr) ((get_tcp_net (sa_ip addr) n)(sa_port addr \<mapsto> EpListening ch)) n"
    using f by (auto simp: lo_start_listen_def split: lo_state.splits option.splits TcpEndpoint.splits if_splits)
  have at: "tcp_at n' k = (if k = sa_slot addr then Some (EpListening ch) else tcp_at n k)" for k
    by (cases k) (simp add: st(3) sa_slot_def get_tcp_net_at)
  show ?thesis
    using reg unfolding op_ok_def registered_def owned_slot_def st(1,2) at by auto
qed

text \<open>Claiming a port for a socket that had none, and giving up the virtual half.\<close>

lemma op_ok_claim:
  assumes "bind_tcp addr n = Ok (addr', n')" "lo_owned y = Some addr'" "\<not> st_listens y"
  shows "op_ok None n (Some y) n'"
  using bind_tcp_Ok(1-3) [OF assms(1)] assms(2,3)
  by (auto simp: op_ok_def registered_def owned_slot_def)

lemma op_ok_forget:
  assumes "bind_tcp addr n = Ok (addr', n')"
  shows "op_ok st n None n'"
  using bind_tcp_Ok(1-3) [OF assms] by (auto simp: op_ok_def owned_slot_def)

lemma op_ok_none: "op_ok st n None n"
  by (simp add: op_ok_def owned_slot_def)

lemma lo_new_state: "lo_new os socket st = Ok lo \<Longrightarrow> lo_st lo = st"
  by (auto simp: lo_new_def bind_result_Inr_iff)

lemma bind_virtual_ok:
  assumes "bind_virtual os u addr n socket = (r, s', n')"
  shows "op_ok None n (ts_lo s') n'"
proof (cases "bind_tcp addr n")
  case (Inl e)
  then show ?thesis using assms by (auto simp: bind_virtual_def op_ok_none)
next
  case (Inr p)
  obtain a1 n1 where p: "bind_tcp addr n = Ok (a1, n1)" using Inr by (cases p) auto
  show ?thesis
  proof (cases "lo_new os socket (L_BindStarted a1) :: (ErrorCode, ('a, 'b, 'c, 'd) lo_socket) result")
    case (Inl e)
    then show ?thesis using assms p op_ok_forget [OF p] by (auto simp: bind_virtual_def)
  next
    case (Inr lo)
    have "n' = n1" "ts_lo s' = Some (lo_st lo)"
      using assms p Inr by (auto simp: bind_virtual_def)
    then show ?thesis using op_ok_claim [OF p, of "lo_st lo"] lo_new_state [OF Inr] by simp
  qed
qed

lemma ts_start_bind_ok:
  assumes "registered (ts_lo s) n" "ts_start_bind os addr n s = (r, s', n')"
  shows "op_ok (ts_lo s) n (ts_lo s') n'"
proof (cases s)
  case (TS_Network socket)
  then show ?thesis using assms(2)
    by (auto simp: ts_start_bind_def Let_def op_ok_none
        split: if_splits prod.splits sum.splits net_state.splits intro: bind_virtual_ok)
next
  case (TS_Loopback lo)
  then show ?thesis using assms by (auto simp: ts_start_bind_def op_ok_same)
next
  case (TS_Unspecified net lo)
  then show ?thesis using assms by (auto simp: ts_start_bind_def op_ok_same)
qed

lemma connect_unbound_unbound:
  assumes "\<nexists>sk. nt_state socket = N_Bound sk" "bind_tcp (sa_set_port 0 addr) n = Ok (a1, n1)"
  shows "connect_unbound os addr n socket =
    (case connect_tcp addr n1 of
       Inl e \<Rightarrow> (Err e, TS_Network socket, n1)
     | Inr tx \<Rightarrow>
         (case lo_new os socket (L_Connecting a1 addr None) of
            Inl e \<Rightarrow> (Err e, TS_Network socket, n1)
          | Inr lo \<Rightarrow> (Ok (CT_Loopback tx), TS_Loopback lo, n1)))"
  using assms by (cases "nt_state socket") (simp_all add: connect_unbound_def)

lemma connect_unbound_ok:
  assumes f: "connect_unbound os addr n socket = (r, s', n')"
  shows "op_ok None n (ts_lo s') n'"
proof (cases "\<exists>sk. nt_state socket = N_Bound sk")
  case True
  then show ?thesis using f by (auto simp: connect_unbound_def op_ok_none)
next
  case nb: False
  show ?thesis
  proof (cases "bind_tcp (sa_set_port 0 addr) n")
    case (Inl e)
    then have "s' = TS_Network socket \<and> n' = n"
      using f nb by (cases "nt_state socket") (simp_all add: connect_unbound_def)
    then show ?thesis by (simp add: op_ok_none)
  next
    case (Inr p)
    obtain a1 n1 where p: "bind_tcp (sa_set_port 0 addr) n = Ok (a1, n1)" using Inr by (cases p) auto
    note u = f [unfolded connect_unbound_unbound [OF nb p]]
    show ?thesis
    proof (cases "ts_lo s'")
      case None
      moreover have "n' = n1" using u by (simp split: sum.splits)
      ultimately show ?thesis using op_ok_forget [OF p, of None] by simp
    next
      case (Some y)
      then have "n' = n1" "y = L_Connecting a1 addr None"
        using u lo_new_state by (auto split: sum.splits)
      then show ?thesis using op_ok_claim [OF p, of y] Some by simp
    qed
  qed
qed

lemma ts_start_connect_ok:
  assumes reg: "registered (ts_lo s) n" and f: "ts_start_connect os addr plane n s = Some (r, s', n')"
  shows "op_ok (ts_lo s) n (ts_lo s') n'"
proof (cases "ts_connectable addr s")
  case (Inl e)
  then show ?thesis using f reg by (auto simp: ts_start_connect_def op_ok_same)
next
  case (Inr u)
  show ?thesis
  proof (cases s)
    case (TS_Network socket)
    then show ?thesis using f Inr
      by (auto simp: ts_start_connect_def op_ok_none split: if_splits intro: connect_unbound_ok)
  next
    case (TS_Loopback lo)
    then obtain q lo' where q: "lo_start_connect addr n lo = (q, lo')" by (metis surj_pair)
    have "s' = TS_Loopback lo' \<and> n' = n"
      using f Inr TS_Loopback q by (auto simp: ts_start_connect_def split: sum.splits)
    then show ?thesis using lo_simple_ops(2) [OF _ q] reg TS_Loopback by simp
  next
    case (TS_Unspecified net lo)
    obtain q lo' where q: "lo_start_connect addr n lo = (q, lo')" by (metis surj_pair)
    have "n' = n \<and> (ts_lo s' = None \<or> ts_lo s' = Some (lo_st lo'))"
      using f Inr TS_Unspecified q by (auto simp: ts_start_connect_def split: sum.splits if_splits)
    then show ?thesis using lo_simple_ops(2) [OF _ q] reg TS_Unspecified op_ok_none by auto
  qed
qed

section \<open>Sockets sharing one network\<close>

text \<open>Every operation a guest can make on one socket.\<close>

inductive ts_op ::
    "'os tcp_os \<Rightarrow> ('ch, 'w) mpsc_lib \<Rightarrow> ('os, 'ch, 'f, 'p) TcpSocket \<Rightarrow> 'ch Network \<Rightarrow>
     ('os, 'ch, 'f, 'p) TcpSocket \<Rightarrow> 'ch Network \<Rightarrow> bool"
  for os lib where
  start_bind: "ts_start_bind os addr n s = (r, s', n') \<Longrightarrow> ts_op os lib s n s' n'"
| finish_bind: "ts_finish_bind s = (r, s') \<Longrightarrow> ts_op os lib s n s' n"
| start_connect: "ts_start_connect os addr plane n s = Some (r, s', n') \<Longrightarrow> ts_op os lib s n (hold_quota_slot permit s') n'"
| set_pending: "ts_set_pending_connect fut s = (r, s') \<Longrightarrow> ts_op os lib s n s' n"
| take_pending: "ts_take_pending_connect poll s = (r, s') \<Longrightarrow> ts_op os lib s n s' n"
| finish_connect: "ts_finish_connect lib res w n s = (r, s', n', w') \<Longrightarrow> ts_op os lib s n s' n'"
| cancel_connect: "ts_cancel_connect n s = (s', n') \<Longrightarrow> ts_op os lib s n s' n'"
| start_listen: "ts_start_listen lib w n s = Some (r, s', n', w') \<Longrightarrow> ts_op os lib s n s' n'"
| finish_listen: "ts_finish_listen os s = (r, s') \<Longrightarrow> ts_op os lib s n s' n"
| accepting: "ts_accept os lib w s = (r, s', w') \<Longrightarrow> ts_op os lib s n s' n"
| set_backlog: "ts_set_listen_backlog_size os v s = (r, s') \<Longrightarrow> ts_op os lib s n s' n"

lemma ts_lo_hold [simp]: "ts_lo (hold_quota_slot permit s) = ts_lo s"
  by (cases s; cases permit) (simp_all add: hold_quota_slot_def)

lemma ts_simple_ops:
  assumes "registered (ts_lo s) n"
  shows "ts_finish_bind s = (r1, s1) \<Longrightarrow> op_ok (ts_lo s) n (ts_lo s1) n"
    "ts_set_pending_connect fut s = (r2, s2) \<Longrightarrow> op_ok (ts_lo s) n (ts_lo s2) n"
    "ts_take_pending_connect poll s = (r3, s3) \<Longrightarrow> op_ok (ts_lo s) n (ts_lo s3) n"
    "ts_finish_listen os s = (r4, s4) \<Longrightarrow> op_ok (ts_lo s) n (ts_lo s4) n"
    "ts_accept os lib w s = (r5, s5, w') \<Longrightarrow> op_ok (ts_lo s) n (ts_lo s5) n"
    "ts_set_listen_backlog_size os v s = (r6, s6) \<Longrightarrow> op_ok (ts_lo s) n (ts_lo s6) n"
proof -
  show "ts_finish_bind s = (r1, s1) \<Longrightarrow> op_ok (ts_lo s) n (ts_lo s1) n"
    using assms by (cases s) (auto simp: ts_finish_bind_def op_ok_same split: prod.splits sum.splits intro: lo_simple_ops)
  show "ts_set_pending_connect fut s = (r2, s2) \<Longrightarrow> op_ok (ts_lo s) n (ts_lo s2) n"
    using assms by (cases s) (auto simp: ts_set_pending_connect_def op_ok_same split: prod.splits intro: lo_simple_ops)
  show "ts_take_pending_connect poll s = (r3, s3) \<Longrightarrow> op_ok (ts_lo s) n (ts_lo s3) n"
    using assms by (cases s) (auto simp: ts_take_pending_connect_def op_ok_same split: prod.splits intro: lo_simple_ops)
  show "ts_finish_listen os s = (r4, s4) \<Longrightarrow> op_ok (ts_lo s) n (ts_lo s4) n"
    using assms by (cases s) (auto simp: ts_finish_listen_def op_ok_same split: prod.splits sum.splits intro: lo_simple_ops)
  show "ts_accept os lib w s = (r5, s5, w') \<Longrightarrow> op_ok (ts_lo s) n (ts_lo s5) n"
    using assms by (cases s) (auto simp: ts_accept_def op_ok_same split: prod.splits sum.splits option.splits intro: lo_simple_ops)
  show "ts_set_listen_backlog_size os v s = (r6, s6) \<Longrightarrow> op_ok (ts_lo s) n (ts_lo s6) n"
    using assms by (cases s) (auto simp: ts_set_listen_backlog_size_def op_ok_same split: prod.splits sum.splits intro: lo_simple_ops)
qed

lemma ts_network_ops:
  assumes "registered (ts_lo s) n"
  shows "ts_finish_connect lib res w n s = (r1, s1, n1, w1) \<Longrightarrow> op_ok (ts_lo s) n (ts_lo s1) n1"
    "ts_cancel_connect n s = (s2, n2) \<Longrightarrow> op_ok (ts_lo s) n (ts_lo s2) n2"
    "ts_start_listen lib w n s = Some (r3, s3, n3, w3) \<Longrightarrow> op_ok (ts_lo s) n (ts_lo s3) n3"
proof -
  show "ts_finish_connect lib res w n s = (r1, s1, n1, w1) \<Longrightarrow> op_ok (ts_lo s) n (ts_lo s1) n1"
    using assms by (cases s) (auto simp: ts_finish_connect_def op_ok_same split: prod.splits intro: lo_finish_connect_ok)
  show "ts_cancel_connect n s = (s2, n2) \<Longrightarrow> op_ok (ts_lo s) n (ts_lo s2) n2"
    using assms by (cases s) (auto simp: ts_cancel_connect_def op_ok_same split: prod.splits intro: lo_cancel_connect_ok)
  show "ts_start_listen lib w n s = Some (r3, s3, n3, w3) \<Longrightarrow> op_ok (ts_lo s) n (ts_lo s3) n3"
    using assms by (cases s) (auto simp: ts_start_listen_def op_ok_same split: prod.splits sum.splits intro: lo_start_listen_ok)
qed

lemma ts_op_ok:
  assumes "ts_op os lib s n s' n'" and reg: "registered (ts_lo s) n"
  shows "op_ok (ts_lo s) n (ts_lo s') n'"
  using assms(1)
proof (cases rule: ts_op.cases)
  case start_bind
  then show ?thesis by (rule ts_start_bind_ok [OF reg])
next
  case finish_bind
  then show ?thesis using ts_simple_ops(1) [OF reg] by simp
next
  case start_connect
  then show ?thesis using ts_start_connect_ok [OF reg] by simp
next
  case set_pending
  then show ?thesis using ts_simple_ops(2) [OF reg] by simp
next
  case take_pending
  then show ?thesis using ts_simple_ops(3) [OF reg] by simp
next
  case finish_connect
  then show ?thesis by (rule ts_network_ops(1) [OF reg])
next
  case cancel_connect
  then show ?thesis by (rule ts_network_ops(2) [OF reg])
next
  case start_listen
  then show ?thesis by (rule ts_network_ops(3) [OF reg])
next
  case finish_listen
  then show ?thesis using ts_simple_ops(4) [OF reg] by simp
next
  case accepting
  then show ?thesis using ts_simple_ops(5) [OF reg] by simp
next
  case set_backlog
  then show ?thesis using ts_simple_ops(6) [OF reg] by simp
qed

record ('os, 'ch, 'f, 'p) net_world =
  nw_net :: "'ch Network"
  nw_socks :: "('os, 'ch, 'f, 'p) TcpSocket list"

inductive net_step ::
    "'os tcp_os \<Rightarrow> ('ch, 'w) mpsc_lib \<Rightarrow> ('os, 'ch, 'f, 'p) net_world \<Rightarrow> ('os, 'ch, 'f, 'p) net_world \<Rightarrow> bool"
  for os lib where
  created: "net_step os lib w (w\<lparr>nw_socks := TS_Network (nt_from_state st family) # nw_socks w\<rparr>)"
| operated: "i < length (nw_socks w) \<Longrightarrow> ts_op os lib (nw_socks w ! i) (nw_net w) s' n' \<Longrightarrow>
    net_step os lib w \<lparr>nw_net = n', nw_socks = (nw_socks w)[i := s']\<rparr>"
| accepted: "i < length (nw_socks w) \<Longrightarrow> ts_accept os lib c (nw_socks w ! i) = (Ok (Some child), s', c') \<Longrightarrow>
    net_step os lib w (w\<lparr>nw_socks := child # (nw_socks w)[i := s']\<rparr>)"
| dropped: "i < length (nw_socks w) \<Longrightarrow> ts_drop (nw_socks w ! i) (nw_net w) = Ok n' \<Longrightarrow>
    net_step os lib w \<lparr>nw_net = n', nw_socks = remove_nth i (nw_socks w)\<rparr>"

text \<open>The ports the sockets own, in the order of the sockets.\<close>

definition owned_slots :: "('os, 'ch, 'f, 'p) TcpSocket list \<Rightarrow> (SocketAddressFamily \<times> u16) list" where
  "owned_slots = List.map_filter (\<lambda>s. owned_slot (ts_lo s))"

definition net_inv :: "('os, 'ch, 'f, 'p) net_world \<Rightarrow> bool" where
  "net_inv w \<longleftrightarrow> distinct (owned_slots (nw_socks w)) \<and> (\<forall>s \<in> set (nw_socks w). registered (ts_lo s) (nw_net w))"

lemma owned_slots_simps [simp]:
  "owned_slots [] = []"
  "owned_slots (s # ss) = (if owned_slot (ts_lo s) = None then [] else [the (owned_slot (ts_lo s))]) @ owned_slots ss"
  "owned_slots (xs @ ys) = owned_slots xs @ owned_slots ys"
  by (simp_all add: owned_slots_def List.map_filter_def split: option.split)

lemma set_owned_slots: "k \<in> set (owned_slots ss) \<longleftrightarrow> (\<exists>s \<in> set ss. owned_slot (ts_lo s) = Some k)"
  by (induction ss) (auto simp del: split_paired_Ex split: option.splits)

lemma registered_slot:
  "registered st n \<Longrightarrow> owned_slot st = Some k \<Longrightarrow> tcp_at n k \<noteq> None"
  by (auto simp: registered_def owned_slot_def bind_eq_Some_conv)

lemma registered_frame:
  assumes "registered st n" "\<And>k. owned_slot st = Some k \<Longrightarrow> tcp_at n' k = tcp_at n k"
  shows "registered st n'"
  using assms by (auto simp: registered_def owned_slot_def)

lemma net_inv_replace:
  assumes inv: "net_inv \<lparr>nw_net = n, nw_socks = us @ s # vs\<rparr>" and ok: "op_ok (ts_lo s) n (ts_lo s') n'"
  shows "net_inv \<lparr>nw_net = n', nw_socks = us @ s' # vs\<rparr>"
proof -
  have dist: "distinct (owned_slots (us @ s # vs))" and reg: "\<And>t. t \<in> set (us @ s # vs) \<Longrightarrow> registered (ts_lo t) n"
    using inv by (auto simp: net_inv_def)
  have others: "k \<in> set (owned_slots us) \<union> set (owned_slots vs) \<Longrightarrow> tcp_at n k \<noteq> None \<and> owned_slot (ts_lo s) \<noteq> Some k" for k
  proof
    assume k: "k \<in> set (owned_slots us) \<union> set (owned_slots vs)"
    then obtain t where "t \<in> set (us @ s # vs)" "owned_slot (ts_lo t) = Some k"
      by (auto simp only: set_owned_slots Un_iff set_append list.set insert_iff)
    then show "tcp_at n k \<noteq> None" using registered_slot reg by blast
    show "owned_slot (ts_lo s) \<noteq> Some k" using dist k by auto
  qed
  have fresh: "k \<notin> set (owned_slots us) \<union> set (owned_slots vs)" if "owned_slot (ts_lo s') = Some k" for k
    using that ok others unfolding op_ok_def by blast
  have "distinct (owned_slots (us @ s' # vs))"
    using dist fresh by (cases "owned_slot (ts_lo s')") auto
  moreover have "registered (ts_lo t) n'" if "t \<in> set us \<union> set vs" for t
  proof (rule registered_frame)
    show "registered (ts_lo t) n" using reg that by auto
    fix k assume "owned_slot (ts_lo t) = Some k"
    then have "k \<in> set (owned_slots us) \<union> set (owned_slots vs)" using that set_owned_slots by blast
    then show "tcp_at n' k = tcp_at n k" using others ok unfolding op_ok_def by blast
  qed
  moreover have "registered (ts_lo s') n'" using ok by (simp add: op_ok_def)
  ultimately show ?thesis by (auto simp: net_inv_def)
qed

lemma net_inv_none:
  "net_inv \<lparr>nw_net = n, nw_socks = ss\<rparr> \<Longrightarrow> ts_lo s = None \<or> (\<exists>x. ts_lo s = Some x \<and> lo_owned x = None) \<Longrightarrow>
     net_inv \<lparr>nw_net = n, nw_socks = s # ss\<rparr>"
  by (auto simp: net_inv_def owned_slot_def registered_def)

lemma map_sum_Ok_Some: "map_sum id (map_option f) r = Ok (Some c) \<Longrightarrow> \<exists>x. r = Ok (Some x) \<and> c = f x"
  by (cases r) auto

lemma lo_accepted_child: "lo_accept lib c s = (Ok (Some child), s', c') \<Longrightarrow> lo_owned (lo_st child) = None"
  by (auto simp: lo_accept_def Let_def split: prod.splits sum.splits lo_state.splits if_splits try_recv_error.splits)

lemma accepted_child:
  assumes f: "ts_accept os lib c s = (Ok (Some child), s', c')"
  shows "ts_lo child = None \<or> (\<exists>x. ts_lo child = Some x \<and> lo_owned x = None)"
proof (cases s)
  case (TS_Network net)
  then obtain x where "child = TS_Network x"
    using f map_sum_Ok_Some by (auto simp: ts_accept_def split: prod.splits dest!: map_sum_Ok_Some)
  then show ?thesis by simp
next
  case (TS_Loopback lo)
  then obtain x where "child = TS_Loopback x" "lo_owned (lo_st x) = None"
    using f by (auto simp: ts_accept_def split: prod.splits dest!: map_sum_Ok_Some lo_accepted_child)
  then show ?thesis by simp
next
  case (TS_Unspecified net lo)
  then consider x where "child = TS_Network x" | x where "child = TS_Loopback x" "lo_owned (lo_st x) = None"
    using f by (auto simp: ts_accept_def split: prod.splits sum.splits option.splits dest!: map_sum_Ok_Some lo_accepted_child)
  then show ?thesis by cases auto
qed

lemma ts_drop_ok:
  assumes reg: "registered (ts_lo s) n" and d: "ts_drop s n = Ok n'"
  shows "op_ok (ts_lo s) n None n'"
  using assms
  by (cases s) (auto simp: ts_drop_def lo_drop_def op_ok_def owned_slot_def tcp_at_remove_port split: option.splits if_splits)

lemma net_inv_step:
  assumes inv: "net_inv w" and step: "net_step os lib w w'"
  shows "net_inv w'"
proof -
  have w: "w = \<lparr>nw_net = nw_net w, nw_socks = nw_socks w\<rparr>" by simp
  have split: "nw_socks w = take i (nw_socks w) @ nw_socks w ! i # drop (Suc i) (nw_socks w)"
    if "i < length (nw_socks w)" for i using that by (rule id_take_nth_drop)
  have reg: "registered (ts_lo (nw_socks w ! i)) (nw_net w)" if "i < length (nw_socks w)" for i
    using inv that by (simp add: net_inv_def)
  have replace: "net_inv \<lparr>nw_net = n', nw_socks = (nw_socks w)[i := s']\<rparr>"
    if "i < length (nw_socks w)" "op_ok (ts_lo (nw_socks w ! i)) (nw_net w) (ts_lo s') n'" for i s' n'
    using net_inv_replace [OF _ that(2)] inv that(1) split w by (metis upd_conv_take_nth_drop)
  from step show ?thesis
  proof (cases rule: net_step.cases)
    case (created st family)
    then show ?thesis using inv by (auto simp: net_inv_def owned_slot_def)
  next
    case (operated i s' n')
    then show ?thesis using replace [OF operated(2) ts_op_ok [OF operated(3) reg [OF operated(2)]]] by simp
  next
    case (accepted i c child s' c')
    have "op_ok (ts_lo (nw_socks w ! i)) (nw_net w) (ts_lo s') (nw_net w)"
      by (rule ts_simple_ops(5) [OF reg [OF accepted(2)] accepted(3)])
    then have "net_inv \<lparr>nw_net = nw_net w, nw_socks = (nw_socks w)[i := s']\<rparr>" by (rule replace [OF accepted(2)])
    from net_inv_none [OF this accepted_child [OF accepted(3)]] show ?thesis
      using accepted(1) by (simp add: net_inv_def)
  next
    case (dropped i n')
    let ?closed = "TS_Network (nt_from_state N_Closed FamIpv4)"
    have "net_inv \<lparr>nw_net = n', nw_socks = (nw_socks w)[i := ?closed]\<rparr>"
      using replace [OF dropped(2), of ?closed n'] ts_drop_ok [OF reg [OF dropped(2)] dropped(3)] by simp
    moreover have "set (remove_nth i (nw_socks w)) \<subseteq> set ((nw_socks w)[i := ?closed])"
      "owned_slots (remove_nth i (nw_socks w)) = owned_slots ((nw_socks w)[i := ?closed])"
      using dropped(2) by (auto simp: upd_conv_take_nth_drop owned_slot_def)
    ultimately show ?thesis using dropped by (auto simp: net_inv_def)
  qed
qed

interpretation virtual_net: transition_system "net_step os lib" net_inv for os lib
  by unfold_locales (rule net_inv_step)

section \<open>Properties\<close>

text \<open>
  C17. Over every interleaving of the operations of any number of sockets on one virtual
  network, no two live sockets own the same port, and the port of every live socket is
  registered, as a listener exactly when the socket has started to listen. So a bind never
  takes a port away from a live socket.
\<close>

theorem virtual_ports_are_exclusive:
  assumes "(net_step os lib)\<^sup>*\<^sup>* \<lparr>nw_net = Network_default, nw_socks = []\<rparr> w"
  shows "distinct (owned_slots (nw_socks w)) \<and> (\<forall>s \<in> set (nw_socks w). registered (ts_lo s) (nw_net w))"
proof -
  have "net_inv \<lparr>nw_net = Network_default :: 'b Network, nw_socks = []\<rparr>" by (simp add: net_inv_def)
  from virtual_net.inv_reachable [OF assms this] show ?thesis by (simp add: net_inv_def)
qed

lemma network_connectable:
  "nt_state socket = N_Default sk \<Longrightarrow> valid_peer addr (nt_family socket) = Ok () \<Longrightarrow>
     ts_connectable addr (TS_Network socket) = Ok ()"
  by (simp add: ts_connectable_def nt_connectable_def)

text \<open>
  A connect to the virtual network that is refused because nobody listens leaks a port: an
  unbound socket first claims an ephemeral port, and the refusal returns without giving it
  back. The socket is unchanged and owns nothing, while the network has lost the port.
\<close>

theorem refused_virtual_connect_leaks_a_port:
  assumes "nt_state socket = N_Default sk" "valid_peer addr (nt_family socket) = Ok ()"
    and "tcp_at n (sa_slot addr) = None" and "bind_tcp (sa_set_port 0 addr) n = Ok (local_address, n1)"
    and "sa_slot local_address \<noteq> sa_slot addr"
  shows "\<exists>n'. ts_start_connect os addr PlaneVirtual n (TS_Network socket) = Some (Err ConnectionRefused, TS_Network socket, n') \<and>
    tcp_at n (sa_slot local_address) = None \<and> tcp_at n' = (tcp_at n)(sa_slot local_address \<mapsto> EpBound)"
proof -
  note b = bind_tcp_Ok(1,3) [OF assms(4)]
  have nz: "sa_port addr \<noteq> 0"
    using assms(2) by (auto simp: valid_peer_def is_valid_remote_address_def split: if_splits)
  have "tcp_at n1 (sa_slot addr) = None" using b(2) assms(3,5) by simp
  then have "get_tcp_net (sa_ip addr) n1 (sa_port addr) = None" by (simp add: get_tcp_net_at sa_slot_def)
  then have "connect_tcp addr n1 = Err ConnectionRefused" using nz by (simp add: connect_tcp_def)
  then show ?thesis
    using assms(1) b
    by (simp add: ts_start_connect_def network_connectable [OF assms(1,2)] connect_unbound_unbound [OF _ assms(4)])
qed

text \<open>
  A backlog of zero is accepted by a virtual socket, although a real one refuses it, and
  listening then panics, because a channel without capacity cannot be created. With any
  other backlog listening on a bound socket whose port is registered succeeds.
\<close>

lemma zero_backlog:
  assumes cap: "\<And>k w. mpsc_channel lib k w = None \<longleftrightarrow> k = 0"
    and st: "lo_st s = L_Bound addr" and reg: "registered (Some (lo_st s)) n"
  shows "\<exists>s'. ts_set_listen_backlog_size os v (TS_Loopback s) = (Ok (), s') \<and>
    (ts_start_listen lib w n s' = None \<longleftrightarrow> v = 0) \<and>
    (v \<noteq> 0 \<longrightarrow> (\<exists>s'' n' w'. ts_start_listen lib w n s' = Some (Ok (), s'', n', w')))"
proof -
  define b where "b = (if unat v < 2 ^ 32 then ucast v else - 1 :: u32)"
  let ?s = "s\<lparr>lo_listen_backlog_size := b\<rparr>"
  have set: "ts_set_listen_backlog_size os v (TS_Loopback s) = (Ok (), TS_Loopback ?s)"
    by (simp add: ts_set_listen_backlog_size_def lo_set_listen_backlog_size_def st b_def Let_def)
  have "b = 0 \<longleftrightarrow> v = 0"
  proof (cases "unat v < 2 ^ 32")
    case True
    then have "unat (ucast v :: u32) = unat v" by (simp add: unsigned_ucast_eq take_bit_nat_eq_self)
    with True show ?thesis by (simp add: b_def word_unat_eq_iff)
  qed (auto simp: b_def)
  then have zero: "unat (min b MAX_LISTEN_BACKLOG_SIZE) = 0 \<longleftrightarrow> v = 0"
    by (auto simp: min_def MAX_LISTEN_BACKLOG_SIZE_def unat_eq_zero)
  have p: "sa_port addr \<noteq> 0" "get_tcp_net (sa_ip addr) n (sa_port addr) = Some EpBound"
    using reg st by (auto simp: registered_def get_tcp_net_at sa_slot_def)
  have "lo_start_listen lib w n ?s =
      map_option (\<lambda>(chan, w). (Ok (), ?s\<lparr>lo_st := L_ListenStarted addr (Some chan)\<rparr>,
        put_tcp_net (sa_ip addr) ((get_tcp_net (sa_ip addr) n)(sa_port addr \<mapsto> EpListening chan)) n, w))
        (mpsc_channel lib (unat (min b MAX_LISTEN_BACKLOG_SIZE)) w)"
    using st p by (simp add: lo_start_listen_def)
  with set zero cap [of 0 w] cap [of "unat (min b MAX_LISTEN_BACKLOG_SIZE)" w] show ?thesis
    by (cases "mpsc_channel lib (unat (min b MAX_LISTEN_BACKLOG_SIZE)) w") (auto simp: ts_start_listen_def)
qed

subsection \<open>Witnesses\<close>

text \<open>A machine whose sockets are numbers and channels that count.\<close>

definition demo_os :: "nat tcp_os" where
  "demo_os =
     \<lparr>os_new = (\<lambda>_. Ok 0), os_reuse = id, os_bind = (\<lambda>_. Ok), os_local_addr = (\<lambda>_. Ok (SocketAddrV4 v4_localhost 4000)),
      os_peer_addr = (\<lambda>_. Ok (SocketAddrV4 v4_localhost 4001)), os_listen = (\<lambda>_. Ok), os_relisten = (\<lambda>_ _. Ok ()),
      os_poll_accept = (\<lambda>_. None),
      os_options = (\<lambda>_. Ok \<lparr>opt_keep_alive_enabled = False, opt_keep_alive_idle_time = 1, opt_keep_alive_interval = 1,
        opt_keep_alive_count = 1, opt_hop_limit = 64, opt_receive_buffer_size = 4096, opt_send_buffer_size = 4096\<rparr>)\<rparr>"

definition demo_mpsc :: "(nat, nat) mpsc_lib" where
  "demo_mpsc =
     \<lparr>mpsc_channel = (\<lambda>k w. if k = 0 then None else Some (w, w + 1)), mpsc_unbounded = (\<lambda>w. (w, w + 1)),
      mpsc_send = (\<lambda>_ _ w. w), mpsc_try_recv = (\<lambda>_ w. (Err TryRecvEmpty, w))\<rparr>"

definition demo_tcp :: "(nat, nat, nat) NetworkTcpSocket" where
  "demo_tcp = nt_from_state (N_Default 0) FamIpv4"

lemma demo_bind: "bind_tcp (SocketAddrV4 v4_localhost 80) (Network_default :: nat Network) =
  Ok (SocketAddrV4 v4_localhost 80, Network_default\<lparr>tcp_ipv4 := [80 \<mapsto> EpBound]\<rparr>)"
  by (simp add: bind_tcp_def net_bind_def Network_default_def)

lemma localhost_valid: "is_loopback (V4 v4_localhost)" "is_valid_unicast_address (V4 v4_localhost)"
  by code_simp+

lemma demo_bound:
  "\<exists>lo n. ts_start_bind demo_os (SocketAddrV4 v4_localhost 80) Network_default (TS_Network demo_tcp :: (nat, nat, nat, nat) TcpSocket)
     = (Ok (), TS_Loopback lo, n) \<and> lo_st lo = L_BindStarted (SocketAddrV4 v4_localhost 80)"
  by (simp add: ts_start_bind_def bind_virtual_def demo_bind demo_tcp_def nt_from_state_def lo_new_def
      nt_as_std_view_def demo_os_def localhost_valid del: is_loopback.simps)

theorem virtual_ports_are_exclusive_witness:
  "\<exists>w :: (nat, nat, nat, nat) net_world. (net_step demo_os demo_mpsc)\<^sup>*\<^sup>* \<lparr>nw_net = Network_default, nw_socks = []\<rparr> w \<and>
     owned_slots (nw_socks w) = [(FamIpv4, 80)] \<and> distinct (owned_slots (nw_socks w))"
proof -
  let ?w0 = "\<lparr>nw_net = Network_default, nw_socks = []\<rparr> :: (nat, nat, nat, nat) net_world"
  let ?w1 = "\<lparr>nw_net = Network_default, nw_socks = [TS_Network demo_tcp]\<rparr> :: (nat, nat, nat, nat) net_world"
  obtain lo n where b: "ts_start_bind demo_os (SocketAddrV4 v4_localhost 80) Network_default (TS_Network demo_tcp :: (nat, nat, nat, nat) TcpSocket)
      = (Ok (), TS_Loopback lo, n)" "lo_st lo = L_BindStarted (SocketAddrV4 v4_localhost 80)"
    using demo_bound by blast
  let ?w2 = "\<lparr>nw_net = n, nw_socks = [TS_Loopback lo]\<rparr> :: (nat, nat, nat, nat) net_world"
  have s1: "net_step demo_os demo_mpsc ?w0 ?w1"
    using net_step.created [of demo_os demo_mpsc ?w0 "N_Default 0" FamIpv4] by (simp add: demo_tcp_def)
  have "ts_op demo_os demo_mpsc (nw_socks ?w1 ! 0) (nw_net ?w1) (TS_Loopback lo) n"
    using ts_op.start_bind [OF b(1)] by simp
  from net_step.operated [OF _ this] have s2: "net_step demo_os demo_mpsc ?w1 ?w2" by simp
  have r: "(net_step demo_os demo_mpsc)\<^sup>*\<^sup>* ?w0 ?w2"
    by (rule rtranclp.rtrancl_into_rtrancl [OF r_into_rtranclp [of "net_step demo_os demo_mpsc", OF s1] s2])
  have "owned_slots (nw_socks ?w2) = [(FamIpv4, 80)]" using b(2) by (simp add: owned_slot_def sa_slot_def)
  with r virtual_ports_are_exclusive [OF r] show ?thesis by blast
qed

theorem refused_virtual_connect_leaks_a_port_witness:
  "\<exists>n'. ts_start_connect demo_os (SocketAddrV4 v4_localhost 80) PlaneVirtual Network_default (TS_Network demo_tcp :: (nat, nat, nat, nat) TcpSocket)
     = Some (Err ConnectionRefused, TS_Network demo_tcp, n') \<and> tcp_at n' (FamIpv4, 65535) = Some EpBound"
proof -
  have "highest_free (Map.empty :: u16 \<rightharpoonup> nat TcpEndpoint) 65535 = Some 65535"
    using highest_free.simps(2) [of "Map.empty :: u16 \<rightharpoonup> nat TcpEndpoint" 65534] by simp
  then obtain n1 where b: "bind_tcp (sa_set_port 0 (SocketAddrV4 v4_localhost 80)) (Network_default :: nat Network) = Ok (SocketAddrV4 v4_localhost 65535, n1)"
    by (simp add: bind_tcp_def net_bind_def Network_default_def)
  have "\<exists>n'. ts_start_connect demo_os (SocketAddrV4 v4_localhost 80) PlaneVirtual Network_default (TS_Network demo_tcp :: (nat, nat, nat, nat) TcpSocket)
      = Some (Err ConnectionRefused, TS_Network demo_tcp, n') \<and>
      tcp_at Network_default (sa_slot (SocketAddrV4 v4_localhost 65535)) = (None :: nat TcpEndpoint option) \<and>
      tcp_at n' = (tcp_at Network_default)(sa_slot (SocketAddrV4 v4_localhost 65535) \<mapsto> EpBound)"
    by (rule refused_virtual_connect_leaks_a_port [OF _ _ _ b, where sk = 0])
      (simp_all add: demo_tcp_def nt_from_state_def valid_peer_def is_valid_remote_address_def is_valid_unicast_address_def
        v4_localhost_def v4_is_broadcast_def v4_is_unspecified_def v4_unspecified_def sa_slot_def Network_default_def)
  then show ?thesis by (auto simp: sa_slot_def simp del: tcp_at.simps)
qed

end
