(* ===== verification/Socket_Policy.thy ===== *)
theory Socket_Policy
  imports Tcp_Socket Allowed_Names Egress_Policy Internal_Names Loopback_Ports Port_Table Resolved_Names
begin

text \<open>
  Which addresses a guest may use, and on which plane: \<open>sockets/policy.rs\<close>, the decision types
  of \<open>sockets/mod.rs\<close>, and the claim of the HTTP ingress port in \<open>host/mod.rs\<close>.

  A policy is one value per guest. What it shares with the host stands behind an \<open>Arc\<close> in the
  source: the registry of allowances, the meters and the table of ports. Here these are one
  state, passed through every decision, and the policy says with a flag whether it holds the
  reference. The allowance of the guest is its position among those the registry minted. The
  store's lookup history and the clock are arguments.
\<close>

section \<open>Uses and decisions\<close>

datatype SocketAddrUse =
    TcpCreate
  | TcpBind
  | TcpListen
  | TcpAccept
  | TcpAcceptVirtual
  | TcpConnect
  | UdpCreate
  | UdpBind
  | UdpImplicitBind
  | UdpConnect
  | UdpOutgoingDatagram
  | UdpReceive

fun DenyReason_as_str :: "deny_reason \<Rightarrow> string" where
  "DenyReason_as_str NotPermitted = ''not_permitted''"
| "DenyReason_as_str BindNotPermitted = ''bind_not_permitted''"
| "DenyReason_as_str HostLoopbackNotPermitted = ''host_loopback_not_permitted''"
| "DenyReason_as_str HostOwnedPort = ''host_owned_port''"
| "DenyReason_as_str BlockedRange = ''blocked_range''"
| "DenyReason_as_str NoCapacity = ''no_capacity''"

fun DenyReason_error_code :: "deny_reason \<Rightarrow> ErrorCode" where
  "DenyReason_error_code NoCapacity = OutOfMemory"
| "DenyReason_error_code _ = AccessDenied"

record Allowed =
  al_addr :: socket_addr
  al_plane :: Plane
  al_permit :: "ConnectionSlot option"
  al_valid_until :: "instant option"

datatype AddrDecision = Deny deny_reason | Allow Allowed

definition allow_by_address :: "socket_addr \<Rightarrow> AddrDecision" where
  "allow_by_address addr =
     Allow \<lparr>al_addr = addr,
       al_plane = (if is_loopback (to_canonical (sa_ip addr)) then PlaneVirtual else PlaneHost),
       al_permit = None, al_valid_until = None\<rparr>"

definition allow_on :: "socket_addr \<Rightarrow> Plane \<Rightarrow> AddrDecision" where
  "allow_on addr plane = Allow \<lparr>al_addr = addr, al_plane = plane, al_permit = None, al_valid_until = None\<rparr>"

fun into_allowed :: "AddrDecision \<Rightarrow> (ErrorCode, Allowed) result" where
  "into_allowed (Allow allowed) = Ok allowed"
| "into_allowed (Deny reason) = Err (DenyReason_error_code reason)"

record AllowedNetworkUses =
  uses_udp :: bool
  uses_tcp :: bool

definition AllowedNetworkUses_default :: AllowedNetworkUses where
  "AllowedNetworkUses_default = \<lparr>uses_udp = True, uses_tcp = True\<rparr>"

definition permission_denied :: io_error where
  "permission_denied = \<lparr>io_errno = None, io_kind = K_PermissionDenied\<rparr>"

definition check_allowed_udp :: "AllowedNetworkUses \<Rightarrow> (io_error, unit) result" where
  "check_allowed_udp uses = (if \<not> uses_udp uses then Err permission_denied else Ok ())"

definition check_allowed_tcp :: "AllowedNetworkUses \<Rightarrow> (io_error, unit) result" where
  "check_allowed_tcp uses = (if \<not> uses_tcp uses then Err permission_denied else Ok ())"

section \<open>The policy\<close>

record DirectBind =
  db_addr :: socket_addr
  db_udp :: bool

definition DirectBind_permits :: "SocketAddrUse \<Rightarrow> socket_addr \<Rightarrow> DirectBind \<Rightarrow> bool" where
  "DirectBind_permits reason addr b =
     ((case reason of TcpBind \<Rightarrow> \<not> db_udp b | TcpListen \<Rightarrow> \<not> db_udp b | UdpBind \<Rightarrow> db_udp b | _ \<Rightarrow> False)
      \<and> db_addr b = addr)"

datatype GuestKind = GK_Component | GK_Service | GK_Plugin "DirectBind list"

datatype EgressMode = Count | Enforce

record SocketPolicy =
  sp_kind :: GuestKind
  sp_allowed_hosts :: "allowed_host list"
  sp_host_loopback :: "AllowedLoopbackPort list"
  sp_host_loopback_enabled :: bool
  sp_egress_addrs :: EgressAddressPolicy
  sp_host_owned_ports :: bool
  sp_egress_mode :: EgressMode
  sp_quota :: "nat option"
  sp_quotas :: bool
  sp_meters :: bool
  sp_resolved_names :: ResolvedNameLimits

text \<open>What the policies of one host share.\<close>

record 's host_shared =
  sh_quotas :: "'s QuotaRegistry"
  sh_meters :: PolicyMeters
  sh_ports :: PortTable

definition SocketPolicy_default :: SocketPolicy where
  "SocketPolicy_default =
     \<lparr>sp_kind = GK_Component, sp_allowed_hosts = [], sp_host_loopback = [], sp_host_loopback_enabled = False,
      sp_egress_addrs = EgressAddressPolicy_default, sp_host_owned_ports = False, sp_egress_mode = Enforce,
      sp_quota = None, sp_quotas = True, sp_meters = False, sp_resolved_names = ResolvedNameLimits_default\<rparr>"

definition for_kind :: "GuestKind \<Rightarrow> SocketPolicy" where
  "for_kind kind = SocketPolicy_default\<lparr>sp_kind := kind\<rparr>"

definition quota_for :: "'s semaphore_lib \<Rightarrow> string \<Rightarrow> SocketPolicy \<Rightarrow> 's host_shared \<Rightarrow> nat option \<times> 's host_shared" where
  "quota_for lib guest_id p sh =
     (if sp_quotas p
      then (case QuotaRegistry_for_guest lib guest_id (sh_quotas sh) of (q, r) \<Rightarrow> (Some q, sh\<lparr>sh_quotas := r\<rparr>))
      else (None, sh))"

definition for_guest ::
    "'s semaphore_lib \<Rightarrow> GuestKind \<Rightarrow> string \<Rightarrow> allowed_host list \<Rightarrow> AllowedLoopbackPort list \<Rightarrow>
     SocketPolicy \<Rightarrow> 's host_shared \<Rightarrow> SocketPolicy \<times> 's host_shared" where
  "for_guest lib kind guest_id allowed_hosts host_loopback p sh =
     (case quota_for lib guest_id p sh of (q, sh) \<Rightarrow>
        (p\<lparr>sp_kind := kind, sp_allowed_hosts := allowed_hosts, sp_host_loopback := host_loopback, sp_quota := q\<rparr>, sh))"

text \<open>A slot taken from the allowance at a position of the registry; the registry remembers the
  slots that are out.\<close>

definition take_slot :: "'s semaphore_lib \<Rightarrow> surface \<Rightarrow> nat \<Rightarrow> 's host_shared \<Rightarrow> ConnectionSlot option \<times> 's host_shared" where
  "take_slot lib surface q sh =
     (let r = sh_quotas sh in
      (case GuestConnectionQuota_try_acquire lib surface (qr_minted r ! q) (qr_global r) of
         (slot, quota, global) \<Rightarrow>
           (slot, sh\<lparr>sh_quotas := r\<lparr>qr_minted := (qr_minted r)[q := quota], qr_global := global,
              qr_slots := (case slot of None \<Rightarrow> qr_slots r | Some s \<Rightarrow> (q, s) # qr_slots r)\<rparr>\<rparr>)))"

record Route =
  rt_addr :: socket_addr
  rt_plane :: Plane
  rt_valid_until :: "instant option"

definition Route_standing :: "socket_addr \<Rightarrow> Plane \<Rightarrow> Route" where
  "Route_standing addr plane = \<lparr>rt_addr = addr, rt_plane = plane, rt_valid_until = None\<rparr>"

definition policy_gate :: "SocketPolicy \<Rightarrow> deny_reason \<Rightarrow> 's host_shared \<Rightarrow> (deny_reason, Plane) result \<times> 's host_shared" where
  "policy_gate p reason sh =
     (case sp_egress_mode p of
        Enforce \<Rightarrow> (Err reason, sh)
      | Count \<Rightarrow> (Ok PlaneHost, if sp_meters p then sh\<lparr>sh_meters := record_would_deny reason (sh_meters sh)\<rparr> else sh))"

definition resolve_host_loopback ::
    "SocketPolicy \<Rightarrow> socket_addr \<Rightarrow> protocol \<Rightarrow> 's host_shared \<Rightarrow> (deny_reason, socket_addr \<times> Plane) result" where
  "resolve_host_loopback p addr protocol sh =
     (if \<not> sp_host_loopback_enabled p then Err HostLoopbackNotPermitted
      else if \<not> check_allowed_loopback (sp_host_loopback p) addr protocol then Err HostLoopbackNotPermitted
      else let target = rewrite_sentinel addr in
        if sp_host_owned_ports p \<and> PortTable_is_published protocol target (sh_ports sh) then Err HostOwnedPort
        else Ok (target, PlaneHost))"

text \<open>Whether and until when the allowlist grants an address: \<open>Some None\<close> for good.\<close>

definition named_until :: "instant \<Rightarrow> SocketPolicy \<Rightarrow> socket_addr \<Rightarrow> ResolvedNames option \<Rightarrow> instant option option" where
  "named_until clock p addr history =
     (if check_allowed_addr (sp_allowed_hosts p) addr then Some None
      else Option.bind history (ResolvedNames_permitted_until clock (sp_allowed_hosts p) addr))"

text \<open>Both layers are judged; the first refusal that is enforced is the answer.\<close>

definition resolve_egress ::
    "instant \<Rightarrow> SocketPolicy \<Rightarrow> socket_addr \<Rightarrow> ResolvedNames option \<Rightarrow> 's host_shared \<Rightarrow>
     (deny_reason, Route) result \<times> 's host_shared" where
  "resolve_egress clock p addr history sh =
     (let named = named_until clock p addr history;
          in_range = EgressAddressPolicy_permits (sp_egress_addrs p) (sa_ip addr)
      in (case (if named = None then policy_gate p NotPermitted sh else (Ok PlaneHost, sh)) of
            (Inl e, sh) \<Rightarrow> (Err e, sh)
          | (Inr _, sh) \<Rightarrow>
              (case (if \<not> in_range then policy_gate p BlockedRange sh else (Ok PlaneHost, sh)) of
                 (Inl e, sh) \<Rightarrow> (Err e, sh)
               | (Inr _, sh) \<Rightarrow>
                   (Ok \<lparr>rt_addr = addr, rt_plane = PlaneHost,
                        rt_valid_until = (if in_range then Option.bind named id else None)\<rparr>, sh))))"

definition resolve_connect ::
    "instant \<Rightarrow> SocketPolicy \<Rightarrow> socket_addr \<Rightarrow> protocol \<Rightarrow> ResolvedNames option \<Rightarrow> 's host_shared \<Rightarrow>
     (deny_reason, Route) result \<times> 's host_shared" where
  "resolve_connect clock p addr protocol history sh =
     (if is_host_sentinel (sa_ip addr)
      then ((case resolve_host_loopback p addr protocol sh of
               Inl e \<Rightarrow> Err e
             | Inr (addr, plane) \<Rightarrow> Ok (Route_standing addr plane)), sh)
      else let ip = to_canonical (sa_ip addr) in
        if is_loopback ip \<or> is_unspecified ip then (Ok (Route_standing addr PlaneVirtual), sh)
        else resolve_egress clock p addr history sh)"

definition decide_connect ::
    "instant \<Rightarrow> SocketPolicy \<Rightarrow> socket_addr \<Rightarrow> protocol \<Rightarrow> ResolvedNames option \<Rightarrow> 's host_shared \<Rightarrow> AddrDecision \<times> 's host_shared" where
  "decide_connect clock p addr protocol history sh =
     (case resolve_connect clock p addr protocol history sh of
        (Inr route, sh) \<Rightarrow>
          (Allow \<lparr>al_addr = rt_addr route, al_plane = rt_plane route, al_permit = None,
                   al_valid_until = rt_valid_until route\<rparr>, sh)
      | (Inl reason, sh) \<Rightarrow> (Deny reason, sh))"

definition decide_bind :: "SocketPolicy \<Rightarrow> SocketAddrUse \<Rightarrow> socket_addr \<Rightarrow> AddrDecision" where
  "decide_bind p reason addr =
     (let ip = sa_ip addr;
          udp_egress_bind = (reason = UdpBind \<and> (is_loopback ip \<or> (is_unspecified ip \<and> sa_port addr = 0)));
          permitted = (udp_egress_bind \<or>
            (case sp_kind p of
               GK_Component \<Rightarrow> False
             | GK_Service \<Rightarrow> is_loopback ip
             | GK_Plugin direct_binds \<Rightarrow> is_loopback ip \<or> list_ex (DirectBind_permits reason addr) direct_binds))
      in if permitted then allow_by_address addr else Deny BindNotPermitted)"

definition decide_accept ::
    "'s semaphore_lib \<Rightarrow> SocketPolicy \<Rightarrow> socket_addr \<Rightarrow> bool \<Rightarrow> 's host_shared \<Rightarrow> AddrDecision \<times> 's host_shared" where
  "decide_accept lib p addr network sh =
     (if sp_kind p = GK_Component then (Deny NotPermitted, sh)
      else (case allow_by_address addr of
              Deny reason \<Rightarrow> (Deny reason, sh)
            | Allow allowed \<Rightarrow>
                (case sp_quota p of
                   Some q \<Rightarrow>
                     if network then
                       (case take_slot lib InboundSockets q sh of
                          (None, sh) \<Rightarrow> (Deny NoCapacity, sh)
                        | (Some permit, sh) \<Rightarrow> (Allow (allowed\<lparr>al_permit := Some permit\<rparr>), sh))
                     else (Allow allowed, sh)
                 | None \<Rightarrow> (Allow allowed, sh))))"

definition decide_receive :: "socket_addr \<Rightarrow> AddrDecision" where
  "decide_receive addr = allow_by_address addr"

definition allow_with_slot ::
    "'s semaphore_lib \<Rightarrow> SocketPolicy \<Rightarrow> socket_addr \<Rightarrow> Plane \<Rightarrow> 's host_shared \<Rightarrow> AddrDecision \<times> 's host_shared" where
  "allow_with_slot lib p addr plane sh =
     (case sp_quota p of
        None \<Rightarrow> (allow_on addr plane, sh)
      | Some q \<Rightarrow>
          (case take_slot lib OutboundSockets q sh of
             (Some permit, sh) \<Rightarrow>
               (Allow \<lparr>al_addr = addr, al_plane = plane, al_permit = Some permit, al_valid_until = None\<rparr>, sh)
           | (None, sh) \<Rightarrow> (Deny NoCapacity, sh)))"

text \<open>The decision by use, before the refusal is metered.\<close>

definition decide_use ::
    "'s semaphore_lib \<Rightarrow> instant \<Rightarrow> SocketPolicy \<Rightarrow> SocketAddrUse \<Rightarrow> socket_addr \<Rightarrow> ResolvedNames option \<Rightarrow>
     's host_shared \<Rightarrow> AddrDecision \<times> 's host_shared" where
  "decide_use lib clock p reason addr history sh =
     (case reason of
        TcpCreate \<Rightarrow> allow_with_slot lib p addr PlaneHost sh
      | UdpCreate \<Rightarrow> allow_with_slot lib p addr PlaneHost sh
      | TcpBind \<Rightarrow> (decide_bind p reason addr, sh)
      | TcpListen \<Rightarrow> (decide_bind p reason addr, sh)
      | UdpBind \<Rightarrow> (decide_bind p reason addr, sh)
      | TcpAccept \<Rightarrow> decide_accept lib p addr True sh
      | TcpAcceptVirtual \<Rightarrow> decide_accept lib p addr False sh
      | UdpImplicitBind \<Rightarrow> (allow_on addr PlaneHost, sh)
      | TcpConnect \<Rightarrow> decide_connect clock p addr Tcp history sh
      | UdpConnect \<Rightarrow> decide_connect clock p addr Udp history sh
      | UdpOutgoingDatagram \<Rightarrow> decide_connect clock p addr Udp history sh
      | UdpReceive \<Rightarrow> (decide_receive addr, sh))"

definition decide_inner ::
    "'s semaphore_lib \<Rightarrow> instant \<Rightarrow> SocketPolicy \<Rightarrow> SocketAddrUse \<Rightarrow> socket_addr \<Rightarrow> ResolvedNames option \<Rightarrow>
     's host_shared \<Rightarrow> AddrDecision \<times> 's host_shared" where
  "decide_inner lib clock p reason addr history sh =
     (case decide_use lib clock p reason addr history sh of
        (Deny why, sh) \<Rightarrow>
          (Deny why, if sp_meters p then sh\<lparr>sh_meters := record_deny why (sh_meters sh)\<rparr> else sh)
      | (Allow allowed, sh) \<Rightarrow> (Allow allowed, sh))"

definition decide_for_store ::
    "'s semaphore_lib \<Rightarrow> instant \<Rightarrow> SocketPolicy \<Rightarrow> SocketAddrUse \<Rightarrow> socket_addr \<Rightarrow> ResolvedNames \<Rightarrow>
     's host_shared \<Rightarrow> AddrDecision \<times> 's host_shared" where
  "decide_for_store lib clock p reason addr history sh = decide_inner lib clock p reason addr (Some history) sh"

section \<open>The check of a store\<close>

text \<open>The closure of a \<open>SocketAddrCheck\<close>: the default one refuses, the one of a store decides
  by its policy and the history it captured.\<close>

datatype SocketAddrCheck = SC_Default | SC_Policy SocketPolicy

definition SocketAddrCheck_check ::
    "'s semaphore_lib \<Rightarrow> instant \<Rightarrow> SocketAddrCheck \<Rightarrow> socket_addr \<Rightarrow> SocketAddrUse \<Rightarrow> ResolvedNames \<Rightarrow>
     's host_shared \<Rightarrow> (ErrorCode, Allowed) result \<times> 's host_shared" where
  "SocketAddrCheck_check lib clock c addr reason history sh =
     (case c of
        SC_Default \<Rightarrow> (into_allowed (Deny NotPermitted), sh)
      | SC_Policy p \<Rightarrow>
          (case decide_for_store lib clock p reason addr history sh of (d, sh) \<Rightarrow> (into_allowed d, sh)))"

text \<open>A connected datagram socket asks again only when its deadline has passed.\<close>

definition refresh_connected ::
    "'s semaphore_lib \<Rightarrow> instant \<Rightarrow> SocketAddrCheck \<Rightarrow> socket_addr \<Rightarrow> instant option \<Rightarrow> ResolvedNames \<Rightarrow>
     's host_shared \<Rightarrow> (ErrorCode, unit) result \<times> instant option \<times> 's host_shared" where
  "refresh_connected lib clock c peer valid_until history sh =
     (case valid_until of
        Some deadline \<Rightarrow>
          if deadline \<le> clock then
            (case SocketAddrCheck_check lib clock c peer UdpOutgoingDatagram history sh of
               (Inl e, sh) \<Rightarrow> (Err e, valid_until, sh)
             | (Inr allowed, sh) \<Rightarrow> (Ok (), al_valid_until allowed, sh))
          else (Ok (), valid_until, sh)
      | None \<Rightarrow> (Ok (), valid_until, sh))"

record WasiSocketsCtx =
  sc_check :: SocketAddrCheck
  sc_uses :: AllowedNetworkUses
  sc_allowed_ip_name_lookups :: "allowed_ip_name list"
  sc_allowed_hosts :: "allowed_host list"
  sc_loopback :: network_ref
  sc_resolved_names :: ResolvedNames

definition WasiSocketsCtx_for_store :: "SocketPolicy \<Rightarrow> network_ref \<Rightarrow> allowed_ip_name list \<Rightarrow> WasiSocketsCtx" where
  "WasiSocketsCtx_for_store policy loopback lookups =
     \<lparr>sc_check = SC_Policy policy, sc_uses = AllowedNetworkUses_default, sc_allowed_ip_name_lookups = lookups,
      sc_allowed_hosts = sp_allowed_hosts policy, sc_loopback = loopback,
      sc_resolved_names = ResolvedNames_new (sp_resolved_names policy)\<rparr>"

section \<open>The port of the HTTP ingress\<close>

text \<open>Claims collected in order; the first error drops the ones already made.\<close>

fun reserve_all ::
    "(protocol \<times> socket_addr) list \<Rightarrow> port_owner \<Rightarrow> PortReservation list \<Rightarrow> PortTable \<Rightarrow>
     (reserve_error, PortReservation list) result \<times> PortTable" where
  "reserve_all [] owner done t = (Ok (rev done), t)"
| "reserve_all ((protocol, addr) # rest) owner done t =
     (case PortTable_reserve protocol addr owner t of
        (Inl e, t) \<Rightarrow> (Err e, fold PortReservation_drop (rev done) t)
      | (Inr r, t) \<Rightarrow> reserve_all rest owner (r # done) t)"

definition reserve_http_ingress ::
    "SocketPolicy \<Rightarrow> u16 \<Rightarrow> 's host_shared \<Rightarrow> (reserve_error, PortReservation list) result \<times> 's host_shared" where
  "reserve_http_ingress policy port sh =
     (if sp_host_owned_ports policy \<and> port \<noteq> 0
      then (case reserve_all [(Tcp, SocketAddrV4 v4_localhost port), (Tcp, SocketAddrV6 v6_localhost port 0 0)]
                   (PO_Host ''HTTP ingress'') [] (sh_ports sh) of
              (r, t) \<Rightarrow> (r, sh\<lparr>sh_ports := t\<rparr>))
      else (Ok [], sh))"

section \<open>Connects\<close>

text \<open>The protocol of a use that sends somewhere.\<close>

fun connect_protocol :: "SocketAddrUse \<Rightarrow> protocol option" where
  "connect_protocol TcpConnect = Some Tcp"
| "connect_protocol UdpConnect = Some Udp"
| "connect_protocol UdpOutgoingDatagram = Some Udp"
| "connect_protocol _ = None"

lemma decide_for_store_connect:
  assumes "connect_protocol reason = Some pr"
  shows "decide_for_store lib clock p reason addr h sh =
    (case resolve_connect clock p addr pr (Some h) sh of
       (Inr route, sh) \<Rightarrow>
         (Allow \<lparr>al_addr = rt_addr route, al_plane = rt_plane route, al_permit = None, al_valid_until = rt_valid_until route\<rparr>, sh)
     | (Inl why, sh) \<Rightarrow> (Deny why, if sp_meters p then sh\<lparr>sh_meters := record_deny why (sh_meters sh)\<rparr> else sh))"
  using assms
  by (cases reason; cases "resolve_connect clock p addr pr (Some h) sh"; cases "fst (resolve_connect clock p addr pr (Some h) sh)")
    (auto simp: decide_for_store_def decide_inner_def decide_use_def decide_connect_def)

lemma resolve_egress_enforced:
  assumes "sp_egress_mode p = Enforce"
  shows "resolve_egress clock p addr history sh =
    (case named_until clock p addr history of
       None \<Rightarrow> Err NotPermitted
     | Some until \<Rightarrow>
         if EgressAddressPolicy_permits (sp_egress_addrs p) (sa_ip addr)
         then Ok \<lparr>rt_addr = addr, rt_plane = PlaneHost, rt_valid_until = until\<rparr> else Err BlockedRange, sh)"
  using assms by (simp add: resolve_egress_def policy_gate_def Let_def split: option.splits)

definition count_would_deny :: "SocketPolicy \<Rightarrow> deny_reason \<Rightarrow> 's host_shared \<Rightarrow> 's host_shared" where
  "count_would_deny p reason sh = (if sp_meters p then sh\<lparr>sh_meters := record_would_deny reason (sh_meters sh)\<rparr> else sh)"

lemma resolve_egress_counted:
  assumes "sp_egress_mode p = Count"
  shows "resolve_egress clock p addr history sh =
    (let named = named_until clock p addr history;
         in_range = EgressAddressPolicy_permits (sp_egress_addrs p) (sa_ip addr)
     in (Ok \<lparr>rt_addr = addr, rt_plane = PlaneHost, rt_valid_until = (if in_range then Option.bind named id else None)\<rparr>,
         (if in_range then id else count_would_deny p BlockedRange)
           ((if named = None then count_would_deny p NotPermitted else id) sh)))"
  using assms by (simp add: resolve_egress_def policy_gate_def count_would_deny_def Let_def)

lemma meter_count_would_deny:
  assumes "sp_meters p" and "length (pm_would_deny (sh_meters sh)) = DENY_REASONS"
  shows "meter_would_deny r (sh_meters (count_would_deny p reason sh)) =
      meter_would_deny r (sh_meters sh) + (if r = reason then 1 else 0)"
    and "length (pm_would_deny (sh_meters (count_would_deny p reason sh))) = DENY_REASONS"
  using assms
  by (cases r; cases reason; simp add: count_would_deny_def meter_would_deny_def record_would_deny_def bump_def DENY_REASONS_def)+

lemma resolve_host_loopback_Ok:
  "resolve_host_loopback p addr pr sh = Ok (target, plane) \<longleftrightarrow>
     sp_host_loopback_enabled p \<and> check_allowed_loopback (sp_host_loopback p) addr pr \<and>
     \<not> (sp_host_owned_ports p \<and> PortTable_is_published pr (rewrite_sentinel addr) (sh_ports sh)) \<and>
     target = rewrite_sentinel addr \<and> plane = PlaneHost"
  by (auto simp: resolve_host_loopback_def Let_def)

lemma named_until_recorded:
  assumes "run_recordings cs (ResolvedNames_new limits) = Some h" "named_until clock p addr (Some h) = Some until"
  shows "check_allowed_addr (sp_allowed_hosts p) addr \<and> until = None \<or>
    (\<exists>c \<in> set cs. to_canonical (sa_ip addr) \<in> to_canonical ` set (rec_addrs c) \<and>
       (\<exists>entry \<in> set (sp_allowed_hosts p). AllowedHost_permits_name entry (rec_name c) (sa_port addr)) \<and>
       until = deadline_of limits (rec_observed c) \<and> (\<forall>x. until = Some x \<longrightarrow> clock < x))"
proof (cases "check_allowed_addr (sp_allowed_hosts p) addr")
  case False
  with assms(2) have "permitted_until_at (sp_allowed_hosts p) addr clock h = Some until"
    by (simp add: named_until_def ResolvedNames_permitted_until_def)
  from permitted_until_answer [OF assms(1) this] show ?thesis by blast
qed (use assms(2) in \<open>simp add: named_until_def\<close>)

lemma egress_granted:
  assumes mode: "sp_egress_mode p = Enforce" and use: "connect_protocol reason = Some pr"
    and run: "run_recordings cs (ResolvedNames_new limits) = Some h"
    and dec: "decide_for_store lib clock p reason addr h sh = (Allow a, sh')" and host: "al_plane a = PlaneHost"
  shows "(is_host_sentinel (sa_ip addr) \<and> al_addr a = rewrite_sentinel addr \<and> sp_host_loopback_enabled p \<and>
      check_allowed_loopback (sp_host_loopback p) addr pr \<and>
      \<not> (sp_host_owned_ports p \<and> PortTable_is_published pr (rewrite_sentinel addr) (sh_ports sh)))
    \<or> (al_addr a = addr \<and> \<not> is_loopback (to_canonical (sa_ip addr)) \<and> \<not> is_unspecified (to_canonical (sa_ip addr)) \<and>
      EgressAddressPolicy_permits (sp_egress_addrs p) (sa_ip addr) \<and>
      (check_allowed_addr (sp_allowed_hosts p) addr \<or>
       (\<exists>c \<in> set cs. to_canonical (sa_ip addr) \<in> to_canonical ` set (rec_addrs c) \<and>
          (\<exists>entry \<in> set (sp_allowed_hosts p). AllowedHost_permits_name entry (rec_name c) (sa_port addr)) \<and>
          al_valid_until a = deadline_of limits (rec_observed c) \<and> (\<forall>x. al_valid_until a = Some x \<longrightarrow> clock < x))))"
proof -
  let ?loop = "is_loopback (to_canonical (sa_ip addr)) \<or> is_unspecified (to_canonical (sa_ip addr))"
  obtain route where r: "resolve_connect clock p addr pr (Some h) sh = (Ok route, sh')"
      "al_addr a = rt_addr route" "al_plane a = rt_plane route" "al_valid_until a = rt_valid_until route"
    using dec by (auto simp: decide_for_store_connect [OF use] split: prod.splits sum.splits)
  consider "is_host_sentinel (sa_ip addr)" | "\<not> is_host_sentinel (sa_ip addr)" "?loop"
    | "\<not> is_host_sentinel (sa_ip addr)" "\<not> ?loop" by blast
  then show ?thesis
  proof cases
    case 1
    then show ?thesis
      using r by (auto simp: resolve_connect_def Route_standing_def resolve_host_loopback_Ok split: sum.splits)
  next
    case 2
    then show ?thesis using r host by (auto simp: resolve_connect_def Let_def Route_standing_def)
  next
    case 3
    then have e: "resolve_egress clock p addr (Some h) sh = (Ok route, sh')"
      using r by (simp add: resolve_connect_def Let_def)
    then obtain until where u: "named_until clock p addr (Some h) = Some until"
        "EgressAddressPolicy_permits (sp_egress_addrs p) (sa_ip addr)" "rt_addr route = addr" "rt_valid_until route = until"
      by (auto simp: resolve_egress_enforced [OF mode] split: option.splits if_splits)
    from named_until_recorded [OF run u(1)] show ?thesis unfolding r(2,4) u(3,4) using 3 u(2) by blast
  qed
qed

text \<open>
  C7. Under enforcement a connect or datagram leaves on a real socket in two ways only. Through
  the sentinel it reaches the machine's loopback, on a port the guest was granted for that
  protocol while the host permits it and nobody published it. Otherwise it goes to the very
  address that was asked for, which is in no denied range and never the machine itself in any
  spelling, and which an entry grants as an address or which a lookup of this store returned
  for a name an entry grants on that port, for no longer than that answer lasts.
\<close>

theorem enforced_egress_is_granted:
  assumes mode: "sp_egress_mode p = Enforce" and use: "connect_protocol reason = Some pr"
    and run: "run_recordings cs (ResolvedNames_new limits) = Some h"
    and dec: "decide_for_store lib clock p reason addr h sh = (Allow a, sh')" and host: "al_plane a = PlaneHost"
  shows "(is_host_sentinel (sa_ip addr) \<and> al_addr a = rewrite_sentinel addr \<and> sp_host_loopback_enabled p \<and>
      check_allowed_loopback (sp_host_loopback p) addr pr \<and>
      \<not> (sp_host_owned_ports p \<and> PortTable_is_published pr (rewrite_sentinel addr) (sh_ports sh)))
    \<or> (al_addr a = addr \<and> \<not> is_loopback (to_canonical (sa_ip addr)) \<and> \<not> is_unspecified (to_canonical (sa_ip addr)) \<and>
      EgressAddressPolicy_permits (sp_egress_addrs p) (sa_ip addr) \<and>
      (check_allowed_addr (sp_allowed_hosts p) addr \<or>
       (\<exists>c \<in> set cs. to_canonical (sa_ip addr) \<in> to_canonical ` set (rec_addrs c) \<and>
          (\<exists>entry \<in> set (sp_allowed_hosts p). AllowedHost_permits_name entry (rec_name c) (sa_port addr)) \<and>
          al_valid_until a = deadline_of limits (rec_observed c) \<and> (\<forall>x. al_valid_until a = Some x \<longrightarrow> clock < x))))"
  by (rule egress_granted [OF mode use run dec host])


section \<open>Listening\<close>

lemma loopback_canonical: "is_loopback ip \<Longrightarrow> is_loopback (to_canonical ip)"
proof (cases ip)
  case (V6 v6)
  assume "is_loopback ip"
  with V6 have "ip = V6 v6_localhost" by (simp add: v6_is_loopback_def)
  moreover have "is_loopback (to_canonical (V6 v6_localhost))" by code_simp
  ultimately show ?thesis by simp
qed simp

lemma decide_bind_Allow:
  assumes "decide_bind p reason addr = Allow a" "reason \<noteq> UdpBind"
  shows "a = \<lparr>al_addr = addr, al_plane = (if is_loopback (to_canonical (sa_ip addr)) then PlaneVirtual else PlaneHost),
      al_permit = None, al_valid_until = None\<rparr>"
    and "is_loopback (sa_ip addr) \<and> sp_kind p \<noteq> GK_Component \<or>
      (\<exists>binds. sp_kind p = GK_Plugin binds \<and> list_ex (DirectBind_permits reason addr) binds)"
  using assms by (cases "sp_kind p"; auto simp: decide_bind_def allow_by_address_def Let_def split: if_splits)+

lemma check_listen:
  assumes "reason \<in> {TcpBind, TcpListen}"
  shows "fst (SocketAddrCheck_check lib clock (SC_Policy p) addr reason h sh) = into_allowed (decide_bind p reason addr)"
  using assms
  by (cases "decide_bind p reason addr") (auto simp: SocketAddrCheck_check_def decide_for_store_def decide_inner_def decide_use_def)

text \<open>
  C34. A TCP listener stays inside the virtual network. A component binds, listens and accepts
  nothing; an address another guest may bind or listen on is virtual, unless the guest is a
  plugin and the operator declared exactly that address for TCP. A refused bind is answered
  as access denied.
\<close>

theorem tcp_listeners_stay_virtual:
  assumes use: "reason \<in> {TcpBind, TcpListen}"
  shows "case fst (SocketAddrCheck_check lib clock (SC_Policy p) addr reason h sh) of
      Inl e \<Rightarrow> e = AccessDenied
    | Inr a \<Rightarrow> sp_kind p \<noteq> GK_Component \<and> al_addr a = addr \<and> al_permit a = None \<and>
        (al_plane a = PlaneVirtual \<or>
         (\<exists>binds b. sp_kind p = GK_Plugin binds \<and> b \<in> set binds \<and> db_addr b = addr \<and> \<not> db_udp b))"
proof (cases "decide_bind p reason addr")
  case (Deny why)
  then have "why = BindNotPermitted" by (auto simp: decide_bind_def Let_def allow_by_address_def split: if_splits)
  with Deny show ?thesis by (simp add: check_listen [OF use])
next
  case (Allow a)
  have "reason \<noteq> UdpBind" using use by auto
  note b = decide_bind_Allow [OF Allow this]
  from b(2) have "is_loopback (sa_ip addr) \<and> sp_kind p \<noteq> GK_Component \<or>
      (\<exists>binds b. sp_kind p = GK_Plugin binds \<and> b \<in> set binds \<and> db_addr b = addr \<and> \<not> db_udp b)"
    using use by (auto simp: list_ex_iff DirectBind_permits_def)
  with Allow b(1) loopback_canonical [of "sa_ip addr"] show ?thesis by (auto simp: check_listen [OF use])
qed

section \<open>Slots\<close>

definition opens_descriptor :: "SocketAddrUse \<Rightarrow> bool" where
  "opens_descriptor reason \<longleftrightarrow> reason \<in> {TcpCreate, UdpCreate, TcpAccept}"

lemma take_slot_step:
  assumes "q < length (qr_minted (sh_quotas sh))" "take_slot lib surface q sh = (slot, sh')"
  shows "quota_step lib (sh_quotas sh) (sh_quotas sh')"
    and "qr_slots (sh_quotas sh') = (case slot of None \<Rightarrow> qr_slots (sh_quotas sh) | Some s \<Rightarrow> (q, s) # qr_slots (sh_quotas sh))"
    and "sh_ports sh' = sh_ports sh \<and> sh_meters sh' = sh_meters sh"
  using assms quota_step.acquired [OF assms(1)] quota_step.refused [OF assms(1)]
  by (auto simp: take_slot_def Let_def split: prod.splits option.splits)

lemma decide_connect_shared:
  "sh_quotas (snd (decide_connect clock p addr pr history sh)) = sh_quotas sh"
  "sh_ports (snd (decide_connect clock p addr pr history sh)) = sh_ports sh"
  by (cases "sp_egress_mode p";
      auto simp: decide_connect_def resolve_connect_def resolve_egress_def policy_gate_def Let_def
        split: sum.splits prod.splits)+

lemma decide_connect_no_permit:
  "decide_connect clock p addr pr history sh = (Allow a, sh') \<Longrightarrow> al_permit a = None"
  by (auto simp: decide_connect_def split: sum.splits prod.splits)

lemma allow_with_slot_accounts:
  assumes "\<forall>q. sp_quota p = Some q \<longrightarrow> q < length (qr_minted (sh_quotas sh))"
    and "allow_with_slot lib p addr plane sh = (d, sh')"
  shows "(quota_step lib)\<^sup>*\<^sup>* (sh_quotas sh) (sh_quotas sh') \<and> sh_ports sh' = sh_ports sh \<and>
    (case d of
       Deny why \<Rightarrow> why = NoCapacity \<and> qr_slots (sh_quotas sh') = qr_slots (sh_quotas sh)
     | Allow a \<Rightarrow> qr_slots (sh_quotas sh') =
         (case (sp_quota p, al_permit a) of (Some q, Some s) \<Rightarrow> (q, s) # qr_slots (sh_quotas sh) | _ \<Rightarrow> qr_slots (sh_quotas sh)) \<and>
         (al_permit a \<noteq> None \<longleftrightarrow> sp_quota p \<noteq> None))"
proof (cases "sp_quota p")
  case None
  with assms(2) show ?thesis by (auto simp: allow_with_slot_def allow_on_def)
next
  case (Some q)
  obtain slot sh1 where s: "take_slot lib OutboundSockets q sh = (slot, sh1)" by force
  with assms(1) Some have "quota_step lib (sh_quotas sh) (sh_quotas sh1)"
    "qr_slots (sh_quotas sh1) = (case slot of None \<Rightarrow> qr_slots (sh_quotas sh) | Some s \<Rightarrow> (q, s) # qr_slots (sh_quotas sh))"
    "sh_ports sh1 = sh_ports sh" using take_slot_step [OF _ s] by auto
  with assms(2) Some s show ?thesis by (cases slot) (auto simp: allow_with_slot_def)
qed

lemma decide_accept_accounts:
  assumes "\<forall>q. sp_quota p = Some q \<longrightarrow> q < length (qr_minted (sh_quotas sh))"
    and "decide_accept lib p addr network sh = (d, sh')"
  shows "(quota_step lib)\<^sup>*\<^sup>* (sh_quotas sh) (sh_quotas sh') \<and> sh_ports sh' = sh_ports sh \<and>
    (case d of
       Deny why \<Rightarrow> qr_slots (sh_quotas sh') = qr_slots (sh_quotas sh)
     | Allow a \<Rightarrow> qr_slots (sh_quotas sh') =
         (case (sp_quota p, al_permit a) of (Some q, Some s) \<Rightarrow> (q, s) # qr_slots (sh_quotas sh) | _ \<Rightarrow> qr_slots (sh_quotas sh)) \<and>
         (al_permit a \<noteq> None \<longleftrightarrow> network \<and> sp_quota p \<noteq> None))"
proof (cases "sp_kind p = GK_Component \<or> \<not> network \<or> sp_quota p = None")
  case True
  with assms(2) show ?thesis by (auto simp: decide_accept_def allow_by_address_def split: option.splits if_splits)
next
  case False
  then obtain q where q: "sp_quota p = Some q" by auto
  obtain slot sh1 where s: "take_slot lib InboundSockets q sh = (slot, sh1)" by force
  with assms(1) q have "quota_step lib (sh_quotas sh) (sh_quotas sh1)"
    "qr_slots (sh_quotas sh1) = (case slot of None \<Rightarrow> qr_slots (sh_quotas sh) | Some s \<Rightarrow> (q, s) # qr_slots (sh_quotas sh))"
    "sh_ports sh1 = sh_ports sh" using take_slot_step [OF _ s] by auto
  with assms(2) False q s show ?thesis by (cases slot) (auto simp: decide_accept_def allow_by_address_def)
qed

lemma decide_use_accounts:
  assumes q: "\<forall>q. sp_quota p = Some q \<longrightarrow> q < length (qr_minted (sh_quotas sh))"
    and dec: "decide_use lib clock p reason addr history sh = (d, sh')"
  shows "(quota_step lib)\<^sup>*\<^sup>* (sh_quotas sh) (sh_quotas sh') \<and> sh_ports sh' = sh_ports sh \<and>
    (case d of
       Deny why \<Rightarrow> qr_slots (sh_quotas sh') = qr_slots (sh_quotas sh)
     | Allow a \<Rightarrow> qr_slots (sh_quotas sh') =
         (case (sp_quota p, al_permit a) of (Some q, Some s) \<Rightarrow> (q, s) # qr_slots (sh_quotas sh) | _ \<Rightarrow> qr_slots (sh_quotas sh)) \<and>
         (al_permit a \<noteq> None \<longleftrightarrow> opens_descriptor reason \<and> sp_quota p \<noteq> None))"
proof -
  consider "reason = TcpCreate \<or> reason = UdpCreate" | "reason = TcpAccept" | "reason = TcpAcceptVirtual"
    | pr where "connect_protocol reason = Some pr"
    | "reason = TcpBind \<or> reason = TcpListen \<or> reason = UdpBind" | "reason = UdpImplicitBind \<or> reason = UdpReceive"
    by (cases reason) auto
  then show ?thesis
  proof cases
    case 1
    then have "allow_with_slot lib p addr PlaneHost sh = (d, sh')" using dec by (auto simp: decide_use_def)
    from allow_with_slot_accounts [OF q this] 1 show ?thesis by (auto simp: opens_descriptor_def split: AddrDecision.splits)
  next
    case 2
    with dec have "decide_accept lib p addr True sh = (d, sh')" by (simp add: decide_use_def)
    from decide_accept_accounts [OF q this] 2 show ?thesis by (auto simp: opens_descriptor_def split: AddrDecision.splits)
  next
    case 3
    with dec have "decide_accept lib p addr False sh = (d, sh')" by (simp add: decide_use_def)
    from decide_accept_accounts [OF q this] 3 show ?thesis by (auto simp: opens_descriptor_def split: AddrDecision.splits)
  next
    case (4 pr)
    then have c: "decide_connect clock p addr pr history sh = (d, sh')" "\<not> opens_descriptor reason"
      using dec by (cases reason; auto simp: decide_use_def opens_descriptor_def)+
    have "sh_quotas sh' = sh_quotas sh" "sh_ports sh' = sh_ports sh"
      using decide_connect_shared [of clock p addr pr history sh] c(1) by simp_all
    with c show ?thesis
      by (cases d) (auto dest: decide_connect_no_permit split: option.splits)
  next
    case 5
    then show ?thesis
      using dec
      by (auto simp: decide_use_def opens_descriptor_def decide_bind_def allow_by_address_def Let_def
          split: if_splits AddrDecision.splits option.splits)
  next
    case 6
    then show ?thesis
      using dec by (auto simp: decide_use_def opens_descriptor_def decide_receive_def allow_by_address_def allow_on_def split: option.splits)
  qed
qed

lemma decide_for_store_accounts:
  assumes q: "\<forall>q. sp_quota p = Some q \<longrightarrow> q < length (qr_minted (sh_quotas sh))"
    and dec: "decide_for_store lib clock p reason addr h sh = (d, sh')"
  shows "(quota_step lib)\<^sup>*\<^sup>* (sh_quotas sh) (sh_quotas sh') \<and> sh_ports sh' = sh_ports sh \<and>
    (case d of
       Deny why \<Rightarrow> qr_slots (sh_quotas sh') = qr_slots (sh_quotas sh)
     | Allow a \<Rightarrow> qr_slots (sh_quotas sh') =
         (case (sp_quota p, al_permit a) of (Some q, Some s) \<Rightarrow> (q, s) # qr_slots (sh_quotas sh) | _ \<Rightarrow> qr_slots (sh_quotas sh)) \<and>
         (al_permit a \<noteq> None \<longleftrightarrow> opens_descriptor reason \<and> sp_quota p \<noteq> None))"
proof -
  obtain d1 sh1 where u: "decide_use lib clock p reason addr (Some h) sh = (d1, sh1)" by force
  then have "d1 = d" "sh_quotas sh' = sh_quotas sh1" "sh_ports sh' = sh_ports sh1"
    using dec by (auto simp: decide_for_store_def decide_inner_def split: AddrDecision.splits if_splits)
  with decide_use_accounts [OF q u] show ?thesis by (cases d) simp_all
qed


section \<open>The port of the ingress\<close>

lemma reserve_all_Ok:
  "reserve_all ks owner done t = (Ok rs, t') \<Longrightarrow>
     map pr_key rs = map pr_key (rev done) @ ks \<and>
     port_step\<^sup>*\<^sup>* \<lparr>pw_table = t, pw_live = done @ live\<rparr> \<lparr>pw_table = t', pw_live = rev rs @ live\<rparr>"
proof (induction ks owner "done" t rule: reserve_all.induct)
  case (2 protocol addr rest owner "done" t)
  then obtain r t1 where r: "PortTable_reserve protocol addr owner t = (Ok r, t1)" and rest: "reserve_all rest owner (r # done) t1 = (Ok rs, t')"
    by (auto split: prod.splits sum.splits)
  from 2(1) [OF r [symmetric] refl rest] have ih: "map pr_key rs = map pr_key (rev (r # done)) @ rest"
    "port_step\<^sup>*\<^sup>* \<lparr>pw_table = t1, pw_live = (r # done) @ live\<rparr> \<lparr>pw_table = t', pw_live = rev rs @ live\<rparr>" by auto
  have "port_step \<lparr>pw_table = t, pw_live = done @ live\<rparr> \<lparr>pw_table = t1, pw_live = (r # done) @ live\<rparr>"
    using port_step.claim [of protocol addr owner "\<lparr>pw_table = t, pw_live = done @ live\<rparr>" r t1] r by simp
  with ih(2) have "port_step\<^sup>*\<^sup>* \<lparr>pw_table = t, pw_live = done @ live\<rparr> \<lparr>pw_table = t', pw_live = rev rs @ live\<rparr>"
    by (rule converse_rtranclp_into_rtranclp [rotated])
  moreover have "pr_key r = (protocol, addr)" using r by (simp add: reserve_Ok_iff)
  ultimately show ?case using ih(1) by simp
qed auto

lemma sentinel_target:
  "sa_port addr = port \<Longrightarrow> rewrite_sentinel addr = SocketAddrV4 v4_localhost port \<or> rewrite_sentinel addr = SocketAddrV6 v6_localhost port 0 0"
  by (cases addr) (auto simp: rewrite_sentinel_def)

text \<open>
  C23. The host's own ingress cannot be reached through the sentinel. Once its port is claimed,
  and for as long as that claim is held, through whatever other claims and drops on the table,
  a TCP connect of any guest to the sentinel on that port is refused, whatever the operator
  granted the guest and in either spelling of the sentinel.
\<close>

theorem ingress_not_reachable_through_sentinel:
  assumes before: "port_step\<^sup>*\<^sup>* \<lparr>pw_table = PortTable_new, pw_live = []\<rparr> \<lparr>pw_table = sh_ports sh, pw_live = live\<rparr>"
    and claim: "reserve_http_ingress template port sh = (Ok rs, sh1)" "sp_host_owned_ports template" "port \<noteq> 0"
    and after: "port_step\<^sup>*\<^sup>* \<lparr>pw_table = sh_ports sh1, pw_live = rev rs @ live\<rparr> w" "set rs \<subseteq> set (pw_live w)"
    and guest: "sh_ports sh2 = pw_table w" "sp_host_owned_ports p"
    and dial: "is_host_sentinel (sa_ip addr)" "sa_port addr = port"
  shows "fst (decide_for_store lib clock p TcpConnect addr h sh2) \<in> {Deny HostOwnedPort, Deny HostLoopbackNotPermitted}"
proof -
  let ?ks = "[(Tcp, SocketAddrV4 v4_localhost port), (Tcp, SocketAddrV6 v6_localhost port 0 0)]"
  have "reserve_all ?ks (PO_Host ''HTTP ingress'') [] (sh_ports sh) = (Ok rs, sh_ports sh1)"
    using claim by (auto simp: reserve_http_ingress_def split: prod.splits)
  from reserve_all_Ok [OF this, of live] have k: "map pr_key rs = ?ks"
    "port_step\<^sup>*\<^sup>* \<lparr>pw_table = sh_ports sh, pw_live = live\<rparr> \<lparr>pw_table = sh_ports sh1, pw_live = rev rs @ live\<rparr>" by auto
  have "port_step\<^sup>*\<^sup>* \<lparr>pw_table = PortTable_new, pw_live = []\<rparr> w" using before k(2) after(1) by (meson rtranclp_trans)
  then have inv: "port_inv w" by (rule ports.inv_reachable) (simp add: port_inv_def PortTable_new_def)
  have "(Tcp, rewrite_sentinel addr) \<in> set (map pr_key rs)" using sentinel_target [OF dial(2)] k(1) by auto
  then have "(Tcp, rewrite_sentinel addr) \<in> set (map pr_key (pw_live w))" using after(2) by auto
  then have "PortTable_is_published Tcp (rewrite_sentinel addr) (sh_ports sh2)"
    by (simp add: guest published_iff_live [OF inv])
  then show ?thesis
    using dial guest
    by (simp add: decide_for_store_connect [where pr = Tcp] resolve_connect_def resolve_host_loopback_def Let_def)
qed

section \<open>Deadlines\<close>

lemma resolve_connect_deadline:
  assumes "run_recordings cs (ResolvedNames_new limits) = Some h"
    and "resolve_connect clock p addr pr (Some h) sh = (Ok route, sh')" "rt_valid_until route = Some d"
  shows "clock < d"
proof -
  have e: "resolve_egress clock p addr (Some h) sh = (Ok route, sh')"
    using assms(2,3) by (auto simp: resolve_connect_def Route_standing_def resolve_host_loopback_Ok Let_def split: if_splits sum.splits)
  have "named_until clock p addr (Some h) = Some (Some d)"
  proof (cases "sp_egress_mode p")
    case Enforce
    with e assms(3) show ?thesis by (auto simp: resolve_egress_enforced split: option.splits if_splits)
  next
    case Count
    with e assms(3) show ?thesis by (auto simp: resolve_egress_counted Let_def bind_eq_Some_conv split: if_splits)
  qed
  from named_until_recorded [OF assms(1) this] show ?thesis by auto
qed

text \<open>
  A connected datagram socket never sends on a grant that has lapsed. When the check before
  a send succeeds, the deadline it leaves is in the future, if there is one. A deadline that
  is not reached is kept and the policy is not asked; a refusal happens only past the
  deadline, and is answered as access denied.
\<close>

theorem connected_sends_within_the_grant:
  assumes "run_recordings cs (ResolvedNames_new limits) = Some h"
    and "refresh_connected lib clock (SC_Policy p) peer valid_until h sh = (result, until, sh')"
  shows "case result of
      Inr _ \<Rightarrow> (\<forall>d. until = Some d \<longrightarrow> clock < d) \<and>
        ((\<forall>d. valid_until = Some d \<longrightarrow> clock < d) \<longrightarrow> until = valid_until \<and> sh' = sh)
    | Inl e \<Rightarrow> e = AccessDenied \<and> until = valid_until \<and> (\<exists>d. valid_until = Some d \<and> d \<le> clock)"
proof (cases "\<exists>d. valid_until = Some d \<and> d \<le> clock")
  case False
  with assms(2) show ?thesis by (cases valid_until) (auto simp: refresh_connected_def)
next
  case True
  then obtain d where d: "valid_until = Some d" "d \<le> clock" by blast
  obtain r sh1 where r: "resolve_connect clock p peer Udp (Some h) sh = (r, sh1)" by force
  have c: "connect_protocol UdpOutgoingDatagram = Some Udp" by simp
  have "why \<noteq> NoCapacity" if "r = Err why" for why
    using r that
    by (auto simp: resolve_connect_def resolve_host_loopback_def resolve_egress_def policy_gate_def Let_def
        split: if_splits sum.splits EgressMode.splits)
  then have ad: "DenyReason_error_code why = AccessDenied" if "r = Err why" for why
    using that by (cases why) auto
  show ?thesis
  proof (cases r)
    case (Inl why)
    with assms(2) d r ad show ?thesis
      by (auto simp: refresh_connected_def SocketAddrCheck_check_def decide_for_store_connect [OF c])
  next
    case (Inr route)
    with assms(2) d r have "result = Ok ()" "until = rt_valid_until route"
      by (auto simp: refresh_connected_def SocketAddrCheck_check_def decide_for_store_connect [OF c])
    with resolve_connect_deadline [OF assms(1) r [unfolded Inr]] d show ?thesis by auto
  qed
qed

section \<open>Examples\<close>

definition demo_shared :: "nat host_shared" where
  "demo_shared =
     \<lparr>sh_quotas = snd (QuotaRegistry_for_guest counter_lib ''w'' (QuotaRegistry_new counter_lib QuotaLimits_default None)),
      sh_meters = PolicyMeters_default, sh_ports = PortTable_new\<rparr>"

definition demo_policy :: SocketPolicy where
  "demo_policy = SocketPolicy_default\<lparr>sp_allowed_hosts := db_policy, sp_quota := Some 0, sp_meters := True,
     sp_host_owned_ports := True, sp_host_loopback_enabled := True, sp_host_loopback := [AllowedLoopbackPort_tcp 8000]\<rparr>"

abbreviation db_addr5 :: socket_addr where "db_addr5 \<equiv> SocketAddrV4 (Ipv4Addr 10 0 0 5) 5432"

lemma demo_connect:
  "fst (decide_for_store counter_lib 20 demo_policy TcpConnect db_addr5 db_table demo_shared)
     = Allow \<lparr>al_addr = db_addr5, al_plane = PlaneHost, al_permit = None, al_valid_until = Some 70\<rparr>"
  by code_simp

theorem enforced_egress_is_granted_witness:
  "fst (decide_for_store counter_lib 20 demo_policy TcpConnect db_addr5 db_table demo_shared)
     = Allow \<lparr>al_addr = db_addr5, al_plane = PlaneHost, al_permit = None, al_valid_until = Some 70\<rparr> \<and>
   Some 70 = deadline_of db_limits (rec_observed db_lookup)"
proof -
  have "sp_egress_mode demo_policy = Enforce" by code_simp
  moreover have "decide_for_store counter_lib 20 demo_policy TcpConnect db_addr5 db_table demo_shared =
      (Allow \<lparr>al_addr = db_addr5, al_plane = PlaneHost, al_permit = None, al_valid_until = Some 70\<rparr>,
       snd (decide_for_store counter_lib 20 demo_policy TcpConnect db_addr5 db_table demo_shared))"
    using demo_connect by (simp add: prod_eq_iff)
  moreover have "\<not> is_host_sentinel (sa_ip db_addr5)" "\<not> check_allowed_addr (sp_allowed_hosts demo_policy) db_addr5" by code_simp+
  ultimately show ?thesis
    using enforced_egress_is_granted [of demo_policy TcpConnect Tcp "[db_lookup]" db_limits db_table counter_lib 20 db_addr5 demo_shared,
        OF _ _ db_table_recorded] demo_connect
    by fastforce
qed

lemma demo_count:
  "fst (decide_for_store counter_lib 20 (demo_policy\<lparr>sp_egress_mode := Enforce\<rparr>) UdpConnect (SocketAddrV4 (Ipv4Addr 10 0 0 9) 80) db_table demo_shared)
     = Deny NotPermitted"
  by code_simp


theorem tcp_listeners_stay_virtual_witness:
  "\<exists>a. fst (SocketAddrCheck_check counter_lib 0 (SC_Policy (for_kind GK_Service)) (SocketAddrV4 v4_localhost 80) TcpListen db_table demo_shared) = Ok a \<and>
     al_plane a = PlaneVirtual"
proof -
  have "\<not> isl (fst (SocketAddrCheck_check counter_lib 0 (SC_Policy (for_kind GK_Service)) (SocketAddrV4 v4_localhost 80) TcpListen db_table demo_shared))"
    by code_simp
  then show ?thesis
    using tcp_listeners_stay_virtual [where reason = TcpListen and lib = counter_lib and clock = 0 and p = "for_kind GK_Service" and
        addr = "SocketAddrV4 v4_localhost 80" and h = db_table and sh = demo_shared]
    by (auto simp: for_kind_def SocketPolicy_default_def split: sum.splits)
qed

lemma demo_shared_inv: "quota_inv counter_lib QuotaLimits_default None (sh_quotas demo_shared)"
proof -
  let ?r = "QuotaRegistry_new counter_lib QuotaLimits_default None"
  obtain q r' where r: "QuotaRegistry_for_guest counter_lib ''w'' ?r = (q, r')" by force
  from quota_inv_looked_up [OF quota_inv_new [OF counter_lib_laws] r] r show ?thesis by (simp add: demo_shared_def)
qed


lemma demo_ingress:
  "fst (reserve_http_ingress demo_policy 8000 demo_shared) =
     Ok [\<lparr>pr_key = (Tcp, SocketAddrV4 v4_localhost 8000)\<rparr>, \<lparr>pr_key = (Tcp, SocketAddrV6 v6_localhost 8000 0 0)\<rparr>]"
  by code_simp

theorem ingress_not_reachable_through_sentinel_witness:
  "fst (decide_for_store counter_lib 0 demo_policy TcpConnect (SocketAddrV4 HOST_SENTINEL 8000) db_table
       (snd (reserve_http_ingress demo_policy 8000 demo_shared))) = Deny HostOwnedPort"
proof -
  let ?sh1 = "snd (reserve_http_ingress demo_policy 8000 demo_shared)"
  obtain rs where rs: "reserve_http_ingress demo_policy 8000 demo_shared = (Ok rs, ?sh1)"
    using demo_ingress by (metis prod.collapse)
  have t: "port_step\<^sup>*\<^sup>* \<lparr>pw_table = PortTable_new, pw_live = []\<rparr> \<lparr>pw_table = sh_ports demo_shared, pw_live = []\<rparr>"
    by (simp add: demo_shared_def)
  have o: "sp_host_owned_ports demo_policy" "is_host_sentinel (sa_ip (SocketAddrV4 HOST_SENTINEL 8000))" by code_simp+
  have g: "sp_host_loopback_enabled demo_policy" "check_allowed_loopback (sp_host_loopback demo_policy) (SocketAddrV4 HOST_SENTINEL 8000) Tcp" by code_simp+
  have "fst (decide_for_store counter_lib 0 demo_policy TcpConnect (SocketAddrV4 HOST_SENTINEL 8000) db_table ?sh1) \<noteq> Deny HostLoopbackNotPermitted"
    using g o by (auto simp: decide_for_store_connect [where pr = Tcp] resolve_connect_def resolve_host_loopback_def Let_def)
  with ingress_not_reachable_through_sentinel [OF t rs o(1) _ rtranclp.rtrancl_refl _ _ o(1) o(2), of ?sh1 counter_lib 0 db_table]
  show ?thesis by auto
qed

theorem connected_sends_within_the_grant_witness:
  "fst (refresh_connected counter_lib 20 (SC_Policy demo_policy) db_addr5 (Some 15) db_table demo_shared) = Ok () \<and>
   fst (snd (refresh_connected counter_lib 20 (SC_Policy demo_policy) db_addr5 (Some 15) db_table demo_shared)) = Some 70 \<and> 20 < (70 :: nat)"
proof -
  let ?r = "refresh_connected counter_lib 20 (SC_Policy demo_policy) db_addr5 (Some 15) db_table demo_shared"
  have ok: "fst ?r = Ok ()" "fst (snd ?r) = Some 70" by code_simp+
  have "?r = (fst ?r, fst (snd ?r), snd (snd ?r))" by simp
  from connected_sends_within_the_grant [OF db_table_recorded this] ok show ?thesis by simp
qed

end
