(* ===== verification/Socket_Host.thy ===== *)
theory Socket_Host
  imports Socket_Policy "HOL-Library.Multiset"
begin

text \<open>
  The \<open>wasi:sockets\<close> calls of a guest: \<open>sockets/network.rs\<close>, \<open>host_network.rs\<close>,
  \<open>host_tcp_create_socket.rs\<close>, \<open>host_tcp.rs\<close> and \<open>host_ip_name_lookup.rs\<close>. They compose the
  policy, the sockets, the virtual network and the lookup history of one store.

  A handler takes the resource it was called on, as the resource table of the engine hands it
  out, and returns it updated. A deferred connect is the call that is deferred: what to connect
  and where to. A panic while the virtual network is locked poisons the lock, and every later
  call that locks it traps.
\<close>

section \<open>Errors\<close>

datatype P2ErrorCode =
    P2_Unknown | P2_AccessDenied | P2_NotSupported | P2_InvalidArgument | P2_OutOfMemory | P2_Timeout
  | P2_ConcurrencyConflict | P2_NotInProgress | P2_WouldBlock | P2_InvalidState | P2_NewSocketLimit
  | P2_AddressNotBindable | P2_AddressInUse | P2_RemoteUnreachable | P2_ConnectionRefused
  | P2_ConnectionReset | P2_ConnectionAborted | P2_DatagramTooLarge | P2_NameUnresolvable
  | P2_TemporaryResolverFailure | P2_PermanentResolverFailure

fun error_code_from_util :: "ErrorCode \<Rightarrow> P2ErrorCode" where
  "error_code_from_util Unknown = P2_Unknown"
| "error_code_from_util AccessDenied = P2_AccessDenied"
| "error_code_from_util NotSupported = P2_NotSupported"
| "error_code_from_util InvalidArgument = P2_InvalidArgument"
| "error_code_from_util OutOfMemory = P2_OutOfMemory"
| "error_code_from_util Timeout = P2_Timeout"
| "error_code_from_util InvalidState = P2_InvalidState"
| "error_code_from_util AddressNotBindable = P2_AddressNotBindable"
| "error_code_from_util AddressInUse = P2_AddressInUse"
| "error_code_from_util RemoteUnreachable = P2_RemoteUnreachable"
| "error_code_from_util ConnectionRefused = P2_ConnectionRefused"
| "error_code_from_util ConnectionReset = P2_ConnectionReset"
| "error_code_from_util ConnectionAborted = P2_ConnectionAborted"
| "error_code_from_util DatagramTooLarge = P2_DatagramTooLarge"
| "error_code_from_util NotInProgress = P2_NotInProgress"
| "error_code_from_util ConcurrencyConflict = P2_ConcurrencyConflict"

fun error_code_from_io :: "ErrorKind \<Rightarrow> P2ErrorCode" where
  "error_code_from_io K_AddrInUse = P2_AddressInUse"
| "error_code_from_io K_AddrNotAvailable = P2_AddressNotBindable"
| "error_code_from_io K_ConnectionAborted = P2_ConnectionAborted"
| "error_code_from_io K_ConnectionRefused = P2_ConnectionRefused"
| "error_code_from_io K_ConnectionReset = P2_ConnectionReset"
| "error_code_from_io K_InvalidInput = P2_InvalidArgument"
| "error_code_from_io K_OutOfMemory = P2_OutOfMemory"
| "error_code_from_io K_PermissionDenied = P2_AccessDenied"
| "error_code_from_io K_TimedOut = P2_Timeout"
| "error_code_from_io K_Unsupported = P2_NotSupported"
| "error_code_from_io _ = P2_Unknown"

text \<open>An error code for the guest, a trap, or a panic of the host call.\<close>

datatype SocketError = SE_Code P2ErrorCode | SE_Trap | SE_Panic

definition socket_error_from_util :: "ErrorCode \<Rightarrow> SocketError" where
  "socket_error_from_util e = SE_Code (error_code_from_util e)"

section \<open>Addresses\<close>

datatype IpAddress =
    IpAddressV4 "u8 \<times> u8 \<times> u8 \<times> u8"
  | IpAddressV6 "u16 \<times> u16 \<times> u16 \<times> u16 \<times> u16 \<times> u16 \<times> u16 \<times> u16"

fun ip_addr_to_ip_address :: "ipaddr \<Rightarrow> IpAddress" where
  "ip_addr_to_ip_address (V4 v4) = IpAddressV4 (from_ipv4_addr v4)"
| "ip_addr_to_ip_address (V6 v6) = IpAddressV6 (from_ipv6_addr v6)"

datatype IpSocketAddress =
    IpSocketV4 "u8 \<times> u8 \<times> u8 \<times> u8" u16
  | IpSocketV6 "u16 \<times> u16 \<times> u16 \<times> u16 \<times> u16 \<times> u16 \<times> u16 \<times> u16" u16 u32 u32

fun ip_socket_address_to_socket_addr :: "IpSocketAddress \<Rightarrow> socket_addr" where
  "ip_socket_address_to_socket_addr (IpSocketV4 address port) = SocketAddrV4 (to_ipv4_addr address) port"
| "ip_socket_address_to_socket_addr (IpSocketV6 address port flow scope) = SocketAddrV6 (to_ipv6_addr address) port flow scope"

fun socket_addr_to_ip_socket_address :: "socket_addr \<Rightarrow> IpSocketAddress" where
  "socket_addr_to_ip_socket_address (SocketAddrV4 ip port) = IpSocketV4 (from_ipv4_addr ip) port"
| "socket_addr_to_ip_socket_address (SocketAddrV6 ip port flow scope) = IpSocketV6 (from_ipv6_addr ip) port flow scope"

section \<open>Parts of a socket the handlers read\<close>

definition nt_local_address :: "'os tcp_os \<Rightarrow> ('os, 'ch, 'f) NetworkTcpSocket \<Rightarrow> (ErrorCode, socket_addr) result" where
  "nt_local_address os s =
     (let local = (\<lambda>sk. map_sum ErrorCode_from_io_error id (os_local_addr os sk)) in
      (case nt_state s of
         N_Bound sk \<Rightarrow> local sk | N_Connected sk \<Rightarrow> local sk | N_P2Streaming sk \<Rightarrow> local sk | N_Listening sk _ \<Rightarrow> local sk
       | _ \<Rightarrow> Err InvalidState))"

definition nt_tcp_stream_arc :: "('os, 'ch, 'f) NetworkTcpSocket \<Rightarrow> (ErrorCode, 'os) result" where
  "nt_tcp_stream_arc s = (case nt_state s of N_Connected sk \<Rightarrow> Ok sk | N_P2Streaming sk \<Rightarrow> Ok sk | _ \<Rightarrow> Err InvalidState)"

definition nt_remote_address :: "'os tcp_os \<Rightarrow> ('os, 'ch, 'f) NetworkTcpSocket \<Rightarrow> (ErrorCode, socket_addr) result" where
  "nt_remote_address os s =
     bind_result (nt_tcp_stream_arc s) (\<lambda>stream. map_sum ErrorCode_from_io_error id (os_peer_addr os stream))"

definition ts_local_address :: "'os tcp_os \<Rightarrow> ('os, 'ch, 'f, 'p) TcpSocket \<Rightarrow> (ErrorCode, socket_addr) result" where
  "ts_local_address os self =
     (case self of
        TS_Network socket \<Rightarrow> nt_local_address os socket
      | TS_Unspecified socket _ \<Rightarrow> nt_local_address os socket
      | TS_Loopback socket \<Rightarrow> lo_local_address socket)"

definition ts_remote_address :: "'os tcp_os \<Rightarrow> ('os, 'ch, 'f, 'p) TcpSocket \<Rightarrow> (ErrorCode, socket_addr) result" where
  "ts_remote_address os self =
     (case self of
        TS_Network socket \<Rightarrow> nt_remote_address os socket
      | TS_Unspecified socket _ \<Rightarrow> nt_remote_address os socket
      | TS_Loopback socket \<Rightarrow> lo_remote_address socket)"

text \<open>\<open>NetworkTcpSocket::new\<close>; opening the descriptor, IPv6-only for that family, is \<open>os_new\<close>.\<close>

definition ts_new :: "'os tcp_os \<Rightarrow> AllowedNetworkUses \<Rightarrow> SocketAddressFamily \<Rightarrow> (ErrorCode, ('os, 'ch, 'f, 'p) TcpSocket) result" where
  "ts_new os uses family =
     (case check_allowed_tcp uses of
        Inl err \<Rightarrow> Err (ErrorCode_from_io_error err)
      | Inr _ \<Rightarrow>
          (case os_new os family of
             Inl err \<Rightarrow> Err (ErrorCode_from_io_error err)
           | Inr sk \<Rightarrow> Ok (TS_Network (nt_from_state (N_Default sk) family))))"

text \<open>Both halves become streams; the permits of a virtual one are its buffer plus one.\<close>

definition p2_streams ::
    "'p permits_lib \<Rightarrow> ('os, 'ch, 'f, 'p) TcpSocket \<Rightarrow> (SocketError, unit) result \<times> ('os, 'ch, 'f, 'p) TcpSocket" where
  "p2_streams plib self =
     (case self of
        TS_Network socket \<Rightarrow>
          (case nt_tcp_stream_arc socket of
             Inl e \<Rightarrow> (Err (socket_error_from_util e), self)
           | Inr stream \<Rightarrow>
               (case nt_state socket of
                  N_Connected _ \<Rightarrow> (Ok (), TS_Network (socket\<lparr>nt_state := N_P2Streaming stream\<rparr>))
                | _ \<Rightarrow> (Err (socket_error_from_util InvalidState), self)))
      | TS_Loopback socket \<Rightarrow>
          (case lo_st socket of
             L_Connected conn accepted \<Rightarrow>
               (let permits = min (if lo_send_buffer_size socket = - 1 then - 1 else lo_send_buffer_size socket + 1)
                                  MAX_TCP_SEND_BUFFER_SIZE
                in (Ok (), TS_Loopback (socket\<lparr>lo_st :=
                     L_P2Streaming (tc_local_address conn) (tc_remote_address conn) accepted (pl_new plib (unat permits))
                       (tc_rx conn) (tc_tx conn)\<rparr>)))
           | _ \<Rightarrow> (Err (socket_error_from_util InvalidState), self))
      | TS_Unspecified _ _ \<Rightarrow> (Err (socket_error_from_util InvalidState), self))"

section \<open>One store\<close>

text \<open>A deferred connect.\<close>

type_synonym ('os, 'ch) dial = "('os, 'ch) ConnectingTcpSocket \<times> socket_addr"

type_synonym ('os, 'ch, 'p) sock = "('os, 'ch, ('os, 'ch) dial, 'p) TcpSocket"

record ('ch, 'w, 's) store =
  st_ctx :: WasiSocketsCtx
  st_net :: "'ch Network"
  st_poisoned :: bool
  st_chan :: 'w
  st_shared :: "'s host_shared"

text \<open>What the handlers are given: the operating system, the channels, permits and semaphores.\<close>

record ('os, 'ch, 'w, 'p, 's) host_env =
  he_os :: "'os tcp_os"
  he_mpsc :: "('ch, 'w) mpsc_lib"
  he_permits :: "'p permits_lib"
  he_sem :: "'s semaphore_lib"

definition check_socket_addr ::
    "('os, 'ch, 'w, 'p, 's) host_env \<Rightarrow> instant \<Rightarrow> socket_addr \<Rightarrow> SocketAddrUse \<Rightarrow> ('ch, 'w, 's) store \<Rightarrow>
     (ErrorCode, Allowed) result \<times> ('ch, 'w, 's) store" where
  "check_socket_addr env clock addr reason st =
     (case SocketAddrCheck_check (he_sem env) clock (sc_check (st_ctx st)) addr reason (sc_resolved_names (st_ctx st)) (st_shared st) of
        (r, sh) \<Rightarrow> (r, st\<lparr>st_shared := sh\<rparr>))"

text \<open>The allowance the slots of this store belong to, and giving a slot back.\<close>

definition store_quota :: "('ch, 'w, 's) store \<Rightarrow> nat option" where
  "store_quota st = (case sc_check (st_ctx st) of SC_Default \<Rightarrow> None | SC_Policy p \<Rightarrow> sp_quota p)"

definition release_slot :: "'s semaphore_lib \<Rightarrow> nat \<Rightarrow> ConnectionSlot \<Rightarrow> 's host_shared \<Rightarrow> 's host_shared" where
  "release_slot lib q slot sh =
     (let r = sh_quotas sh in
      (case ConnectionSlot_drop lib slot (qr_minted r ! q) (qr_global r) of
         (quota, global) \<Rightarrow>
           sh\<lparr>sh_quotas := r\<lparr>qr_minted := (qr_minted r)[q := quota], qr_global := global, qr_slots := remove1 (q, slot) (qr_slots r)\<rparr>\<rparr>))"

definition drop_slot ::
    "('os, 'ch, 'w, 'p, 's) host_env \<Rightarrow> ConnectionSlot option \<Rightarrow> ('ch, 'w, 's) store \<Rightarrow> ('ch, 'w, 's) store" where
  "drop_slot env slot st =
     (case (store_quota st, slot) of
        (Some q, Some s) \<Rightarrow> st\<lparr>st_shared := release_slot (he_sem env) q s (st_shared st)\<rparr>
      | _ \<Rightarrow> st)"

text \<open>The slot a socket holds. A real socket that is replaced by a virtual one is dropped, and
  its slot with it.\<close>

fun ts_slot :: "('os, 'ch, 'f, 'p) TcpSocket \<Rightarrow> ConnectionSlot option" where
  "ts_slot (TS_Network s) = nt_quota_slot s"
| "ts_slot (TS_Loopback _) = None"
| "ts_slot (TS_Unspecified s _) = nt_quota_slot s"

definition settle ::
    "('os, 'ch, 'w, 'p, 's) host_env \<Rightarrow> ('os, 'ch, 'p) sock \<Rightarrow> ('os, 'ch, 'p) sock \<Rightarrow> ('ch, 'w, 's) store \<Rightarrow> ('ch, 'w, 's) store" where
  "settle env before after st = (if ts_slot after = None then drop_slot env (ts_slot before) st else st)"

section \<open>TCP calls\<close>

definition create_tcp_socket ::
    "('os, 'ch, 'w, 'p, 's) host_env \<Rightarrow> instant \<Rightarrow> SocketAddressFamily \<Rightarrow> ('ch, 'w, 's) store \<Rightarrow>
     (SocketError, ('os, 'ch, 'p) sock) result \<times> ('ch, 'w, 's) store" where
  "create_tcp_socket env clock family st =
     (case check_socket_addr env clock (implicit_bind_addr family) TcpCreate st of
        (Inl e, st) \<Rightarrow> (Err (socket_error_from_util e), st)
      | (Inr allowed, st) \<Rightarrow>
          (case ts_new (he_os env) (sc_uses (st_ctx st)) family of
             Inl e \<Rightarrow> (Err (socket_error_from_util e), drop_slot env (al_permit allowed) st)
           | Inr socket \<Rightarrow> (Ok (hold_quota_slot (al_permit allowed) socket), st)))"

text \<open>An unspecified address becomes loopback before the check.\<close>

definition tcp_start_bind ::
    "('os, 'ch, 'w, 'p, 's) host_env \<Rightarrow> instant \<Rightarrow> IpSocketAddress \<Rightarrow> ('os, 'ch, 'p) sock \<Rightarrow> ('ch, 'w, 's) store \<Rightarrow>
     (SocketError, unit) result \<times> ('os, 'ch, 'p) sock \<times> ('ch, 'w, 's) store" where
  "tcp_start_bind env clock local_address socket st =
     (let local_address = ip_socket_address_to_socket_addr local_address;
          local_address = (if is_unspecified (sa_ip local_address) then loopback_of local_address else local_address)
      in (case check_socket_addr env clock local_address TcpBind st of
            (Inl e, st) \<Rightarrow> (Err (socket_error_from_util e), socket, st)
          | (Inr allowed, st) \<Rightarrow>
              if st_poisoned st then (Err SE_Trap, socket, st)
              else (case ts_start_bind (he_os env) (al_addr allowed) (st_net st) socket of
                      (r, socket', n) \<Rightarrow>
                        (map_sum socket_error_from_util id r, socket', settle env socket socket' (st\<lparr>st_net := n\<rparr>)))))"

definition tcp_finish_bind ::
    "('os, 'ch, 'p) sock \<Rightarrow> ('ch, 'w, 's) store \<Rightarrow> (SocketError, unit) result \<times> ('os, 'ch, 'p) sock \<times> ('ch, 'w, 's) store" where
  "tcp_finish_bind socket st =
     (case ts_finish_bind socket of (r, socket) \<Rightarrow> (map_sum socket_error_from_util id r, socket, st))"

definition tcp_start_connect ::
    "('os, 'ch, 'w, 'p, 's) host_env \<Rightarrow> instant \<Rightarrow> IpSocketAddress \<Rightarrow> ('os, 'ch, 'p) sock \<Rightarrow> ('ch, 'w, 's) store \<Rightarrow>
     (SocketError, unit) result \<times> ('os, 'ch, 'p) sock \<times> ('ch, 'w, 's) store" where
  "tcp_start_connect env clock remote_address socket st =
     (case check_socket_addr env clock (ip_socket_address_to_socket_addr remote_address) TcpConnect st of
        (Inl e, st) \<Rightarrow> (Err (socket_error_from_util e), socket, st)
      | (Inr allowed, st) \<Rightarrow>
          if st_poisoned st then (Err SE_Trap, socket, st)
          else (case ts_start_connect (he_os env) (al_addr allowed) (al_plane allowed) (st_net st) socket of
                  None \<Rightarrow> (Err SE_Panic, socket, st\<lparr>st_poisoned := True\<rparr>)
                | Some (Inl e, socket', n) \<Rightarrow>
                    (Err (socket_error_from_util e), socket', settle env socket socket' (st\<lparr>st_net := n\<rparr>))
                | Some (Inr connecting, socket1, n) \<Rightarrow>
                    (case ts_set_pending_connect (connecting, al_addr allowed) socket1 of
                       (Inl e, socket') \<Rightarrow>
                         (Err (socket_error_from_util e), socket', settle env socket socket' (st\<lparr>st_net := n\<rparr>))
                     | (Inr _, socket') \<Rightarrow>
                         (Ok (), hold_quota_slot (al_permit allowed) socket', settle env socket socket' (st\<lparr>st_net := n\<rparr>)))))"

definition tcp_finish_connect ::
    "('os, 'ch, 'w, 'p, 's) host_env \<Rightarrow> (('os, 'ch) dial \<Rightarrow> ('os, 'ch) connect_result + ('os, 'ch) dial) \<Rightarrow>
     ('os, 'ch, 'p) sock \<Rightarrow> ('ch, 'w, 's) store \<Rightarrow>
     (SocketError, unit) result \<times> ('os, 'ch, 'p) sock \<times> ('ch, 'w, 's) store" where
  "tcp_finish_connect env poll socket st =
     (case ts_take_pending_connect poll socket of
        (Inl e, socket) \<Rightarrow> (Err (socket_error_from_util e), socket, st)
      | (Inr None, socket) \<Rightarrow> (Err (SE_Code P2_WouldBlock), socket, st)
      | (Inr (Some result), socket) \<Rightarrow>
          if st_poisoned st then (Err SE_Trap, socket, st)
          else (case ts_finish_connect (he_mpsc env) result (st_chan st) (st_net st) socket of
                  (Inl e, socket, n, w) \<Rightarrow> (Err (socket_error_from_util e), socket, st\<lparr>st_net := n, st_chan := w\<rparr>)
                | (Inr _, socket, n, w) \<Rightarrow>
                    (case p2_streams (he_permits env) socket of (r, socket) \<Rightarrow> (r, socket, st\<lparr>st_net := n, st_chan := w\<rparr>))))"

definition tcp_start_listen ::
    "('os, 'ch, 'w, 'p, 's) host_env \<Rightarrow> instant \<Rightarrow> ('os, 'ch, 'p) sock \<Rightarrow> ('ch, 'w, 's) store \<Rightarrow>
     (SocketError, unit) result \<times> ('os, 'ch, 'p) sock \<times> ('ch, 'w, 's) store" where
  "tcp_start_listen env clock socket st =
     (case ts_local_address (he_os env) socket of
        Inl e \<Rightarrow> (Err (socket_error_from_util e), socket, st)
      | Inr local_address \<Rightarrow>
          (case check_socket_addr env clock local_address TcpListen st of
             (Inl e, st) \<Rightarrow> (Err (socket_error_from_util e), socket, st)
           | (Inr _, st) \<Rightarrow>
               if st_poisoned st then (Err SE_Trap, socket, st)
               else (case ts_start_listen (he_mpsc env) (st_chan st) (st_net st) socket of
                       None \<Rightarrow> (Err SE_Panic, socket, st\<lparr>st_poisoned := True\<rparr>)
                     | Some (r, socket, n, w) \<Rightarrow>
                         (map_sum socket_error_from_util id r, socket, st\<lparr>st_net := n, st_chan := w\<rparr>))))"

definition tcp_set_listen_backlog_size ::
    "('os, 'ch, 'w, 'p, 's) host_env \<Rightarrow> u64 \<Rightarrow> ('os, 'ch, 'p) sock \<Rightarrow> ('ch, 'w, 's) store \<Rightarrow>
     (SocketError, unit) result \<times> ('os, 'ch, 'p) sock \<times> ('ch, 'w, 's) store" where
  "tcp_set_listen_backlog_size env value socket st =
     (case ts_set_listen_backlog_size (he_os env) value socket of (r, socket) \<Rightarrow> (map_sum socket_error_from_util id r, socket, st))"

definition tcp_finish_listen ::
    "('os, 'ch, 'w, 'p, 's) host_env \<Rightarrow> ('os, 'ch, 'p) sock \<Rightarrow> ('ch, 'w, 's) store \<Rightarrow>
     (SocketError, unit) result \<times> ('os, 'ch, 'p) sock \<times> ('ch, 'w, 's) store" where
  "tcp_finish_listen env socket st =
     (case ts_finish_listen (he_os env) socket of (r, socket) \<Rightarrow> (map_sum socket_error_from_util id r, socket, st))"

definition MAX_REFUSED_ACCEPTS_PER_CALL :: nat where "MAX_REFUSED_ACCEPTS_PER_CALL = 32"

fun is_network :: "('os, 'ch, 'f, 'p) TcpSocket \<Rightarrow> bool" where
  "is_network (TS_Network _) = True"
| "is_network _ = False"

text \<open>The accept loop, counting down the refusals that are left; a refused connection is reset
  and dropped, and holds no slot.\<close>

fun accept_loop ::
    "('os, 'ch, 'w, 'p, 's) host_env \<Rightarrow> instant \<Rightarrow> nat \<Rightarrow> ('os, 'ch, 'p) sock \<Rightarrow> ('ch, 'w, 's) store \<Rightarrow>
     (SocketError, ('os, 'ch, 'p) sock) result \<times> ('os, 'ch, 'p) sock \<times> ('ch, 'w, 's) store" where
  "accept_loop env clock 0 socket st = (Err (SE_Code P2_WouldBlock), socket, st)"
| "accept_loop env clock (Suc left) socket st =
     (case ts_accept (he_os env) (he_mpsc env) (st_chan st) socket of
        (Inl e, socket, w) \<Rightarrow> (Err (socket_error_from_util e), socket, st\<lparr>st_chan := w\<rparr>)
      | (Inr None, socket, w) \<Rightarrow> (Err (SE_Code P2_WouldBlock), socket, st\<lparr>st_chan := w\<rparr>)
      | (Inr (Some accepted), socket, w) \<Rightarrow>
          let st = st\<lparr>st_chan := w\<rparr>;
              reason = (if is_network accepted then TcpAccept else TcpAcceptVirtual)
          in (case ts_remote_address (he_os env) accepted of
                Inl _ \<Rightarrow> accept_loop env clock left socket st
              | Inr addr \<Rightarrow>
                  (case check_socket_addr env clock addr reason st of
                     (Inl _, st) \<Rightarrow> accept_loop env clock left socket st
                   | (Inr allowed, st) \<Rightarrow> (Ok (hold_quota_slot (al_permit allowed) accepted), socket, st))))"

definition tcp_accept ::
    "('os, 'ch, 'w, 'p, 's) host_env \<Rightarrow> instant \<Rightarrow> ('os, 'ch, 'p) sock \<Rightarrow> ('ch, 'w, 's) store \<Rightarrow>
     (SocketError, ('os, 'ch, 'p) sock) result \<times> ('os, 'ch, 'p) sock \<times> ('ch, 'w, 's) store" where
  "tcp_accept env clock socket st =
     (case accept_loop env clock MAX_REFUSED_ACCEPTS_PER_CALL socket st of
        (Inl e, socket, st) \<Rightarrow> (Err e, socket, st)
      | (Inr accepted, socket, st) \<Rightarrow>
          (case p2_streams (he_permits env) accepted of
             (Inl e, accepted) \<Rightarrow> (Err e, socket, drop_slot env (ts_slot accepted) st)
           | (Inr _, accepted) \<Rightarrow> (Ok accepted, socket, st)))"

definition tcp_drop ::
    "('os, 'ch, 'w, 'p, 's) host_env \<Rightarrow> ('os, 'ch, 'p) sock \<Rightarrow> ('ch, 'w, 's) store \<Rightarrow> (SocketError, unit) result \<times> ('ch, 'w, 's) store" where
  "tcp_drop env socket st =
     (let st = drop_slot env (ts_slot socket) st in
      if st_poisoned st then (Err SE_Trap, st)
      else (case ts_drop socket (st_net st) of
              Inl _ \<Rightarrow> (Err SE_Trap, st)
            | Inr n \<Rightarrow> (Ok (), st\<lparr>st_net := n\<rparr>)))"

section \<open>Name lookups\<close>

record Answer =
  an_addresses :: "ipaddr list"
  an_observation :: "Observation option"

definition Answer_from :: "Lookup \<Rightarrow> Answer" where
  "Answer_from l = \<lparr>an_addresses = lk_addresses l, an_observation = lk_observation l\<rparr>"

text \<open>A stream waits for the lookup of a host, or holds its answer.\<close>

datatype ResolveAddressStream = RS_Waiting url_host | RS_Done "(SocketError, Answer) result"

definition resolve_addresses ::
    "url_lib \<Rightarrow> string \<Rightarrow> ('ch, 'w, 's) store \<Rightarrow> (SocketError, ResolveAddressStream) result" where
  "resolve_addresses ulib name st =
     (case internal_resolve name of
        Some (Inl _) \<Rightarrow> Err (SE_Code P2_NameUnresolvable)
      | Some (Inr internal) \<Rightarrow> Ok (RS_Done (Ok (Answer_from (Lookup_fixed [InternalName_address internal]))))
      | None \<Rightarrow>
          (case parse_host ulib name of
             Inl e \<Rightarrow> Err (socket_error_from_util e)
           | Inr host \<Rightarrow>
               if \<not> check_allowed_lookup (sc_allowed_ip_name_lookups (st_ctx st)) (sc_allowed_hosts (st_ctx st)) host
               then Err (SE_Code P2_PermanentResolverFailure)
               else Ok (RS_Waiting host)))"

text \<open>The next address is recorded as it is handed over. Polling a lookup that has not finished
  is \<open>None\<close>; the recording itself always returns.\<close>

definition hand_over ::
    "instant \<Rightarrow> Answer \<Rightarrow> ('ch, 'w, 's) store \<Rightarrow> (ipaddr option \<times> Answer \<times> ('ch, 'w, 's) store) option" where
  "hand_over clock answer st =
     (case an_addresses answer of
        [] \<Rightarrow> Some (None, answer, st)
      | address # rest \<Rightarrow>
          (case an_observation answer of
             None \<Rightarrow> Some (Some address, answer\<lparr>an_addresses := rest\<rparr>, st)
           | Some observation \<Rightarrow>
               map_option (\<lambda>h. (Some address, answer\<lparr>an_addresses := rest\<rparr>, st\<lparr>st_ctx := (st_ctx st)\<lparr>sc_resolved_names := h\<rparr>\<rparr>))
                 (ResolvedNames_record clock (ob_name observation) [address] (ob_observed observation) (sc_resolved_names (st_ctx st)))))"

definition resolve_next_address ::
    "instant \<Rightarrow> (SocketError, Lookup) result option \<Rightarrow> ResolveAddressStream \<Rightarrow> ('ch, 'w, 's) store \<Rightarrow>
     ((SocketError, IpAddress option) result \<times> ResolveAddressStream \<times> ('ch, 'w, 's) store) option" where
  "resolve_next_address clock polled stream st =
     (case (case stream of RS_Waiting host \<Rightarrow> map_option (map_sum id Answer_from) polled | RS_Done r \<Rightarrow> Some r) of
        None \<Rightarrow> Some (Err (SE_Code P2_WouldBlock), stream, st)
      | Some (Inl e) \<Rightarrow> Some (Err e, RS_Done (Ok (Answer_from (Lookup_fixed []))), st)
      | Some (Inr answer) \<Rightarrow>
          map_option (\<lambda>(next, answer, st). (Ok (map_option ip_addr_to_ip_address next), RS_Done (Ok answer), st)) (hand_over clock answer st))"

definition stream_ready :: "(SocketError, Lookup) result \<Rightarrow> ResolveAddressStream \<Rightarrow> ResolveAddressStream" where
  "stream_ready polled stream =
     (case stream of RS_Waiting _ \<Rightarrow> RS_Done (map_sum id Answer_from polled) | RS_Done r \<Rightarrow> RS_Done r)"

section \<open>Runs of a store\<close>

text \<open>A call on one socket.\<close>

inductive sock_call ::
    "('os, 'ch, 'w, 'p, 's) host_env \<Rightarrow> ('os, 'ch, 'p) sock \<Rightarrow> ('ch, 'w, 's) store \<Rightarrow> ('os, 'ch, 'p) sock \<Rightarrow> ('ch, 'w, 's) store \<Rightarrow> bool"
  for env where
  start_bind: "tcp_start_bind env clock addr s st = (r, s', st') \<Longrightarrow> sock_call env s st s' st'"
| finish_bind: "tcp_finish_bind s st = (r, s', st') \<Longrightarrow> sock_call env s st s' st'"
| start_connect: "tcp_start_connect env clock addr s st = (r, s', st') \<Longrightarrow> sock_call env s st s' st'"
| finish_connect: "tcp_finish_connect env poll s st = (r, s', st') \<Longrightarrow> sock_call env s st s' st'"
| start_listen: "tcp_start_listen env clock s st = (r, s', st') \<Longrightarrow> sock_call env s st s' st'"
| finish_listen: "tcp_finish_listen env s st = (r, s', st') \<Longrightarrow> sock_call env s st s' st'"
| set_backlog: "tcp_set_listen_backlog_size env value s st = (r, s', st') \<Longrightarrow> sock_call env s st s' st'"

text \<open>The store with its live sockets and lookups, and the log of the addresses handed over
  with a name.\<close>

record ('os, 'ch, 'w, 'p, 's) store_world =
  sw_store :: "('ch, 'w, 's) store"
  sw_socks :: "('os, 'ch, 'p) sock list"
  sw_streams :: "ResolveAddressStream list"
  sw_handed :: "Recording list"

fun stream_answer :: "(SocketError, Lookup) result option \<Rightarrow> ResolveAddressStream \<Rightarrow> Answer option" where
  "stream_answer polled (RS_Waiting host) = (case polled of Some (Inr l) \<Rightarrow> Some (Answer_from l) | _ \<Rightarrow> None)"
| "stream_answer polled (RS_Done r) = (case r of Inr a \<Rightarrow> Some a | Inl _ \<Rightarrow> None)"

definition handed :: "instant \<Rightarrow> Answer option \<Rightarrow> Recording list" where
  "handed clock answer =
     (case answer of
        Some a \<Rightarrow> (case (an_addresses a, an_observation a) of
          (address # _, Some ob) \<Rightarrow> [\<lparr>rec_name = ob_name ob, rec_addrs = [address], rec_observed = ob_observed ob, rec_now = clock\<rparr>]
        | _ \<Rightarrow> [])
      | None \<Rightarrow> [])"

text \<open>What a finished lookup of a host can be.\<close>

definition lookup_outcome :: "ResolveAddressStream \<Rightarrow> (SocketError, Lookup) result \<Rightarrow> bool" where
  "lookup_outcome stream polled \<longleftrightarrow>
     (\<forall>host. stream = RS_Waiting host \<longrightarrow>
        (\<exists>(resolver :: string \<Rightarrow> (unit, ipaddr list) result) t.
           polled = map_sum (\<lambda>_. SE_Code P2_NameUnresolvable) id (lookup_blocking resolver t host)))"

text \<open>The calls of one guest in any order, interleaved with what other holders of the
  registry, the table and the virtual network do; they do not drop the slots of this store's
  sockets.\<close>

inductive store_step ::
    "('os, 'ch, 'w, 'p, 's) host_env \<Rightarrow> url_lib \<Rightarrow> ('os, 'ch, 'w, 'p, 's) store_world \<Rightarrow> ('os, 'ch, 'w, 'p, 's) store_world \<Rightarrow> bool"
  for env ulib where
  created: "create_tcp_socket env clock family (sw_store w) = (Ok s, st') \<Longrightarrow>
    store_step env ulib w (w\<lparr>sw_store := st', sw_socks := s # sw_socks w\<rparr>)"
| not_created: "create_tcp_socket env clock family (sw_store w) = (Err e, st') \<Longrightarrow>
    store_step env ulib w (w\<lparr>sw_store := st'\<rparr>)"
| called: "i < length (sw_socks w) \<Longrightarrow> sock_call env (sw_socks w ! i) (sw_store w) s' st' \<Longrightarrow>
    store_step env ulib w (w\<lparr>sw_store := st', sw_socks := (sw_socks w)[i := s']\<rparr>)"
| accepted: "i < length (sw_socks w) \<Longrightarrow> tcp_accept env clock (sw_socks w ! i) (sw_store w) = (Ok child, s', st') \<Longrightarrow>
    store_step env ulib w (w\<lparr>sw_store := st', sw_socks := child # (sw_socks w)[i := s']\<rparr>)"
| not_accepted: "i < length (sw_socks w) \<Longrightarrow> tcp_accept env clock (sw_socks w ! i) (sw_store w) = (Err e, s', st') \<Longrightarrow>
    store_step env ulib w (w\<lparr>sw_store := st', sw_socks := (sw_socks w)[i := s']\<rparr>)"
| dropped: "i < length (sw_socks w) \<Longrightarrow> tcp_drop env (sw_socks w ! i) (sw_store w) = (r, st') \<Longrightarrow>
    store_step env ulib w (w\<lparr>sw_store := st', sw_socks := remove_nth i (sw_socks w)\<rparr>)"
| looked_up: "resolve_addresses ulib name (sw_store w) = Ok stream \<Longrightarrow>
    store_step env ulib w (w\<lparr>sw_streams := stream # sw_streams w\<rparr>)"
| readied: "j < length (sw_streams w) \<Longrightarrow> lookup_outcome (sw_streams w ! j) polled \<Longrightarrow>
    store_step env ulib w (w\<lparr>sw_streams := (sw_streams w)[j := stream_ready polled (sw_streams w ! j)]\<rparr>)"
| next_address: "j < length (sw_streams w) \<Longrightarrow> (\<forall>p. polled = Some p \<longrightarrow> lookup_outcome (sw_streams w ! j) p) \<Longrightarrow>
    resolve_next_address clock polled (sw_streams w ! j) (sw_store w) = Some (r, stream', st') \<Longrightarrow>
    store_step env ulib w (w\<lparr>sw_store := st', sw_streams := (sw_streams w)[j := stream'],
      sw_handed := sw_handed w @ handed clock (stream_answer polled (sw_streams w ! j))\<rparr>)"
| elsewhere: "(quota_step (he_sem env))\<^sup>*\<^sup>* (sh_quotas (st_shared (sw_store w))) (sh_quotas sh') \<Longrightarrow>
    (\<forall>q. store_quota (sw_store w) = Some q \<longrightarrow>
       mset (map (Pair q) (List.map_filter ts_slot (sw_socks w))) \<subseteq># mset (qr_slots (sh_quotas sh'))) \<Longrightarrow>
    store_step env ulib w (w\<lparr>sw_store := (sw_store w)\<lparr>st_shared := sh', st_net := n', st_poisoned := poisoned', st_chan := chan'\<rparr>\<rparr>)"

definition new_store :: "SocketPolicy \<Rightarrow> network_ref \<Rightarrow> allowed_ip_name list \<Rightarrow> 'ch Network \<Rightarrow> 'w \<Rightarrow> 's host_shared \<Rightarrow>
    ('os, 'ch, 'w, 'p, 's) store_world" where
  "new_store p loopback lookups net chan sh =
     \<lparr>sw_store = \<lparr>st_ctx = WasiSocketsCtx_for_store p loopback lookups, st_net = net, st_poisoned = False,
        st_chan = chan, st_shared = sh\<rparr>, sw_socks = [], sw_streams = [], sw_handed = []\<rparr>"

section \<open>Slots and sockets\<close>

fun is_real :: "('os, 'ch, 'f, 'p) TcpSocket \<Rightarrow> bool" where
  "is_real (TS_Loopback _) = False"
| "is_real _ = True"

definition slot_same :: "('os, 'ch, 'f, 'p) TcpSocket \<Rightarrow> ('os, 'ch, 'f, 'p) TcpSocket \<Rightarrow> bool" where
  "slot_same s s' \<longleftrightarrow> is_real s' = is_real s \<and> ts_slot s' = ts_slot s"

definition slot_kept :: "('os, 'ch, 'f, 'p) TcpSocket \<Rightarrow> ('os, 'ch, 'f, 'p) TcpSocket \<Rightarrow> bool" where
  "slot_kept s s' \<longleftrightarrow> (is_real s' \<longrightarrow> is_real s \<and> ts_slot s' = ts_slot s)"

lemma slot_virtual [simp]: "\<not> is_real s \<Longrightarrow> ts_slot s = None"
  by (cases s) auto

lemma slot_same_refl [simp]: "slot_same s s"
  by (simp add: slot_same_def)

lemma slot_same_kept: "slot_same s s' \<Longrightarrow> slot_kept s s'"
  by (simp add: slot_same_def slot_kept_def)

lemma nt_ops_slot:
  "nt_start_bind os addr s = (r1, s1) \<Longrightarrow> nt_quota_slot s1 = nt_quota_slot s"
  "nt_finish_bind s = (r2, s2) \<Longrightarrow> nt_quota_slot s2 = nt_quota_slot s"
  "nt_start_connect s = Some (sk, s3) \<Longrightarrow> nt_quota_slot s3 = nt_quota_slot s"
  "nt_set_pending_connect f s = (r4, s4) \<Longrightarrow> nt_quota_slot s4 = nt_quota_slot s"
  "nt_take_pending_connect poll s = (r5, s5) \<Longrightarrow> nt_quota_slot s5 = nt_quota_slot s"
  "nt_finish_connect res s = (r6, s6) \<Longrightarrow> nt_quota_slot s6 = nt_quota_slot s"
  "nt_start_listen s = (r7, s7) \<Longrightarrow> nt_quota_slot s7 = nt_quota_slot s"
  "nt_finish_listen os s = (r8, s8) \<Longrightarrow> nt_quota_slot s8 = nt_quota_slot s"
  "nt_accept os s = (r9, s9) \<Longrightarrow> nt_quota_slot s9 = nt_quota_slot s"
  "nt_set_listen_backlog_size os v s = (r10, s10) \<Longrightarrow> nt_quota_slot s10 = nt_quota_slot s"
  by (auto simp: nt_start_bind_def nt_finish_bind_def nt_start_connect_def nt_set_pending_connect_def nt_take_pending_connect_def
      nt_finish_connect_def nt_start_listen_def nt_finish_listen_def nt_accept_def nt_set_listen_backlog_size_def Let_def
      split: net_state.splits sum.splits option.splits ConnectingTcpStream.splits if_splits prod.splits)

lemma ts_ops_same:
  "ts_finish_bind s = (r1, s1) \<Longrightarrow> slot_same s s1"
  "ts_set_pending_connect f s = (r2, s2) \<Longrightarrow> slot_same s s2"
  "ts_take_pending_connect poll s = (r3, s3) \<Longrightarrow> slot_same s s3"
  "ts_finish_connect lib res w n s = (r4, s4, n4, w4) \<Longrightarrow> slot_same s s4"
  "ts_start_listen lib w n s = Some (r5, s5, n5, w5) \<Longrightarrow> slot_same s s5"
  "ts_finish_listen os s = (r6, s6) \<Longrightarrow> slot_same s s6"
  "ts_accept os lib w s = (r7, s7, w7) \<Longrightarrow> slot_same s s7"
  "ts_set_listen_backlog_size os v s = (r8, s8) \<Longrightarrow> slot_same s s8"
  by (cases s; auto simp: slot_same_def ts_finish_bind_def ts_set_pending_connect_def ts_take_pending_connect_def
      ts_finish_connect_def ts_start_listen_def ts_finish_listen_def ts_accept_def ts_set_listen_backlog_size_def
      dest: nt_ops_slot split: prod.splits sum.splits option.splits)+

lemma bind_virtual_slot:
  "bind_virtual os unspec addr n socket = (r, s', n') \<Longrightarrow> is_real s' \<longrightarrow> ts_slot s' = nt_quota_slot socket"
  by (auto simp: bind_virtual_def split: sum.splits prod.splits if_splits)

lemma ts_start_bind_kept: "ts_start_bind os addr n s = (r, s', n') \<Longrightarrow> slot_kept s s'"
  by (cases s) (auto simp: slot_kept_def ts_start_bind_def Let_def dest!: bind_virtual_slot dest: nt_ops_slot
      split: if_splits prod.splits sum.splits net_state.splits)

lemma connect_unbound_slot:
  "connect_unbound os addr n socket = (r, s', n') \<Longrightarrow> is_real s' \<longrightarrow> ts_slot s' = nt_quota_slot socket"
  by (auto simp: connect_unbound_def split: sum.splits prod.splits net_state.splits)

lemma ts_start_connect_kept: "ts_start_connect os addr plane n s = Some (r, s', n') \<Longrightarrow> slot_kept s s'"
  by (cases s) (auto simp: slot_kept_def ts_start_connect_def Let_def dest!: connect_unbound_slot dest: nt_ops_slot
      split: if_splits prod.splits sum.splits)

lemma slot_kept_trans: "slot_kept s s' \<Longrightarrow> slot_same s' s'' \<Longrightarrow> slot_kept s s''"
  by (auto simp: slot_kept_def slot_same_def)

lemma p2_streams_same: "p2_streams plib s = (r, s') \<Longrightarrow> slot_same s s'"
  by (cases s) (auto simp: slot_same_def p2_streams_def Let_def split: sum.splits net_state.splits lo_state.splits)

section \<open>The ledger of a store\<close>

abbreviation slots_of :: "('ch, 'w, 's) store \<Rightarrow> (nat \<times> ConnectionSlot) list" where
  "slots_of st \<equiv> qr_slots (sh_quotas (st_shared st))"

text \<open>The store of a policy, whose registry is in balance and holds these slots.\<close>

definition store_holds ::
    "'s semaphore_lib \<Rightarrow> QuotaLimits \<Rightarrow> nat option \<Rightarrow> SocketPolicy \<Rightarrow> ConnectionSlot list \<Rightarrow> ('ch, 'w, 's) store \<Rightarrow> bool" where
  "store_holds lib limits hw p slots st \<longleftrightarrow>
     sc_check (st_ctx st) = SC_Policy p \<and> quota_inv lib limits hw (sh_quotas (st_shared st)) \<and>
     (\<forall>q. sp_quota p = Some q \<longrightarrow> q < length (qr_minted (sh_quotas (st_shared st))) \<and>
        mset (map (Pair q) slots) \<subseteq># mset (slots_of st))"

lemma minted_grows: "quota_step lib r r' \<Longrightarrow> length (qr_minted r) \<le> length (qr_minted r')"
  by (erule quota_stepE) (auto simp: QuotaRegistry_for_guest_def split: option.splits)

lemma minted_grows_star: "(quota_step lib)\<^sup>*\<^sup>* r r' \<Longrightarrow> length (qr_minted r) \<le> length (qr_minted r')"
  by (induction rule: rtranclp_induct) (auto dest: minted_grows)

lemma store_holds_cong:
  "st_ctx st' = st_ctx st \<Longrightarrow> sh_quotas (st_shared st') = sh_quotas (st_shared st) \<Longrightarrow>
     store_holds lib limits hw p slots st' = store_holds lib limits hw p slots st"
  by (simp add: store_holds_def)

lemma store_holds_perm:
  "mset slots = mset slots' \<Longrightarrow> store_holds lib limits hw p slots st = store_holds lib limits hw p slots' st"
  by (simp add: store_holds_def mset_map)

lemma store_quota_holds: "store_holds lib limits hw p slots st \<Longrightarrow> store_quota st = sp_quota p"
  by (simp add: store_holds_def store_quota_def)

text \<open>A check leaves the slots of the sockets alone, and adds the one it hands out.\<close>

lemma check_holds:
  assumes h: "store_holds (he_sem env) limits hw p slots st"
    and c: "check_socket_addr env clock addr reason st = (r, st')"
  shows "st_ctx st' = st_ctx st"
    and "case r of
      Inl e \<Rightarrow> store_holds (he_sem env) limits hw p slots st'
    | Inr a \<Rightarrow> store_holds (he_sem env) limits hw p ((case al_permit a of Some x \<Rightarrow> [x] | None \<Rightarrow> []) @ slots) st' \<and>
        (al_permit a \<noteq> None \<longleftrightarrow> opens_descriptor reason \<and> sp_quota p \<noteq> None)"
proof -
  let ?sh = "st_shared st"
  obtain d sh' where d: "decide_for_store (he_sem env) clock p reason addr (sc_resolved_names (st_ctx st)) ?sh = (d, sh')" by force
  have st': "st' = st\<lparr>st_shared := sh'\<rparr>" and r: "r = into_allowed d"
    using c h d by (simp_all add: check_socket_addr_def SocketAddrCheck_check_def store_holds_def)
  show "st_ctx st' = st_ctx st" by (simp add: st')
  have q: "\<forall>q. sp_quota p = Some q \<longrightarrow> q < length (qr_minted (sh_quotas ?sh))" using h by (simp add: store_holds_def)
  note acc = decide_for_store_accounts [OF q d]
  have inv: "quota_inv (he_sem env) limits hw (sh_quotas sh')"
    using quotas.inv_reachable [of "he_sem env" "sh_quotas ?sh" "sh_quotas sh'"] acc h by (simp add: store_holds_def)
  have len: "length (qr_minted (sh_quotas ?sh)) \<le> length (qr_minted (sh_quotas sh'))" using acc minted_grows_star by blast
  show "case r of
      Inl e \<Rightarrow> store_holds (he_sem env) limits hw p slots st'
    | Inr a \<Rightarrow> store_holds (he_sem env) limits hw p ((case al_permit a of Some x \<Rightarrow> [x] | None \<Rightarrow> []) @ slots) st' \<and>
        (al_permit a \<noteq> None \<longleftrightarrow> opens_descriptor reason \<and> sp_quota p \<noteq> None)"
    using h acc inv len by (cases d) (auto simp: r st' store_holds_def split: option.splits)
qed

lemma release_slot_step:
  assumes "(q, slot) \<in> set (qr_slots (sh_quotas sh))"
  shows "quota_step lib (sh_quotas sh) (sh_quotas (release_slot lib q slot sh))"
    and "qr_slots (sh_quotas (release_slot lib q slot sh)) = remove1 (q, slot) (qr_slots (sh_quotas sh))"
proof -
  let ?r = "sh_quotas sh"
  obtain ys zs where y: "qr_slots ?r = ys @ (q, slot) # zs" "(q, slot) \<notin> set ys" using assms by (meson split_list_first)
  then have rm: "remove1 (q, slot) (qr_slots ?r) = remove_nth (length ys) (qr_slots ?r)" by (simp add: remove1_append)
  obtain quota g where d: "ConnectionSlot_drop lib slot (qr_minted ?r ! q) (qr_global ?r) = (quota, g)" by force
  have "quota_step lib ?r (?r\<lparr>qr_minted := (qr_minted ?r)[q := quota], qr_global := g, qr_slots := remove_nth (length ys) (qr_slots ?r)\<rparr>)"
    by (rule quota_step.released [OF _ _ d]) (simp_all add: y)
  then show "quota_step lib ?r (sh_quotas (release_slot lib q slot sh))"
    using rm d by (simp add: release_slot_def Let_def)
  show "qr_slots (sh_quotas (release_slot lib q slot sh)) = remove1 (q, slot) (qr_slots ?r)"
    using d by (simp add: release_slot_def Let_def)
qed

lemma drop_slot_holds:
  assumes "store_holds (he_sem env) limits hw p ((case slot of Some x \<Rightarrow> [x] | None \<Rightarrow> []) @ slots) st"
  shows "store_holds (he_sem env) limits hw p slots (drop_slot env slot st)" "st_ctx (drop_slot env slot st) = st_ctx st"
proof -
  show "st_ctx (drop_slot env slot st) = st_ctx st" by (simp add: drop_slot_def split: option.splits)
  show "store_holds (he_sem env) limits hw p slots (drop_slot env slot st)"
  proof (cases "slot = None \<or> sp_quota p = None")
    case True
    with assms show ?thesis by (auto simp: drop_slot_def store_quota_holds [OF assms] store_holds_def split: option.splits)
  next
    case False
    then obtain x q where x: "slot = Some x" "sp_quota p = Some q" by auto
    have sub: "add_mset (q, x) (mset (map (Pair q) slots)) \<subseteq># mset (slots_of st)" using assms x by (simp add: store_holds_def)
    then have m: "(q, x) \<in> set (slots_of st)" by (meson insert_subset_eq_iff in_multiset_in_set)
    note rel = release_slot_step [OF m, of "he_sem env"]
    have "quota_inv (he_sem env) limits hw (sh_quotas (release_slot (he_sem env) q x (st_shared st)))"
      using quotas.inv_reachable [OF r_into_rtranclp [of "quota_step (he_sem env)", OF rel(1)]] assms by (simp add: store_holds_def)
    moreover have "mset (map (Pair q) slots) \<subseteq># mset (remove1 (q, x) (slots_of st))"
      using sub by (simp add: insert_subset_eq_iff)
    ultimately show ?thesis
      using assms x minted_grows [OF rel(1)] rel(2)
      by (auto simp: drop_slot_def store_quota_holds [OF assms] store_holds_def)
  qed
qed

abbreviation sl :: "('os, 'ch, 'f, 'p) TcpSocket \<Rightarrow> ConnectionSlot list" where
  "sl s \<equiv> (case ts_slot s of Some x \<Rightarrow> [x] | None \<Rightarrow> [])"

lemma settle_holds:
  assumes "slot_kept s s'" "store_holds (he_sem env) limits hw p (sl s @ rest) st"
  shows "store_holds (he_sem env) limits hw p (sl s' @ rest) (settle env s s' st)"
proof (cases "ts_slot s' = None")
  case True
  then show ?thesis using drop_slot_holds(1) [OF assms(2)] by (simp add: settle_def)
next
  case False
  then have "is_real s'" by (cases s') auto
  with False assms show ?thesis by (auto simp: settle_def slot_kept_def)
qed

lemma store_holds_fields [simp]:
  "store_holds lib limits hw p slots (st\<lparr>st_net := n\<rparr>) = store_holds lib limits hw p slots st"
  "store_holds lib limits hw p slots (st\<lparr>st_chan := c\<rparr>) = store_holds lib limits hw p slots st"
  "store_holds lib limits hw p slots (st\<lparr>st_poisoned := b\<rparr>) = store_holds lib limits hw p slots st"
  by (simp_all add: store_holds_def)

lemma hold_none [simp]: "hold_quota_slot None s = s"
  by (cases s) (simp_all add: hold_quota_slot_def)

lemma check_no_slot:
  assumes "store_holds (he_sem env) limits hw p slots st" "check_socket_addr env clock addr reason st = (r, st')" "\<not> opens_descriptor reason"
  shows "store_holds (he_sem env) limits hw p slots st'" "r = Inr a \<Longrightarrow> al_permit a = None"
  using check_holds(2) [OF assms(1,2)] assms(3) by (auto split: sum.splits)

lemma opens_simps [simp]:
  "\<not> opens_descriptor TcpBind" "\<not> opens_descriptor TcpConnect" "\<not> opens_descriptor TcpListen"
  "opens_descriptor TcpCreate" "opens_descriptor TcpAccept" "\<not> opens_descriptor TcpAcceptVirtual"
  by (simp_all add: opens_descriptor_def)

lemma tcp_start_bind_holds:
  assumes h: "store_holds (he_sem env) limits hw p (sl s @ rest) st" and c: "tcp_start_bind env clock addr s st = (r, s', st')"
  shows "store_holds (he_sem env) limits hw p (sl s' @ rest) st' \<and> slot_kept s s'"
proof -
  let ?a = "ip_socket_address_to_socket_addr addr"
  let ?l = "if is_unspecified (sa_ip ?a) then loopback_of ?a else ?a"
  obtain k st1 where k: "check_socket_addr env clock ?l TcpBind st = (k, st1)" by force
  have h1: "store_holds (he_sem env) limits hw p (sl s @ rest) st1" using check_no_slot(1) [OF h k] by simp
  show ?thesis
  proof (cases "\<exists>a. k = Inr a \<and> \<not> st_poisoned st1")
    case False
    with c k have "s' = s" "st' = st1" by (auto simp: tcp_start_bind_def Let_def split: sum.splits if_splits)
    with h1 show ?thesis by (simp add: slot_same_kept)
  next
    case True
    then obtain a where a: "k = Inr a" "\<not> st_poisoned st1" by blast
    obtain r1 s1 n where b: "ts_start_bind (he_os env) (al_addr a) (st_net st1) s = (r1, s1, n)" by (metis prod_cases3)
    have e: "s' = s1" "st' = settle env s s1 (st1\<lparr>st_net := n\<rparr>)" using c k a b by (auto simp: tcp_start_bind_def Let_def)
    have kept: "slot_kept s s1" by (rule ts_start_bind_kept [OF b])
    from settle_holds [OF kept, of env limits hw p rest "st1\<lparr>st_net := n\<rparr>"] h1 kept show ?thesis by (simp add: e)
  qed
qed

lemma tcp_start_connect_holds:
  assumes h: "store_holds (he_sem env) limits hw p (sl s @ rest) st" and c: "tcp_start_connect env clock addr s st = (r, s', st')"
  shows "store_holds (he_sem env) limits hw p (sl s' @ rest) st' \<and> slot_kept s s'"
proof -
  obtain k st1 where k: "check_socket_addr env clock (ip_socket_address_to_socket_addr addr) TcpConnect st = (k, st1)" by force
  have h1: "store_holds (he_sem env) limits hw p (sl s @ rest) st1" using check_no_slot(1) [OF h k] by simp
  show ?thesis
  proof (cases "\<exists>a x. k = Inr a \<and> \<not> st_poisoned st1 \<and> ts_start_connect (he_os env) (al_addr a) (al_plane a) (st_net st1) s = Some x")
    case False
    with c k have "s' = s" "st' = st1 \<or> st' = st1\<lparr>st_poisoned := True\<rparr>"
      by (auto simp: tcp_start_connect_def split: sum.splits if_splits option.splits)
    with h1 show ?thesis by (auto simp: slot_same_kept)
  next
    case True
    then obtain a r1 s1 n where a: "k = Inr a" "\<not> st_poisoned st1"
      and b: "ts_start_connect (he_os env) (al_addr a) (al_plane a) (st_net st1) s = Some (r1, s1, n)" by auto
    have perm: "al_permit a = None" using check_no_slot(2) [OF h k] a(1) by simp
    have kept: "slot_kept s s1" by (rule ts_start_connect_kept [OF b])
    have "slot_kept s s' \<and> st' = settle env s s' (st1\<lparr>st_net := n\<rparr>)"
    proof (cases r1)
      case (Inl e)
      with c k a b kept show ?thesis by (auto simp: tcp_start_connect_def)
    next
      case (Inr ct)
      obtain r2 s2 where p2: "ts_set_pending_connect (ct, al_addr a) s1 = (r2, s2)" by force
      from slot_kept_trans [OF kept ts_ops_same(2) [OF p2]] have "slot_kept s s2" .
      with c k a b Inr p2 perm show ?thesis by (cases r2) (auto simp: tcp_start_connect_def)
    qed
    with settle_holds [of s s' env limits hw p rest "st1\<lparr>st_net := n\<rparr>"] h1 show ?thesis by simp
  qed
qed

lemma slot_same_sl: "slot_same s s' \<Longrightarrow> sl s' = sl s"
  by (simp add: slot_same_def)

lemma slot_same_trans: "slot_same s s' \<Longrightarrow> slot_same s' s'' \<Longrightarrow> slot_same s s''"
  by (simp add: slot_same_def)

lemma tcp_finish_connect_same:
  assumes "tcp_finish_connect env poll s st = (r, s', st')"
  shows "slot_same s s' \<and> (\<exists>n w. st' = st\<lparr>st_net := n, st_chan := w\<rparr>)"
proof -
  obtain r1 s1 where t: "ts_take_pending_connect poll s = (r1, s1)" by force
  note same = ts_ops_same(3) [OF t]
  show ?thesis
  proof (cases "\<exists>res. r1 = Inr (Some res) \<and> \<not> st_poisoned st")
    case False
    with assms t have "s' = s1" "st' = st\<lparr>st_net := st_net st, st_chan := st_chan st\<rparr>"
      by (auto simp: tcp_finish_connect_def split: sum.splits option.splits if_splits)
    with same show ?thesis by blast
  next
    case True
    then obtain res where res: "r1 = Inr (Some res)" "\<not> st_poisoned st" by blast
    obtain r2 s2 n w where f: "ts_finish_connect (he_mpsc env) res (st_chan st) (st_net st) s1 = (r2, s2, n, w)" by (metis prod_cases4)
    obtain r3 s3 where p3: "p2_streams (he_permits env) s2 = (r3, s3)" by force
    have "s' = s2 \<or> s' = s3" "st' = st\<lparr>st_net := n, st_chan := w\<rparr>"
      using assms t res f p3 by (auto simp: tcp_finish_connect_def split: sum.splits)
    with slot_same_trans [OF same ts_ops_same(4) [OF f]] p2_streams_same [OF p3] show ?thesis
      by (auto intro: slot_same_trans)
  qed
qed

lemma tcp_start_listen_holds:
  assumes h: "store_holds (he_sem env) limits hw p slots st" and c: "tcp_start_listen env clock s st = (r, s', st')"
  shows "store_holds (he_sem env) limits hw p slots st' \<and> slot_same s s'"
proof (cases "ts_local_address (he_os env) s")
  case (Inl e)
  with h c show ?thesis by (simp add: tcp_start_listen_def)
next
  case (Inr l)
  obtain k st1 where k: "check_socket_addr env clock l TcpListen st = (k, st1)" by force
  have h1: "store_holds (he_sem env) limits hw p slots st1" using check_no_slot(1) [OF h k] by simp
  show ?thesis
    using c k Inr h1
    by (auto simp: tcp_start_listen_def dest: ts_ops_same(5) split: sum.splits if_splits option.splits)
qed

lemma sock_call_holds:
  assumes "sock_call env s st s' st'" and h: "store_holds (he_sem env) limits hw p (sl s @ rest) st"
  shows "store_holds (he_sem env) limits hw p (sl s' @ rest) st' \<and> slot_kept s s'"
  using assms(1)
proof (cases rule: sock_call.cases)
  case start_bind
  then show ?thesis by (rule tcp_start_bind_holds [OF h])
next
  case start_connect
  then show ?thesis by (rule tcp_start_connect_holds [OF h])
next
  case finish_bind
  then have "slot_same s s'" "st' = st" by (auto simp: tcp_finish_bind_def dest: ts_ops_same(1) split: prod.splits)
  with h show ?thesis by (simp add: slot_same_kept slot_same_sl)
next
  case finish_connect
  from tcp_finish_connect_same [OF this] h show ?thesis by (auto simp: slot_same_kept slot_same_sl)
next
  case start_listen
  from tcp_start_listen_holds [OF h this] show ?thesis by (auto simp: slot_same_kept slot_same_sl)
next
  case finish_listen
  then have "slot_same s s'" "st' = st" by (auto simp: tcp_finish_listen_def dest: ts_ops_same(6) split: prod.splits)
  with h show ?thesis by (simp add: slot_same_kept slot_same_sl)
next
  case set_backlog
  then have "slot_same s s'" "st' = st" by (auto simp: tcp_set_listen_backlog_size_def dest: ts_ops_same(8) split: prod.splits)
  with h show ?thesis by (simp add: slot_same_kept slot_same_sl)
qed

text \<open>New sockets: a slot on one of the two socket surfaces, if the guest has an allowance.\<close>

definition well_held :: "SocketPolicy \<Rightarrow> ('os, 'ch, 'f, 'p) TcpSocket \<Rightarrow> bool" where
  "well_held p s \<longleftrightarrow> (is_real s \<longrightarrow> sp_quota p \<noteq> None \<longrightarrow> ts_slot s \<noteq> None) \<and>
     (\<forall>x. ts_slot s = Some x \<longrightarrow> slot_surface x \<in> {OutboundSockets, InboundSockets})"

lemma well_held_kept: "slot_kept s s' \<Longrightarrow> well_held p s \<Longrightarrow> well_held p s'"
  by (cases "is_real s'") (auto simp: slot_kept_def well_held_def)

lemma take_slot_surface: "take_slot lib surface q sh = (Some x, sh') \<Longrightarrow> slot_surface x = surface"
  by (auto simp: take_slot_def GuestConnectionQuota_try_acquire_def Let_def split: option.splits prod.splits)

lemma decide_surface:
  assumes "decide_for_store lib clock p reason addr h sh = (Allow a, sh')" "al_permit a = Some x"
  shows "slot_surface x \<in> {OutboundSockets, InboundSockets}"
  using assms
  by (cases reason)
    (auto simp: decide_for_store_def decide_inner_def decide_use_def allow_with_slot_def decide_accept_def allow_on_def
      allow_by_address_def decide_bind_def decide_receive_def Let_def
      dest: take_slot_surface decide_connect_no_permit split: AddrDecision.splits option.splits prod.splits if_splits)

lemma check_surface:
  assumes "check_socket_addr env clock addr reason st = (Inr a, st')" "al_permit a = Some x"
  shows "slot_surface x \<in> {OutboundSockets, InboundSockets}"
  using assms
  by (auto simp: check_socket_addr_def SocketAddrCheck_check_def dest!: decide_surface split: prod.splits SocketAddrCheck.splits)
    (metis AddrDecision.exhaust Inl_Inr_False decide_surface into_allowed.simps insert_iff sum.inject(2) empty_iff)

lemma hold_slot_real: "ts_slot (hold_quota_slot permit (TS_Network n)) = (case permit of Some x \<Rightarrow> Some x | None \<Rightarrow> nt_quota_slot n)"
  "is_real (hold_quota_slot permit (TS_Network n))"
  by (cases permit; simp add: hold_quota_slot_def)+

lemma ts_new_fresh: "ts_new os uses family = Inr s \<Longrightarrow> \<exists>n. s = TS_Network n \<and> nt_quota_slot n = None"
  by (auto simp: ts_new_def nt_from_state_def split: sum.splits)

lemma create_holds:
  fixes env :: "('os, 'ch, 'w, 'p, 's) host_env" and r :: "(SocketError, ('os, 'ch, 'p) sock) result"
  assumes h: "store_holds (he_sem env) limits hw p slots st" and c: "create_tcp_socket env clock family st = (r, st')"
  shows "case r of
      Inl e \<Rightarrow> store_holds (he_sem env) limits hw p slots st'
    | Inr s \<Rightarrow> store_holds (he_sem env) limits hw p (sl s @ slots) st' \<and> well_held p s"
proof -
  obtain k st1 where k: "check_socket_addr env clock (implicit_bind_addr family) TcpCreate st = (k, st1)" by force
  note ck = check_holds(2) [OF h k]
  show ?thesis
  proof (cases k)
    case (Inl e)
    with c k ck show ?thesis by (auto simp: create_tcp_socket_def)
  next
    case (Inr a)
    then have h1: "store_holds (he_sem env) limits hw p ((case al_permit a of Some x \<Rightarrow> [x] | None \<Rightarrow> []) @ slots) st1"
      "al_permit a \<noteq> None \<longleftrightarrow> sp_quota p \<noteq> None" using ck by simp_all
    show ?thesis
    proof (cases "ts_new (he_os env) (sc_uses (st_ctx st1)) family :: (ErrorCode, ('os, 'ch, 'p) sock) result")
      case (Inl e)
      with c k Inr drop_slot_holds(1) [OF h1(1)] show ?thesis by (auto simp: create_tcp_socket_def)
    next
      case (Inr s)
      then obtain n where n: "s = TS_Network n" "nt_quota_slot n = None" using ts_new_fresh by blast
      have r: "r = Inr (hold_quota_slot (al_permit a) s)" "st' = st1"
        using c k Inr \<open>k = Inr a\<close> by (auto simp: create_tcp_socket_def)
      have sl: "ts_slot (hold_quota_slot (al_permit a) s) = al_permit a" "is_real (hold_quota_slot (al_permit a) s)"
        by (simp_all add: n hold_slot_real split: option.split)
      have "slot_surface x \<in> {OutboundSockets, InboundSockets}" if "al_permit a = Some x" for x
        using check_surface [of env clock _ TcpCreate st a st1] k \<open>k = Inr a\<close> that by blast
      with h1 show ?thesis by (auto simp: r well_held_def sl)
    qed
  qed
qed

lemma map_sum_Some_iff: "map_sum id (map_option g) r = Inr (Some c) \<longleftrightarrow> (\<exists>d. r = Inr (Some d) \<and> c = g d)"
  by (cases r) auto

lemma ts_accept_child:
  "ts_accept os lib w s = (Inr (Some c), s', w') \<Longrightarrow> ts_slot c = None \<and> (is_real c \<longleftrightarrow> is_network c)"
  by (cases s) (auto simp: ts_accept_def nt_accept_def nt_new_accept_def nt_from_state_def Let_def map_sum_Some_iff
      split: prod.splits sum.splits option.splits net_state.splits if_splits)

lemma accept_loop_holds:
  "store_holds (he_sem env) limits hw p slots st \<Longrightarrow> accept_loop env clock left s st = (r, s', st') \<Longrightarrow>
     slot_same s s' \<and> (case r of
       Inl e \<Rightarrow> store_holds (he_sem env) limits hw p slots st'
     | Inr c \<Rightarrow> store_holds (he_sem env) limits hw p (sl c @ slots) st' \<and> well_held p c)"
proof (induction env clock left s st arbitrary: r s' st' rule: accept_loop.induct)
  case (2 env clock left s st)
  obtain r1 s1 w where a: "ts_accept (he_os env) (he_mpsc env) (st_chan st) s = (r1, s1, w)" by (metis prod_cases3)
  note same = ts_ops_same(7) [OF a]
  have h: "store_holds (he_sem env) limits hw p slots (st\<lparr>st_chan := w\<rparr>)" using 2(3) by simp
  show ?case
  proof (cases "\<exists>c addr. r1 = Inr (Some c) \<and> ts_remote_address (he_os env) c = Inr addr")
    case False
    then consider "\<forall>c. r1 \<noteq> Inr (Some c)" | c e where "r1 = Inr (Some c)" "ts_remote_address (he_os env) c = Inl e"
      by (metis sum.exhaust_sel)
    then show ?thesis
    proof cases
      case 1
      with 2(4) a same h show ?thesis by (auto split: sum.splits option.splits)
    next
      case 2: 2
      with "2.prems"(2) a have "accept_loop env clock left s1 (st\<lparr>st_chan := w\<rparr>) = (r, s', st')" by (simp add: Let_def)
      from "2.IH"(1) [OF a [symmetric] 2(1) refl refl refl refl 2(2) h this] same show ?thesis by (auto intro: slot_same_trans)
    qed
  next
    case True
    then obtain c addr where c: "r1 = Inr (Some c)" "ts_remote_address (he_os env) c = Inr addr" by blast
    let ?reason = "if is_network c then TcpAccept else TcpAcceptVirtual"
    obtain k st1 where k: "check_socket_addr env clock addr ?reason (st\<lparr>st_chan := w\<rparr>) = (k, st1)" by force
    note ck = check_holds(2) [OF h k]
    have child: "ts_slot c = None" "is_real c \<longleftrightarrow> is_network c" using ts_accept_child [OF a [unfolded c(1)]] by simp_all
    show ?thesis
    proof (cases k)
      case (Inl e)
      with 2(4) a c k have "accept_loop env clock left s1 st1 = (r, s', st')" by (simp add: Let_def)
      moreover have "store_holds (he_sem env) limits hw p slots st1" using ck Inl by simp
      ultimately show ?thesis
        using "2.IH"(2) [OF a [symmetric] c(1) refl refl refl refl c(2) k [symmetric] Inl] same by (auto intro: slot_same_trans)
    next
      case (Inr al)
      have e: "r = Inr (hold_quota_slot (al_permit al) c)" "s' = s1" "st' = st1"
        using 2(4) a c k Inr by (auto simp: Let_def)
      have sl: "ts_slot (hold_quota_slot (al_permit al) c) = (if is_network c then al_permit al else None)"
        "is_real (hold_quota_slot (al_permit al) c) = is_network c"
        using child by (cases c; auto simp: hold_quota_slot_def split: option.splits)+
      have p: "al_permit al \<noteq> None \<longleftrightarrow> is_network c \<and> sp_quota p \<noteq> None" using ck Inr by (cases "is_network c") auto
      have "slot_surface x \<in> {OutboundSockets, InboundSockets}" if "al_permit al = Some x" for x
        using check_surface [of env clock addr ?reason _ al st1 x] k Inr that by blast
      with ck Inr same p show ?thesis by (auto simp: e well_held_def sl)
    qed
  qed
qed auto

lemma tcp_accept_holds:
  assumes h: "store_holds (he_sem env) limits hw p slots st" and c: "tcp_accept env clock s st = (r, s', st')"
  shows "slot_same s s' \<and> (case r of
       Inl e \<Rightarrow> store_holds (he_sem env) limits hw p slots st'
     | Inr c \<Rightarrow> store_holds (he_sem env) limits hw p (sl c @ slots) st' \<and> well_held p c)"
proof -
  obtain r1 s1 st1 where a: "accept_loop env clock MAX_REFUSED_ACCEPTS_PER_CALL s st = (r1, s1, st1)" by (metis prod_cases3)
  note al = accept_loop_holds [OF h a]
  show ?thesis
  proof (cases r1)
    case (Inl e)
    with c a al show ?thesis by (auto simp: tcp_accept_def)
  next
    case (Inr child)
    obtain r2 c2 where p2: "p2_streams (he_permits env) child = (r2, c2)" by force
    note same = p2_streams_same [OF p2]
    have h1: "store_holds (he_sem env) limits hw p (sl c2 @ slots) st1" "well_held p c2"
      using al Inr same well_held_kept [OF slot_same_kept [OF same]] by (simp_all add: slot_same_sl)
    with c a al Inr p2 drop_slot_holds(1) [OF h1(1)] show ?thesis
      by (cases r2) (auto simp: tcp_accept_def)
  qed
qed

lemma tcp_drop_holds:
  assumes "store_holds (he_sem env) limits hw p (sl s @ slots) st" "tcp_drop env s st = (r, st')"
  shows "store_holds (he_sem env) limits hw p slots st'"
  using drop_slot_holds(1) [OF assms(1)] assms(2) by (auto simp: tcp_drop_def Let_def split: if_splits sum.splits)

text \<open>The invariant of a run.\<close>

definition ledger_inv ::
    "('os, 'ch, 'w, 'p, 's) host_env \<Rightarrow> QuotaLimits \<Rightarrow> nat option \<Rightarrow> SocketPolicy \<Rightarrow> ('os, 'ch, 'w, 'p, 's) store_world \<Rightarrow> bool" where
  "ledger_inv env limits hw p w \<longleftrightarrow>
     store_holds (he_sem env) limits hw p (List.map_filter ts_slot (sw_socks w)) (sw_store w) \<and>
     (\<forall>s \<in> set (sw_socks w). well_held p s)"

lemma map_filter_append [simp]: "List.map_filter f (xs @ ys) = List.map_filter f xs @ List.map_filter f ys"
  by (simp add: List.map_filter_def)

lemma map_filter_Cons: "List.map_filter f (x # xs) = (case f x of Some y \<Rightarrow> [y] | None \<Rightarrow> []) @ List.map_filter f xs"
  by (simp add: List.map_filter_def split: option.split)

lemma mset_map_filter_nth:
  assumes "i < length xs"
  shows "mset (List.map_filter f xs) = mset ((case f (xs ! i) of Some y \<Rightarrow> [y] | None \<Rightarrow> []) @ List.map_filter f (remove_nth i xs))"
    and "mset (List.map_filter f (xs[i := x])) = mset ((case f x of Some y \<Rightarrow> [y] | None \<Rightarrow> []) @ List.map_filter f (remove_nth i xs))"
proof -
  have e: "xs = take i xs @ xs ! i # drop (Suc i) xs" "xs[i := x] = take i xs @ x # drop (Suc i) xs"
    using assms by (simp_all add: id_take_nth_drop upd_conv_take_nth_drop)
  show "mset (List.map_filter f xs) = mset ((case f (xs ! i) of Some y \<Rightarrow> [y] | None \<Rightarrow> []) @ List.map_filter f (remove_nth i xs))"
    by (subst (1) e(1)) (simp add: map_filter_Cons ac_simps split: option.split)
  show "mset (List.map_filter f (xs[i := x])) = mset ((case f x of Some y \<Rightarrow> [y] | None \<Rightarrow> []) @ List.map_filter f (remove_nth i xs))"
    by (subst e(2)) (simp add: map_filter_Cons ac_simps split: option.split)
qed

lemma update_holds:
  assumes "i < length ss"
    "store_holds lib limits hw p ((case ts_slot s of Some x \<Rightarrow> [x] | None \<Rightarrow> []) @ List.map_filter ts_slot (remove_nth i ss)) st"
  shows "store_holds lib limits hw p (List.map_filter ts_slot (ss[i := s])) st"
  using assms(2) by (simp only: store_holds_perm [OF mset_map_filter_nth(2) [OF assms(1), where f = ts_slot and x = s]])

lemma split_holds:
  assumes "i < length ss" "store_holds lib limits hw p (List.map_filter ts_slot ss) st"
  shows "store_holds lib limits hw p (sl (ss ! i) @ List.map_filter ts_slot (remove_nth i ss)) st"
  using assms(2) by (simp only: store_holds_perm [OF mset_map_filter_nth(1) [OF assms(1), where f = ts_slot]])

lemma same_names: "\<exists>h. st = st\<lparr>st_ctx := (st_ctx st)\<lparr>sc_resolved_names := h\<rparr>\<rparr>"
  by (rule exI [of _ "sc_resolved_names (st_ctx st)"]) simp

lemma resolve_next_address_store:
  assumes "resolve_next_address clock polled stream st = Some (r, stream', st')"
  shows "\<exists>h. st' = st\<lparr>st_ctx := (st_ctx st)\<lparr>sc_resolved_names := h\<rparr>\<rparr>"
proof -
  have "\<exists>h. x = st\<lparr>st_ctx := (st_ctx st)\<lparr>sc_resolved_names := h\<rparr>\<rparr>" if "hand_over clock a st = Some (n, a', x)" for a n a' x
    using that same_names [of st] by (auto simp: hand_over_def split: list.splits option.splits)
  with assms same_names [of st] show ?thesis
    by (auto simp: resolve_next_address_def split: ResolveAddressStream.splits option.splits sum.splits)
qed

lemma ledger_inv_step:
  assumes inv: "ledger_inv env limits hw p w" and step: "store_step env ulib w w'"
  shows "ledger_inv env limits hw p w'"
proof -
  have h: "store_holds (he_sem env) limits hw p (List.map_filter ts_slot (sw_socks w)) (sw_store w)"
    and wh: "\<forall>s \<in> set (sw_socks w). well_held p s" using inv by (simp_all add: ledger_inv_def)
  from step show ?thesis
  proof (cases rule: store_step.cases)
    case (created clock family s st')
    with create_holds [OF h created(2)] wh show ?thesis by (auto simp: ledger_inv_def map_filter_Cons split: option.splits)
  next
    case (not_created clock family e st')
    with create_holds [OF h not_created(2)] wh show ?thesis by (simp add: ledger_inv_def)
  next
    case (called i s' st')
    note c = sock_call_holds [OF called(3) split_holds [OF called(2) h]]
    have "well_held p s'" using c wh called(2) well_held_kept nth_mem by blast
    with update_holds [OF called(2), of "he_sem env" limits hw p s' st'] c wh show ?thesis
      by (auto simp: called(1) ledger_inv_def dest!: subsetD [OF set_update_subset_insert])
  next
    case (accepted i clock child s' st')
    note a = tcp_accept_holds [OF h accepted(3)]
    have m: "mset (sl child @ List.map_filter ts_slot ((sw_socks w)[i := s'])) = mset (sl child @ List.map_filter ts_slot (sw_socks w))"
      using a by (simp add: slot_same_def mset_map_filter_nth [OF accepted(2)])
    have "store_holds (he_sem env) limits hw p (sl child @ List.map_filter ts_slot ((sw_socks w)[i := s'])) st'"
      unfolding store_holds_perm [OF m] using a by simp
    with a wh accepted(1,2) show ?thesis
      by (auto simp: ledger_inv_def map_filter_Cons dest!: subsetD [OF set_update_subset_insert]
          intro: well_held_kept slot_same_kept split: option.splits)
  next
    case (not_accepted i clock e s' st')
    note a = tcp_accept_holds [OF h not_accepted(3)]
    have wh': "well_held p s'" using a wh not_accepted(2) well_held_kept slot_same_kept nth_mem by blast
    have m: "mset (List.map_filter ts_slot ((sw_socks w)[i := s'])) = mset (List.map_filter ts_slot (sw_socks w))"
      using a by (simp add: slot_same_def mset_map_filter_nth [OF not_accepted(2)])
    have "store_holds (he_sem env) limits hw p (List.map_filter ts_slot ((sw_socks w)[i := s'])) st'"
      unfolding store_holds_perm [OF m] using a by simp
    with wh' show ?thesis using wh by (auto simp: not_accepted(1) ledger_inv_def dest!: subsetD [OF set_update_subset_insert])
  next
    case (dropped i r st')
    from tcp_drop_holds [OF split_holds [OF dropped(2) h] dropped(3)] wh set_remove_nth_subset [of i "sw_socks w"] show ?thesis
      by (auto simp: dropped(1) ledger_inv_def)
  next
    case (next_address j polled clock r stream' st')
    from resolve_next_address_store [OF next_address(4)] h wh show ?thesis
      by (auto simp: next_address(1) ledger_inv_def store_holds_def)
  next
    case (elsewhere sh' n' poisoned' chan')
    have "quota_inv (he_sem env) limits hw (sh_quotas sh')"
      using quotas.inv_reachable [OF elsewhere(2)] h by (simp add: store_holds_def)
    with elsewhere h wh minted_grows_star [OF elsewhere(2)] show ?thesis
      by (auto simp: ledger_inv_def store_holds_def store_quota_holds [OF h])
  qed (use inv in \<open>simp_all add: ledger_inv_def\<close>)
qed

interpretation ledger: transition_system "store_step env ulib" "ledger_inv env limits hw p" for env ulib limits hw p
  by unfold_locales (rule ledger_inv_step)

lemma ledger_inv_new:
  assumes "quota_inv (he_sem env) limits hw (sh_quotas sh)" "\<forall>q. sp_quota p = Some q \<longrightarrow> q < length (qr_minted (sh_quotas sh))"
  shows "ledger_inv env limits hw p (new_store p loopback lookups net chan sh)"
  using assms by (simp add: ledger_inv_def new_store_def store_holds_def WasiSocketsCtx_for_store_def List.map_filter_def)

lemma real_count_slots:
  assumes "\<forall>s \<in> set ss. well_held p s" "sp_quota p \<noteq> None"
  shows "length (filter is_real ss) = length (List.map_filter ts_slot ss)"
  using assms
proof (induction ss)
  case (Cons s ss)
  have "ts_slot s \<noteq> None \<longleftrightarrow> is_real s" using Cons.prems by (cases "is_real s") (auto simp: well_held_def)
  with Cons show ?case by (auto simp: map_filter_Cons split: option.splits)
qed (simp add: List.map_filter_def)

lemma held_at_least:
  assumes "mset (map (Pair q) xs) \<subseteq># mset slots"
  shows "length (filter (\<lambda>x. slot_surface x = s) xs) \<le> held q s slots"
proof -
  have "size (filter_mset (\<lambda>(i, x). i = q \<and> slot_surface x = s) (mset (map (Pair q) xs)))
      \<le> size (filter_mset (\<lambda>(i, x). i = q \<and> slot_surface x = s) (mset slots))"
    by (intro size_mset_mono multiset_filter_mono assms)
  moreover have "length (filter (\<lambda>(i, x). i = q \<and> slot_surface x = s) (map (Pair q) xs)) = length (filter (\<lambda>x. slot_surface x = s) xs)"
    by (simp add: filter_map comp_def)
  ultimately show ?thesis unfolding held_def by (metis mset_filter size_mset)
qed

lemma two_surfaces:
  "\<forall>x \<in> set xs. slot_surface x \<noteq> OutboundSockets \<longrightarrow> slot_surface x = InboundSockets \<Longrightarrow>
     length xs = length (filter (\<lambda>x. slot_surface x = OutboundSockets) xs) + length (filter (\<lambda>x. slot_surface x = InboundSockets) xs)"
  by (induction xs) auto

text \<open>
  C10. A guest never holds more descriptors than its allowance. In every run of a store's socket
  calls, interleaved with whatever else happens on the host, each live socket that is backed
  by the operating system holds a slot of the guest's allowance, and there are at most as
  many of them as the outbound and the inbound limit together; the registry stays in balance.
\<close>

theorem real_sockets_within_the_allowance:
  assumes run: "(store_step env ulib)\<^sup>*\<^sup>* (new_store p loopback lookups net chan sh) w"
    and inv: "quota_inv (he_sem env) limits hw (sh_quotas sh)"
    and quota: "sp_quota p = Some q" "q < length (qr_minted (sh_quotas sh))"
  shows "(\<forall>s \<in> set (sw_socks w). is_real s \<longrightarrow> ts_slot s \<noteq> None) \<and>
    length (filter is_real (sw_socks w)) \<le> surface_limit OutboundSockets limits + surface_limit InboundSockets limits \<and>
    quota_inv (he_sem env) limits hw (sh_quotas (st_shared (sw_store w)))"
proof -
  let ?xs = "List.map_filter ts_slot (sw_socks w)" and ?r = "sh_quotas (st_shared (sw_store w))"
  have li: "ledger_inv env limits hw p w"
    by (rule ledger.inv_reachable [OF run ledger_inv_new [OF inv]]) (simp add: quota)
  then have wh: "\<forall>s \<in> set (sw_socks w). well_held p s" and qi: "quota_inv (he_sem env) limits hw ?r"
    and q: "q < length (qr_minted ?r)" "mset (map (Pair q) ?xs) \<subseteq># mset (qr_slots ?r)"
    using quota by (simp_all add: ledger_inv_def store_holds_def)
  have b: "held q s (qr_slots ?r) \<le> surface_limit s limits" for s
  proof -
    have "quota_available (he_sem env) s (qr_minted ?r ! q) + held q s (qr_slots ?r) = surface_limit s limits"
      using qi q(1) by (simp add: quota_inv_def)
    then show ?thesis by linarith
  qed
  have "\<forall>x \<in> set ?xs. slot_surface x \<noteq> OutboundSockets \<longrightarrow> slot_surface x = InboundSockets"
    using wh by (auto simp: well_held_def List.map_filter_def)
  then have "length ?xs = length (filter (\<lambda>x. slot_surface x = OutboundSockets) ?xs) + length (filter (\<lambda>x. slot_surface x = InboundSockets) ?xs)"
    by (rule two_surfaces)
  then have "length ?xs \<le> surface_limit OutboundSockets limits + surface_limit InboundSockets limits"
    using held_at_least [OF q(2), of OutboundSockets] held_at_least [OF q(2), of InboundSockets] b [of OutboundSockets] b [of InboundSockets]
    by linarith
  then show ?thesis using wh qi quota real_count_slots [OF wh] by (simp add: well_held_def)
qed

section \<open>What a store was told\<close>

text \<open>A name whose lookup the guest's lists permit.\<close>

definition vetted :: "SocketPolicy \<Rightarrow> allowed_ip_name list \<Rightarrow> string \<Rightarrow> bool" where
  "vetted p lookups name \<longleftrightarrow> (\<exists>host. normalize_name host = Some name \<and> check_allowed_lookup lookups (sp_allowed_hosts p) host)"

fun stream_ok :: "SocketPolicy \<Rightarrow> allowed_ip_name list \<Rightarrow> ResolveAddressStream \<Rightarrow> bool" where
  "stream_ok p lookups (RS_Waiting host) = check_allowed_lookup lookups (sp_allowed_hosts p) host"
| "stream_ok p lookups (RS_Done r) =
     (case r of Inl _ \<Rightarrow> True | Inr a \<Rightarrow> (\<forall>ob. an_observation a = Some ob \<longrightarrow> vetted p lookups (ob_name ob)))"

definition names_inv :: "SocketPolicy \<Rightarrow> allowed_ip_name list \<Rightarrow> ('os, 'ch, 'w, 'p, 's) store_world \<Rightarrow> bool" where
  "names_inv p lookups w \<longleftrightarrow> (let ctx = st_ctx (sw_store w) in
     sc_check ctx = SC_Policy p \<and> sc_allowed_ip_name_lookups ctx = lookups \<and> sc_allowed_hosts ctx = sp_allowed_hosts p \<and>
     run_recordings (sw_handed w) (ResolvedNames_new (sp_resolved_names p)) = Some (sc_resolved_names ctx) \<and>
     (\<forall>s \<in> set (sw_streams w). stream_ok p lookups s) \<and> (\<forall>c \<in> set (sw_handed w). vetted p lookups (rec_name c)))"

lemma check_ctx: "check_socket_addr env clock addr reason st = (r, st') \<Longrightarrow> st_ctx st' = st_ctx st"
  by (auto simp: check_socket_addr_def split: prod.splits)

lemma drop_slot_ctx [simp]: "st_ctx (drop_slot env slot st) = st_ctx st"
  by (simp add: drop_slot_def split: option.splits)

lemma settle_ctx [simp]: "st_ctx (settle env s s' st) = st_ctx st"
  by (simp add: settle_def)

lemma sock_call_ctx: "sock_call env s st s' st' \<Longrightarrow> st_ctx st' = st_ctx st"
proof (erule sock_call.cases)
  fix clock addr s0 st0 r s1 st1
  assume "tcp_start_bind env clock addr s0 st0 = (r, s1, st1)" "s = s0" "st = st0" "s' = s1" "st' = st1"
  then show ?thesis by (auto simp: tcp_start_bind_def Let_def dest!: check_ctx split: prod.splits sum.splits if_splits)
next
  fix clock addr s0 st0 r s1 st1
  assume "tcp_start_connect env clock addr s0 st0 = (r, s1, st1)" "s = s0" "st = st0" "s' = s1" "st' = st1"
  then show ?thesis by (auto simp: tcp_start_connect_def dest!: check_ctx split: prod.splits sum.splits if_splits option.splits)
next
  fix poll s0 st0 r s1 st1
  assume "tcp_finish_connect env poll s0 st0 = (r, s1, st1)" "s = s0" "st = st0" "s' = s1" "st' = st1"
  then show ?thesis by (auto dest!: tcp_finish_connect_same)
next
  fix clock s0 st0 r s1 st1
  assume "tcp_start_listen env clock s0 st0 = (r, s1, st1)" "s = s0" "st = st0" "s' = s1" "st' = st1"
  then show ?thesis by (auto simp: tcp_start_listen_def dest!: check_ctx split: prod.splits sum.splits if_splits option.splits)
qed (auto simp: tcp_finish_bind_def tcp_finish_listen_def tcp_set_listen_backlog_size_def split: prod.splits)

lemma accept_loop_ctx: "accept_loop env clock left s st = (r, s', st') \<Longrightarrow> st_ctx st' = st_ctx st"
proof (induction left arbitrary: s st)
  case (Suc left)
  from Suc.prems show ?case
    by (auto simp: Let_def dest!: Suc.IH check_ctx split: prod.splits sum.splits option.splits)
qed simp

lemma create_ctx: "create_tcp_socket env clock family st = (r, st') \<Longrightarrow> st_ctx st' = st_ctx st"
  by (auto simp: create_tcp_socket_def dest!: check_ctx split: prod.splits sum.splits)

lemma accept_ctx: "tcp_accept env clock s st = (r, s', st') \<Longrightarrow> st_ctx st' = st_ctx st"
  by (auto simp: tcp_accept_def dest!: accept_loop_ctx split: prod.splits sum.splits)

lemma drop_ctx: "tcp_drop env s st = (r, st') \<Longrightarrow> st_ctx st' = st_ctx st"
  by (auto simp: tcp_drop_def Let_def split: if_splits sum.splits)

lemma run_recordings_snoc:
  "run_recordings (cs @ [c]) r = Option.bind (run_recordings cs r) (record_at (rec_name c) (rec_addrs c) (rec_observed c) (rec_now c))"
  by (induction cs arbitrary: r) (auto split: bind_splits)

lemma outcome_ok:
  assumes "stream_ok p lookups stream" "lookup_outcome stream polled"
  shows "stream_ok p lookups (stream_ready polled stream)"
proof (cases stream)
  case (RS_Waiting host)
  then obtain resolver :: "string \<Rightarrow> (unit, ipaddr list) result" and t
    where p: "polled = map_sum (\<lambda>_. SE_Code P2_NameUnresolvable) id (lookup_blocking resolver t host)"
    using assms(2) by (auto simp: lookup_outcome_def)
  have "normalize_name host = Some (ob_name ob)" if "lookup_blocking resolver t host = Inr l" "lk_observation l = Some ob" for l ob
    using that
    by (cases host; cases "resolver (case host of Domain d \<Rightarrow> d | _ \<Rightarrow> [])")
      (auto simp: lookup_blocking_def Lookup_fixed_def split: if_splits)
  then show ?thesis
    using assms(1) RS_Waiting p
    by (cases "lookup_blocking resolver t host") (auto simp: stream_ready_def Answer_from_def vetted_def)
qed (use assms(1) in \<open>simp add: stream_ready_def\<close>)

lemma stream_answer_ok:
  assumes "stream_ok p lookups stream" "\<forall>x. polled = Some x \<longrightarrow> lookup_outcome stream x" "stream_answer polled stream = Some a"
    "an_observation a = Some ob"
  shows "vetted p lookups (ob_name ob)"
proof (cases stream)
  case (RS_Waiting host)
  with assms(3) obtain l where l: "polled = Some (Inr l)" "a = Answer_from l" by (auto split: option.splits sum.splits)
  with outcome_ok [OF assms(1), of "Inr l"] assms(2,4) RS_Waiting show ?thesis by (simp add: stream_ready_def)
qed (use assms in \<open>auto split: sum.splits\<close>)

text \<open>Handing an address over records exactly what the log says, and keeps the answer's name.\<close>

lemma hand_over_logged:
  assumes "hand_over clock a st = Some (n, a', st')" "run_recordings cs r0 = Some (sc_resolved_names (st_ctx st))"
  shows "run_recordings (cs @ handed clock (Some a)) r0 = Some (sc_resolved_names (st_ctx st'))" "an_observation a' = an_observation a"
  using assms
  by (auto simp: hand_over_def handed_def run_recordings_snoc ResolvedNames_record_def split: list.splits option.splits)

lemma next_address_logged:
  assumes "resolve_next_address clock polled stream st = Some (r, stream', st')"
    and "run_recordings cs r0 = Some (sc_resolved_names (st_ctx st))"
    and "stream_ok p lookups stream" "\<forall>x. polled = Some x \<longrightarrow> lookup_outcome stream x"
  shows "run_recordings (cs @ handed clock (stream_answer polled stream)) r0 = Some (sc_resolved_names (st_ctx st'))"
    and "stream_ok p lookups stream'"
proof -
  let ?ready = "case stream of RS_Waiting host \<Rightarrow> map_option (map_sum id Answer_from) polled | RS_Done r \<Rightarrow> Some r"
  have sa: "stream_answer polled stream = (case ?ready of Some (Inr a) \<Rightarrow> Some a | _ \<Rightarrow> None)"
    by (cases stream; cases polled) (auto split: sum.splits option.splits)
  consider "?ready = None" | e where "?ready = Some (Inl e)" | a where "?ready = Some (Inr a)" by (metis option.exhaust sum.exhaust)
  then have "run_recordings (cs @ handed clock (stream_answer polled stream)) r0 = Some (sc_resolved_names (st_ctx st')) \<and> stream_ok p lookups stream'"
  proof cases
    case 1
    with assms show ?thesis unfolding sa by (auto simp: resolve_next_address_def handed_def)
  next
    case (2 e)
    with assms show ?thesis unfolding sa by (auto simp: resolve_next_address_def handed_def Answer_from_def Lookup_fixed_def)
  next
    case (3 a)
    then obtain n a' where h: "hand_over clock a st = Some (n, a', st')" "stream' = RS_Done (Inr a')"
      using assms(1) by (auto simp: resolve_next_address_def)
    have "vetted p lookups (ob_name ob)" if "an_observation a = Some ob" for ob
      using stream_answer_ok [OF assms(3,4) _ that] sa 3 by simp
    with hand_over_logged [OF h(1) assms(2)] show ?thesis unfolding sa by (simp add: h(2) 3)
  qed
  then show "run_recordings (cs @ handed clock (stream_answer polled stream)) r0 = Some (sc_resolved_names (st_ctx st'))"
    and "stream_ok p lookups stream'" by blast+
qed

lemma resolve_addresses_ok:
  assumes "resolve_addresses ulib name st = Ok stream" "sc_allowed_ip_name_lookups (st_ctx st) = lookups" "sc_allowed_hosts (st_ctx st) = sp_allowed_hosts p"
  shows "stream_ok p lookups stream"
  using assms
  by (auto simp: resolve_addresses_def Answer_from_def Lookup_fixed_def split: option.splits sum.splits if_splits)

lemma handed_vetted:
  assumes "stream_ok p lookups stream" "\<forall>x. polled = Some x \<longrightarrow> lookup_outcome stream x" "c \<in> set (handed clock (stream_answer polled stream))"
  shows "vetted p lookups (rec_name c)"
proof (cases "stream_answer polled stream")
  case (Some a)
  with assms(3) obtain ob where "an_observation a = Some ob" "rec_name c = ob_name ob"
    by (cases "an_observation a"; cases "an_addresses a") (auto simp: handed_def)
  with stream_answer_ok [OF assms(1,2) Some] show ?thesis by simp
qed (use assms(3) in \<open>simp add: handed_def\<close>)

lemma names_inv_step:
  assumes inv: "names_inv p lookups w" and step: "store_step env ulib w w'"
  shows "names_inv p lookups w'"
  using step
proof (cases rule: store_step.cases)
  case (looked_up name stream)
  then show ?thesis using inv resolve_addresses_ok [of ulib name "sw_store w" stream lookups p] by (auto simp: names_inv_def Let_def)
next
  case (readied j polled)
  have "stream_ok p lookups (sw_streams w ! j)" using inv readied(2) by (simp add: names_inv_def Let_def)
  from outcome_ok [OF this readied(3)] inv show ?thesis
    by (auto simp: readied(1) names_inv_def Let_def dest!: subsetD [OF set_update_subset_insert])
next
  case (next_address j polled clock r stream' st')
  have ok: "stream_ok p lookups (sw_streams w ! j)" using inv next_address(2) by (simp add: names_inv_def Let_def)
  have run: "run_recordings (sw_handed w) (ResolvedNames_new (sp_resolved_names p)) = Some (sc_resolved_names (st_ctx (sw_store w)))"
    using inv by (simp add: names_inv_def Let_def)
  note l = next_address_logged [OF next_address(4) run ok next_address(3)]
  obtain h where "st' = (sw_store w)\<lparr>st_ctx := (st_ctx (sw_store w))\<lparr>sc_resolved_names := h\<rparr>\<rparr>"
    using resolve_next_address_store [OF next_address(4)] by blast
  with l handed_vetted [OF ok next_address(3)] inv show ?thesis
    by (auto simp: next_address(1) names_inv_def Let_def dest!: subsetD [OF set_update_subset_insert])
qed (use inv in \<open>auto simp: names_inv_def Let_def dest: sock_call_ctx create_ctx accept_ctx drop_ctx\<close>)

interpretation told: transition_system "store_step env ulib" "names_inv p lookups" for env ulib p lookups
  by unfold_locales (rule names_inv_step)

lemma names_inv_new: "names_inv p lookups (new_store p loopback lookups net chan sh)"
  by (simp add: names_inv_def new_store_def WasiSocketsCtx_for_store_def)

section \<open>Dials\<close>

text \<open>A host-plane dial comes out of a successful check, on the address the check gave.\<close>

lemma connect_unbound_network:
  "connect_unbound os addr n socket = (r, TS_Network s', n') \<Longrightarrow> s' = socket"
  by (auto simp: connect_unbound_def split: sum.splits prod.splits net_state.splits)

lemma ts_start_connect_network:
  assumes "ts_start_connect os addr plane n s = Some (Inr ct, TS_Network s', n')"
  shows "plane = PlaneHost \<and> (\<exists>sk. ct = CT_Network sk)"
  using assms
  by (cases s; cases plane)
    (auto simp: ts_start_connect_def connect_unbound_def Let_def split: sum.splits prod.splits if_splits net_state.splits)

lemma dial_was_checked:
  assumes c: "tcp_start_connect env clock remote s st = (Ok (), TS_Network n, st')"
    and d: "nt_state n = N_Connecting (Some (CT_Network sk, a))"
  shows "\<exists>al st1. check_socket_addr env clock (ip_socket_address_to_socket_addr remote) TcpConnect st = (Ok al, st1) \<and>
    al_plane al = PlaneHost \<and> al_addr al = a"
proof -
  obtain k st1 where k: "check_socket_addr env clock (ip_socket_address_to_socket_addr remote) TcpConnect st = (k, st1)" by force
  with c obtain al where al: "k = Inr al" "\<not> st_poisoned st1" by (auto simp: tcp_start_connect_def split: sum.splits if_splits)
  with c k obtain ct s1 n1 where b: "ts_start_connect (he_os env) (al_addr al) (al_plane al) (st_net st1) s = Some (Inr ct, s1, n1)"
    by (auto simp: tcp_start_connect_def split: option.splits sum.splits prod.splits)
  obtain r2 s2 where p2: "ts_set_pending_connect (ct, al_addr al) s1 = (r2, s2)" by force
  have r: "r2 = Inr ()" "TS_Network n = hold_quota_slot (al_permit al) s2"
    using c k al b p2 by (auto simp: tcp_start_connect_def split: sum.splits)
  then obtain n2 where n2: "s2 = TS_Network n2" "nt_state n2 = nt_state n"
    by (cases s2; cases "al_permit al") (auto simp: hold_quota_slot_def)
  with p2 obtain n3 where n3: "s1 = TS_Network n3" by (cases s1) (auto simp: ts_set_pending_connect_def split: prod.splits)
  have "nt_state n2 = N_Connecting (Some (ct, al_addr al))"
    using p2 r(1) n2(1) n3 by (auto simp: ts_set_pending_connect_def nt_set_pending_connect_def split: net_state.splits option.splits prod.splits)
  with d n2 have "al_addr al = a" by simp
  with ts_start_connect_network [OF b [unfolded n3]] k al show ?thesis by blast
qed

text \<open>
  C1. Every connection a guest opens outside its virtual network was granted. In any run of a
  store whose policy enforces, when a connect defers a dial on a real socket, the dialled
  address is either the machine's loopback, reached through the sentinel with its own
  grants and not owned by the host; or it is the address the guest named, in no denied range,
  and granted as an address or as a name. Granted as a name means that a lookup the guest's
  lists permit returned this address, that it was handed to the guest in this run, and that
  an entry grants the name on the port.
\<close>

theorem every_dial_was_granted:
  assumes run: "(store_step env ulib)\<^sup>*\<^sup>* (new_store p loopback lookups net chan sh) w"
    and mode: "sp_egress_mode p = Enforce"
    and call: "tcp_start_connect env clock remote s (sw_store w) = (Ok (), TS_Network n, st')"
    and dial: "nt_state n = N_Connecting (Some (CT_Network sk, a))"
    and asked: "ip_socket_address_to_socket_addr remote = addr"
  shows "(is_host_sentinel (sa_ip addr) \<and> a = rewrite_sentinel addr \<and> sp_host_loopback_enabled p \<and>
      check_allowed_loopback (sp_host_loopback p) addr Tcp \<and>
      \<not> (sp_host_owned_ports p \<and> PortTable_is_published Tcp a (sh_ports (st_shared (sw_store w)))))
    \<or> (a = addr \<and> EgressAddressPolicy_permits (sp_egress_addrs p) (sa_ip addr) \<and>
      (check_allowed_addr (sp_allowed_hosts p) addr \<or>
       (\<exists>c \<in> set (sw_handed w). to_canonical (sa_ip addr) \<in> to_canonical ` set (rec_addrs c) \<and> vetted p lookups (rec_name c) \<and>
          (\<exists>entry \<in> set (sp_allowed_hosts p). AllowedHost_permits_name entry (rec_name c) (sa_port addr)))))"
proof -
  let ?st = "sw_store w"
  have inv: "names_inv p lookups w" by (rule told.inv_reachable [OF run names_inv_new])
  then have ctx: "sc_check (st_ctx ?st) = SC_Policy p"
    and rec: "run_recordings (sw_handed w) (ResolvedNames_new (sp_resolved_names p)) = Some (sc_resolved_names (st_ctx ?st))"
    and vet: "\<forall>c \<in> set (sw_handed w). vetted p lookups (rec_name c)" by (simp_all add: names_inv_def Let_def)
  obtain al st1 where al: "check_socket_addr env clock addr TcpConnect ?st = (Ok al, st1)" "al_plane al = PlaneHost" "al_addr al = a"
    using dial_was_checked [OF call dial] asked by blast
  obtain d sh' where d: "decide_for_store (he_sem env) clock p TcpConnect addr (sc_resolved_names (st_ctx ?st)) (st_shared ?st) = (d, sh')" by force
  with al(1) ctx have "d = Allow al" by (cases d) (auto simp: check_socket_addr_def SocketAddrCheck_check_def)
  from egress_granted [OF mode _ rec d [unfolded this] al(2)] al(3) vet show ?thesis by auto
qed

section \<open>A panic under the lock\<close>

text \<open>
  C36. One guest call takes the virtual network of its workload down. A service that bound a
  virtual port and set a backlog of zero, which is accepted, makes the next listen panic while
  the network is locked. The lock is poisoned: from then on no bind and no connect succeeds on
  any socket of the store, since each takes that lock after the check of the address.
\<close>

theorem zero_backlog_poisons_the_network:
  assumes cap: "\<And>k w. mpsc_channel (he_mpsc env) k w = None \<longleftrightarrow> k = 0"
    and svc: "sc_check (st_ctx st) = SC_Policy p" "sp_kind p = GK_Service"
    and sock: "lo_st lo = L_Bound addr" "registered (Some (lo_st lo)) (st_net st)" "is_loopback (sa_ip addr)" "\<not> st_poisoned st"
    and set: "tcp_set_listen_backlog_size env 0 (TS_Loopback lo) st = (r, s1, st1)"
    and listen: "tcp_start_listen env clock s1 st1 = (r2, s2, st2)"
  shows "r = Ok () \<and> r2 = Err SE_Panic \<and> st_poisoned st2 \<and>
    (\<forall>other a. fst (tcp_start_bind env clock a other st2) \<noteq> Ok () \<and> fst (tcp_start_connect env clock a other st2) \<noteq> Ok ())"
proof -
  obtain s' where s': "ts_set_listen_backlog_size (he_os env) 0 (TS_Loopback lo) = (Ok (), s')"
    "ts_start_listen (he_mpsc env) (st_chan st) (st_net st) s' = None"
    using zero_backlog [OF cap sock(1,2), of "he_os env" 0 "st_chan st"] by auto
  have e: "r = Ok ()" "s1 = s'" "st1 = st" using set s'(1) by (auto simp: tcp_set_listen_backlog_size_def)
  have "ts_local_address (he_os env) s' = Ok addr"
    using s'(1) sock(1) by (auto simp: ts_set_listen_backlog_size_def lo_set_listen_backlog_size_def ts_local_address_def
        lo_local_address_def Let_def split: prod.splits if_splits)
  moreover have "decide_bind p TcpListen addr = allow_by_address addr" using svc sock(3) by (simp add: decide_bind_def Let_def)
  then obtain al where "check_socket_addr env clock addr TcpListen st = (Ok al, st)"
    using svc by (auto simp: check_socket_addr_def SocketAddrCheck_check_def decide_for_store_def decide_inner_def decide_use_def
        allow_by_address_def)
  ultimately have l: "r2 = Err SE_Panic" "st2 = st\<lparr>st_poisoned := True\<rparr>"
    using listen s'(2) sock(4) e by (auto simp: tcp_start_listen_def)
  have check: "st_poisoned x" if "check_socket_addr env clock b u st2 = (k, x)" for b u k x
    using that l(2) by (auto simp: check_socket_addr_def split: prod.splits)
  have "fst (tcp_start_bind env clock a other st2) \<noteq> Ok ()" "fst (tcp_start_connect env clock a other st2) \<noteq> Ok ()" for a other
    by (auto simp: tcp_start_bind_def tcp_start_connect_def Let_def dest: check split: prod.splits sum.splits)
  with e l show ?thesis by simp
qed

section \<open>Examples of runs\<close>

definition demo_env :: "(nat, nat, nat, nat, nat) host_env" where
  "demo_env = \<lparr>he_os = demo_os, he_mpsc = demo_mpsc, he_permits = counter_permits, he_sem = counter_lib\<rparr>"

definition demo_world :: "SocketPolicy \<Rightarrow> (nat, nat, nat, nat, nat) store_world" where
  "demo_world p = new_store p 0 [] Network_default 0 demo_shared"

lemma demo_created:
  "\<exists>s st'. create_tcp_socket demo_env 0 FamIpv4 (sw_store (demo_world demo_policy)) = (Ok s, st') \<and> is_real s"
proof -
  have "\<not> isl (fst (create_tcp_socket demo_env 0 FamIpv4 (sw_store (demo_world demo_policy))))"
    "case fst (create_tcp_socket demo_env 0 FamIpv4 (sw_store (demo_world demo_policy))) of Inr s \<Rightarrow> is_real s | Inl _ \<Rightarrow> False"
    by code_simp+
  then show ?thesis by (cases "create_tcp_socket demo_env 0 FamIpv4 (sw_store (demo_world demo_policy))") (auto split: sum.splits)
qed

theorem real_sockets_within_the_allowance_witness:
  "\<exists>w. (store_step demo_env text_lib)\<^sup>*\<^sup>* (demo_world demo_policy) w \<and> length (filter is_real (sw_socks w)) = 1 \<and>
     1 \<le> surface_limit OutboundSockets QuotaLimits_default + surface_limit InboundSockets QuotaLimits_default"
proof -
  obtain s st' where c: "create_tcp_socket demo_env 0 FamIpv4 (sw_store (demo_world demo_policy)) = (Ok s, st')" "is_real s"
    using demo_created by blast
  let ?w = "(demo_world demo_policy)\<lparr>sw_store := st', sw_socks := s # sw_socks (demo_world demo_policy)\<rparr>"
  have run: "(store_step demo_env text_lib)\<^sup>*\<^sup>* (demo_world demo_policy) ?w"
    by (rule r_into_rtranclp) (rule store_step.created [OF c(1)])
  have q: "sp_quota demo_policy = Some 0" "0 < length (qr_minted (sh_quotas demo_shared))" by code_simp+
  have one: "length (filter is_real (sw_socks ?w)) = 1" using c(2) by (simp add: demo_world_def new_store_def)
  have "quota_inv (he_sem demo_env) QuotaLimits_default None (sh_quotas demo_shared)" using demo_shared_inv by (simp add: demo_env_def)
  from real_sockets_within_the_allowance [OF run [unfolded demo_world_def] this q] one run show ?thesis
    by (auto simp: demo_world_def)
qed

definition any_policy :: SocketPolicy where
  "any_policy = SocketPolicy_default\<lparr>sp_allowed_hosts := [AH_Any]\<rparr>"

abbreviation demo_remote :: IpSocketAddress where "demo_remote \<equiv> IpSocketV4 (10, 0, 0, 5) 5432"

abbreviation demo_sock :: "(nat, nat, nat) sock" where "demo_sock \<equiv> TS_Network (nt_from_state (N_Default 0) FamIpv4)"

lemma demo_dial:
  "\<exists>n st'. tcp_start_connect demo_env 0 demo_remote demo_sock (sw_store (demo_world any_policy)) = (Ok (), TS_Network n, st') \<and>
     nt_state n = N_Connecting (Some (CT_Network 0, SocketAddrV4 (Ipv4Addr 10 0 0 5) 5432))"
proof -
  have "(case tcp_start_connect demo_env 0 demo_remote demo_sock (sw_store (demo_world any_policy)) of
      (Inr _, TS_Network n, _) \<Rightarrow> nt_state n = N_Connecting (Some (CT_Network 0, SocketAddrV4 (Ipv4Addr 10 0 0 5) 5432)) | _ \<Rightarrow> False)"
    by code_simp
  then show ?thesis by (auto split: prod.splits sum.splits TcpSocket.splits)
qed

theorem every_dial_was_granted_witness:
  "check_allowed_addr [AH_Any] (SocketAddrV4 (Ipv4Addr 10 0 0 5) 5432) \<and>
   EgressAddressPolicy_permits EgressAddressPolicy_default (V4 (Ipv4Addr 10 0 0 5))"
proof -
  obtain n st' where d: "tcp_start_connect demo_env 0 demo_remote demo_sock (sw_store (demo_world any_policy)) = (Ok (), TS_Network n, st')"
     "nt_state n = N_Connecting (Some (CT_Network 0, SocketAddrV4 (Ipv4Addr 10 0 0 5) 5432))"
    using demo_dial by blast
  have m: "sp_egress_mode any_policy = Enforce" "\<not> is_host_sentinel (sa_ip (SocketAddrV4 (Ipv4Addr 10 0 0 5) 5432))"
    "sp_allowed_hosts any_policy = [AH_Any]" "sp_egress_addrs any_policy = EgressAddressPolicy_default" by code_simp+
  from every_dial_was_granted [OF rtranclp.rtrancl_refl m(1) d(1) [unfolded demo_world_def] d(2), of "SocketAddrV4 (Ipv4Addr 10 0 0 5) 5432"] m
  show ?thesis by (auto simp: new_store_def to_ipv4_addr.simps)
qed

definition service_lo :: "(nat, nat, (nat, nat) dial, nat) lo_socket" where
  "service_lo = \<lparr>lo_st = L_Bound (SocketAddrV4 v4_localhost 80), lo_listen_backlog_size = 128, lo_keep_alive_enabled = False,
     lo_keep_alive_idle_time = 1, lo_keep_alive_interval = 1, lo_keep_alive_count = 1, lo_hop_limit = 64,
     lo_receive_buffer_size = 4096, lo_send_buffer_size = 4096, lo_family = FamIpv4\<rparr>"

theorem zero_backlog_poisons_the_network_witness:
  "\<exists>s1 st1 s2 st2. tcp_set_listen_backlog_size demo_env 0 (TS_Loopback service_lo)
       ((sw_store (demo_world (for_kind GK_Service)))\<lparr>st_net := Network_default\<lparr>tcp_ipv4 := [80 \<mapsto> EpBound]\<rparr>\<rparr>) = (Ok (), s1, st1) \<and>
     tcp_start_listen demo_env 0 s1 st1 = (Err SE_Panic, s2, st2)"
proof -
  let ?st = "(sw_store (demo_world (for_kind GK_Service)))\<lparr>st_net := Network_default\<lparr>tcp_ipv4 := [80 \<mapsto> EpBound]\<rparr>\<rparr>"
  obtain r s1 st1 where s: "tcp_set_listen_backlog_size demo_env 0 (TS_Loopback service_lo) ?st = (r, s1, st1)" by (metis prod_cases3)
  obtain r2 s2 st2 where l: "tcp_start_listen demo_env 0 s1 st1 = (r2, s2, st2)" by (metis prod_cases3)
  have cap: "mpsc_channel (he_mpsc demo_env) k w = None \<longleftrightarrow> k = 0" for k w by (simp add: demo_env_def demo_mpsc_def)
  have k: "sc_check (st_ctx ?st) = SC_Policy (for_kind GK_Service)" "sp_kind (for_kind GK_Service) = GK_Service" "\<not> st_poisoned ?st"
    by (simp_all add: demo_world_def new_store_def WasiSocketsCtx_for_store_def for_kind_def)
  have lo: "lo_st service_lo = L_Bound (SocketAddrV4 v4_localhost 80)" by (simp add: service_lo_def)
  have reg: "registered (Some (lo_st service_lo)) (st_net ?st)" by (simp add: service_lo_def registered_def sa_slot_def)
  have "is_loopback (sa_ip (SocketAddrV4 v4_localhost 80))" by code_simp
  from zero_backlog_poisons_the_network [OF cap k(1,2) lo reg this k(3) s l] s l show ?thesis by blast
qed

end
