(* ===== verification/Udp_Socket.thy ===== *)
theory Udp_Socket
  imports Socket_Host
begin

text \<open>
  The datagram sockets a guest holds and their streams: \<open>sockets/udp.rs\<close> and
  \<open>sockets/p2_udp.rs\<close>. A socket is a real one, one of the virtual network, or, bound to an
  unspecified address, both.

  Streams share parts of their socket through an \<open>Arc\<close>: the descriptor, the set of peers sent
  to, the receiving end of the virtual endpoint and the permits of its send buffer. Here the
  descriptor is a name of the type \<open>'d\<close> in a kernel state \<open>'k\<close>, and sets of peers and permits
  are positions in lists that only grow. tokio's channels and semaphores and the operating
  system are parameters. What was handed to the operating system, and what was given to the
  guest of its datagrams, is kept in two logs, which no operation reads.
\<close>

section \<open>What the sockets use\<close>

text \<open>\<open>uo_options\<close> gives the calls of a descriptor in the kernel state; \<open>uo_writable\<close> is the wait
  of a new socket, \<open>uo_ready_to_send\<close> one poll of its readiness to write.\<close>

record ('d, 'k) udp_os =
  uo_new :: "SocketAddressFamily \<Rightarrow> 'k \<Rightarrow> (io_error, 'd) result \<times> 'k"
  uo_writable :: "'d \<Rightarrow> 'k \<Rightarrow> (io_error, unit) result \<times> 'k"
  uo_options :: "'d \<Rightarrow> 'k sockopt_lib"
  uo_local_addr :: "'d \<Rightarrow> 'k \<Rightarrow> (io_error, socket_addr) result"
  uo_peer_addr :: "'d \<Rightarrow> 'k \<Rightarrow> (io_error, socket_addr) result"
  uo_try_send :: "'d \<Rightarrow> u8 list \<Rightarrow> 'k \<Rightarrow> (io_error, nat) result \<times> 'k"
  uo_try_send_to :: "'d \<Rightarrow> u8 list \<Rightarrow> socket_addr \<Rightarrow> 'k \<Rightarrow> (io_error, nat) result \<times> 'k"
  uo_try_recv_from :: "'d \<Rightarrow> nat \<Rightarrow> 'k \<Rightarrow> (io_error, u8 list \<times> socket_addr) result \<times> 'k"
  uo_ready_to_send :: "'d \<Rightarrow> 'k \<Rightarrow> bool"

record UdpDatagram =
  ud_source_address :: socket_addr
  ud_data :: "u8 list"

text \<open>\<open>OwnedSemaphorePermit\<close>: how many permits of which semaphore.\<close>

record OwnedPermit =
  op_semaphore :: nat
  op_num_permits :: nat

type_synonym virtual_datagram = "UdpDatagram \<times> OwnedPermit"

text \<open>An unbounded channel. A send that finds no receiver gives the message back, which is
  \<open>None\<close>; a pending poll is \<open>None\<close>, a channel without senders \<open>Some None\<close>.\<close>

record ('ch, 'w) datagram_lib =
  dc_channel :: "'w \<Rightarrow> 'ch \<times> 'w"
  dc_send :: "'ch \<Rightarrow> virtual_datagram \<Rightarrow> 'w \<Rightarrow> 'w option"
  dc_try_recv :: "'ch \<Rightarrow> 'w \<Rightarrow> virtual_datagram option \<times> 'w"
  dc_poll_recv :: "'ch \<Rightarrow> 'w \<Rightarrow> virtual_datagram option option \<times> 'w"

record ('d, 'k, 'ch, 'w, 'p) udp_env =
  ux_os :: "('d, 'k) udp_os"
  ux_chan :: "('ch, 'w) datagram_lib"
  ux_permits :: "'p permits_lib"
  ux_try_acquire_many :: "nat \<Rightarrow> 'p \<Rightarrow> 'p option"

text \<open>A datagram handed to the operating system: the socket's set of peers, where to, what, when,
  and whether it was taken.\<close>

record SentDatagram =
  se_peers :: "nat option"
  se_addr :: socket_addr
  se_data :: "u8 list"
  se_clock :: instant
  se_ok :: bool

record ('k, 'ch, 'w, 'p) planes =
  ps_kernel :: 'k
  ps_net :: "'ch Network"
  ps_chan :: 'w
  ps_permits :: "'p list"
  ps_peers :: "socket_addr btree_set list"
  ps_sent :: "SentDatagram list"
  ps_heard :: "(nat option \<times> socket_addr) list"

section \<open>The real half\<close>

datatype UdpState = U_Default | U_BindStarted | U_Bound | U_Connected socket_addr

record 'd NetworkUdpSocket =
  nu_socket :: 'd
  nu_state :: UdpState
  nu_family :: SocketAddressFamily
  nu_socket_addr_check :: "SocketAddrCheck option"
  nu_quota_slot :: "ConnectionSlot option"
  nu_connected_plane :: "Plane option"
  nu_connected_until :: "instant option"
  nu_egress_peers :: "nat option"

definition nu_new ::
    "('d, 'k) udp_os \<Rightarrow> AllowedNetworkUses \<Rightarrow> SocketAddressFamily \<Rightarrow> 'k \<Rightarrow> (ErrorCode, 'd NetworkUdpSocket) result \<times> 'k" where
  "nu_new os uses family k =
     (case check_allowed_udp uses of
        Inl err \<Rightarrow> (Err (ErrorCode_from_io_error err), k)
      | Inr _ \<Rightarrow>
          (case uo_new os family k of
             (Inl err, k) \<Rightarrow> (Err (ErrorCode_from_io_error err), k)
           | (Inr d, k) \<Rightarrow>
               (case uo_writable os d k of
                  (Inl err, k) \<Rightarrow> (Err (ErrorCode_from_io_error err), k)
                | (Inr _, k) \<Rightarrow>
                    (Ok \<lparr>nu_socket = d, nu_state = U_Default, nu_family = family, nu_socket_addr_check = None,
                         nu_quota_slot = None, nu_connected_plane = None, nu_connected_until = None,
                         nu_egress_peers = None\<rparr>, k))))"

definition nu_bind ::
    "('d, 'k) udp_os \<Rightarrow> socket_addr \<Rightarrow> 'd NetworkUdpSocket \<Rightarrow> 'k \<Rightarrow>
     (ErrorCode, unit) result \<times> 'd NetworkUdpSocket \<times> 'k" where
  "nu_bind os addr s k =
     (case udp_bind (uo_options os (nu_socket s)) addr k of
        Inl e \<Rightarrow> (Err e, s, k)
      | Inr (_, k) \<Rightarrow> (Ok (), s\<lparr>nu_state := U_BindStarted\<rparr>, k))"

definition nu_finish_bind :: "'d NetworkUdpSocket \<Rightarrow> (ErrorCode, unit) result \<times> 'd NetworkUdpSocket" where
  "nu_finish_bind s =
     (if nu_state s = U_BindStarted then (Ok (), s\<lparr>nu_state := U_Bound\<rparr>) else (Err NotInProgress, s))"

definition nu_is_connected :: "'d NetworkUdpSocket \<Rightarrow> bool" where
  "nu_is_connected s = (case nu_state s of U_Connected _ \<Rightarrow> True | _ \<Rightarrow> False)"

definition nu_is_bound :: "'d NetworkUdpSocket \<Rightarrow> bool" where
  "nu_is_bound s = (case nu_state s of U_Connected _ \<Rightarrow> True | U_Bound \<Rightarrow> True | _ \<Rightarrow> False)"

definition nu_disconnect ::
    "('d, 'k) udp_os \<Rightarrow> 'd NetworkUdpSocket \<Rightarrow> 'k \<Rightarrow> (ErrorCode, unit) result \<times> 'd NetworkUdpSocket \<times> 'k" where
  "nu_disconnect os s k =
     (if \<not> nu_is_connected s then (Err InvalidState, s, k)
      else (case udp_disconnect (uo_options os (nu_socket s)) k of
              Inl errno \<Rightarrow> (Err (ErrorCode_from_errno errno), s, k)
            | Inr (_, k) \<Rightarrow> (Ok (), s\<lparr>nu_state := U_Bound\<rparr>, k)))"

text \<open>A connect the operating system refuses leaves the socket bound and without a peer.\<close>

definition nu_connect ::
    "('d, 'k) udp_os \<Rightarrow> socket_addr \<Rightarrow> 'd NetworkUdpSocket \<Rightarrow> 'k \<Rightarrow>
     (ErrorCode, unit) result \<times> 'd NetworkUdpSocket \<times> 'k" where
  "nu_connect os addr s k =
     (let opts = uo_options os (nu_socket s) in
      if \<not> is_valid_address_family (sa_ip addr) (nu_family s) \<or> \<not> is_valid_remote_address addr
      then (Err InvalidArgument, s, k)
      else if \<not> nu_is_bound s then (Err InvalidState, s, k)
      else (case udp_connect opts addr k of
              Inr (_, k) \<Rightarrow> (Ok (), s\<lparr>nu_state := U_Connected addr\<rparr>, k)
            | Inl errno \<Rightarrow>
                (Err (if errno = AFNOSUPPORT then InvalidArgument else ErrorCode_from_errno errno),
                 s\<lparr>nu_state := U_Bound\<rparr>,
                 (case udp_disconnect opts k of Inl _ \<Rightarrow> k | Inr (_, k) \<Rightarrow> k))))"

definition nu_connect_on ::
    "('d, 'k) udp_os \<Rightarrow> socket_addr \<Rightarrow> Plane \<Rightarrow> instant option \<Rightarrow> 'd NetworkUdpSocket \<Rightarrow> 'k \<Rightarrow>
     (ErrorCode, unit) result \<times> 'd NetworkUdpSocket \<times> 'k" where
  "nu_connect_on os addr plane valid_until s k =
     (case nu_connect os addr s k of
        (connected, s, k) \<Rightarrow>
          (connected,
           (case connected of
              Inr _ \<Rightarrow> s\<lparr>nu_connected_plane := Some plane, nu_connected_until := valid_until\<rparr>
            | Inl _ \<Rightarrow>
                if nu_is_connected s then s else s\<lparr>nu_connected_plane := None, nu_connected_until := None\<rparr>), k))"

definition nu_local_address :: "('d, 'k) udp_os \<Rightarrow> 'd NetworkUdpSocket \<Rightarrow> 'k \<Rightarrow> (ErrorCode, socket_addr) result" where
  "nu_local_address os s k =
     (if nu_state s = U_Default \<or> nu_state s = U_BindStarted then Err InvalidState
      else map_sum ErrorCode_from_io_error id (uo_local_addr os (nu_socket s) k))"

definition nu_remote_address :: "('d, 'k) udp_os \<Rightarrow> 'd NetworkUdpSocket \<Rightarrow> 'k \<Rightarrow> (ErrorCode, socket_addr) result" where
  "nu_remote_address os s k =
     (if \<not> nu_is_connected s then Err InvalidState
      else map_sum ErrorCode_from_io_error id (uo_peer_addr os (nu_socket s) k))"

section \<open>The virtual half\<close>

type_synonym 'ch virtual_udp = "('ch, nat, SocketAddrCheck) lu_socket"

text \<open>The options of the real socket, read in this order, become those of the virtual one.\<close>

definition lu_new ::
    "('d, 'k) udp_os \<Rightarrow> 'd NetworkUdpSocket \<Rightarrow> ('ch, nat) lu_state \<Rightarrow> 'k \<Rightarrow> (ErrorCode, 'ch virtual_udp \<times> 'k) result" where
  "lu_new os socket state k =
     (let opts = uo_options os (nu_socket socket) in
      bind_result (get_unicast_hop_limit opts (nu_family socket) k) (\<lambda>(hop_limit, k).
      bind_result (receive_buffer_size_opt opts k) (\<lambda>(receive_buffer_size, k).
      bind_result (send_buffer_size_opt opts k) (\<lambda>(send_buffer_size, k).
        Ok (\<lparr>lu_st = state, lu_hop_limit = hop_limit, lu_receive_buffer_size = receive_buffer_size,
             lu_send_buffer_size =
               (if unat send_buffer_size < 2 ^ 32 then ucast send_buffer_size else MAX_UDP_SEND_BUFFER_SIZE),
             lu_family = nu_family socket, lu_socket_addr_check = nu_socket_addr_check socket\<rparr>, k)))))"

text \<open>\<open>finish_bind\<close> creates the semaphore; the socket keeps its position.\<close>

definition fresh_permits :: "nat \<Rightarrow> nat permits_lib" where
  "fresh_permits r = \<lparr>pl_new = (\<lambda>_. r), pl_available = (\<lambda>_. 0), pl_forget = (\<lambda>_ p. (0, p)), pl_add = (\<lambda>_ p. p)\<rparr>"

definition lu_finish_bind_in ::
    "'p permits_lib \<Rightarrow> 'ch virtual_udp \<Rightarrow> ('k, 'ch, 'w, 'p) planes \<Rightarrow>
     (ErrorCode, unit) result \<times> 'ch virtual_udp \<times> ('k, 'ch, 'w, 'p) planes" where
  "lu_finish_bind_in lib lo ps =
     (case lu_finish_bind (fresh_permits (length (ps_permits ps))) lo of
        (Inl e, lo) \<Rightarrow> (Err e, lo, ps)
      | (Inr _, lo) \<Rightarrow>
          (Ok (), lo, ps\<lparr>ps_permits := ps_permits ps @ [pl_new lib (unat (lu_send_buffer_size lo))]\<rparr>))"

text \<open>Dropping a permit gives it back to its semaphore.\<close>

definition drop_permit :: "'p permits_lib \<Rightarrow> OwnedPermit \<Rightarrow> ('k, 'ch, 'w, 'p) planes \<Rightarrow> ('k, 'ch, 'w, 'p) planes" where
  "drop_permit lib permit ps =
     (let r = op_semaphore permit in
      if r < length (ps_permits ps)
      then ps\<lparr>ps_permits := (ps_permits ps)[r := pl_add lib (op_num_permits permit) (ps_permits ps ! r)]\<rparr>
      else ps)"

section \<open>Both halves\<close>

datatype ('d, 'ch) UdpSocket =
    US_Network "'d NetworkUdpSocket"
  | US_Loopback "'ch virtual_udp"
  | US_Unspecified "'d NetworkUdpSocket" "'ch virtual_udp"

text \<open>The end of \<open>bind\<close>: claim the virtual port and build the virtual half.\<close>

definition us_bind_virtual ::
    "('d, 'k, 'ch, 'w, 'p) udp_env \<Rightarrow> socket_addr \<Rightarrow> bool \<Rightarrow> 'd NetworkUdpSocket \<Rightarrow> ('k, 'ch, 'w, 'p) planes \<Rightarrow>
     (ErrorCode, unit) result \<times> ('d, 'ch) UdpSocket \<times> ('k, 'ch, 'w, 'p) planes" where
  "us_bind_virtual env addr unspecified socket ps =
     (case dc_channel (ux_chan env) (ps_chan ps) of
        (rx, w) \<Rightarrow>
          (case bind_udp rx addr (ps_net ps) of
             Inl e \<Rightarrow> (Err e, US_Network socket, ps)
           | Inr (addr, n) \<Rightarrow>
               let ps = ps\<lparr>ps_net := n, ps_chan := w\<rparr> in
               (case lu_new (ux_os env) socket (LU_BindStarted addr rx) (ps_kernel ps) of
                  Inl e \<Rightarrow> (Err e, US_Network socket, ps)
                | Inr (lo, k) \<Rightarrow>
                    (Ok (), if unspecified then US_Unspecified socket lo else US_Loopback lo, ps\<lparr>ps_kernel := k\<rparr>))))"

definition us_bind ::
    "('d, 'k, 'ch, 'w, 'p) udp_env \<Rightarrow> socket_addr \<Rightarrow> ('d, 'ch) UdpSocket \<Rightarrow> ('k, 'ch, 'w, 'p) planes \<Rightarrow>
     (ErrorCode, unit) result \<times> ('d, 'ch) UdpSocket \<times> ('k, 'ch, 'w, 'p) planes" where
  "us_bind env addr self ps =
     (case self of
        US_Network socket \<Rightarrow>
          if nu_state socket \<noteq> U_Default then (Err InvalidState, self, ps)
          else if \<not> is_valid_address_family (sa_ip addr) (nu_family socket) then (Err InvalidArgument, self, ps)
          else let ip = to_canonical (sa_ip addr) in
            if is_loopback ip then us_bind_virtual env addr False socket ps
            else (case nu_bind (ux_os env) addr socket (ps_kernel ps) of
                    (Inl e, socket, k) \<Rightarrow> (Err e, US_Network socket, ps\<lparr>ps_kernel := k\<rparr>)
                  | (Inr _, socket, k) \<Rightarrow>
                      if \<not> is_unspecified ip then (Ok (), US_Network socket, ps\<lparr>ps_kernel := k\<rparr>)
                      else let socket = socket\<lparr>nu_egress_peers := Some (length (ps_peers ps))\<rparr>;
                               ps = ps\<lparr>ps_kernel := k, ps_peers := ps_peers ps @ [[]]\<rparr>
                           in (case uo_local_addr (ux_os env) (nu_socket socket) k of
                                 Inl err \<Rightarrow> (Err (ErrorCode_from_io_error err), US_Network socket, ps)
                               | Inr addr \<Rightarrow> us_bind_virtual env (loopback_of addr) True socket ps))
      | _ \<Rightarrow> (Err InvalidState, self, ps))"

definition us_finish_bind ::
    "('d, 'k, 'ch, 'w, 'p) udp_env \<Rightarrow> ('d, 'ch) UdpSocket \<Rightarrow> ('k, 'ch, 'w, 'p) planes \<Rightarrow>
     (ErrorCode, unit) result \<times> ('d, 'ch) UdpSocket \<times> ('k, 'ch, 'w, 'p) planes" where
  "us_finish_bind env self ps =
     (case self of
        US_Network socket \<Rightarrow> (case nu_finish_bind socket of (r, socket) \<Rightarrow> (r, US_Network socket, ps))
      | US_Loopback socket \<Rightarrow>
          (case lu_finish_bind_in (ux_permits env) socket ps of (r, socket, ps) \<Rightarrow> (r, US_Loopback socket, ps))
      | US_Unspecified net lo \<Rightarrow>
          (case nu_finish_bind net of
             (Inl e, net) \<Rightarrow> (Err e, US_Unspecified net lo, ps)
           | (Inr _, net) \<Rightarrow>
               (case lu_finish_bind_in (ux_permits env) lo ps of (r, lo, ps) \<Rightarrow> (r, US_Unspecified net lo, ps))))"

definition us_is_connected :: "('d, 'ch) UdpSocket \<Rightarrow> bool" where
  "us_is_connected self =
     (case self of
        US_Network socket \<Rightarrow> nu_is_connected socket
      | US_Loopback socket \<Rightarrow> lu_is_connected socket
      | US_Unspecified net lo \<Rightarrow> nu_is_connected net \<and> lu_is_connected lo)"

definition us_is_bound :: "('d, 'ch) UdpSocket \<Rightarrow> bool" where
  "us_is_bound self =
     (case self of
        US_Network socket \<Rightarrow> nu_is_bound socket
      | US_Loopback socket \<Rightarrow> lu_is_bound socket
      | US_Unspecified net lo \<Rightarrow> nu_is_bound net \<and> lu_is_bound lo)"

definition us_disconnect ::
    "('d, 'k, 'ch, 'w, 'p) udp_env \<Rightarrow> ('d, 'ch) UdpSocket \<Rightarrow> ('k, 'ch, 'w, 'p) planes \<Rightarrow>
     (ErrorCode, unit) result \<times> ('d, 'ch) UdpSocket \<times> ('k, 'ch, 'w, 'p) planes" where
  "us_disconnect env self ps =
     (case self of
        US_Network socket \<Rightarrow>
          (case nu_disconnect (ux_os env) socket (ps_kernel ps) of (r, socket, k) \<Rightarrow> (r, US_Network socket, ps\<lparr>ps_kernel := k\<rparr>))
      | US_Loopback socket \<Rightarrow>
          (case lu_disconnect (ps_net ps) socket of (r, socket, n) \<Rightarrow> (r, US_Loopback socket, ps\<lparr>ps_net := n\<rparr>))
      | US_Unspecified net lo \<Rightarrow>
          (case nu_disconnect (ux_os env) net (ps_kernel ps) of
             (Inl e, net, k) \<Rightarrow> (Err e, US_Unspecified net lo, ps\<lparr>ps_kernel := k\<rparr>)
           | (Inr _, net, k) \<Rightarrow>
               (case lu_disconnect (ps_net ps) lo of
                  (r, lo, n) \<Rightarrow> (r, US_Unspecified net lo, ps\<lparr>ps_kernel := k, ps_net := n\<rparr>))))"

text \<open>Both halves of an unspecified socket record the peer.\<close>

definition us_connect ::
    "('d, 'k, 'ch, 'w, 'p) udp_env \<Rightarrow> socket_addr \<Rightarrow> Plane \<Rightarrow> instant option \<Rightarrow> ('d, 'ch) UdpSocket \<Rightarrow> ('k, 'ch, 'w, 'p) planes \<Rightarrow>
     (ErrorCode, unit) result \<times> ('d, 'ch) UdpSocket \<times> ('k, 'ch, 'w, 'p) planes" where
  "us_connect env addr plane valid_until self ps =
     (case self of
        US_Network socket \<Rightarrow>
          (case nu_connect_on (ux_os env) addr plane valid_until socket (ps_kernel ps) of
             (r, socket, k) \<Rightarrow> (r, US_Network socket, ps\<lparr>ps_kernel := k\<rparr>))
      | US_Loopback socket \<Rightarrow>
          (case lu_connect addr (ps_net ps) socket of (r, socket, n) \<Rightarrow> (r, US_Loopback socket, ps\<lparr>ps_net := n\<rparr>))
      | US_Unspecified net lo \<Rightarrow>
          (case nu_connect_on (ux_os env) addr plane valid_until net (ps_kernel ps) of
             (Inl e, net, k) \<Rightarrow> (Err e, US_Unspecified net lo, ps\<lparr>ps_kernel := k\<rparr>)
           | (Inr _, net, k) \<Rightarrow>
               (case lu_connect addr (ps_net ps) lo of
                  (r, lo, n) \<Rightarrow> (r, US_Unspecified net lo, ps\<lparr>ps_kernel := k, ps_net := n\<rparr>))))"

definition us_local_address ::
    "('d, 'k, 'ch, 'w, 'p) udp_env \<Rightarrow> ('d, 'ch) UdpSocket \<Rightarrow> 'k \<Rightarrow> (ErrorCode, socket_addr) result" where
  "us_local_address env self k =
     (case self of
        US_Network socket \<Rightarrow> nu_local_address (ux_os env) socket k
      | US_Unspecified socket _ \<Rightarrow> nu_local_address (ux_os env) socket k
      | US_Loopback socket \<Rightarrow> lu_local_address socket)"

definition us_remote_address ::
    "('d, 'k, 'ch, 'w, 'p) udp_env \<Rightarrow> ('d, 'ch) UdpSocket \<Rightarrow> 'k \<Rightarrow> (ErrorCode, socket_addr) result" where
  "us_remote_address env self k =
     (case self of
        US_Network socket \<Rightarrow> nu_remote_address (ux_os env) socket k
      | US_Unspecified socket _ \<Rightarrow> nu_remote_address (ux_os env) socket k
      | US_Loopback socket \<Rightarrow> lu_remote_address socket)"

fun us_socket_addr_check :: "('d, 'ch) UdpSocket \<Rightarrow> SocketAddrCheck option" where
  "us_socket_addr_check (US_Network socket) = nu_socket_addr_check socket"
| "us_socket_addr_check (US_Unspecified net lo) = nu_socket_addr_check net"
| "us_socket_addr_check (US_Loopback socket) = lu_socket_addr_check socket"

fun us_set_socket_addr_check :: "SocketAddrCheck option \<Rightarrow> ('d, 'ch) UdpSocket \<Rightarrow> ('d, 'ch) UdpSocket" where
  "us_set_socket_addr_check check (US_Network socket) = US_Network (socket\<lparr>nu_socket_addr_check := check\<rparr>)"
| "us_set_socket_addr_check check (US_Loopback socket) = US_Loopback (socket\<lparr>lu_socket_addr_check := check\<rparr>)"
| "us_set_socket_addr_check check (US_Unspecified net lo) =
     US_Unspecified (net\<lparr>nu_socket_addr_check := check\<rparr>) (lo\<lparr>lu_socket_addr_check := check\<rparr>)"

fun us_hold_quota_slot :: "ConnectionSlot option \<Rightarrow> ('d, 'ch) UdpSocket \<Rightarrow> ('d, 'ch) UdpSocket" where
  "us_hold_quota_slot None self = self"
| "us_hold_quota_slot (Some slot) (US_Network socket) = US_Network (socket\<lparr>nu_quota_slot := Some slot\<rparr>)"
| "us_hold_quota_slot (Some slot) (US_Unspecified net lo) = US_Unspecified (net\<lparr>nu_quota_slot := Some slot\<rparr>) lo"
| "us_hold_quota_slot (Some slot) (US_Loopback socket) = US_Loopback socket"

definition us_drop :: "('d, 'ch) UdpSocket \<Rightarrow> 'ch Network \<Rightarrow> (drop_error, 'ch Network) result" where
  "us_drop self n =
     (case self of
        US_Network _ \<Rightarrow> Ok n
      | US_Loopback socket \<Rightarrow> lu_drop socket n
      | US_Unspecified _ lo \<Rightarrow> lu_drop lo n)"

section \<open>Options\<close>

definition us_unicast_hop_limit ::
    "('d, 'k, 'ch, 'w, 'p) udp_env \<Rightarrow> ('d, 'ch) UdpSocket \<Rightarrow> 'k \<Rightarrow> (ErrorCode, u8 \<times> 'k) result" where
  "us_unicast_hop_limit env self k =
     (let net = (\<lambda>s. get_unicast_hop_limit (uo_options (ux_os env) (nu_socket s)) (nu_family s) k) in
      (case self of US_Network s \<Rightarrow> net s | US_Unspecified s _ \<Rightarrow> net s | US_Loopback s \<Rightarrow> Ok (lu_hop_limit s, k)))"

definition us_receive_buffer_size ::
    "('d, 'k, 'ch, 'w, 'p) udp_env \<Rightarrow> ('d, 'ch) UdpSocket \<Rightarrow> 'k \<Rightarrow> (ErrorCode, u64 \<times> 'k) result" where
  "us_receive_buffer_size env self k =
     (let net = (\<lambda>s. receive_buffer_size_opt (uo_options (ux_os env) (nu_socket s)) k) in
      (case self of US_Network s \<Rightarrow> net s | US_Unspecified s _ \<Rightarrow> net s | US_Loopback s \<Rightarrow> Ok (lu_receive_buffer_size s, k)))"

definition us_send_buffer_size ::
    "('d, 'k, 'ch, 'w, 'p) udp_env \<Rightarrow> ('d, 'ch) UdpSocket \<Rightarrow> 'k \<Rightarrow> (ErrorCode, u64 \<times> 'k) result" where
  "us_send_buffer_size env self k =
     (let net = (\<lambda>s. send_buffer_size_opt (uo_options (ux_os env) (nu_socket s)) k) in
      (case self of US_Network s \<Rightarrow> net s | US_Unspecified s _ \<Rightarrow> net s | US_Loopback s \<Rightarrow> Ok (ucast (lu_send_buffer_size s), k)))"

text \<open>Setting an option sets it on the real half first; an error there leaves the virtual half
  as it was.\<close>

definition us_set_option ::
    "('d NetworkUdpSocket \<Rightarrow> 'k \<Rightarrow> (ErrorCode, 'a \<times> 'k) result) \<Rightarrow>
     ('ch virtual_udp \<Rightarrow> ('k, 'ch, 'w, 'p) planes \<Rightarrow> (ErrorCode, unit) result \<times> 'ch virtual_udp \<times> ('k, 'ch, 'w, 'p) planes) \<Rightarrow>
     ('d, 'ch) UdpSocket \<Rightarrow> ('k, 'ch, 'w, 'p) planes \<Rightarrow>
     (ErrorCode, unit) result \<times> ('d, 'ch) UdpSocket \<times> ('k, 'ch, 'w, 'p) planes" where
  "us_set_option set_net set_lo self ps =
     (case self of
        US_Network s \<Rightarrow>
          (case set_net s (ps_kernel ps) of
             Inl e \<Rightarrow> (Err e, self, ps)
           | Inr (_, k) \<Rightarrow> (Ok (), self, ps\<lparr>ps_kernel := k\<rparr>))
      | US_Loopback s \<Rightarrow> (case set_lo s ps of (r, s, ps) \<Rightarrow> (r, US_Loopback s, ps))
      | US_Unspecified net lo \<Rightarrow>
          (case set_net net (ps_kernel ps) of
             Inl e \<Rightarrow> (Err e, self, ps)
           | Inr (_, k) \<Rightarrow>
               (case set_lo lo (ps\<lparr>ps_kernel := k\<rparr>) of (r, lo, ps) \<Rightarrow> (r, US_Unspecified net lo, ps))))"

definition us_set_unicast_hop_limit ::
    "('d, 'k, 'ch, 'w, 'p) udp_env \<Rightarrow> u8 \<Rightarrow> ('d, 'ch) UdpSocket \<Rightarrow> ('k, 'ch, 'w, 'p) planes \<Rightarrow>
     (ErrorCode, unit) result \<times> ('d, 'ch) UdpSocket \<times> ('k, 'ch, 'w, 'p) planes" where
  "us_set_unicast_hop_limit env value =
     us_set_option (\<lambda>s. set_unicast_hop_limit (uo_options (ux_os env) (nu_socket s)) (nu_family s) value)
       (\<lambda>lo ps. case lu_set_unicast_hop_limit value lo of (r, lo) \<Rightarrow> (r, lo, ps))"

definition us_set_receive_buffer_size ::
    "('d, 'k, 'ch, 'w, 'p) udp_env \<Rightarrow> u64 \<Rightarrow> ('d, 'ch) UdpSocket \<Rightarrow> ('k, 'ch, 'w, 'p) planes \<Rightarrow>
     (ErrorCode, unit) result \<times> ('d, 'ch) UdpSocket \<times> ('k, 'ch, 'w, 'p) planes" where
  "us_set_receive_buffer_size env value =
     us_set_option (\<lambda>s. set_receive_buffer_size_opt (uo_options (ux_os env) (nu_socket s)) value)
       (\<lambda>lo ps. case lu_set_receive_buffer_size value lo of (r, lo) \<Rightarrow> (r, lo, ps))"

text \<open>The semaphore of a virtual half is resized where it is kept.\<close>

definition lu_at :: "'p list \<Rightarrow> 'ch virtual_udp \<Rightarrow> ('ch, 'p, SocketAddrCheck) lu_socket" where
  "lu_at permits lo =
     \<lparr>lu_st = map_lu_state id ((!) permits) (lu_st lo), lu_hop_limit = lu_hop_limit lo,
      lu_receive_buffer_size = lu_receive_buffer_size lo, lu_send_buffer_size = lu_send_buffer_size lo,
      lu_family = lu_family lo, lu_socket_addr_check = lu_socket_addr_check lo\<rparr>"

definition us_set_send_buffer_size ::
    "('d, 'k, 'ch, 'w, 'p) udp_env \<Rightarrow> u64 \<Rightarrow> ('d, 'ch) UdpSocket \<Rightarrow> ('k, 'ch, 'w, 'p) planes \<Rightarrow>
     (ErrorCode, unit) result \<times> ('d, 'ch) UdpSocket \<times> ('k, 'ch, 'w, 'p) planes" where
  "us_set_send_buffer_size env value =
     us_set_option (\<lambda>s. set_send_buffer_size_opt (uo_options (ux_os env) (nu_socket s)) value)
       (\<lambda>lo ps.
          case lu_set_send_buffer_size (ux_permits env) value (lu_at (ps_permits ps) lo) of
            (r, resized) \<Rightarrow>
              (r, lo\<lparr>lu_send_buffer_size := lu_send_buffer_size resized\<rparr>,
               (case (lu_permits (lu_st lo), lu_permits (lu_st resized)) of
                  (Some at, Some p) \<Rightarrow> ps\<lparr>ps_permits := (ps_permits ps)[at := p]\<rparr>
                | _ \<Rightarrow> ps)))"

section \<open>Streams\<close>

record 'd NetworkIncomingDatagramStream =
  ni_inner :: 'd
  ni_remote_address :: "socket_addr option"
  ni_egress_peers :: "nat option"
  ni_socket_addr_check :: "SocketAddrCheck option"

record 'd NetworkOutgoingDatagramStream =
  no_inner :: 'd
  no_remote_address :: "socket_addr option"
  no_valid_until :: "instant option"
  no_family :: SocketAddressFamily
  no_socket_addr_check :: "SocketAddrCheck option"
  no_check_send_permit_count :: nat
  no_egress_peers :: "nat option"

record 'ch LoopbackIncomingDatagramStream =
  li_remote_address :: "socket_addr option"
  li_rx :: 'ch
  li_received :: "virtual_datagram option"
  li_socket_addr_check :: "SocketAddrCheck option"

record LoopbackOutgoingDatagramStream =
  lg_local_address :: socket_addr
  lg_remote_address :: "socket_addr option"
  lg_family :: SocketAddressFamily
  lg_socket_addr_check :: "SocketAddrCheck option"
  lg_permits :: nat
  lg_permit :: "OwnedPermit option"

datatype ('d, 'ch) IncomingDatagramStream =
    IS_Network "'d NetworkIncomingDatagramStream"
  | IS_Loopback "'ch LoopbackIncomingDatagramStream"
  | IS_Unspecified "'d NetworkIncomingDatagramStream" "'ch LoopbackIncomingDatagramStream"

datatype 'd OutgoingDatagramStream =
    OS_Network "'d NetworkOutgoingDatagramStream"
  | OS_Loopback LoopbackOutgoingDatagramStream
  | OS_Unspecified "'d NetworkOutgoingDatagramStream" LoopbackOutgoingDatagramStream

definition p2_udp_streams ::
    "socket_addr option \<Rightarrow> 'ch virtual_udp \<Rightarrow>
     (ErrorCode, 'ch LoopbackIncomingDatagramStream \<times> LoopbackOutgoingDatagramStream) result" where
  "p2_udp_streams remote_address s =
     (let streams = (\<lambda>local_address rx permits.
            (\<lparr>li_remote_address = remote_address, li_rx = rx, li_received = None,
              li_socket_addr_check = lu_socket_addr_check s\<rparr>,
             \<lparr>lg_local_address = local_address, lg_remote_address = remote_address, lg_family = lu_family s,
              lg_socket_addr_check = lu_socket_addr_check s, lg_permits = permits, lg_permit = None\<rparr>))
      in (case lu_st s of
            LU_Bound local_address rx permits \<Rightarrow> Ok (streams local_address rx permits)
          | LU_Connected local_address _ rx permits \<Rightarrow> Ok (streams local_address rx permits)
          | _ \<Rightarrow> Err InvalidState))"

text \<open>The permit of a virtual send is everything that is available, kept for the next send.\<close>

definition lg_check_send ::
    "('d, 'k, 'ch, 'w, 'p) udp_env \<Rightarrow> LoopbackOutgoingDatagramStream \<Rightarrow> ('k, 'ch, 'w, 'p) planes \<Rightarrow>
     bool \<times> LoopbackOutgoingDatagramStream \<times> ('k, 'ch, 'w, 'p) planes" where
  "lg_check_send env s ps =
     (if lg_permit s \<noteq> None then (True, s, ps)
      else let r = lg_permits s; wanted = pl_available (ux_permits env) (ps_permits ps ! r) mod 2 ^ 32
           in (case ux_try_acquire_many env wanted (ps_permits ps ! r) of
                 None \<Rightarrow> (False, s, ps)
               | Some p \<Rightarrow>
                   (True, s\<lparr>lg_permit := Some \<lparr>op_semaphore = r, op_num_permits = wanted\<rparr>\<rparr>,
                    ps\<lparr>ps_permits := (ps_permits ps)[r := p]\<rparr>)))"

end
