(* ===== verification/Udp_Host.thy ===== *)
theory Udp_Host
  imports Udp_Socket
begin

text \<open>
  The datagram calls of a guest: \<open>sockets/host_udp_create_socket.rs\<close> and \<open>sockets/host_udp.rs\<close>
  over the policy, the sockets of \<open>Udp_Socket\<close>, the virtual network and the lookup history of one
  store.

  A handler takes the resource it was called on and returns it updated. A stream is a child of
  its socket in the resource table, which refuses to drop a socket with children. The clock is
  read once for each datagram, as the code reads it. Receiving loops over what the operating
  system and the virtual endpoint hold; \<open>None\<close> is a loop that does not end.
\<close>

section \<open>One store\<close>

record ('k, 'ch, 'w, 'p, 's) udp_store =
  ut_ctx :: WasiSocketsCtx
  ut_planes :: "('k, 'ch, 'w, 'p) planes"
  ut_poisoned :: bool
  ut_shared :: "'s host_shared"

definition udp_check ::
    "'s semaphore_lib \<Rightarrow> instant \<Rightarrow> SocketAddrCheck \<Rightarrow> socket_addr \<Rightarrow> SocketAddrUse \<Rightarrow> ('k, 'ch, 'w, 'p, 's) udp_store \<Rightarrow>
     (ErrorCode, Allowed) result \<times> ('k, 'ch, 'w, 'p, 's) udp_store" where
  "udp_check sem clock check addr reason st =
     (case SocketAddrCheck_check sem clock check addr reason (sc_resolved_names (ut_ctx st)) (ut_shared st) of
        (r, sh) \<Rightarrow> (r, st\<lparr>ut_shared := sh\<rparr>))"

fun us_slot :: "('d, 'ch) UdpSocket \<Rightarrow> ConnectionSlot option" where
  "us_slot (US_Network s) = nu_quota_slot s"
| "us_slot (US_Loopback _) = None"
| "us_slot (US_Unspecified s _) = nu_quota_slot s"

definition udp_drop_slot ::
    "'s semaphore_lib \<Rightarrow> ConnectionSlot option \<Rightarrow> ('k, 'ch, 'w, 'p, 's) udp_store \<Rightarrow> ('k, 'ch, 'w, 'p, 's) udp_store" where
  "udp_drop_slot sem slot st =
     (case (sc_check (ut_ctx st), slot) of
        (SC_Policy p, Some s) \<Rightarrow>
          (case sp_quota p of
             Some q \<Rightarrow> st\<lparr>ut_shared := release_slot sem q s (ut_shared st)\<rparr>
           | None \<Rightarrow> st)
      | _ \<Rightarrow> st)"

section \<open>Socket calls\<close>

definition create_udp_socket ::
    "('d, 'k, 'ch, 'w, 'p) udp_env \<Rightarrow> 's semaphore_lib \<Rightarrow> instant \<Rightarrow> SocketAddressFamily \<Rightarrow> ('k, 'ch, 'w, 'p, 's) udp_store \<Rightarrow>
     (SocketError, ('d, 'ch) UdpSocket) result \<times> ('k, 'ch, 'w, 'p, 's) udp_store" where
  "create_udp_socket env sem clock family st =
     (case udp_check sem clock (sc_check (ut_ctx st)) (implicit_bind_addr family) UdpCreate st of
        (Inl e, st) \<Rightarrow> (Err (socket_error_from_util e), st)
      | (Inr allowed, st) \<Rightarrow>
          (case nu_new (ux_os env) (sc_uses (ut_ctx st)) family (ps_kernel (ut_planes st)) of
             (r, k) \<Rightarrow>
               let st = st\<lparr>ut_planes := (ut_planes st)\<lparr>ps_kernel := k\<rparr>\<rparr> in
               (case r of
                  Inl e \<Rightarrow> (Err (socket_error_from_util e), udp_drop_slot sem (al_permit allowed) st)
                | Inr socket \<Rightarrow> (Ok (us_hold_quota_slot (al_permit allowed) (US_Network socket)), st))))"

text \<open>The network resource holds the check of the store. The real socket of a loopback bind is
  dropped, and its slot with it.\<close>

definition udp_start_bind ::
    "('d, 'k, 'ch, 'w, 'p) udp_env \<Rightarrow> 's semaphore_lib \<Rightarrow> instant \<Rightarrow> IpSocketAddress \<Rightarrow> ('d, 'ch) UdpSocket \<Rightarrow>
     ('k, 'ch, 'w, 'p, 's) udp_store \<Rightarrow>
     (SocketError, unit) result \<times> ('d, 'ch) UdpSocket \<times> ('k, 'ch, 'w, 'p, 's) udp_store" where
  "udp_start_bind env sem clock local_address socket st =
     (let check = sc_check (ut_ctx st) in
      (case udp_check sem clock check (ip_socket_address_to_socket_addr local_address) UdpBind st of
         (Inl e, st) \<Rightarrow> (Err (socket_error_from_util e), socket, st)
       | (Inr allowed, st) \<Rightarrow>
           if ut_poisoned st then (Err SE_Trap, socket, st)
           else (case us_bind env (al_addr allowed) socket (ut_planes st) of
                   (Inl e, socket, ps) \<Rightarrow> (Err (socket_error_from_util e), socket, st\<lparr>ut_planes := ps\<rparr>)
                 | (Inr _, bound, ps) \<Rightarrow>
                     (Ok (), us_set_socket_addr_check (Some check) bound,
                      (if us_slot bound = None then udp_drop_slot sem (us_slot socket) else id) (st\<lparr>ut_planes := ps\<rparr>)))))"

definition udp_finish_bind ::
    "('d, 'k, 'ch, 'w, 'p) udp_env \<Rightarrow> ('d, 'ch) UdpSocket \<Rightarrow> ('k, 'ch, 'w, 'p, 's) udp_store \<Rightarrow>
     (SocketError, unit) result \<times> ('d, 'ch) UdpSocket \<times> ('k, 'ch, 'w, 'p, 's) udp_store" where
  "udp_finish_bind env socket st =
     (case us_finish_bind env socket (ut_planes st) of
        (r, socket, ps) \<Rightarrow> (map_sum socket_error_from_util id r, socket, st\<lparr>ut_planes := ps\<rparr>))"

text \<open>Connecting or disconnecting, at the start of \<open>stream\<close>: the address to use and the plane and
  deadline the policy gave it.\<close>

definition udp_associate ::
    "('d, 'k, 'ch, 'w, 'p) udp_env \<Rightarrow> 's semaphore_lib \<Rightarrow> instant \<Rightarrow> socket_addr option \<Rightarrow> ('d, 'ch) UdpSocket \<Rightarrow>
     ('k, 'ch, 'w, 'p, 's) udp_store \<Rightarrow>
     (SocketError, socket_addr option \<times> Plane option \<times> instant option) result \<times> ('d, 'ch) UdpSocket \<times>
     ('k, 'ch, 'w, 'p, 's) udp_store" where
  "udp_associate env sem clock remote_address socket st =
     (case remote_address of
        Some connect_addr \<Rightarrow>
          (case us_socket_addr_check socket of
             None \<Rightarrow> (Err (SE_Code P2_InvalidState), socket, st)
           | Some check \<Rightarrow>
               (case udp_check sem clock check connect_addr UdpConnect st of
                  (Inl e, st) \<Rightarrow> (Err (socket_error_from_util e), socket, st)
                | (Inr allowed, st) \<Rightarrow>
                    if ut_poisoned st then (Err SE_Trap, socket, st)
                    else (case us_connect env (al_addr allowed) (al_plane allowed) (al_valid_until allowed) socket (ut_planes st) of
                            (Inl e, socket, ps) \<Rightarrow> (Err (socket_error_from_util e), socket, st\<lparr>ut_planes := ps\<rparr>)
                          | (Inr _, socket, ps) \<Rightarrow>
                              (Ok (Some (al_addr allowed), Some (al_plane allowed), al_valid_until allowed),
                               us_hold_quota_slot (al_permit allowed) socket, st\<lparr>ut_planes := ps\<rparr>))))
      | None \<Rightarrow>
          if us_is_connected socket then
            (if ut_poisoned st then (Err SE_Trap, socket, st)
             else (case us_disconnect env socket (ut_planes st) of
                     (Inl e, socket, ps) \<Rightarrow> (Err (socket_error_from_util e), socket, st\<lparr>ut_planes := ps\<rparr>)
                   | (Inr _, socket, ps) \<Rightarrow> (Ok (None, None, None), socket, st\<lparr>ut_planes := ps\<rparr>)))
          else (Ok (None, None, None), socket, st))"

definition network_streams ::
    "socket_addr option \<Rightarrow> instant option \<Rightarrow> 'd NetworkUdpSocket \<Rightarrow>
     'd NetworkIncomingDatagramStream \<times> 'd NetworkOutgoingDatagramStream" where
  "network_streams remote_address valid_until s =
     (\<lparr>ni_inner = nu_socket s, ni_remote_address = remote_address, ni_egress_peers = nu_egress_peers s,
       ni_socket_addr_check = nu_socket_addr_check s\<rparr>,
      \<lparr>no_inner = nu_socket s, no_remote_address = remote_address, no_valid_until = valid_until,
       no_family = nu_family s, no_socket_addr_check = nu_socket_addr_check s,
       no_check_send_permit_count = 0, no_egress_peers = nu_egress_peers s\<rparr>)"

text \<open>Which halves carry the datagrams: the plane of the connected peer, or both.\<close>

definition build_streams ::
    "('d, 'ch) UdpSocket \<Rightarrow> socket_addr option \<Rightarrow> Plane option \<Rightarrow> instant option \<Rightarrow>
     (ErrorCode, ('d, 'ch) IncomingDatagramStream \<times> 'd OutgoingDatagramStream) result" where
  "build_streams socket remote_address connect_plane valid_until =
     (let is_loopback = (case connect_plane of
            Some plane \<Rightarrow> Some (plane = PlaneVirtual)
          | None \<Rightarrow> map_option (\<lambda>addr. is_loopback (to_canonical (sa_ip addr))) remote_address);
          network = (\<lambda>s. case network_streams remote_address valid_until s of (i, out) \<Rightarrow> Ok (IS_Network i, OS_Network out));
          virtual = (\<lambda>s. bind_result (p2_udp_streams remote_address s) (\<lambda>(rx, tx). Ok (IS_Loopback rx, OS_Loopback tx)))
      in (case socket of
            US_Network s \<Rightarrow> network s
          | US_Loopback s \<Rightarrow> virtual s
          | US_Unspecified net lo \<Rightarrow>
              (case is_loopback of
                 Some False \<Rightarrow> network net
               | Some True \<Rightarrow> virtual lo
               | None \<Rightarrow>
                   bind_result (p2_udp_streams remote_address lo) (\<lambda>(lo_rx, lo_tx).
                     case network_streams remote_address valid_until net of
                       (i, out) \<Rightarrow> Ok (IS_Unspecified i lo_rx, OS_Unspecified out lo_tx)))))"

definition udp_stream ::
    "('d, 'k, 'ch, 'w, 'p) udp_env \<Rightarrow> 's semaphore_lib \<Rightarrow> instant \<Rightarrow> bool \<Rightarrow> IpSocketAddress option \<Rightarrow> ('d, 'ch) UdpSocket \<Rightarrow>
     ('k, 'ch, 'w, 'p, 's) udp_store \<Rightarrow>
     (SocketError, ('d, 'ch) IncomingDatagramStream \<times> 'd OutgoingDatagramStream) result \<times> ('d, 'ch) UdpSocket \<times>
     ('k, 'ch, 'w, 'p, 's) udp_store" where
  "udp_stream env sem clock has_active_streams remote_address socket st =
     (if has_active_streams then (Err SE_Trap, socket, st)
      else if \<not> us_is_bound socket then (Err (SE_Code P2_InvalidState), socket, st)
      else (case udp_associate env sem clock (map_option ip_socket_address_to_socket_addr remote_address) socket st of
              (Inl e, socket, st) \<Rightarrow> (Err e, socket, st)
            | (Inr (remote_address, connect_plane, valid_until), socket, st) \<Rightarrow>
                (map_sum socket_error_from_util id (build_streams socket remote_address connect_plane valid_until), socket, st)))"

text \<open>Dropping a socket without streams.\<close>

definition udp_drop ::
    "'s semaphore_lib \<Rightarrow> ('d, 'ch) UdpSocket \<Rightarrow> ('k, 'ch, 'w, 'p, 's) udp_store \<Rightarrow>
     (SocketError, unit) result \<times> ('k, 'ch, 'w, 'p, 's) udp_store" where
  "udp_drop sem socket st =
     (let st = udp_drop_slot sem (us_slot socket) st in
      if ut_poisoned st then (Err SE_Trap, st)
      else (case us_drop socket (ps_net (ut_planes st)) of
              Inl _ \<Rightarrow> (Err SE_Trap, st)
            | Inr n \<Rightarrow> (Ok (), st\<lparr>ut_planes := (ut_planes st)\<lparr>ps_net := n\<rparr>\<rparr>)))"

section \<open>Receiving\<close>

definition MAX_UDP_DATAGRAM_SIZE :: nat where "MAX_UDP_DATAGRAM_SIZE = 65535"

record IncomingDatagram =
  id_data :: "u8 list"
  id_remote_address :: IpSocketAddress

definition socket_error_from_io :: "io_error \<Rightarrow> SocketError" where
  "socket_error_from_io err = SE_Code (error_code_from_io (io_kind err))"

text \<open>Whether the check of a stream, if it has one, refuses a sender.\<close>

definition receive_denied ::
    "'s semaphore_lib \<Rightarrow> instant \<Rightarrow> SocketAddrCheck option \<Rightarrow> socket_addr \<Rightarrow> ('k, 'ch, 'w, 'p, 's) udp_store \<Rightarrow>
     bool \<times> ('k, 'ch, 'w, 'p, 's) udp_store" where
  "receive_denied sem clock check addr st =
     (case check of
        None \<Rightarrow> (False, st)
      | Some check \<Rightarrow>
          (case udp_check sem clock check addr UdpReceive st of
             (Inl _, st) \<Rightarrow> (True, st)
           | (Inr _, st) \<Rightarrow> (False, st)))"

text \<open>One datagram of the operating system: an error, a datagram that is dropped, or one for the
  guest.\<close>

definition recv_one ::
    "('d, 'k, 'ch, 'w, 'p) udp_env \<Rightarrow> 's semaphore_lib \<Rightarrow> instant \<Rightarrow> 'd NetworkIncomingDatagramStream \<Rightarrow>
     ('k, 'ch, 'w, 'p, 's) udp_store \<Rightarrow>
     (SocketError, IncomingDatagram option) result \<times> ('k, 'ch, 'w, 'p, 's) udp_store" where
  "recv_one env sem clock stream st =
     (case uo_try_recv_from (ux_os env) (ni_inner stream) MAX_UDP_DATAGRAM_SIZE (ps_kernel (ut_planes st)) of
        (received, k) \<Rightarrow>
          let ps = (ut_planes st)\<lparr>ps_kernel := k\<rparr>; st = st\<lparr>ut_planes := ps\<rparr> in
          (case received of
             Inl err \<Rightarrow> (Err (socket_error_from_io err), st)
           | Inr (data, received_addr) \<Rightarrow>
               if (case ni_remote_address stream of Some connected_addr \<Rightarrow> connected_addr \<noteq> received_addr | None \<Rightarrow> False)
               then (Ok None, st)
               else if (case ni_egress_peers stream of Some r \<Rightarrow> received_addr \<notin> set (ps_peers ps ! r) | None \<Rightarrow> False)
               then (Ok None, st)
               else (case receive_denied sem clock (ni_socket_addr_check stream) received_addr st of
                       (True, st) \<Rightarrow> (Ok None, st)
                     | (False, st) \<Rightarrow>
                         (Ok (Some \<lparr>id_data = data, id_remote_address = socket_addr_to_ip_socket_address received_addr\<rparr>),
                          st\<lparr>ut_planes := ps\<lparr>ps_heard := ps_heard ps @ [(ni_egress_peers stream, received_addr)]\<rparr>\<rparr>))))"

text \<open>The loop of \<open>LoopbackIncomingDatagramStream::recv\<close>. A datagram buffered by a poll comes
  first; every datagram taken gives its permit back.\<close>

definition next_virtual ::
    "('d, 'k, 'ch, 'w, 'p) udp_env \<Rightarrow> 'ch LoopbackIncomingDatagramStream \<Rightarrow> ('k, 'ch, 'w, 'p, 's) udp_store \<Rightarrow>
     virtual_datagram option \<times> 'ch LoopbackIncomingDatagramStream \<times> ('k, 'ch, 'w, 'p, 's) udp_store" where
  "next_virtual env s st =
     (case li_received s of
        Some d \<Rightarrow> (Some d, s\<lparr>li_received := None\<rparr>, st)
      | None \<Rightarrow>
          (case dc_try_recv (ux_chan env) (li_rx s) (ps_chan (ut_planes st)) of
             (d, w) \<Rightarrow> (d, s, st\<lparr>ut_planes := (ut_planes st)\<lparr>ps_chan := w\<rparr>\<rparr>)))"

definition give_back ::
    "('d, 'k, 'ch, 'w, 'p) udp_env \<Rightarrow> OwnedPermit \<Rightarrow> ('k, 'ch, 'w, 'p, 's) udp_store \<Rightarrow> ('k, 'ch, 'w, 'p, 's) udp_store" where
  "give_back env permit st = st\<lparr>ut_planes := drop_permit (ux_permits env) permit (ut_planes st)\<rparr>"

definition virtual_one ::
    "('d, 'k, 'ch, 'w, 'p) udp_env \<Rightarrow> 's semaphore_lib \<Rightarrow> instant \<Rightarrow> 'ch LoopbackIncomingDatagramStream \<Rightarrow>
     virtual_datagram \<Rightarrow> ('k, 'ch, 'w, 'p, 's) udp_store \<Rightarrow> IncomingDatagram list \<times> ('k, 'ch, 'w, 'p, 's) udp_store" where
  "virtual_one env sem clock s d st =
     (case d of
        (dgram, permit) \<Rightarrow>
          if (case li_remote_address s of Some connected_addr \<Rightarrow> connected_addr \<noteq> ud_source_address dgram | None \<Rightarrow> False)
          then ([], give_back env permit st)
          else (case receive_denied sem clock (li_socket_addr_check s) (ud_source_address dgram) st of
                  (True, st) \<Rightarrow> ([], give_back env permit st)
                | (False, st) \<Rightarrow>
                    ([\<lparr>id_data = ud_data dgram, id_remote_address = socket_addr_to_ip_socket_address (ud_source_address dgram)\<rparr>],
                     give_back env permit st)))"

partial_function (option) recv_virtual ::
    "('d, 'k, 'ch, 'w, 'p) udp_env \<Rightarrow> 's semaphore_lib \<Rightarrow> instant \<Rightarrow> nat \<Rightarrow> IncomingDatagram list \<Rightarrow>
     'ch LoopbackIncomingDatagramStream \<Rightarrow> ('k, 'ch, 'w, 'p, 's) udp_store \<Rightarrow>
     (IncomingDatagram list \<times> 'ch LoopbackIncomingDatagramStream \<times> ('k, 'ch, 'w, 'p, 's) udp_store) option" where
  "recv_virtual env sem clock max_results datagrams s st =
     (if length datagrams < max_results
      then (case next_virtual env s st of
              (None, s, st) \<Rightarrow> Some (datagrams, s, st)
            | (Some d, s, st) \<Rightarrow>
                (case virtual_one env sem clock s d st of
                   (new, st) \<Rightarrow> recv_virtual env sem clock max_results (datagrams @ new) s st))
      else Some (datagrams, s, st))"

text \<open>\<open>locked\<close> says that a poll of the stream holds the lock of its receiver.\<close>

definition li_recv ::
    "('d, 'k, 'ch, 'w, 'p) udp_env \<Rightarrow> 's semaphore_lib \<Rightarrow> instant \<Rightarrow> bool \<Rightarrow> nat \<Rightarrow>
     'ch LoopbackIncomingDatagramStream \<Rightarrow> ('k, 'ch, 'w, 'p, 's) udp_store \<Rightarrow>
     ((ErrorCode, IncomingDatagram list) result \<times> 'ch LoopbackIncomingDatagramStream \<times> ('k, 'ch, 'w, 'p, 's) udp_store) option" where
  "li_recv env sem clock locked max_results s st =
     (if locked then Some (Err Unknown, s, st)
      else map_option (\<lambda>(datagrams, s, st). (Ok datagrams, s, st)) (recv_virtual env sem clock max_results [] s st))"

partial_function (option) recv_real ::
    "('d, 'k, 'ch, 'w, 'p) udp_env \<Rightarrow> 's semaphore_lib \<Rightarrow> instant \<Rightarrow> nat \<Rightarrow> 'd NetworkIncomingDatagramStream \<Rightarrow>
     IncomingDatagram list \<Rightarrow> ('k, 'ch, 'w, 'p, 's) udp_store \<Rightarrow>
     ((SocketError, IncomingDatagram list) result \<times> ('k, 'ch, 'w, 'p, 's) udp_store) option" where
  "recv_real env sem clock max_results stream datagrams st =
     (if length datagrams < max_results
      then (case recv_one env sem clock stream st of
              (Inr (Some datagram), st) \<Rightarrow> recv_real env sem clock max_results stream (datagrams @ [datagram]) st
            | (Inr None, st) \<Rightarrow> recv_real env sem clock max_results stream datagrams st
            | (Inl e, st) \<Rightarrow>
                if datagrams \<noteq> [] then Some (Ok datagrams, st)
                else if e = SE_Code P2_WouldBlock then Some (Ok datagrams, st)
                else Some (Err e, st))
      else Some (Ok datagrams, st))"

definition udp_receive ::
    "('d, 'k, 'ch, 'w, 'p) udp_env \<Rightarrow> 's semaphore_lib \<Rightarrow> instant \<Rightarrow> bool \<Rightarrow> u64 \<Rightarrow> ('d, 'ch) IncomingDatagramStream \<Rightarrow>
     ('k, 'ch, 'w, 'p, 's) udp_store \<Rightarrow>
     ((SocketError, IncomingDatagram list) result \<times> ('d, 'ch) IncomingDatagramStream \<times> ('k, 'ch, 'w, 'p, 's) udp_store) option" where
  "udp_receive env sem clock locked max_results stream st =
     (let max_results = unat max_results in
      if max_results = 0 then Some (Ok [], stream, st)
      else (case stream of
              IS_Network net \<Rightarrow>
                map_option (\<lambda>(r, st). (r, stream, st)) (recv_real env sem clock max_results net [] st)
            | IS_Loopback lo \<Rightarrow>
                map_option (\<lambda>(r, lo, st). (map_sum socket_error_from_util id r, IS_Loopback lo, st))
                  (li_recv env sem clock locked max_results lo st)
            | IS_Unspecified net lo \<Rightarrow>
                (case li_recv env sem clock locked max_results lo st of
                   None \<Rightarrow> None
                 | Some (Inl e, lo, st) \<Rightarrow> Some (Err (socket_error_from_util e), IS_Unspecified net lo, st)
                 | Some (Inr datagrams, lo, st) \<Rightarrow>
                     map_option (\<lambda>(r, st). (r, IS_Unspecified net lo, st))
                       (recv_real env sem clock max_results net datagrams st))))"

text \<open>One poll of the readiness of an incoming stream: \<open>False\<close> is pending. What an earlier poll
  buffered is overwritten.\<close>

definition buffer_virtual ::
    "('d, 'k, 'ch, 'w, 'p) udp_env \<Rightarrow> 'ch LoopbackIncomingDatagramStream \<Rightarrow> ('k, 'ch, 'w, 'p, 's) udp_store \<Rightarrow>
     bool \<times> 'ch LoopbackIncomingDatagramStream \<times> ('k, 'ch, 'w, 'p, 's) udp_store" where
  "buffer_virtual env s st =
     (case dc_poll_recv (ux_chan env) (li_rx s) (ps_chan (ut_planes st)) of
        (None, w) \<Rightarrow> (False, s, st\<lparr>ut_planes := (ut_planes st)\<lparr>ps_chan := w\<rparr>\<rparr>)
      | (Some received, w) \<Rightarrow>
          (True, s\<lparr>li_received := received\<rparr>,
           (case li_received s of Some (_, permit) \<Rightarrow> give_back env permit | None \<Rightarrow> id)
             (st\<lparr>ut_planes := (ut_planes st)\<lparr>ps_chan := w\<rparr>\<rparr>)))"

definition incoming_ready ::
    "('d, 'k, 'ch, 'w, 'p) udp_env \<Rightarrow> ('d \<Rightarrow> 'k \<Rightarrow> bool) \<Rightarrow> ('d, 'ch) IncomingDatagramStream \<Rightarrow> ('k, 'ch, 'w, 'p, 's) udp_store \<Rightarrow>
     bool \<times> ('d, 'ch) IncomingDatagramStream \<times> ('k, 'ch, 'w, 'p, 's) udp_store" where
  "incoming_ready env readable stream st =
     (case stream of
        IS_Network net \<Rightarrow> (readable (ni_inner net) (ps_kernel (ut_planes st)), stream, st)
      | IS_Loopback lo \<Rightarrow> (case buffer_virtual env lo st of (ready, lo, st) \<Rightarrow> (ready, IS_Loopback lo, st))
      | IS_Unspecified net lo \<Rightarrow>
          (case buffer_virtual env lo st of
             (ready, lo, st) \<Rightarrow>
               (ready \<or> readable (ni_inner net) (ps_kernel (ut_planes st)), IS_Unspecified net lo, st)))"

section \<open>Sending\<close>

record OutgoingDatagram =
  od_data :: "u8 list"
  od_remote_address :: "IpSocketAddress option"

definition udp_check_send ::
    "('d, 'k, 'ch, 'w, 'p) udp_env \<Rightarrow> 'd OutgoingDatagramStream \<Rightarrow> ('k, 'ch, 'w, 'p, 's) udp_store \<Rightarrow>
     nat \<times> 'd OutgoingDatagramStream \<times> ('k, 'ch, 'w, 'p, 's) udp_store" where
  "udp_check_send env stream st =
     (let writable = (\<lambda>net st. if uo_ready_to_send (ux_os env) (no_inner net) (ps_kernel (ut_planes st)) then 16 else 0) in
      (case stream of
         OS_Network net \<Rightarrow> (writable net st, OS_Network (net\<lparr>no_check_send_permit_count := writable net st\<rparr>), st)
       | OS_Loopback lo \<Rightarrow>
           (case lg_check_send env lo (ut_planes st) of
              (permitted, lo, ps) \<Rightarrow> (if permitted then 1 else 0, OS_Loopback lo, st\<lparr>ut_planes := ps\<rparr>))
       | OS_Unspecified net lo \<Rightarrow>
           (case lg_check_send env lo (ut_planes st) of
              (False, lo, ps) \<Rightarrow> (0, OS_Unspecified net lo, st\<lparr>ut_planes := ps\<rparr>)
            | (True, lo, ps) \<Rightarrow>
                let st = st\<lparr>ut_planes := ps\<rparr>
                in (if writable net st > 1 then 1 else writable net st,
                    OS_Unspecified (net\<lparr>no_check_send_permit_count := writable net st\<rparr>) lo, st))))"

text \<open>The destination of one datagram, with the plane of a destination that was decided here, and
  the deadline the stream is left with.\<close>

definition prepare_one ::
    "'s semaphore_lib \<Rightarrow> instant \<Rightarrow> socket_addr option \<Rightarrow> instant option \<Rightarrow> SocketAddressFamily \<Rightarrow> SocketAddrCheck option \<Rightarrow>
     OutgoingDatagram \<Rightarrow> ('k, 'ch, 'w, 'p, 's) udp_store \<Rightarrow>
     (SocketError, socket_addr \<times> Plane option) result \<times> instant option \<times> ('k, 'ch, 'w, 'p, 's) udp_store" where
  "prepare_one sem clock remote_address valid_until family socket_addr_check datagram st =
     (let provided_addr = map_option ip_socket_address_to_socket_addr (od_remote_address datagram);
          validated = (\<lambda>addr plane.
            if \<not> is_valid_remote_address addr \<or> \<not> is_valid_address_family (sa_ip addr) family
            then Err (SE_Code P2_InvalidArgument) else Ok (addr, plane))
      in if length (od_data datagram) > MAX_UDP_DATAGRAM_SIZE then (Err (SE_Code P2_DatagramTooLarge), valid_until, st)
         else (case (remote_address, provided_addr) of
                 (None, Some addr) \<Rightarrow>
                   (case socket_addr_check of
                      None \<Rightarrow> (Err (SE_Code P2_InvalidState), valid_until, st)
                    | Some check \<Rightarrow>
                        (case udp_check sem clock check addr UdpOutgoingDatagram st of
                           (Inl e, st) \<Rightarrow> (Err (socket_error_from_util e), valid_until, st)
                         | (Inr allowed, st) \<Rightarrow> (validated (al_addr allowed) (Some (al_plane allowed)), valid_until, st)))
               | (Some connected_addr, provided_addr) \<Rightarrow>
                   if (case provided_addr of None \<Rightarrow> True | Some provided \<Rightarrow> provided = connected_addr) then
                     (if valid_until = None then (validated connected_addr None, valid_until, st)
                      else (case socket_addr_check of
                              None \<Rightarrow> (Err (SE_Code P2_InvalidState), valid_until, st)
                            | Some check \<Rightarrow>
                                (case refresh_connected sem clock check connected_addr valid_until
                                        (sc_resolved_names (ut_ctx st)) (ut_shared st) of
                                   (r, valid_until, sh) \<Rightarrow>
                                     (case r of
                                        Inl e \<Rightarrow> (Err (socket_error_from_util e), valid_until, st\<lparr>ut_shared := sh\<rparr>)
                                      | Inr _ \<Rightarrow> (validated connected_addr None, valid_until, st\<lparr>ut_shared := sh\<rparr>)))))
                   else (Err (SE_Code P2_InvalidArgument), valid_until, st)
               | (None, None) \<Rightarrow> (Err (SE_Code P2_InvalidArgument), valid_until, st)))"

text \<open>The peer is remembered before the datagram is sent.\<close>

definition send_one_net ::
    "('d, 'k, 'ch, 'w, 'p) udp_env \<Rightarrow> instant \<Rightarrow> 'd NetworkOutgoingDatagramStream \<Rightarrow> OutgoingDatagram \<Rightarrow> socket_addr \<Rightarrow>
     ('k, 'ch, 'w, 'p, 's) udp_store \<Rightarrow> (SocketError, unit) result \<times> ('k, 'ch, 'w, 'p, 's) udp_store" where
  "send_one_net env clock stream datagram addr st =
     (let ps = ut_planes st;
          peers = (case no_egress_peers stream of
            Some r \<Rightarrow> (ps_peers ps)[r := bs_insert addr (ps_peers ps ! r)]
          | None \<Rightarrow> ps_peers ps)
      in (case (if no_remote_address stream = Some addr
                then uo_try_send (ux_os env) (no_inner stream) (od_data datagram) (ps_kernel ps)
                else uo_try_send_to (ux_os env) (no_inner stream) (od_data datagram) addr (ps_kernel ps)) of
            (r, k) \<Rightarrow>
              (map_sum socket_error_from_io (\<lambda>_. ()) r,
               st\<lparr>ut_planes := ps\<lparr>ps_kernel := k, ps_peers := peers,
                 ps_sent := ps_sent ps @ [\<lparr>se_peers = no_egress_peers stream, se_addr = addr, se_data = od_data datagram,
                   se_clock = clock, se_ok = (case r of Inr _ \<Rightarrow> True | Inl _ \<Rightarrow> False)\<rparr>]\<rparr>\<rparr>)))"

text \<open>A datagram takes as many permits as it has bytes, at least one, and carries them to its
  receiver; the others go back. One that reaches nobody gives them back.\<close>

definition deliver ::
    "('d, 'k, 'ch, 'w, 'p) udp_env \<Rightarrow> socket_addr \<Rightarrow> socket_addr \<Rightarrow> u8 list \<Rightarrow> OwnedPermit \<Rightarrow> ('k, 'ch, 'w, 'p, 's) udp_store \<Rightarrow>
     (SocketError, unit) result \<times> ('k, 'ch, 'w, 'p, 's) udp_store" where
  "deliver env local_address addr data permit st =
     (if ut_poisoned st then (Err SE_Trap, give_back env permit st)
      else (case connect_udp local_address addr (ps_net (ut_planes st)) of
              Inl e \<Rightarrow> (Err (socket_error_from_util e), give_back env permit st)
            | Inr None \<Rightarrow> (Ok (), give_back env permit st)
            | Inr (Some tx) \<Rightarrow>
                (case dc_send (ux_chan env) tx (\<lparr>ud_source_address = local_address, ud_data = data\<rparr>, permit) (ps_chan (ut_planes st)) of
                   None \<Rightarrow> (Ok (), give_back env permit st)
                 | Some w \<Rightarrow> (Ok (), st\<lparr>ut_planes := (ut_planes st)\<lparr>ps_chan := w\<rparr>\<rparr>))))"

definition send_one_lo ::
    "('d, 'k, 'ch, 'w, 'p) udp_env \<Rightarrow> 's semaphore_lib \<Rightarrow> instant \<Rightarrow> LoopbackOutgoingDatagramStream \<Rightarrow> OutgoingDatagram \<Rightarrow>
     ('k, 'ch, 'w, 'p, 's) udp_store \<Rightarrow>
     (SocketError, unit) result \<times> LoopbackOutgoingDatagramStream \<times> ('k, 'ch, 'w, 'p, 's) udp_store" where
  "send_one_lo env sem clock stream datagram st =
     (case prepare_one sem clock (lg_remote_address stream) None (lg_family stream) (lg_socket_addr_check stream) datagram st of
        (Inl e, _, st) \<Rightarrow> (Err e, stream, st)
      | (Inr (addr, _), _, st) \<Rightarrow>
          (case lg_permit stream of
             None \<Rightarrow> (Err SE_Trap, stream, st)
           | Some permit \<Rightarrow>
               let stream = stream\<lparr>lg_permit := None\<rparr>; size = length (od_data datagram); required = max size 1 in
               if op_num_permits permit < size \<or> op_num_permits permit < required
               then (Err (SE_Code P2_DatagramTooLarge), stream, give_back env permit st)
               else let unused = permit\<lparr>op_num_permits := op_num_permits permit - required\<rparr>;
                        st = (if op_num_permits unused > 0 then give_back env unused st else st)
                    in (case deliver env (lg_local_address stream) addr (od_data datagram) (permit\<lparr>op_num_permits := required\<rparr>) st of
                          (r, st) \<Rightarrow> (r, stream, st))))"

text \<open>The loop of \<open>send\<close> over a batch, each datagram with the instant it is prepared at. The
  virtual half is there for an unspecified stream only.\<close>

fun send_batch ::
    "('d, 'k, 'ch, 'w, 'p) udp_env \<Rightarrow> 's semaphore_lib \<Rightarrow> nat \<Rightarrow> (instant \<times> OutgoingDatagram) list \<Rightarrow>
     LoopbackOutgoingDatagramStream option \<Rightarrow> 'd NetworkOutgoingDatagramStream \<Rightarrow> ('k, 'ch, 'w, 'p, 's) udp_store \<Rightarrow>
     (SocketError, nat) result \<times> LoopbackOutgoingDatagramStream option \<times> 'd NetworkOutgoingDatagramStream \<times>
     ('k, 'ch, 'w, 'p, 's) udp_store" where
  "send_batch env sem sent [] lo stream st = (Ok sent, lo, stream, st)"
| "send_batch env sem sent ((clock, datagram) # rest) lo stream st =
     (case prepare_one sem clock (no_remote_address stream) (no_valid_until stream) (no_family stream)
             (no_socket_addr_check stream) datagram st of
        (prepared, valid_until, st) \<Rightarrow>
          let stream = stream\<lparr>no_valid_until := valid_until\<rparr> in
          (case prepared of
             Inl e \<Rightarrow> (if sent > 0 then Ok sent else Err e, lo, stream, st)
           | Inr (addr, plane) \<Rightarrow>
               let virtual_plane = (case plane of
                     Some plane \<Rightarrow> plane = PlaneVirtual
                   | None \<Rightarrow> is_loopback (to_canonical (sa_ip addr)))
               in (case (if virtual_plane then lo else None) of
                     Some virtual \<Rightarrow>
                       (case send_one_lo env sem clock virtual datagram st of
                          (Inl e, virtual, st) \<Rightarrow> (Err e, Some virtual, stream, st)
                        | (Inr _, virtual, st) \<Rightarrow> send_batch env sem (sent + 1) rest (Some virtual) stream st)
                   | None \<Rightarrow>
                       (case send_one_net env clock stream datagram addr st of
                          (Inr _, st) \<Rightarrow> send_batch env sem (sent + 1) rest lo stream st
                        | (Inl e, st) \<Rightarrow>
                            (if sent > 0 then Ok sent
                             else if e = SE_Code P2_WouldBlock then Ok 0
                             else Err e, lo, stream, st)))))"

definition udp_send ::
    "('d, 'k, 'ch, 'w, 'p) udp_env \<Rightarrow> 's semaphore_lib \<Rightarrow> (instant \<times> OutgoingDatagram) list \<Rightarrow> 'd OutgoingDatagramStream \<Rightarrow>
     ('k, 'ch, 'w, 'p, 's) udp_store \<Rightarrow>
     (SocketError, nat) result \<times> 'd OutgoingDatagramStream \<times> ('k, 'ch, 'w, 'p, 's) udp_store" where
  "udp_send env sem datagrams stream st =
     (let permitted = (\<lambda>net. length datagrams \<le> no_check_send_permit_count net);
          spend = (\<lambda>net. net\<lparr>no_check_send_permit_count := no_check_send_permit_count net - length datagrams\<rparr>)
      in (case stream of
            OS_Loopback lo \<Rightarrow>
              (case datagrams of
                 [] \<Rightarrow> (Ok 0, stream, st)
               | [(clock, datagram)] \<Rightarrow>
                   (case send_one_lo env sem clock lo datagram st of
                      (r, lo, st) \<Rightarrow> (map_sum id (\<lambda>_. 1) r, OS_Loopback lo, st))
               | _ \<Rightarrow> (Err SE_Trap, stream, st))
          | OS_Network net \<Rightarrow>
              if datagrams = [] then (Ok 0, stream, st)
              else if \<not> permitted net then (Err SE_Trap, stream, st)
              else (case send_batch env sem 0 datagrams None (spend net) st of
                      (r, _, net, st) \<Rightarrow> (r, OS_Network net, st))
          | OS_Unspecified net lo \<Rightarrow>
              if length datagrams > 1 then (Err SE_Trap, stream, st)
              else if datagrams = [] then (Ok 0, stream, st)
              else if \<not> permitted net then (Err SE_Trap, stream, st)
              else (case send_batch env sem 0 datagrams (Some lo) (spend net) st of
                      (r, lo', net, st) \<Rightarrow> (r, OS_Unspecified net (case lo' of Some x \<Rightarrow> x | None \<Rightarrow> lo), st))))"

section \<open>Dropping a stream\<close>

text \<open>A stream takes what it holds with it: the permits of a buffered datagram and of a permitted
  send go back.\<close>

definition incoming_drop ::
    "('d, 'k, 'ch, 'w, 'p) udp_env \<Rightarrow> ('d, 'ch) IncomingDatagramStream \<Rightarrow> ('k, 'ch, 'w, 'p, 's) udp_store \<Rightarrow>
     ('k, 'ch, 'w, 'p, 's) udp_store" where
  "incoming_drop env stream st =
     (let virtual = (\<lambda>lo. case li_received lo of Some (_, permit) \<Rightarrow> give_back env permit st | None \<Rightarrow> st) in
      (case stream of IS_Network _ \<Rightarrow> st | IS_Loopback lo \<Rightarrow> virtual lo | IS_Unspecified _ lo \<Rightarrow> virtual lo))"

definition outgoing_drop ::
    "('d, 'k, 'ch, 'w, 'p) udp_env \<Rightarrow> 'd OutgoingDatagramStream \<Rightarrow> ('k, 'ch, 'w, 'p, 's) udp_store \<Rightarrow>
     ('k, 'ch, 'w, 'p, 's) udp_store" where
  "outgoing_drop env stream st =
     (let virtual = (\<lambda>lo. case lg_permit lo of Some permit \<Rightarrow> give_back env permit st | None \<Rightarrow> st) in
      (case stream of OS_Network _ \<Rightarrow> st | OS_Loopback lo \<Rightarrow> virtual lo | OS_Unspecified _ lo \<Rightarrow> virtual lo))"

end
