(* ===== verification/Udp_Runs.thy ===== *)
theory Udp_Runs
  imports Udp_Host
begin

text \<open>
  Runs of the datagram sockets of one store and what holds of them: which datagrams reach the
  real network, which the guest is given, what a batch reports, and when receiving returns.
\<close>

section \<open>Runs of a store\<close>

text \<open>A socket with its streams, which are its children in the resource table.\<close>

record ('d, 'ch) udp_handle =
  uh_socket :: "('d, 'ch) UdpSocket"
  uh_incoming :: "('d, 'ch) IncomingDatagramStream option"
  uh_outgoing :: "'d OutgoingDatagramStream option"

definition has_streams :: "('d, 'ch) udp_handle \<Rightarrow> bool" where
  "has_streams h \<longleftrightarrow> uh_incoming h \<noteq> None \<or> uh_outgoing h \<noteq> None"

text \<open>A call on one socket or on one of its streams.\<close>

inductive udp_call ::
    "('d, 'k, 'ch, 'w, 'p) udp_env \<Rightarrow> 's semaphore_lib \<Rightarrow> ('d, 'ch) udp_handle \<Rightarrow> ('k, 'ch, 'w, 'p, 's) udp_store \<Rightarrow>
     ('d, 'ch) udp_handle \<Rightarrow> ('k, 'ch, 'w, 'p, 's) udp_store \<Rightarrow> bool"
  for env sem where
  start_bind: "udp_start_bind env sem clock addr (uh_socket h) st = (r, s', st') \<Longrightarrow>
    udp_call env sem h st (h\<lparr>uh_socket := s'\<rparr>) st'"
| finish_bind: "udp_finish_bind env (uh_socket h) st = (r, s', st') \<Longrightarrow>
    udp_call env sem h st (h\<lparr>uh_socket := s'\<rparr>) st'"
| set_hop_limit: "us_set_unicast_hop_limit env hops (uh_socket h) (ut_planes st) = (r, s', ps') \<Longrightarrow>
    udp_call env sem h st (h\<lparr>uh_socket := s'\<rparr>) (st\<lparr>ut_planes := ps'\<rparr>)"
| set_receive_buffer: "us_set_receive_buffer_size env bytes (uh_socket h) (ut_planes st) = (r, s', ps') \<Longrightarrow>
    udp_call env sem h st (h\<lparr>uh_socket := s'\<rparr>) (st\<lparr>ut_planes := ps'\<rparr>)"
| set_send_buffer: "us_set_send_buffer_size env bytes (uh_socket h) (ut_planes st) = (r, s', ps') \<Longrightarrow>
    udp_call env sem h st (h\<lparr>uh_socket := s'\<rparr>) (st\<lparr>ut_planes := ps'\<rparr>)"
| streamed: "udp_stream env sem clock (has_streams h) remote (uh_socket h) st = (Ok (i, out), s', st') \<Longrightarrow>
    udp_call env sem h st \<lparr>uh_socket = s', uh_incoming = Some i, uh_outgoing = Some out\<rparr> st'"
| not_streamed: "udp_stream env sem clock (has_streams h) remote (uh_socket h) st = (Err e, s', st') \<Longrightarrow>
    udp_call env sem h st (h\<lparr>uh_socket := s'\<rparr>) st'"
| received: "uh_incoming h = Some i \<Longrightarrow> udp_receive env sem clock locked amount i st = Some (r, i', st') \<Longrightarrow>
    udp_call env sem h st (h\<lparr>uh_incoming := Some i'\<rparr>) st'"
| polled: "uh_incoming h = Some i \<Longrightarrow> incoming_ready env readable i st = (ready, i', st') \<Longrightarrow>
    udp_call env sem h st (h\<lparr>uh_incoming := Some i'\<rparr>) st'"
| check_sent: "uh_outgoing h = Some out \<Longrightarrow> udp_check_send env out st = (n, out', st') \<Longrightarrow>
    udp_call env sem h st (h\<lparr>uh_outgoing := Some out'\<rparr>) st'"
| sent: "uh_outgoing h = Some out \<Longrightarrow> udp_send env sem datagrams out st = (r, out', st') \<Longrightarrow>
    udp_call env sem h st (h\<lparr>uh_outgoing := Some out'\<rparr>) st'"
| incoming_dropped: "uh_incoming h = Some i \<Longrightarrow> udp_call env sem h st (h\<lparr>uh_incoming := None\<rparr>) (incoming_drop env i st)"
| outgoing_dropped: "uh_outgoing h = Some out \<Longrightarrow> udp_call env sem h st (h\<lparr>uh_outgoing := None\<rparr>) (outgoing_drop env out st)"

record ('d, 'k, 'ch, 'w, 'p, 's) udp_world =
  uw_store :: "('k, 'ch, 'w, 'p, 's) udp_store"
  uw_handles :: "('d, 'ch) udp_handle list"
  uw_told :: "Recording list"

text \<open>The calls of one guest in any order, the answers of its lookups, and what happens outside:
  the kernel, the virtual network and everything the host shares may change in any way; the
  peers of this store's sockets are its own.\<close>

inductive udp_step ::
    "('d, 'k, 'ch, 'w, 'p) udp_env \<Rightarrow> 's semaphore_lib \<Rightarrow> ('d, 'k, 'ch, 'w, 'p, 's) udp_world \<Rightarrow>
     ('d, 'k, 'ch, 'w, 'p, 's) udp_world \<Rightarrow> bool"
  for env sem where
  created: "create_udp_socket env sem clock family (uw_store w) = (Ok s, st') \<Longrightarrow>
    udp_step env sem w (w\<lparr>uw_store := st',
      uw_handles := \<lparr>uh_socket = s, uh_incoming = None, uh_outgoing = None\<rparr> # uw_handles w\<rparr>)"
| not_created: "create_udp_socket env sem clock family (uw_store w) = (Err e, st') \<Longrightarrow>
    udp_step env sem w (w\<lparr>uw_store := st'\<rparr>)"
| called: "j < length (uw_handles w) \<Longrightarrow> udp_call env sem (uw_handles w ! j) (uw_store w) h' st' \<Longrightarrow>
    udp_step env sem w (w\<lparr>uw_store := st', uw_handles := (uw_handles w)[j := h']\<rparr>)"
| dropped: "j < length (uw_handles w) \<Longrightarrow> \<not> has_streams (uw_handles w ! j) \<Longrightarrow>
    udp_drop sem (uh_socket (uw_handles w ! j)) (uw_store w) = (r, st') \<Longrightarrow>
    udp_step env sem w (w\<lparr>uw_store := st', uw_handles := remove_nth j (uw_handles w)\<rparr>)"
| told: "record_at (rec_name c) (rec_addrs c) (rec_observed c) (rec_now c) (sc_resolved_names (ut_ctx (uw_store w))) = Some names' \<Longrightarrow>
    udp_step env sem w (w\<lparr>uw_store := (uw_store w)\<lparr>ut_ctx := (ut_ctx (uw_store w))\<lparr>sc_resolved_names := names'\<rparr>\<rparr>,
      uw_told := uw_told w @ [c]\<rparr>)"
| elsewhere: "ps_peers ps' = ps_peers (ut_planes (uw_store w)) \<Longrightarrow> ps_sent ps' = ps_sent (ut_planes (uw_store w)) \<Longrightarrow>
    ps_heard ps' = ps_heard (ut_planes (uw_store w)) \<Longrightarrow>
    udp_step env sem w (w\<lparr>uw_store := (uw_store w)\<lparr>ut_planes := ps', ut_shared := sh', ut_poisoned := poisoned'\<rparr>\<rparr>)"

inductive_cases udp_callE: "udp_call env sem h st h' st'"
inductive_cases udp_stepE: "udp_step env sem w w'"

definition new_planes :: "'k \<Rightarrow> 'ch Network \<Rightarrow> 'w \<Rightarrow> 'p list \<Rightarrow> ('k, 'ch, 'w, 'p) planes" where
  "new_planes k n chan permits =
     \<lparr>ps_kernel = k, ps_net = n, ps_chan = chan, ps_permits = permits, ps_peers = [], ps_sent = [], ps_heard = []\<rparr>"

definition new_udp_store ::
    "SocketPolicy \<Rightarrow> network_ref \<Rightarrow> allowed_ip_name list \<Rightarrow> ('k, 'ch, 'w, 'p) planes \<Rightarrow> 's host_shared \<Rightarrow>
     ('d, 'k, 'ch, 'w, 'p, 's) udp_world" where
  "new_udp_store p loopback lookups ps sh =
     \<lparr>uw_store = \<lparr>ut_ctx = WasiSocketsCtx_for_store p loopback lookups, ut_planes = ps, ut_poisoned = False, ut_shared = sh\<rparr>,
      uw_handles = [], uw_told = []\<rparr>"

text \<open>Whether the policy declares a real datagram address for its guest.\<close>

definition binds_udp_directly :: "SocketPolicy \<Rightarrow> bool" where
  "binds_udp_directly p = (case sp_kind p of GK_Plugin direct_binds \<Rightarrow> list_ex db_udp direct_binds | _ \<Rightarrow> False)"

section \<open>Grants\<close>

text \<open>A grant for an address that stands until a deadline, resting on what the guest was told.\<close>

definition standing_grant :: "SocketPolicy \<Rightarrow> Recording list \<Rightarrow> socket_addr \<Rightarrow> instant option \<Rightarrow> bool" where
  "standing_grant p cs a until \<longleftrightarrow>
     until = None \<and> (\<exists>asked. is_host_sentinel (sa_ip asked) \<and> a = rewrite_sentinel asked \<and> sp_host_loopback_enabled p \<and>
        check_allowed_loopback (sp_host_loopback p) asked Udp) \<or>
     \<not> is_host_sentinel (sa_ip a) \<and> \<not> is_loopback (to_canonical (sa_ip a)) \<and> \<not> is_unspecified (to_canonical (sa_ip a)) \<and>
     EgressAddressPolicy_permits (sp_egress_addrs p) (sa_ip a) \<and>
     (check_allowed_addr (sp_allowed_hosts p) a \<or>
      (\<exists>c \<in> set cs. to_canonical (sa_ip a) \<in> to_canonical ` set (rec_addrs c) \<and>
         (\<exists>entry \<in> set (sp_allowed_hosts p). AllowedHost_permits_name entry (rec_name c) (sa_port a)) \<and>
         until = deadline_of (sp_resolved_names p) (rec_observed c)))"

text \<open>A grant that covers an instant.\<close>

definition granted_at :: "SocketPolicy \<Rightarrow> Recording list \<Rightarrow> socket_addr \<Rightarrow> instant \<Rightarrow> bool" where
  "granted_at p cs a clock \<longleftrightarrow> (\<exists>until. standing_grant p cs a until \<and> (\<forall>d. until = Some d \<longrightarrow> clock < d))"

lemma standing_grant_mono: "standing_grant p cs a until \<Longrightarrow> set cs \<subseteq> set cs' \<Longrightarrow> standing_grant p cs' a until"
  unfolding standing_grant_def by blast

lemma granted_at_mono: "granted_at p cs a clock \<Longrightarrow> set cs \<subseteq> set cs' \<Longrightarrow> granted_at p cs' a clock"
  unfolding granted_at_def using standing_grant_mono by blast

lemma decision_grants:
  assumes mode: "sp_egress_mode p = Enforce" and use: "connect_protocol reason = Some Udp"
    and run: "run_recordings cs (ResolvedNames_new (sp_resolved_names p)) = Some h"
    and dec: "decide_for_store lib clock p reason addr h sh = (Allow al, sh')" and host: "al_plane al = PlaneHost"
  shows "standing_grant p cs (al_addr al) (al_valid_until al) \<and> (\<forall>d. al_valid_until al = Some d \<longrightarrow> clock < d)"
proof -
  let ?loop = "is_loopback (to_canonical (sa_ip addr)) \<or> is_unspecified (to_canonical (sa_ip addr))"
  obtain route where r: "resolve_connect clock p addr Udp (Some h) sh = (Ok route, sh')"
      "al_addr al = rt_addr route" "al_plane al = rt_plane route" "al_valid_until al = rt_valid_until route"
    using dec by (auto simp: decide_for_store_connect [OF use] split: prod.splits sum.splits)
  show ?thesis
  proof (cases "is_host_sentinel (sa_ip addr)")
    case True
    with r(1) have "sp_host_loopback_enabled p" "check_allowed_loopback (sp_host_loopback p) addr Udp"
        "rt_addr route = rewrite_sentinel addr" "rt_valid_until route = None"
      by (auto simp: resolve_connect_def Route_standing_def resolve_host_loopback_Ok split: sum.splits)
    with True r show ?thesis by (auto simp: standing_grant_def)
  next
    case False
    with r(1,3) host have nl: "\<not> ?loop" by (auto simp: resolve_connect_def Route_standing_def Let_def)
    with False r(1) obtain until where u: "named_until clock p addr (Some h) = Some until"
        "EgressAddressPolicy_permits (sp_egress_addrs p) (sa_ip addr)" "rt_addr route = addr" "rt_valid_until route = until"
      by (auto simp: resolve_connect_def resolve_egress_enforced [OF mode] split: option.splits if_splits)
    from named_until_recorded [OF run u(1)] show ?thesis
      using False nl u(2-4) r(2,4) unfolding standing_grant_def by auto
  qed
qed

lemma plane_of_outside:
  assumes use: "connect_protocol reason = Some pr"
    and out: "\<not> is_host_sentinel (sa_ip addr)" "\<not> is_loopback (to_canonical (sa_ip addr))" "\<not> is_unspecified (to_canonical (sa_ip addr))"
    and dec: "decide_for_store lib clock p reason addr h sh = (Allow al, sh')"
  shows "al_plane al = PlaneHost \<and> al_addr al = addr"
  using dec out
  by (auto simp: decide_for_store_connect [OF use] resolve_connect_def resolve_egress_def Let_def split: prod.splits sum.splits if_splits)

section \<open>Checks leave the planes alone\<close>

lemma udp_check_frame:
  assumes "udp_check sem clock c addr reason st = (r, st')"
  shows "ut_ctx st' = ut_ctx st" "ut_planes st' = ut_planes st" "ut_poisoned st' = ut_poisoned st"
  using assms by (auto simp: udp_check_def split: prod.splits)

lemma udp_check_policy:
  assumes "udp_check sem clock (SC_Policy p) addr reason st = (Ok al, st')"
  shows "decide_for_store sem clock p reason addr (sc_resolved_names (ut_ctx st)) (ut_shared st) = (Allow al, ut_shared st')"
proof -
  obtain d sh where d: "decide_for_store sem clock p reason addr (sc_resolved_names (ut_ctx st)) (ut_shared st) = (d, sh)" by force
  with assms show ?thesis by (cases d) (auto simp: udp_check_def SocketAddrCheck_check_def)
qed

lemma udp_drop_slot_frame [simp]:
  "ut_ctx (udp_drop_slot sem slot st) = ut_ctx st" "ut_planes (udp_drop_slot sem slot st) = ut_planes st"
  "ut_poisoned (udp_drop_slot sem slot st) = ut_poisoned st"
  by (auto simp: udp_drop_slot_def split: SocketAddrCheck.splits option.splits)

lemma receive_denied_frame:
  assumes "receive_denied sem clock c addr st = (b, st')"
  shows "ut_ctx st' = ut_ctx st" "ut_planes st' = ut_planes st"
  using assms udp_check_frame by (auto simp: receive_denied_def split: option.splits prod.splits sum.splits)

section \<open>What the socket operations keep\<close>

definition logs :: "('k, 'ch, 'w, 'p) planes \<Rightarrow> socket_addr btree_set list \<times> SentDatagram list \<times> (nat option \<times> socket_addr) list" where
  "logs ps = (ps_peers ps, ps_sent ps, ps_heard ps)"

lemma logs_update [simp]:
  "logs (ps\<lparr>ps_kernel := k\<rparr>) = logs ps" "logs (ps\<lparr>ps_net := n\<rparr>) = logs ps"
  "logs (ps\<lparr>ps_chan := w\<rparr>) = logs ps" "logs (ps\<lparr>ps_permits := q\<rparr>) = logs ps"
  by (simp_all add: logs_def)

definition nu_same :: "'d NetworkUdpSocket \<Rightarrow> 'd NetworkUdpSocket \<Rightarrow> bool" where
  "nu_same s s' \<longleftrightarrow> nu_egress_peers s' = nu_egress_peers s \<and> nu_socket_addr_check s' = nu_socket_addr_check s \<and>
     (nu_state s = U_Default \<longrightarrow> nu_state s' = U_Default)"

fun us_same :: "('d, 'ch) UdpSocket \<Rightarrow> ('d, 'ch) UdpSocket \<Rightarrow> bool" where
  "us_same (US_Network s) (US_Network s') = nu_same s s'"
| "us_same (US_Loopback _) (US_Loopback _) = True"
| "us_same (US_Unspecified s _) (US_Unspecified s' _) = nu_same s s'"
| "us_same _ _ = False"

lemma us_same_refl [simp]: "us_same s s"
  by (cases s) (simp_all add: nu_same_def)

lemma us_same_trans: "us_same s t \<Longrightarrow> us_same t u \<Longrightarrow> us_same s u"
  by (cases s; cases t; cases u) (auto simp: nu_same_def)

lemma nu_ops_same:
  "nu_finish_bind s = (r1, s1) \<Longrightarrow> nu_same s s1"
  "nu_disconnect os s k = (r2, s2, k2) \<Longrightarrow> nu_same s s2"
  "nu_connect os addr s k = (r3, s3, k3) \<Longrightarrow> nu_same s s3"
  by (auto simp: nu_same_def nu_finish_bind_def nu_disconnect_def nu_connect_def nu_is_bound_def nu_is_connected_def Let_def
      split: if_splits sum.splits UdpState.splits prod.splits)

lemma nu_connect_on_same: "nu_connect_on os addr plane until s k = (r, s', k') \<Longrightarrow> nu_same s s'"
  using nu_ops_same(3) by (fastforce simp: nu_connect_on_def nu_same_def split: prod.splits sum.splits if_splits)

lemma lu_finish_bind_in_logs: "lu_finish_bind_in lib lo ps = (r, lo', ps') \<Longrightarrow> logs ps' = logs ps"
  by (auto simp: lu_finish_bind_in_def split: prod.splits sum.splits)

lemma us_finish_bind_same: "us_finish_bind env s ps = (r, s', ps') \<Longrightarrow> us_same s s' \<and> logs ps' = logs ps"
  by (cases s) (auto simp: us_finish_bind_def dest: nu_ops_same lu_finish_bind_in_logs split: prod.splits sum.splits)

lemma us_disconnect_same: "us_disconnect env s ps = (r, s', ps') \<Longrightarrow> us_same s s' \<and> logs ps' = logs ps"
  by (cases s) (auto simp: us_disconnect_def dest: nu_ops_same split: prod.splits sum.splits)

lemma us_connect_same: "us_connect env addr plane until s ps = (r, s', ps') \<Longrightarrow> us_same s s' \<and> logs ps' = logs ps"
  by (cases s) (auto simp: us_connect_def dest: nu_connect_on_same split: prod.splits sum.splits)

lemma us_hold_same [simp]: "us_same s (us_hold_quota_slot slot s)"
  by (cases "(slot, s)" rule: us_hold_quota_slot.cases) (simp_all add: nu_same_def)

lemma us_set_option_same:
  assumes "us_set_option f g s ps = (r, s', ps')" and "\<And>lo ps r lo' ps'. g lo ps = (r, lo', ps') \<Longrightarrow> logs ps' = logs ps"
  shows "us_same s s' \<and> logs ps' = logs ps"
proof (cases s)
  case (US_Unspecified net lo)
  show ?thesis
  proof (cases "f net (ps_kernel ps)")
    case (Inr x)
    then show ?thesis using assms(1) assms(2) [of lo "ps\<lparr>ps_kernel := snd x\<rparr>"] US_Unspecified
      by (cases "g lo (ps\<lparr>ps_kernel := snd x\<rparr>)") (auto simp: us_set_option_def nu_same_def split: prod.splits)
  qed (use assms(1) US_Unspecified in \<open>simp add: us_set_option_def nu_same_def\<close>)
qed (use assms in \<open>auto simp: us_set_option_def nu_same_def split: prod.splits sum.splits\<close>)

lemma us_setters_same:
  "us_set_unicast_hop_limit env hops s ps = (r1, s1, ps1) \<Longrightarrow> us_same s s1 \<and> logs ps1 = logs ps"
  "us_set_receive_buffer_size env bytes s ps = (r2, s2, ps2) \<Longrightarrow> us_same s s2 \<and> logs ps2 = logs ps"
  "us_set_send_buffer_size env bytes s ps = (r3, s3, ps3) \<Longrightarrow> us_same s s3 \<and> logs ps3 = logs ps"
  unfolding us_set_unicast_hop_limit_def us_set_receive_buffer_size_def us_set_send_buffer_size_def
  subgoal by (erule us_set_option_same) (auto split: prod.splits)
  subgoal by (erule us_set_option_same) (auto split: prod.splits)
  subgoal by (erule us_set_option_same) (auto split: prod.splits option.splits)
  done

section \<open>The invariant\<close>

abbreviation own_peers :: "nat \<Rightarrow> nat option \<Rightarrow> bool" where
  "own_peers n x \<equiv> (\<exists>r < n. x = Some r)"

abbreviation check_of :: "SocketPolicy \<Rightarrow> SocketAddrCheck option \<Rightarrow> bool" where
  "check_of p c \<equiv> c = None \<or> c = Some (SC_Policy p)"

text \<open>A socket without a virtual half has no check to send by; one that is bound filters what it
  receives.\<close>

fun sock_ok :: "SocketPolicy \<Rightarrow> nat \<Rightarrow> ('d, 'ch) UdpSocket \<Rightarrow> bool" where
  "sock_ok p n (US_Network s) =
     (nu_socket_addr_check s = None \<and> (nu_state s \<noteq> U_Default \<longrightarrow> own_peers n (nu_egress_peers s)))"
| "sock_ok p n (US_Loopback _) = True"
| "sock_ok p n (US_Unspecified s _) = (check_of p (nu_socket_addr_check s) \<and> own_peers n (nu_egress_peers s))"

fun in_ok :: "nat \<Rightarrow> ('d, 'ch) IncomingDatagramStream \<Rightarrow> bool" where
  "in_ok n (IS_Network s) = own_peers n (ni_egress_peers s)"
| "in_ok n (IS_Loopback _) = True"
| "in_ok n (IS_Unspecified s _) = own_peers n (ni_egress_peers s)"

text \<open>The real half of an outgoing stream: connected to a peer with a grant that stands, or
  without a peer, and then with a virtual half or with no check.\<close>

definition net_ok :: "SocketPolicy \<Rightarrow> Recording list \<Rightarrow> nat \<Rightarrow> bool \<Rightarrow> 'd NetworkOutgoingDatagramStream \<Rightarrow> bool" where
  "net_ok p cs n virtual s \<longleftrightarrow>
     own_peers n (no_egress_peers s) \<and> check_of p (no_socket_addr_check s) \<and>
     (case no_remote_address s of
        None \<Rightarrow> virtual \<or> no_socket_addr_check s = None
      | Some a \<Rightarrow> \<not> virtual \<and> standing_grant p cs a (no_valid_until s))"

fun out_ok :: "SocketPolicy \<Rightarrow> Recording list \<Rightarrow> nat \<Rightarrow> 'd OutgoingDatagramStream \<Rightarrow> bool" where
  "out_ok p cs n (OS_Network s) = net_ok p cs n False s"
| "out_ok p cs n (OS_Loopback _) = True"
| "out_ok p cs n (OS_Unspecified s _) = net_ok p cs n True s"

definition handle_ok :: "SocketPolicy \<Rightarrow> Recording list \<Rightarrow> nat \<Rightarrow> ('d, 'ch) udp_handle \<Rightarrow> bool" where
  "handle_ok p cs n h \<longleftrightarrow> sock_ok p n (uh_socket h) \<and> pred_option (in_ok n) (uh_incoming h) \<and>
     pred_option (out_ok p cs n) (uh_outgoing h)"

text \<open>What was sent was granted when it was sent; peers were sent to; what was heard came from
  peers.\<close>

definition traffic_ok :: "SocketPolicy \<Rightarrow> Recording list \<Rightarrow> ('k, 'ch, 'w, 'p) planes \<Rightarrow> bool" where
  "traffic_ok p cs ps \<longleftrightarrow>
     (\<forall>e \<in> set (ps_sent ps). granted_at p cs (se_addr e) (se_clock e)) \<and>
     (\<forall>r < length (ps_peers ps). \<forall>a \<in> set (ps_peers ps ! r). \<exists>e \<in> set (ps_sent ps). se_peers e = Some r \<and> se_addr e = a) \<and>
     (\<forall>(x, a) \<in> set (ps_heard ps). \<exists>r < length (ps_peers ps). x = Some r \<and> a \<in> set (ps_peers ps ! r))"

definition store_ok :: "SocketPolicy \<Rightarrow> Recording list \<Rightarrow> ('k, 'ch, 'w, 'p, 's) udp_store \<Rightarrow> bool" where
  "store_ok p cs st \<longleftrightarrow>
     sc_check (ut_ctx st) = SC_Policy p \<and> traffic_ok p cs (ut_planes st) \<and>
     run_recordings cs (ResolvedNames_new (sp_resolved_names p)) = Some (sc_resolved_names (ut_ctx st))"

abbreviation peer_count :: "('k, 'ch, 'w, 'p, 's) udp_store \<Rightarrow> nat" where
  "peer_count st \<equiv> length (ps_peers (ut_planes st))"

definition udp_inv :: "SocketPolicy \<Rightarrow> ('d, 'k, 'ch, 'w, 'p, 's) udp_world \<Rightarrow> bool" where
  "udp_inv p w \<longleftrightarrow> store_ok p (uw_told w) (uw_store w) \<and>
     list_all (handle_ok p (uw_told w) (peer_count (uw_store w))) (uw_handles w)"

lemma sock_ok_same: "us_same s s' \<Longrightarrow> sock_ok p n s \<Longrightarrow> sock_ok p n s'"
  by (cases "(s, s')" rule: us_same.cases) (auto simp: nu_same_def)

lemma sock_ok_mono: "sock_ok p n s \<Longrightarrow> n \<le> m \<Longrightarrow> sock_ok p m s"
  by (cases s) (auto intro: less_le_trans)

lemma in_ok_mono: "in_ok n s \<Longrightarrow> n \<le> m \<Longrightarrow> in_ok m s"
  by (cases s) (auto intro: less_le_trans)

lemma net_ok_mono: "net_ok p cs n v s \<Longrightarrow> n \<le> m \<Longrightarrow> set cs \<subseteq> set cs' \<Longrightarrow> net_ok p cs' m v s"
  by (auto simp: net_ok_def intro: less_le_trans standing_grant_mono split: option.splits)

lemma out_ok_mono: "out_ok p cs n s \<Longrightarrow> n \<le> m \<Longrightarrow> set cs \<subseteq> set cs' \<Longrightarrow> out_ok p cs' m s"
  by (cases s) (auto intro: net_ok_mono)

lemma handle_ok_mono: "handle_ok p cs n h \<Longrightarrow> n \<le> m \<Longrightarrow> set cs \<subseteq> set cs' \<Longrightarrow> handle_ok p cs' m h"
  by (auto simp: handle_ok_def pred_option_def intro: sock_ok_mono in_ok_mono out_ok_mono)

lemma traffic_ok_logs: "logs ps' = logs ps \<Longrightarrow> traffic_ok p cs ps' = traffic_ok p cs ps"
  by (simp add: logs_def traffic_ok_def)

lemma traffic_ok_mono: "traffic_ok p cs ps \<Longrightarrow> set cs \<subseteq> set cs' \<Longrightarrow> traffic_ok p cs' ps"
  unfolding traffic_ok_def using granted_at_mono by blast

lemma store_ok_frame:
  "ut_ctx st' = ut_ctx st \<Longrightarrow> logs (ut_planes st') = logs (ut_planes st) \<Longrightarrow> store_ok p cs st \<Longrightarrow>
     store_ok p cs st' \<and> peer_count st' = peer_count st"
  using traffic_ok_logs [of "ut_planes st'" "ut_planes st" p cs] by (auto simp: store_ok_def logs_def)

section \<open>Binding\<close>

lemma unspecified_canonical: "is_unspecified ip \<Longrightarrow> is_unspecified (to_canonical ip)"
  by (cases ip rule: to_canonical.cases) (auto split: option.splits simp: v6_is_unspecified_def v6_unspecified_def)

lemma bind_decision:
  assumes "\<not> binds_udp_directly p" "decide_for_store lib clock p UdpBind addr h sh = (Allow al, sh')"
  shows "al_addr al = addr" "is_loopback (to_canonical (sa_ip addr)) \<or> is_unspecified (to_canonical (sa_ip addr))"
  using assms loopback_canonical unspecified_canonical
  by (auto simp: decide_for_store_def decide_inner_def decide_use_def decide_bind_def Let_def allow_by_address_def
      binds_udp_directly_def DirectBind_permits_def list_ex_iff split: if_splits GuestKind.splits)

definition longer_logs :: "('k, 'ch, 'w, 'p) planes \<Rightarrow> ('k, 'ch, 'w, 'p) planes \<Rightarrow> bool" where
  "longer_logs ps ps' \<longleftrightarrow> ps_sent ps' = ps_sent ps \<and> ps_heard ps' = ps_heard ps \<and>
     (ps_peers ps' = ps_peers ps \<or> ps_peers ps' = ps_peers ps @ [[]])"

lemma longer_logs_same: "logs ps' = logs ps \<Longrightarrow> longer_logs ps ps'"
  by (simp add: longer_logs_def logs_def)

lemma longer_logs_traffic: "longer_logs ps ps' \<Longrightarrow> traffic_ok p cs ps \<Longrightarrow> traffic_ok p cs ps'"
  unfolding longer_logs_def traffic_ok_def by (auto simp: nth_append less_Suc_eq split: if_splits; blast)

lemma us_bind_virtual_kept:
  assumes "us_bind_virtual env addr unspec s ps = (r, s', ps')"
  shows "logs ps' = logs ps"
    and "case r of Inl _ \<Rightarrow> s' = US_Network s | Inr _ \<Rightarrow> if unspec then \<exists>lo. s' = US_Unspecified s lo else \<exists>lo. s' = US_Loopback lo"
  using assms by (auto simp: us_bind_virtual_def Let_def split: prod.splits sum.splits)

lemma nu_bind_kept:
  "nu_bind os addr s k = (r, s', k') \<Longrightarrow>
     nu_egress_peers s' = nu_egress_peers s \<and> nu_socket_addr_check s' = nu_socket_addr_check s \<and> (\<forall>e. r = Inl e \<longrightarrow> s' = s)"
  by (auto simp: nu_bind_def split: sum.splits)

text \<open>A bind to a virtual or unspecified address gives a socket with a virtual half, or fails and
  leaves one without a check.\<close>

lemma us_bind_kept:
  assumes b: "us_bind env addr s ps = (r, s', ps')" and ok: "sock_ok p (length (ps_peers ps)) s"
    and addr: "is_loopback (to_canonical (sa_ip addr)) \<or> is_unspecified (to_canonical (sa_ip addr))"
  shows "longer_logs ps ps'" "sock_ok p (length (ps_peers ps')) s'"
    "r = Inr () \<Longrightarrow> sock_ok p (length (ps_peers ps')) (us_set_socket_addr_check (Some (SC_Policy p)) s')"
proof -
  have "longer_logs ps ps' \<and> sock_ok p (length (ps_peers ps')) s' \<and>
      (r = Inr () \<longrightarrow> sock_ok p (length (ps_peers ps')) (us_set_socket_addr_check (Some (SC_Policy p)) s'))"
  proof (cases "s' = s \<and> ps' = ps \<and> r \<noteq> Inr ()")
    case True
    with ok show ?thesis by (auto simp: longer_logs_def)
  next
    case False
    then obtain u where u: "s = US_Network u" "nu_state u = U_Default"
      using b by (cases s) (auto simp: us_bind_def split: if_splits)
    show ?thesis
    proof (cases "is_loopback (to_canonical (sa_ip addr))")
      case True
      with b u False have v: "us_bind_virtual env addr False u ps = (r, s', ps')"
        by (auto simp: us_bind_def Let_def split: if_splits)
      from us_bind_virtual_kept [OF v] ok u show ?thesis
        by (cases r) (auto simp: longer_logs_same logs_def)
    next
      case lo: False
      obtain r1 u1 k1 where n: "nu_bind (ux_os env) addr u (ps_kernel ps) = (r1, u1, k1)" by (metis prod_cases3)
      note kept = nu_bind_kept [OF n]
      show ?thesis
      proof (cases r1)
        case (Inl e)
        with b u lo n kept False ok show ?thesis
          by (auto simp: us_bind_def Let_def longer_logs_def split: if_splits)
      next
        case (Inr x)
        let ?u = "u1\<lparr>nu_egress_peers := Some (length (ps_peers ps))\<rparr>"
        let ?ps = "ps\<lparr>ps_kernel := k1, ps_peers := ps_peers ps @ [[]]\<rparr>"
        have chk: "nu_socket_addr_check ?u = None" using kept ok u by simp
        show ?thesis
        proof (cases "uo_local_addr (ux_os env) (nu_socket u1) k1")
          case (Inl err)
          with b u lo n Inr addr chk False show ?thesis
            by (auto simp: us_bind_def Let_def longer_logs_def split: if_splits)
        next
          case loc: (Inr a)
          with b u lo n Inr addr False have v: "us_bind_virtual env (loopback_of a) True ?u ?ps = (r, s', ps')"
            by (auto simp: us_bind_def Let_def split: if_splits)
          from us_bind_virtual_kept [OF v] chk show ?thesis
            by (cases r) (auto simp: longer_logs_def logs_def)
        qed
      qed
    qed
  qed
  then show "longer_logs ps ps'" "sock_ok p (length (ps_peers ps')) s'"
    "r = Inr () \<Longrightarrow> sock_ok p (length (ps_peers ps')) (us_set_socket_addr_check (Some (SC_Policy p)) s')" by blast+
qed

lemma udp_start_bind_kept:
  assumes c: "udp_start_bind env sem clock addr s st = (r, s', st')"
    and st: "store_ok p cs st" and ok: "sock_ok p (peer_count st) s" and direct: "\<not> binds_udp_directly p"
  shows "store_ok p cs st' \<and> peer_count st \<le> peer_count st' \<and> sock_ok p (peer_count st') s'"
proof -
  let ?a = "ip_socket_address_to_socket_addr addr"
  have pol: "sc_check (ut_ctx st) = SC_Policy p" using st by (simp add: store_ok_def)
  obtain k st1 where k: "udp_check sem clock (SC_Policy p) ?a UdpBind st = (k, st1)" by force
  note fr = udp_check_frame [OF k]
  have st1: "store_ok p cs st1" using st fr by (simp add: store_ok_def)
  show ?thesis
  proof (cases k)
    case (Inl e)
    with c k pol st1 ok fr show ?thesis by (simp add: udp_start_bind_def)
  next
    case (Inr al)
    note dec = bind_decision [OF direct udp_check_policy [OF k [unfolded Inr]]]
    obtain rb sb psb where b: "us_bind env (al_addr al) s (ut_planes st1) = (rb, sb, psb)" by (metis prod_cases3)
    have ok1: "sock_ok p (length (ps_peers (ut_planes st1))) s" using ok fr by simp
    note kept = us_bind_kept [OF b ok1 dec(2) [folded dec(1)]]
    have tr: "traffic_ok p cs psb" using longer_logs_traffic [OF kept(1)] st1 by (simp add: store_ok_def)
    have le: "peer_count st \<le> length (ps_peers psb)" using kept(1) fr by (auto simp: longer_logs_def)
    show ?thesis
    proof (cases "ut_poisoned st1")
      case True
      with c k Inr pol st1 ok fr show ?thesis by (simp add: udp_start_bind_def)
    next
      case False
      with c k Inr pol b fr st1 tr le kept(2,3) show ?thesis
        by (cases rb) (auto simp: udp_start_bind_def store_ok_def)
    qed
  qed
qed

section \<open>Streams\<close>

lemma udp_associate_kept:
  assumes c: "udp_associate env sem clock remote s st = (r, s', st')" and st: "store_ok p cs st"
  shows "us_same s s'" "store_ok p cs st' \<and> peer_count st' = peer_count st"
proof -
  have "us_same s s' \<and> ut_ctx st' = ut_ctx st \<and> logs (ut_planes st') = logs (ut_planes st)"
  proof (cases remote)
    case None
    with c show ?thesis by (auto simp: udp_associate_def dest: us_disconnect_same split: if_splits prod.splits sum.splits)
  next
    case (Some addr)
    show ?thesis
    proof (cases "us_socket_addr_check s")
      case None
      with c Some show ?thesis by (simp add: udp_associate_def)
    next
      case chk: (Some check)
      obtain k st1 where k: "udp_check sem clock check addr UdpConnect st = (k, st1)" by force
      note fr = udp_check_frame [OF k]
      show ?thesis
      proof (cases k)
        case (Inl e)
        with c Some chk k fr show ?thesis by (simp add: udp_associate_def)
      next
        case (Inr al)
        obtain rc sc psc where b: "us_connect env (al_addr al) (al_plane al) (al_valid_until al) s (ut_planes st1) = (rc, sc, psc)"
          by (metis prod_cases3)
        note kept = us_connect_same [OF b]
        show ?thesis
          using c Some chk k Inr b fr kept us_same_trans [OF conjunct1 [OF kept] us_hold_same]
          by (auto simp: udp_associate_def split: if_splits sum.splits)
      qed
    qed
  qed
  then show "us_same s s'" "store_ok p cs st' \<and> peer_count st' = peer_count st"
    using store_ok_frame [OF _ _ st] by blast+
qed

text \<open>A connected real stream has a grant: the plane of the peer was the host's.\<close>

lemma udp_associate_grants:
  assumes mode: "sp_egress_mode p = Enforce" and st: "store_ok p cs st"
    and chk: "us_socket_addr_check s = Some (SC_Policy p)"
    and c: "udp_associate env sem clock (Some addr) s st = (Ok (remote, plane, until), s', st')"
  shows "\<exists>al :: Allowed. remote = Some (al_addr al) \<and> plane = Some (al_plane al) \<and> until = al_valid_until al \<and>
    (al_plane al = PlaneHost \<longrightarrow> standing_grant p cs (al_addr al) until)"
proof -
  obtain k st1 where k: "udp_check sem clock (SC_Policy p) addr UdpConnect st = (k, st1)" by force
  with c chk obtain al where al: "k = Inr al" "remote = Some (al_addr al)" "plane = Some (al_plane al)" "until = al_valid_until al"
    by (auto simp: udp_associate_def split: sum.splits if_splits prod.splits)
  have run: "run_recordings cs (ResolvedNames_new (sp_resolved_names p)) = Some (sc_resolved_names (ut_ctx st))"
    using st by (simp add: store_ok_def)
  show ?thesis
    by (rule exI [of _ al]) (use decision_grants [OF mode _ run udp_check_policy [OF k [unfolded al(1)]]] al in auto)
qed

lemma udp_associate_unconnected:
  "udp_associate env sem clock None s st = (Ok (remote, plane, until), s', st') \<Longrightarrow> remote = None \<and> plane = None \<and> until = None"
  by (auto simp: udp_associate_def split: if_splits prod.splits sum.splits)

lemma udp_associate_bound:
  assumes c: "udp_associate env sem clock None s st = (r, s', st')" and s: "s = US_Network u" "s' = US_Network u'"
    and b: "nu_state u \<noteq> U_Default"
  shows "nu_state u' \<noteq> U_Default"
proof (cases "us_is_connected s \<and> \<not> ut_poisoned st")
  case True
  obtain rd ud k where d: "nu_disconnect (ux_os env) u (ps_kernel (ut_planes st)) = (rd, ud, k)" by (metis prod_cases3)
  then have "nu_state ud \<noteq> U_Default" using b by (auto simp: nu_disconnect_def split: if_splits sum.splits)
  moreover have "u' = ud" using c s True d by (cases rd) (auto simp: udp_associate_def us_disconnect_def)
  ultimately show ?thesis by simp
qed (use assms in \<open>auto simp: udp_associate_def split: if_splits\<close>)

lemma udp_associate_unchecked:
  "us_socket_addr_check s = None \<Longrightarrow> udp_associate env sem clock (Some a) s st = (r, s', st') \<Longrightarrow> r = Err (SE_Code P2_InvalidState)"
  by (simp add: udp_associate_def)

lemma udp_associate_connected:
  "udp_associate env sem clock (Some a) s st = (Ok (remote, plane, until), s', st') \<Longrightarrow> remote \<noteq> None"
  by (auto simp: udp_associate_def split: option.splits if_splits prod.splits sum.splits)

lemma us_bound_same: "us_is_bound s \<Longrightarrow> s = US_Network u \<Longrightarrow> nu_state u \<noteq> U_Default"
  by (auto simp: us_is_bound_def nu_is_bound_def split: UdpState.splits)

lemma build_streams_ok:
  assumes b: "build_streams s remote plane until = Ok (i, out)" and ok: "sock_ok p n s"
    and net: "\<And>u. s = US_Network u \<Longrightarrow> nu_state u \<noteq> U_Default \<and> remote = None"
    and g: "\<And>u lo a. s = US_Unspecified u lo \<Longrightarrow> remote = Some a \<Longrightarrow>
        \<exists>pl. plane = Some pl \<and> (pl = PlaneHost \<longrightarrow> standing_grant p cs a until)"
    and none: "remote = None \<Longrightarrow> plane = None"
  shows "in_ok n i \<and> out_ok p cs n out"
proof (cases s)
  case (US_Network u)
  with b net [OF US_Network] ok show ?thesis
    by (auto simp: build_streams_def network_streams_def net_ok_def Let_def)
next
  case (US_Loopback lo)
  with b show ?thesis by (auto simp: build_streams_def Let_def bind_result_Inr_iff split: prod.splits)
next
  case (US_Unspecified u lo)
  show ?thesis
  proof (cases remote)
    case None
    with b none US_Unspecified ok show ?thesis
      by (auto simp: build_streams_def network_streams_def net_ok_def Let_def bind_result_Inr_iff)
  next
    case (Some a)
    with g [OF US_Unspecified] obtain pl where pl: "plane = Some pl" "pl = PlaneHost \<longrightarrow> standing_grant p cs a until" by blast
    with b Some US_Unspecified ok show ?thesis
      by (cases pl) (auto simp: build_streams_def network_streams_def net_ok_def Let_def bind_result_Inr_iff split: prod.splits)
  qed
qed

lemma udp_stream_kept:
  assumes c: "udp_stream env sem clock active remote s st = (r, s', st')" and mode: "sp_egress_mode p = Enforce"
    and st: "store_ok p cs st" and ok: "sock_ok p (peer_count st) s"
  shows "store_ok p cs st' \<and> peer_count st' = peer_count st \<and> sock_ok p (peer_count st) s'"
    and "r = Ok (i, out) \<Longrightarrow> in_ok (peer_count st) i \<and> out_ok p cs (peer_count st) out"
proof -
  let ?addr = "map_option ip_socket_address_to_socket_addr remote"
  obtain ra sa sta where a: "udp_associate env sem clock ?addr s st = (ra, sa, sta)" by (metis prod_cases3)
  note kept = udp_associate_kept [OF a st]
  show "store_ok p cs st' \<and> peer_count st' = peer_count st \<and> sock_ok p (peer_count st) s'"
    using c a kept st ok sock_ok_same [OF kept(1) ok]
    by (cases ra) (auto simp: udp_stream_def split: if_splits prod.splits)
  assume "r = Ok (i, out)"
  with c a obtain rem pl until where ra: "ra = Ok (rem, pl, until)" "sa = s'" "us_is_bound s"
      and b: "build_streams s' rem pl until = Ok (i, out)"
    by (cases ra; cases "build_streams s' (fst (projr ra)) (fst (snd (projr ra))) (snd (snd (projr ra)))")
      (auto simp: udp_stream_def split: if_splits prod.splits)
  have ok': "sock_ok p (peer_count st) s'" using sock_ok_same [OF kept(1) ok] ra by simp
  show "in_ok (peer_count st) i \<and> out_ok p cs (peer_count st) out"
  proof (rule build_streams_ok [OF b ok'])
    fix u assume u: "s' = US_Network u"
    then obtain u0 where u0: "s = US_Network u0" using kept(1) ra(2) by (cases s) auto
    with ok have "us_socket_addr_check s = None" by simp
    then have none: "?addr = None"
      using udp_associate_unchecked [of s env sem clock _ st ra sa sta] a ra(1) by (cases ?addr) auto
    then show "nu_state u \<noteq> U_Default \<and> rem = None"
      using udp_associate_bound [OF a [unfolded none] u0 _ us_bound_same [OF ra(3) u0]] ra(2) u
        udp_associate_unconnected [OF a [unfolded none ra(1)]] by blast
  next
    fix u lo x assume u: "s' = US_Unspecified u lo" and x: "rem = Some x"
    then obtain u0 lo0 where u0: "s = US_Unspecified u0 lo0" using kept(1) ra(2) by (cases s) auto
    obtain addr where addr: "?addr = Some addr"
      using x udp_associate_unconnected [of env sem clock s st rem pl until sa sta] a ra(1) by (cases ?addr) auto
    have "us_socket_addr_check s \<noteq> None"
      using udp_associate_unchecked [of s env sem clock addr st ra sa sta] a ra(1) addr by auto
    then have "us_socket_addr_check s = Some (SC_Policy p)" using ok u0 by auto
    from udp_associate_grants [OF mode st this a [unfolded ra(1) addr]] x
    show "\<exists>plane. pl = Some plane \<and> (plane = PlaneHost \<longrightarrow> standing_grant p cs x until)" by auto
  next
    assume none: "rem = None"
    then have "?addr = None"
      using udp_associate_connected [of env sem clock _ s st rem pl until sa sta] a ra(1) by (cases ?addr) auto
    then show "pl = None" using udp_associate_unconnected a ra(1) by metis
  qed
qed

section \<open>Receiving\<close>

lemma give_back_frame [simp]:
  "ut_ctx (give_back env permit st) = ut_ctx st" "logs (ut_planes (give_back env permit st)) = logs (ut_planes st)"
  "ut_poisoned (give_back env permit st) = ut_poisoned st"
  by (simp_all add: give_back_def drop_permit_def Let_def)

lemma drop_frame:
  "ut_ctx (incoming_drop env i st) = ut_ctx st" "logs (ut_planes (incoming_drop env i st)) = logs (ut_planes st)"
  "ut_ctx (outgoing_drop env out st) = ut_ctx st" "logs (ut_planes (outgoing_drop env out st)) = logs (ut_planes st)"
  by (auto simp: incoming_drop_def outgoing_drop_def Let_def split: IncomingDatagramStream.splits OutgoingDatagramStream.splits option.splits)

lemma next_virtual_frame:
  "next_virtual env s st = (d, s', st') \<Longrightarrow> ut_ctx st' = ut_ctx st \<and> logs (ut_planes st') = logs (ut_planes st)"
  by (auto simp: next_virtual_def split: option.splits prod.splits)

lemma virtual_one_frame:
  "virtual_one env sem clock s d st = (new, st') \<Longrightarrow> ut_ctx st' = ut_ctx st \<and> logs (ut_planes st') = logs (ut_planes st)"
  using receive_denied_frame by (fastforce simp: virtual_one_def split: prod.splits if_splits option.splits bool.splits)

lemma recv_virtual_frame:
  assumes "recv_virtual env sem clock m ds s st = Some y"
  shows "ut_ctx (snd (snd y)) = ut_ctx st \<and> logs (ut_planes (snd (snd y))) = logs (ut_planes st)"
  using assms
proof (induction rule: recv_virtual.raw_induct [rotated, consumes 1, case_names 1])
  case (1 recv env sem clock m ds s st y)
  show ?case
  proof (cases "length ds < m")
    case True
    obtain d s1 st1 where n: "next_virtual env s st = (d, s1, st1)" by (metis prod_cases3)
    show ?thesis
    proof (cases d)
      case None
      with 1 True n next_virtual_frame [OF n] show ?thesis by auto
    next
      case (Some x)
      obtain new st2 where v: "virtual_one env sem clock s1 x st1 = (new, st2)" by force
      with 1(2) True n Some have "recv env sem clock m (ds @ new) s1 st2 = Some y" by simp
      from 1(1) [OF this] next_virtual_frame [OF n] virtual_one_frame [OF v] show ?thesis by simp
    qed
  qed (use 1 in auto)
qed

lemma li_recv_frame:
  "li_recv env sem clock locked m s st = Some (r, s', st') \<Longrightarrow> ut_ctx st' = ut_ctx st \<and> logs (ut_planes st') = logs (ut_planes st)"
  using recv_virtual_frame by (fastforce simp: li_recv_def split: if_splits)

text \<open>What is given to the guest came from a peer.\<close>

lemma recv_one_kept:
  assumes r: "recv_one env sem clock s st = (r, st')" and st: "store_ok p cs st" and own: "own_peers (peer_count st) (ni_egress_peers s)"
  shows "store_ok p cs st' \<and> peer_count st' = peer_count st"
proof -
  obtain x where x: "x < peer_count st" "ni_egress_peers s = Some x" using own by blast
  obtain got k where g: "uo_try_recv_from (ux_os env) (ni_inner s) MAX_UDP_DATAGRAM_SIZE (ps_kernel (ut_planes st)) = (got, k)" by force
  let ?ps = "(ut_planes st)\<lparr>ps_kernel := k\<rparr>" and ?st = "st\<lparr>ut_planes := (ut_planes st)\<lparr>ps_kernel := k\<rparr>\<rparr>"
  have ok: "store_ok p cs ?st \<and> peer_count ?st = peer_count st" by (rule store_ok_frame [OF _ _ st]) simp_all
  show ?thesis
  proof (cases "\<exists>data a. got = Inr (data, a) \<and> a \<in> set (ps_peers (ut_planes st) ! x)")
    case False
    with r g x ok show ?thesis by (cases got) (auto simp: recv_one_def Let_def split: if_splits option.splits)
  next
    case True
    then obtain data a where a: "got = Inr (data, a)" "a \<in> set (ps_peers (ut_planes st) ! x)" by blast
    obtain b st2 where b: "receive_denied sem clock (ni_socket_addr_check s) a ?st = (b, st2)" by force
    note fr = receive_denied_frame [OF b]
    have ok2: "store_ok p cs st2 \<and> peer_count st2 = peer_count st" using store_ok_frame [of st2 ?st p cs] fr ok by simp
    let ?heard = "st2\<lparr>ut_planes := ?ps\<lparr>ps_heard := ps_heard ?ps @ [(ni_egress_peers s, a)]\<rparr>\<rparr>"
    have "store_ok p cs ?heard" using ok fr x a(2) by (auto simp: store_ok_def traffic_ok_def)
    then have "store_ok p cs st'" "peer_count st' = peer_count st"
      using r g a x b ok ok2 by (auto simp: recv_one_def Let_def split: if_splits option.splits bool.splits)
    then show ?thesis by blast
  qed
qed

lemma recv_real_kept:
  assumes "recv_real env sem clock m s ds st = Some y" "store_ok p cs st" "own_peers (peer_count st) (ni_egress_peers s)"
  shows "store_ok p cs (snd y) \<and> peer_count (snd y) = peer_count st"
  using assms
proof (induction rule: recv_real.raw_induct [rotated, consumes 1, case_names 1])
  case (1 recv env sem clock m s ds st y)
  show ?case
  proof (cases "length ds < m")
    case True
    obtain r st1 where r: "recv_one env sem clock s st = (r, st1)" by force
    note kept = recv_one_kept [OF r 1(3,4)]
    with 1(4) have own: "own_peers (peer_count st1) (ni_egress_peers s)" by simp
    show ?thesis
    proof (cases r)
      case (Inl e)
      with 1(2) True r kept show ?thesis by (auto split: if_splits)
    next
      case (Inr d)
      with 1(2) True r obtain ds' where "recv env sem clock m s ds' st1 = Some y" by (cases d) auto
      from 1(1) [OF this conjunct1 [OF kept] own] kept show ?thesis by simp
    qed
  qed (use 1 in auto)
qed

lemma udp_receive_kept:
  assumes c: "udp_receive env sem clock locked m i st = Some (r, i', st')" and st: "store_ok p cs st" and ok: "in_ok (peer_count st) i"
  shows "store_ok p cs st' \<and> peer_count st' = peer_count st \<and> in_ok (peer_count st) i'"
proof (cases i)
  case (IS_Network net)
  with c ok recv_real_kept [OF _ st, of env sem clock "unat m" net "[]"] st show ?thesis
    by (auto simp: udp_receive_def Let_def split: if_splits)
next
  case (IS_Loopback lo)
  with c ok st show ?thesis
    by (auto simp: udp_receive_def Let_def dest!: li_recv_frame intro: store_ok_frame [THEN conjunct1] store_ok_frame [THEN conjunct2] split: if_splits)
next
  case (IS_Unspecified net lo)
  show ?thesis
  proof (cases "unat m = 0")
    case False
    with c IS_Unspecified obtain rl lo1 st1 where l: "li_recv env sem clock locked (unat m) lo st = Some (rl, lo1, st1)"
      by (auto simp: udp_receive_def Let_def split: option.splits)
    have st1: "store_ok p cs st1 \<and> peer_count st1 = peer_count st" using store_ok_frame [OF _ _ st] li_recv_frame [OF l] by blast
    show ?thesis
    proof (cases rl)
      case (Inl e)
      with c IS_Unspecified False l st1 ok show ?thesis by (auto simp: udp_receive_def Let_def)
    next
      case (Inr ds)
      with c IS_Unspecified False l have "recv_real env sem clock (unat m) net ds st1 = Some (r, st')" "i' = IS_Unspecified net lo1"
        by (auto simp: udp_receive_def Let_def)
      with recv_real_kept [OF this(1) conjunct1 [OF st1]] st1 ok IS_Unspecified show ?thesis by auto
    qed
  qed (use c IS_Unspecified st ok in \<open>simp add: udp_receive_def Let_def\<close>)
qed

lemma incoming_ready_kept:
  assumes "incoming_ready env readable i st = (ready, i', st')" "store_ok p cs st" "in_ok (peer_count st) i"
  shows "store_ok p cs st' \<and> peer_count st' = peer_count st \<and> in_ok (peer_count st) i'"
proof -
  have "ut_ctx st' = ut_ctx st \<and> logs (ut_planes st') = logs (ut_planes st)"
    using assms(1) by (auto simp: incoming_ready_def buffer_virtual_def split: IncomingDatagramStream.splits prod.splits option.splits)
  moreover have "in_ok (peer_count st) i'"
    using assms(1,3) by (auto simp: incoming_ready_def split: IncomingDatagramStream.splits prod.splits)
  ultimately show ?thesis using store_ok_frame [OF _ _ assms(2)] by blast
qed

section \<open>Sending\<close>

lemma refresh_frame:
  assumes "standing_grant p cs a (Some d)" "sp_egress_mode p = Enforce"
    and "run_recordings cs (ResolvedNames_new (sp_resolved_names p)) = Some h"
    and "refresh_connected sem clock (SC_Policy p) a (Some d) h sh = (r, until, sh')"
  shows "standing_grant p cs a until" "r = Ok () \<Longrightarrow> (\<forall>x. until = Some x \<longrightarrow> clock < x)"
proof -
  obtain k sh1 where k: "decide_for_store sem clock p UdpOutgoingDatagram a h sh = (k, sh1)" by force
  have out: "\<not> is_host_sentinel (sa_ip a)" "\<not> is_loopback (to_canonical (sa_ip a))" "\<not> is_unspecified (to_canonical (sa_ip a))"
    using assms(1) by (auto simp: standing_grant_def)
  have "standing_grant p cs a until \<and> (r = Ok () \<longrightarrow> (\<forall>x. until = Some x \<longrightarrow> clock < x))"
  proof (cases "d \<le> clock \<and> (\<exists>al. k = Allow al)")
    case True
    then obtain al where al: "k = Allow al" by blast
    have h: "al_plane al = PlaneHost" "al_addr al = a" using plane_of_outside [OF _ out k [unfolded al]] by simp_all
    with decision_grants [OF assms(2) _ assms(3) k [unfolded al]] assms(4) True k al show ?thesis
      by (auto simp: refresh_connected_def SocketAddrCheck_check_def)
  next
    case False
    with assms(1,4) k show ?thesis
      by (cases k) (auto simp: refresh_connected_def SocketAddrCheck_check_def split: if_splits)
  qed
  then show "standing_grant p cs a until" "r = Ok () \<Longrightarrow> (\<forall>x. until = Some x \<longrightarrow> clock < x)" by blast+
qed

lemma prepare_one_frame:
  "prepare_one sem clock remote until family c d st = (r, until', st') \<Longrightarrow> ut_ctx st' = ut_ctx st \<and> ut_planes st' = ut_planes st"
  using udp_check_frame
  by (fastforce simp: prepare_one_def Let_def split: if_splits option.splits prod.splits sum.splits)

text \<open>A stream without a peer decides about the destination; one with a peer keeps a grant for it.\<close>

lemma prepare_unconnected:
  assumes c: "prepare_one sem clock None until family (Some (SC_Policy p)) d st = (r, until', st')"
    and mode: "sp_egress_mode p = Enforce"
    and run: "run_recordings cs (ResolvedNames_new (sp_resolved_names p)) = Some (sc_resolved_names (ut_ctx st))"
    and r: "r = Ok (addr, plane)"
  shows "plane = Some PlaneVirtual \<or> granted_at p cs addr clock"
proof -
  from c r obtain asked where q: "od_remote_address d = Some asked"
    by (auto simp: prepare_one_def Let_def split: if_splits option.splits)
  obtain k st1 where k: "udp_check sem clock (SC_Policy p) (ip_socket_address_to_socket_addr asked) UdpOutgoingDatagram st = (k, st1)"
    by force
  with c r q obtain al where al: "k = Inr al" "addr = al_addr al" "plane = Some (al_plane al)"
    by (cases k) (auto simp: prepare_one_def Let_def split: if_splits)
  from decision_grants [OF mode _ run udp_check_policy [OF k [unfolded al(1)]]] al show ?thesis
    by (cases "al_plane al") (auto simp: granted_at_def)
qed

lemma prepare_connected:
  assumes c: "prepare_one sem clock (Some a) until family check d st = (r, until', st')"
    and mode: "sp_egress_mode p = Enforce" and chk: "check_of p check"
    and run: "run_recordings cs (ResolvedNames_new (sp_resolved_names p)) = Some (sc_resolved_names (ut_ctx st))"
    and g: "standing_grant p cs a until"
  shows "standing_grant p cs a until' \<and> (\<forall>addr plane. r = Ok (addr, plane) \<longrightarrow> granted_at p cs addr clock)"
proof (cases "until = None \<or> check = None")
  case True
  with c g show ?thesis by (auto simp: prepare_one_def Let_def granted_at_def split: if_splits option.splits)
next
  case False
  with chk obtain x where x: "until = Some x" "check = Some (SC_Policy p)" by auto
  obtain rr u sh where f: "refresh_connected sem clock (SC_Policy p) a (Some x) (sc_resolved_names (ut_ctx st)) (ut_shared st) = (rr, u, sh)"
    by (metis prod_cases3)
  note kept = refresh_frame [OF g [unfolded x(1)] mode run f]
  from c x f kept g show ?thesis
    by (cases rr) (auto simp: prepare_one_def Let_def granted_at_def split: if_splits option.splits)
qed

lemma prepare_unconnected_frame:
  "prepare_one sem clock None until family check d st = (r, until', st') \<Longrightarrow> until' = until \<and> (check = None \<longrightarrow> isl r)"
  by (auto simp: prepare_one_def Let_def split: if_splits option.splits prod.splits sum.splits)

text \<open>A destination is virtual, for a stream with a virtual half, or granted at this instant.\<close>

lemma prepare_one_granted:
  assumes c: "prepare_one sem clock (no_remote_address s) (no_valid_until s) family (no_socket_addr_check s) d st = (r, until, st')"
    and mode: "sp_egress_mode p = Enforce" and st: "store_ok p cs st" and ok: "net_ok p cs n virtual s"
  shows "net_ok p cs n virtual (s\<lparr>no_valid_until := until\<rparr>)"
    and "r = Ok (addr, plane) \<Longrightarrow> virtual \<and> plane = Some PlaneVirtual \<or> granted_at p cs addr clock"
proof -
  have run: "run_recordings cs (ResolvedNames_new (sp_resolved_names p)) = Some (sc_resolved_names (ut_ctx st))"
    using st by (simp add: store_ok_def)
  have chk: "check_of p (no_socket_addr_check s)" using ok by (simp add: net_ok_def)
  have "net_ok p cs n virtual (s\<lparr>no_valid_until := until\<rparr>) \<and>
      (\<forall>addr plane. r = Ok (addr, plane) \<longrightarrow> virtual \<and> plane = Some PlaneVirtual \<or> granted_at p cs addr clock)"
  proof (cases "no_remote_address s")
    case None
    note fr = prepare_unconnected_frame [OF c [unfolded None]]
    have v: "virtual \<and> no_socket_addr_check s = Some (SC_Policy p)" if "r = Ok x" for x
      using that fr chk ok None by (auto simp: net_ok_def)
    have "virtual \<and> plane = Some PlaneVirtual \<or> granted_at p cs addr clock" if r: "r = Ok (addr, plane)" for addr plane
      using prepare_unconnected [OF _ mode run r] c None v [OF r] by auto
    with fr ok show ?thesis by (auto simp: net_ok_def)
  next
    case (Some a)
    with ok have g: "standing_grant p cs a (no_valid_until s)" by (simp add: net_ok_def)
    from prepare_connected [OF c [unfolded Some] mode chk run g] ok Some show ?thesis by (simp add: net_ok_def)
  qed
  then show "net_ok p cs n virtual (s\<lparr>no_valid_until := until\<rparr>)"
    and "r = Ok (addr, plane) \<Longrightarrow> virtual \<and> plane = Some PlaneVirtual \<or> granted_at p cs addr clock" by blast+
qed

lemma send_one_net_kept:
  assumes c: "send_one_net env clock s d addr st = (r, st')" and st: "store_ok p cs st" and g: "granted_at p cs addr clock"
    and own: "own_peers (peer_count st) (no_egress_peers s)"
  shows "store_ok p cs st' \<and> peer_count st' = peer_count st"
proof -
  obtain x where x: "x < peer_count st" "no_egress_peers s = Some x" using own by blast
  let ?ps = "ut_planes st"
  obtain res k where res: "(if no_remote_address s = Some addr
      then uo_try_send (ux_os env) (no_inner s) (od_data d) (ps_kernel ?ps)
      else uo_try_send_to (ux_os env) (no_inner s) (od_data d) addr (ps_kernel ?ps)) = (res, k)" by force
  define e where "e = \<lparr>se_peers = Some x, se_addr = addr, se_data = od_data d, se_clock = clock,
    se_ok = (case res of Inr _ \<Rightarrow> True | Inl _ \<Rightarrow> False)\<rparr>"
  have st': "st' = st\<lparr>ut_planes := ?ps\<lparr>ps_kernel := k, ps_peers := (ps_peers ?ps)[x := bs_insert addr (ps_peers ?ps ! x)],
      ps_sent := ps_sent ?ps @ [e]\<rparr>\<rparr>"
    using c x(2) by (simp add: send_one_net_def Let_def res e_def)
  have t: "traffic_ok p cs ?ps" using st by (simp add: store_ok_def)
  have "traffic_ok p cs (ut_planes st')"
    unfolding traffic_ok_def
  proof (intro conjI ballI allI impI)
    fix f assume "f \<in> set (ps_sent (ut_planes st'))"
    then show "granted_at p cs (se_addr f) (se_clock f)" using t g by (auto simp: st' e_def traffic_ok_def)
  next
    fix j a assume "j < length (ps_peers (ut_planes st'))" "a \<in> set (ps_peers (ut_planes st') ! j)"
    then show "\<exists>f \<in> set (ps_sent (ut_planes st')). se_peers f = Some j \<and> se_addr f = a"
      using t by (cases "j = x") (auto simp: st' e_def traffic_ok_def)
  next
    fix f assume f: "f \<in> set (ps_heard (ut_planes st'))"
    obtain y a where ya: "f = (y, a)" by force
    with f t obtain j where "j < length (ps_peers ?ps)" "y = Some j" "a \<in> set (ps_peers ?ps ! j)"
      by (auto simp: st' traffic_ok_def)
    then show "case f of (y, a) \<Rightarrow> \<exists>j < length (ps_peers (ut_planes st')). y = Some j \<and> a \<in> set (ps_peers (ut_planes st') ! j)"
      by (cases "j = x") (auto simp: ya st')
  qed
  then show ?thesis using st by (simp add: st' store_ok_def)
qed

lemma deliver_frame:
  "deliver env l addr data permit st = (r, st') \<Longrightarrow> ut_ctx st' = ut_ctx st \<and> logs (ut_planes st') = logs (ut_planes st)"
  by (auto simp: deliver_def split: if_splits sum.splits option.splits)

lemma send_one_lo_frame:
  assumes "send_one_lo env sem clock s d st = (r, s', st')"
  shows "ut_ctx st' = ut_ctx st \<and> logs (ut_planes st') = logs (ut_planes st)"
proof -
  obtain k u st1 where k: "prepare_one sem clock (lg_remote_address s) None (lg_family s) (lg_socket_addr_check s) d st = (k, u, st1)"
    by (metis prod_cases3)
  note fr = prepare_one_frame [OF k]
  show ?thesis
  proof (cases k)
    case (Inl e)
    with assms k fr show ?thesis by (simp add: send_one_lo_def)
  next
    case (Inr x)
    show ?thesis
    proof (cases "lg_permit s")
      case None
      with assms k Inr fr show ?thesis by (auto simp: send_one_lo_def split: prod.splits)
    next
      case (Some permit)
      with assms k Inr fr show ?thesis
        by (auto simp: send_one_lo_def Let_def dest!: deliver_frame split: prod.splits if_splits)
    qed
  qed
qed

lemma send_batch_kept:
  assumes "send_batch env sem sent ds lo s st = (r, lo', s', st')" "sp_egress_mode p = Enforce"
    and "store_ok p cs st" "net_ok p cs (peer_count st) (lo \<noteq> None) s"
  shows "store_ok p cs st' \<and> peer_count st' = peer_count st \<and> net_ok p cs (peer_count st) (lo \<noteq> None) s' \<and> (lo' = None \<longleftrightarrow> lo = None)"
  using assms
proof (induction env sem sent ds lo s st arbitrary: r lo' s' st' rule: send_batch.induct)
  case (2 env sem sent clock d rest lo s st)
  obtain k u st1 where k: "prepare_one sem clock (no_remote_address s) (no_valid_until s) (no_family s) (no_socket_addr_check s) d st = (k, u, st1)"
    by (metis prod_cases3)
  let ?s = "s\<lparr>no_valid_until := u\<rparr>"
  have fr: "ut_ctx st1 = ut_ctx st" "ut_planes st1 = ut_planes st" using prepare_one_frame [OF k] by simp_all
  have st1: "store_ok p cs st1" "peer_count st1 = peer_count st" using store_ok_frame [OF fr(1) _ "2.prems"(3)] fr(2) by simp_all
  note pg = prepare_one_granted [OF k "2.prems"(2,3,4)]
  show ?case
  proof (cases k)
    case (Inl e)
    with "2.prems"(1) k pg(1) st1 show ?thesis by auto
  next
    case (Inr x)
    obtain addr plane where x: "x = (addr, plane)" by force
    let ?v = "case plane of Some plane \<Rightarrow> plane = PlaneVirtual | None \<Rightarrow> is_loopback (to_canonical (sa_ip addr))"
    show ?thesis
    proof (cases "if ?v then lo else None")
      case virt: (Some l)
      obtain rl l1 st2 where l: "send_one_lo env sem clock l d st1 = (rl, l1, st2)" by (metis prod_cases3)
      have st2: "store_ok p cs st2" "peer_count st2 = peer_count st"
        using store_ok_frame [OF conjunct1 [OF send_one_lo_frame [OF l]] conjunct2 [OF send_one_lo_frame [OF l]] st1(1)] st1(2) by simp_all
      have lo: "lo \<noteq> None" using virt by (auto split: if_splits)
      show ?thesis
      proof (cases rl)
        case (Inl e)
        with "2.prems"(1) k Inr x virt l pg(1) st2 lo show ?thesis by auto
      next
        case (Inr y)
        with "2.prems"(1) k \<open>k = Inr x\<close> x virt l have "send_batch env sem (sent + 1) rest (Some l1) ?s st2 = (r, lo', s', st')" by simp
        from "2.IH"(2) [OF k [symmetric] refl refl \<open>k = Inr x\<close> x [symmetric] refl virt l [symmetric] Inr refl] this st2 pg(1) lo "2.prems"(2)
        show ?thesis by auto
      qed
    next
      case real: None
      have g: "granted_at p cs addr clock" using pg(2) [of addr plane] Inr x real by auto
      obtain rn st2 where nn: "send_one_net env clock ?s d addr st1 = (rn, st2)" by force
      have own: "own_peers (peer_count st1) (no_egress_peers ?s)" using pg(1) st1(2) by (simp add: net_ok_def)
      note st2 = send_one_net_kept [OF nn st1(1) g own]
      show ?thesis
      proof (cases rn)
        case (Inl e)
        with "2.prems"(1) k Inr x real nn pg(1) st1 st2 show ?thesis by auto
      next
        case ok: (Inr y)
        with "2.prems"(1) k Inr x real nn have "send_batch env sem (sent + 1) rest lo ?s st2 = (r, lo', s', st')" by simp
        from "2.IH"(1) [OF k [symmetric] refl refl Inr x [symmetric] refl real nn [symmetric] ok] this st1 st2 pg(1) "2.prems"(2)
        show ?thesis by simp
      qed
    qed
  qed
qed auto

lemma net_ok_permit_count [simp]: "net_ok p cs n v (s\<lparr>no_check_send_permit_count := c\<rparr>) = net_ok p cs n v s"
  by (simp add: net_ok_def split: option.splits)

lemma udp_send_kept:
  assumes c: "udp_send env sem ds out st = (r, out', st')" and mode: "sp_egress_mode p = Enforce"
    and st: "store_ok p cs st" and ok: "out_ok p cs (peer_count st) out"
  shows "store_ok p cs st' \<and> peer_count st' = peer_count st \<and> out_ok p cs (peer_count st) out'"
proof (cases "st' = st \<and> out' = out")
  case False
  show ?thesis
  proof (cases out)
    case (OS_Loopback lo)
    with c False obtain clock d rl lo' where l: "send_one_lo env sem clock lo d st = (rl, lo', st')" "out' = OS_Loopback lo'"
      by (auto simp: udp_send_def Let_def split: list.splits prod.splits)
    with store_ok_frame [of st' st p cs] st send_one_lo_frame [OF l(1)] show ?thesis by simp
  next
    case (OS_Network s)
    let ?s = "s\<lparr>no_check_send_permit_count := no_check_send_permit_count s - length ds\<rparr>"
    from c False OS_Network obtain lo' s' where b: "send_batch env sem 0 ds None ?s st = (r, lo', s', st')" "out' = OS_Network s'"
      by (auto simp: udp_send_def Let_def split: if_splits prod.splits)
    with send_batch_kept [OF b(1) mode st] ok OS_Network show ?thesis by simp
  next
    case (OS_Unspecified s lo)
    let ?s = "s\<lparr>no_check_send_permit_count := no_check_send_permit_count s - length ds\<rparr>"
    from c False OS_Unspecified obtain lo' s' where b: "send_batch env sem 0 ds (Some lo) ?s st = (r, lo', s', st')"
        "out' = OS_Unspecified s' (case lo' of Some x \<Rightarrow> x | None \<Rightarrow> lo)"
      by (auto simp: udp_send_def Let_def split: if_splits prod.splits)
    with send_batch_kept [OF b(1) mode st] ok OS_Unspecified show ?thesis by simp
  qed
qed (use st ok in simp)

lemma lg_check_send_logs: "lg_check_send env s ps = (b, s', ps') \<Longrightarrow> logs ps' = logs ps"
  by (auto simp: lg_check_send_def Let_def split: if_splits option.splits)

lemma udp_check_send_kept:
  assumes c: "udp_check_send env out st = (n, out', st')" and st: "store_ok p cs st" and ok: "out_ok p cs (peer_count st) out"
  shows "store_ok p cs st' \<and> peer_count st' = peer_count st \<and> out_ok p cs (peer_count st) out'"
proof -
  have "ut_ctx st' = ut_ctx st \<and> logs (ut_planes st') = logs (ut_planes st)"
    using c by (auto simp: udp_check_send_def Let_def dest: lg_check_send_logs split: OutgoingDatagramStream.splits prod.splits bool.splits)
  moreover have "out_ok p cs (peer_count st) out'"
    using c ok by (auto simp: udp_check_send_def Let_def split: OutgoingDatagramStream.splits prod.splits bool.splits)
  ultimately show ?thesis using store_ok_frame [OF _ _ st] by blast
qed

section \<open>Runs keep the invariant\<close>

lemma udp_call_kept:
  assumes c: "udp_call env sem h st h' st'" and mode: "sp_egress_mode p = Enforce" and direct: "\<not> binds_udp_directly p"
    and st: "store_ok p cs st" and ok: "handle_ok p cs (peer_count st) h"
  shows "store_ok p cs st' \<and> peer_count st \<le> peer_count st' \<and> handle_ok p cs (peer_count st') h'"
proof -
  have s: "sock_ok p (peer_count st) (uh_socket h)" using ok by (simp add: handle_ok_def)
  have sockets: "handle_ok p cs (peer_count st') (h\<lparr>uh_socket := x\<rparr>)"
    if "sock_ok p (peer_count st') x" "peer_count st \<le> peer_count st'" for x
    using that(1) handle_ok_mono [OF ok that(2) order_refl] by (simp add: handle_ok_def)
  have setter: ?thesis if "us_same (uh_socket h) x \<and> logs ps' = logs (ut_planes st)" "st' = st\<lparr>ut_planes := ps'\<rparr>" "h' = h\<lparr>uh_socket := x\<rparr>" for x ps'
    using that store_ok_frame [of st' st p cs] st sock_ok_same [OF _ s] sockets by auto
  from c show ?thesis
  proof cases
    case (start_bind clock addr r s')
    with udp_start_bind_kept [OF start_bind(2) st s direct] sockets show ?thesis by auto
  next
    case (finish_bind r s')
    then obtain rr ps' where f: "us_finish_bind env (uh_socket h) (ut_planes st) = (rr, s', ps')" "st' = st\<lparr>ut_planes := ps'\<rparr>"
      by (auto simp: udp_finish_bind_def split: prod.splits)
    show ?thesis by (rule setter [OF us_finish_bind_same [OF f(1)] f(2)]) (simp add: finish_bind)
  next
    case (set_hop_limit hops r s' ps')
    show ?thesis by (rule setter [OF us_setters_same(1) [OF set_hop_limit(3)] set_hop_limit(2,1)])
  next
    case (set_receive_buffer bytes r s' ps')
    show ?thesis by (rule setter [OF us_setters_same(2) [OF set_receive_buffer(3)] set_receive_buffer(2,1)])
  next
    case (set_send_buffer bytes r s' ps')
    show ?thesis by (rule setter [OF us_setters_same(3) [OF set_send_buffer(3)] set_send_buffer(2,1)])
  next
    case (streamed clock remote i out s')
    with udp_stream_kept [OF streamed(2) mode st s] show ?thesis by (auto simp: handle_ok_def)
  next
    case (not_streamed clock remote e s')
    with udp_stream_kept(1) [OF not_streamed(2) mode st s] sockets show ?thesis by auto
  next
    case (received i clock locked amount r i')
    with udp_receive_kept [OF received(3) st] ok show ?thesis by (auto simp: handle_ok_def)
  next
    case (polled i readable ready i')
    with incoming_ready_kept [OF polled(3) st] ok show ?thesis by (auto simp: handle_ok_def)
  next
    case (check_sent out n out')
    with udp_check_send_kept [OF check_sent(3) st] ok show ?thesis by (auto simp: handle_ok_def)
  next
    case (sent out ds r out')
    with udp_send_kept [OF sent(3) mode st] ok show ?thesis by (auto simp: handle_ok_def)
  next
    case (incoming_dropped i)
    with store_ok_frame [OF drop_frame(1,2) st] ok show ?thesis by (auto simp: handle_ok_def)
  next
    case (outgoing_dropped out)
    with store_ok_frame [OF drop_frame(3,4) st] ok show ?thesis by (auto simp: handle_ok_def)
  qed
qed

lemma create_udp_socket_kept:
  assumes "create_udp_socket env sem clock family st = (r, st')" "store_ok p cs st"
  shows "store_ok p cs st' \<and> peer_count st' = peer_count st" "r = Ok s \<Longrightarrow> sock_ok p n s"
proof -
  obtain k st1 where k: "udp_check sem clock (sc_check (ut_ctx st)) (implicit_bind_addr family) UdpCreate st = (k, st1)" by force
  note fr = udp_check_frame [OF k]
  obtain rn kk where nn: "nu_new (ux_os env) (sc_uses (ut_ctx st)) family (ps_kernel (ut_planes st)) = (rn, kk)" by force
  have "ut_ctx st' = ut_ctx st \<and> logs (ut_planes st') = logs (ut_planes st)"
    using assms(1) k fr nn by (cases k; cases rn) (auto simp: create_udp_socket_def Let_def)
  then show "store_ok p cs st' \<and> peer_count st' = peer_count st" using store_ok_frame [OF _ _ assms(2)] by blast
  assume "r = Ok s"
  with assms(1) k fr nn obtain u slot where u: "rn = Inr u" "s = us_hold_quota_slot slot (US_Network u)"
    by (cases k; cases rn) (auto simp: create_udp_socket_def Let_def)
  from u(1) nn have "nu_socket_addr_check u = None \<and> nu_state u = U_Default"
    by (auto simp: nu_new_def split: sum.splits prod.splits)
  then show "sock_ok p n s" using u(2) sock_ok_same [OF us_hold_same, of p n "US_Network u"] by simp
qed

lemma handles_mono:
  assumes "list_all (handle_ok p cs n) hs" "n \<le> m" "set cs \<subseteq> set cs'"
  shows "list_all (handle_ok p cs' m) hs"
  using assms handle_ok_mono by (metis (mono_tags, lifting) list_all_iff)

lemma handles_update:
  "list_all Q hs \<Longrightarrow> Q h \<Longrightarrow> list_all Q (hs[j := h])"
  by (auto simp: list_all_iff dest!: subsetD [OF set_update_subset_insert])

lemma udp_drop_frame:
  "udp_drop sem s st = (r, st') \<Longrightarrow> ut_ctx st' = ut_ctx st \<and> logs (ut_planes st') = logs (ut_planes st)"
  by (auto simp: udp_drop_def Let_def split: if_splits sum.splits)

lemma udp_inv_step:
  assumes "udp_inv p w" "udp_step env sem w w'" "sp_egress_mode p = Enforce" "\<not> binds_udp_directly p"
  shows "udp_inv p w'"
proof -
  let ?n = "peer_count (uw_store w)"
  have st: "store_ok p (uw_told w) (uw_store w)" and hs: "list_all (handle_ok p (uw_told w) ?n) (uw_handles w)"
    using assms(1) by (simp_all add: udp_inv_def)
  from assms(2) show ?thesis
  proof cases
    case (created clock family s st')
    from create_udp_socket_kept(1) [OF created(2) st] create_udp_socket_kept(2) [OF created(2) st refl] hs show ?thesis by (simp add: created(1) udp_inv_def handle_ok_def)
  next
    case (not_created clock family e st')
    from create_udp_socket_kept(1) [OF not_created(2) st] hs show ?thesis by (simp add: not_created(1) udp_inv_def)
  next
    case (called j h' st')
    with hs have h: "handle_ok p (uw_told w) ?n (uw_handles w ! j)" by (simp add: list_all_length)
    note kept = udp_call_kept [OF called(3) assms(3,4) st h]
    have "list_all (handle_ok p (uw_told w) (peer_count st')) ((uw_handles w)[j := h'])"
      using handles_update [OF handles_mono [OF hs _ order_refl]] kept by blast
    with kept show ?thesis by (simp add: called(1) udp_inv_def)
  next
    case (dropped j r st')
    have "list_all (handle_ok p (uw_told w) ?n) (remove_nth j (uw_handles w))"
      using hs by (auto simp: list_all_iff dest: in_set_takeD in_set_dropD)
    with store_ok_frame [of st' "uw_store w" p "uw_told w"] st udp_drop_frame [OF dropped(4)] show ?thesis
      by (simp add: dropped(1) udp_inv_def)
  next
    case (told c names')
    have "store_ok p (uw_told w @ [c]) ((uw_store w)\<lparr>ut_ctx := (ut_ctx (uw_store w))\<lparr>sc_resolved_names := names'\<rparr>\<rparr>)"
      using st told(2) traffic_ok_mono [of p "uw_told w" "ut_planes (uw_store w)" "uw_told w @ [c]"] by (auto simp: store_ok_def run_recordings_snoc)
    with handles_mono [OF hs, of ?n "uw_told w @ [c]"] show ?thesis by (auto simp: told(1) udp_inv_def)
  next
    case (elsewhere ps' sh' poisoned')
    have "store_ok p (uw_told w) (uw_store w') \<and> peer_count (uw_store w') = ?n"
      by (rule store_ok_frame [OF _ _ st]) (simp_all add: elsewhere logs_def)
    with hs show ?thesis by (simp add: elsewhere(1) udp_inv_def)
  qed
qed

lemma would_block_unreachable: "socket_error_from_io err \<noteq> SE_Code P2_WouldBlock"
  by (cases "io_kind err") (simp_all add: socket_error_from_io_def)

definition enforced_inv :: "SocketPolicy \<Rightarrow> ('d, 'k, 'ch, 'w, 'p, 's) udp_world \<Rightarrow> bool" where
  "enforced_inv p w \<longleftrightarrow> sp_egress_mode p = Enforce \<and> \<not> binds_udp_directly p \<and> udp_inv p w"

interpretation datagrams: transition_system "udp_step env sem" "enforced_inv p" for env sem p
  by unfold_locales (auto simp: enforced_inv_def intro: udp_inv_step)

lemma enforced_inv_new:
  "sp_egress_mode p = Enforce \<Longrightarrow> \<not> binds_udp_directly p \<Longrightarrow>
     enforced_inv p (new_udp_store p loopback lookups (new_planes k n chan permits) sh)"
  by (simp add: enforced_inv_def udp_inv_def new_udp_store_def new_planes_def store_ok_def traffic_ok_def WasiSocketsCtx_for_store_def)

lemma traffic_of_run:
  assumes "(udp_step env sem)\<^sup>*\<^sup>* (new_udp_store p loopback lookups (new_planes k n chan permits) sh) w"
    and "sp_egress_mode p = Enforce" "\<not> binds_udp_directly p"
  shows "traffic_ok p (uw_told w) (ut_planes (uw_store w))"
  using datagrams.inv_reachable [OF assms(1) enforced_inv_new [OF assms(2,3)]]
  by (simp add: enforced_inv_def udp_inv_def store_ok_def)

section \<open>Datagrams on the real network\<close>

text \<open>
  C2. Every datagram a guest puts on the real network was granted when it was sent. In any run
  of a store whose policy enforces and declares no real datagram address, a datagram handed to
  the operating system goes either to the machine's loopback, reached through the sentinel on a
  port with its own grant; or to an address outside it that is in no denied range and granted
  as an address or by a name the guest was told, whose answer had not lapsed at that instant.
\<close>

theorem real_datagrams_were_granted:
  assumes run: "(udp_step env sem)\<^sup>*\<^sup>* (new_udp_store p loopback lookups (new_planes k n chan permits) sh) w"
    and mode: "sp_egress_mode p = Enforce" and direct: "\<not> binds_udp_directly p"
    and sent: "e \<in> set (ps_sent (ut_planes (uw_store w)))"
  shows "(\<exists>asked. is_host_sentinel (sa_ip asked) \<and> se_addr e = rewrite_sentinel asked \<and> sp_host_loopback_enabled p \<and>
      check_allowed_loopback (sp_host_loopback p) asked Udp)
    \<or> (\<not> is_loopback (to_canonical (sa_ip (se_addr e))) \<and> EgressAddressPolicy_permits (sp_egress_addrs p) (sa_ip (se_addr e)) \<and>
      (check_allowed_addr (sp_allowed_hosts p) (se_addr e) \<or>
       (\<exists>c \<in> set (uw_told w). to_canonical (sa_ip (se_addr e)) \<in> to_canonical ` set (rec_addrs c) \<and>
          (\<exists>entry \<in> set (sp_allowed_hosts p). AllowedHost_permits_name entry (rec_name c) (sa_port (se_addr e))) \<and>
          (\<forall>d. deadline_of (sp_resolved_names p) (rec_observed c) = Some d \<longrightarrow> se_clock e < d))))"
proof -
  have "granted_at p (uw_told w) (se_addr e) (se_clock e)"
    using traffic_of_run [OF run mode direct] sent by (simp add: traffic_ok_def)
  then obtain until where "standing_grant p (uw_told w) (se_addr e) until" "\<forall>d. until = Some d \<longrightarrow> se_clock e < d"
    by (auto simp: granted_at_def)
  then show ?thesis unfolding standing_grant_def by blast
qed

text \<open>
  C6. A guest hears from the real network only what it asked for. In such a run every datagram
  of the operating system that was given to the guest came from an address the very same socket
  had handed a datagram for, and that address was granted at the instant of that datagram.
\<close>

theorem real_senders_were_addressed:
  assumes run: "(udp_step env sem)\<^sup>*\<^sup>* (new_udp_store p loopback lookups (new_planes k n chan permits) sh) w"
    and mode: "sp_egress_mode p = Enforce" and direct: "\<not> binds_udp_directly p"
    and heard: "(x, a) \<in> set (ps_heard (ut_planes (uw_store w)))"
  shows "\<exists>e \<in> set (ps_sent (ut_planes (uw_store w))). se_peers e = x \<and> x \<noteq> None \<and> se_addr e = a \<and>
    granted_at p (uw_told w) a (se_clock e)"
proof -
  note t = traffic_of_run [OF run mode direct]
  from t heard obtain r where r: "r < length (ps_peers (ut_planes (uw_store w)))" "x = Some r"
      "a \<in> set (ps_peers (ut_planes (uw_store w)) ! r)" by (auto simp: traffic_ok_def)
  with t obtain e where "e \<in> set (ps_sent (ut_planes (uw_store w)))" "se_peers e = Some r" "se_addr e = a"
    unfolding traffic_ok_def by blast
  with t r(2) show ?thesis unfolding traffic_ok_def by blast
qed

section \<open>What a batch reports\<close>

lemma send_batch_reports:
  assumes "send_batch env sem c ds None s st = (r, lo', s', st')"
  shows "\<exists>new m. ps_sent (ut_planes st') = ps_sent (ut_planes st) @ new \<and> m \<le> length ds \<and>
    map se_data (filter se_ok new) = map (od_data \<circ> snd) (take m ds) \<and>
    (case r of Inr n \<Rightarrow> n = c + m \<and> (ds = [] \<or> 0 < n) | Inl _ \<Rightarrow> c = 0 \<and> m = 0)"
  using assms
proof (induction ds arbitrary: c s st r lo' s' st')
  case (Cons cd ds)
  obtain clock d where cd: "cd = (clock, d)" by force
  obtain k u st1 where k: "prepare_one sem clock (no_remote_address s) (no_valid_until s) (no_family s) (no_socket_addr_check s) d st = (k, u, st1)"
    by (metis prod_cases3)
  have fr: "ut_planes st1 = ut_planes st" using prepare_one_frame [OF k] by simp
  let ?s = "s\<lparr>no_valid_until := u\<rparr>"
  show ?case
  proof (cases k)
    case (Inl e)
    with Cons.prems k cd fr show ?thesis by (intro exI [of _ "[]"] exI [of _ 0]) (auto split: if_splits)
  next
    case (Inr x)
    obtain addr plane where x: "x = (addr, plane)" by force
    obtain rn st2 where nn: "send_one_net env clock ?s d addr st1 = (rn, st2)" by force
    define e where "e = \<lparr>se_peers = no_egress_peers s, se_addr = addr, se_data = od_data d, se_clock = clock,
      se_ok = (case rn of Inr _ \<Rightarrow> True | Inl _ \<Rightarrow> False)\<rparr>"
    have sent: "ps_sent (ut_planes st2) = ps_sent (ut_planes st) @ [e]"
      using nn fr by (auto simp: send_one_net_def Let_def e_def split: prod.splits sum.splits)
    show ?thesis
    proof (cases rn)
      case err: (Inl err)
      have "err \<noteq> SE_Code P2_WouldBlock" using nn err would_block_unreachable
        by (auto simp: send_one_net_def Let_def split: prod.splits sum.splits)
      with Cons.prems k cd Inr x nn err sent show ?thesis
        by (intro exI [of _ "[e]"] exI [of _ 0]) (auto simp: e_def split: if_splits)
    next
      case ok: (Inr y)
      with Cons.prems k cd Inr x nn have "send_batch env sem (c + 1) ds None ?s st2 = (r, lo', s', st')" by simp
      from Cons.IH [OF this] obtain new m where n: "ps_sent (ut_planes st') = ps_sent (ut_planes st2) @ new" "m \<le> length ds"
          "map se_data (filter se_ok new) = map (od_data \<circ> snd) (take m ds)"
          "case r of Inr n \<Rightarrow> n = c + 1 + m \<and> (ds = [] \<or> 0 < n) | Inl _ \<Rightarrow> c + 1 = 0 \<and> m = 0" by blast
      with sent ok cd show ?thesis
        by (intro exI [of _ "e # new"] exI [of _ "Suc m"]) (auto simp: e_def split: sum.splits)
    qed
  qed
qed simp

text \<open>
  C18. Sending a batch on a real stream reports what left. When it reports a count, the
  datagrams the operating system took are exactly the first that many of the batch, in their
  order. When it reports an error or traps, the operating system took none of them, so that a
  guest that repeats the batch sends nothing twice.
\<close>

theorem batch_reports_what_left:
  assumes "udp_send env sem ds (OS_Network s) st = (r, out, st')"
  shows "\<exists>new. ps_sent (ut_planes st') = ps_sent (ut_planes st) @ new \<and>
    (case r of
       Inr n \<Rightarrow> n \<le> length ds \<and> map se_data (filter se_ok new) = map (od_data \<circ> snd) (take n ds)
     | Inl _ \<Rightarrow> filter se_ok new = [])"
proof (cases "ds = [] \<or> length ds > no_check_send_permit_count s")
  case True
  with assms show ?thesis by (auto simp: udp_send_def Let_def split: if_splits)
next
  case False
  let ?s = "s\<lparr>no_check_send_permit_count := no_check_send_permit_count s - length ds\<rparr>"
  from assms False obtain lo' s' where "send_batch env sem 0 ds None ?s st = (r, lo', s', st')"
    by (auto simp: udp_send_def Let_def split: prod.splits)
  from send_batch_reports [OF this] obtain new m where n: "ps_sent (ut_planes st') = ps_sent (ut_planes st) @ new" "m \<le> length ds"
      "map se_data (filter se_ok new) = map (od_data \<circ> snd) (take m ds)"
      "case r of Inr n \<Rightarrow> n = 0 + m \<and> (ds = [] \<or> 0 < n) | Inl _ \<Rightarrow> (0 :: nat) = 0 \<and> m = 0" by blast
  then show ?thesis by (intro exI [of _ new]) (cases r; auto)
qed

section \<open>Receiving from the operating system\<close>

lemma recv_real_never_empty:
  assumes "recv_real env sem clock m s ds st = Some y" "0 < m"
  shows "fst y \<noteq> Ok []"
  using assms
proof (induction rule: recv_real.raw_induct [rotated, consumes 1, case_names 1])
  case (1 recv env sem clock m s ds st y)
  obtain r st1 where r: "recv_one env sem clock s st = (r, st1)" by force
  have e: "e \<noteq> SE_Code P2_WouldBlock" if "r = Inl e" for e
    using r that would_block_unreachable
    by (auto simp: recv_one_def Let_def split: prod.splits sum.splits if_splits option.splits bool.splits)
  show ?case
  proof (cases "length ds < m")
    case True
    show ?thesis
    proof (cases r)
      case (Inl er)
      with 1(2) True r e show ?thesis by (auto split: if_splits)
    next
      case (Inr d)
      with 1(2) True r obtain ds' where "recv env sem clock m s ds' st1 = Some y" by (cases d) auto
      then show ?thesis using 1(1,3) by blast
    qed
  qed (use 1 in auto)
qed

text \<open>
  C35. A real datagram stream never says that it would block. The interface has receiving return
  an empty list when nothing is pending, and sending report zero when the operating system
  takes nothing; both calls test for the error code \<open>would-block\<close>. No error of the operating
  system is translated to that code, so that receiving with a positive limit never returns an
  empty list, and sending never reports zero for a batch with a datagram: a guest is given an
  error instead.
\<close>

theorem would_block_is_never_reported:
  assumes "unat m \<noteq> 0" "\<forall>lo. i \<noteq> IS_Loopback lo" "ds \<noteq> []"
    and "udp_receive env sem clock locked m i st = Some (r, i', st')"
    and "udp_send env sem ds (OS_Network s) st1 = (q, out, st2)"
  shows "r \<noteq> Ok [] \<and> q \<noteq> Ok 0"
proof
  show "r \<noteq> Ok []"
  proof (cases i)
    case (IS_Network net)
    with assms(1,4) recv_real_never_empty [of env sem clock "unat m" net "[]" st] show ?thesis
      by (auto simp: udp_receive_def Let_def)
  next
    case (IS_Unspecified net lo)
    show ?thesis
    proof (cases "\<exists>got lo' st0. li_recv env sem clock locked (unat m) lo st = Some (Inr got, lo', st0)")
      case True
      then obtain got lo' st0 where "li_recv env sem clock locked (unat m) lo st = Some (Inr got, lo', st0)" by blast
      with assms(1,4) IS_Unspecified recv_real_never_empty [of env sem clock "unat m" net got st0] show ?thesis
        by (auto simp: udp_receive_def Let_def)
    next
      case False
      with assms(1,4) IS_Unspecified show ?thesis
        by (auto simp: udp_receive_def Let_def split: option.splits sum.splits)
    qed
  qed (use assms(2) in simp)
next
  let ?s = "s\<lparr>no_check_send_permit_count := no_check_send_permit_count s - length ds\<rparr>"
  show "q \<noteq> Ok 0"
  proof (cases "length ds > no_check_send_permit_count s")
    case False
    with assms(3,5) obtain lo' s' where "send_batch env sem 0 ds None ?s st1 = (q, lo', s', st2)"
      by (auto simp: udp_send_def Let_def split: prod.splits)
    from send_batch_reports [OF this] assms(3) show ?thesis by auto
  qed (use assms(3,5) in \<open>auto simp: udp_send_def Let_def\<close>)
qed

text \<open>An operating system that holds finitely many datagrams for a descriptor.\<close>

inductive drains :: "('d, 'k) udp_os \<Rightarrow> 'd \<Rightarrow> 'k \<Rightarrow> bool" for os d where
  dry: "uo_try_recv_from os d MAX_UDP_DATAGRAM_SIZE k = (Inl e, k') \<Longrightarrow> drains os d k"
| more: "uo_try_recv_from os d MAX_UDP_DATAGRAM_SIZE k = (Inr x, k') \<Longrightarrow> drains os d k' \<Longrightarrow> drains os d k"

lemma recv_one_kernel:
  assumes "recv_one env sem clock s st = (r, st')"
    "uo_try_recv_from (ux_os env) (ni_inner s) MAX_UDP_DATAGRAM_SIZE (ps_kernel (ut_planes st)) = (got, k)"
  shows "ps_kernel (ut_planes st') = k" "isl r = isl got"
  using assms receive_denied_frame
  by (fastforce simp: recv_one_def Let_def split: sum.splits prod.splits if_splits option.splits bool.splits)+

lemma recv_real_returns:
  assumes "drains (ux_os env) (ni_inner s) k" "ps_kernel (ut_planes st) = k"
  shows "\<exists>y. recv_real env sem clock m s ds st = Some y"
  using assms
proof (induction k arbitrary: st ds rule: drains.induct)
  case (dry k e k')
  obtain r st1 where r: "recv_one env sem clock s st = (r, st1)" by force
  with recv_one_kernel(2) [OF r] dry obtain er where "r = Inl er" by (cases r) auto
  with r show ?case by (subst recv_real.simps) auto
next
  case (more k x k')
  obtain r st1 where r: "recv_one env sem clock s st = (r, st1)" by force
  with recv_one_kernel [OF r] more obtain d where d: "r = Inr d" "ps_kernel (ut_planes st1) = k'" by (cases r) auto
  from more.IH [OF d(2)] have "\<exists>y. recv_real env sem clock m s ds' st1 = Some y" for ds' .
  with r d(1) show ?case by (subst recv_real.simps) (cases d, auto)
qed

text \<open>
  Receiving on a real stream returns when the operating system runs dry: if after some
  number of datagrams the descriptor reports an error, the loop ends, whatever it dropped on
  the way.
\<close>

theorem receiving_returns:
  assumes "drains (ux_os env) (ni_inner net) (ps_kernel (ut_planes st))"
  shows "\<exists>r st'. udp_receive env sem clock locked m (IS_Network net) st = Some (r, IS_Network net, st')"
  using recv_real_returns [OF assms refl, of sem clock "unat m" "[]"] by (auto simp: udp_receive_def Let_def)

text \<open>Only that ends it: datagrams of strangers are dropped without being counted, and while the
  operating system has another one the loop goes on.\<close>

lemma flood_is_not_bounded:
  assumes "\<And>k. \<exists>data. uo_try_recv_from (ux_os env) (ni_inner s) MAX_UDP_DATAGRAM_SIZE k = (Inr (data, a), k)"
    and "ni_egress_peers s = Some r" "a \<notin> set (ps_peers (ut_planes st) ! r)" "length ds < m"
  shows "recv_real env sem clock m s ds st = None"
proof -
  have False if "recv_real env sem clock m s ds st = Some y" for y
    using that assms
  proof (induction rule: recv_real.raw_induct [rotated, consumes 1, case_names 1])
    case (1 recv env sem clock m s ds st y)
    obtain data where d: "uo_try_recv_from (ux_os env) (ni_inner s) MAX_UDP_DATAGRAM_SIZE (ps_kernel (ut_planes st)) = (Inr (data, a), ps_kernel (ut_planes st))"
      using 1(3) by blast
    with 1(4,5) have "recv_one env sem clock s st = (Inr None, st)" by (auto simp: recv_one_def Let_def split: option.splits)
    with 1(2,6) have "recv env sem clock m s ds st = Some y" by simp
    from 1(1) [OF this 1(3-6)] show False .
  qed
  then show ?thesis by (cases "recv_real env sem clock m s ds st") auto
qed

section \<open>Readiness of a virtual stream\<close>

text \<open>A poll of a stream that already buffers a datagram waits for another one, and overwrites
  the first when that comes.\<close>

lemma poll_forgets_the_buffered_datagram:
  assumes "dc_poll_recv (ux_chan env) (li_rx lo) (ps_chan (ut_planes st)) = (polled, w)"
    and "li_received lo = Some d"
  shows "case polled of
      None \<Rightarrow> fst (incoming_ready env readable (IS_Loopback lo) st) = False
    | Some received \<Rightarrow> \<exists>st'. incoming_ready env readable (IS_Loopback lo) st = (True, IS_Loopback (lo\<lparr>li_received := received\<rparr>), st')"
  using assms by (auto simp: incoming_ready_def buffer_virtual_def split: option.splits)

section \<open>Declared addresses\<close>

text \<open>A socket bound to an address declared for a plugin has no virtual half. A destination on its
  own loopback, which the policy places on the virtual network without asking for a grant, is
  handed to the operating system.\<close>

lemma declared_socket_sends_virtual_for_real:
  assumes p: "no_socket_addr_check s = Some (SC_Policy p)" "no_remote_address s = None" "no_check_send_permit_count s = 1"
    and d: "od_remote_address d = Some asked" "length (od_data d) \<le> MAX_UDP_DATAGRAM_SIZE"
    and a: "ip_socket_address_to_socket_addr asked = a" "is_loopback (to_canonical (sa_ip a))" "is_valid_remote_address a"
      "is_valid_address_family (sa_ip a) (no_family s)" "\<not> is_host_sentinel (sa_ip a)"
    and c: "udp_send env sem [(clock, d)] (OS_Network s) st = (r, out, st')"
  shows "\<exists>e. ps_sent (ut_planes st') = ps_sent (ut_planes st) @ [e] \<and> se_addr e = a"
proof -
  obtain k st1 where k: "udp_check sem clock (SC_Policy p) a UdpOutgoingDatagram st = (k, st1)" by force
  have "k = Ok \<lparr>al_addr = a, al_plane = PlaneVirtual, al_permit = None, al_valid_until = None\<rparr> \<and> st1 = st"
    using k a(2,5) by (auto simp: udp_check_def SocketAddrCheck_check_def decide_for_store_connect [of _ Udp]
        resolve_connect_def Route_standing_def Let_def)
  then have "prepare_one sem clock None u (no_family s) (Some (SC_Policy p)) d st = (Ok (a, Some PlaneVirtual), u, st)" for u
    using k d a by (simp add: prepare_one_def Let_def)
  with c p show ?thesis
    by (cases "no_egress_peers s") (auto simp: udp_send_def send_one_net_def Let_def split: prod.splits sum.splits if_splits)
qed

section \<open>Witnesses\<close>

declare recv_real.simps [code] and recv_virtual.simps [code]

text \<open>A kernel that holds datagrams for its only descriptor and answers every datagram sent; a
  virtual network whose channels stay empty.\<close>

type_synonym echo_kernel = "(u8 list \<times> socket_addr) list"

definition echo_options :: "echo_kernel sockopt_lib" where
  "echo_options =
     \<lparr>so_ip_ttl = (\<lambda>k. Inr (64, k)), so_ipv6_unicast_hops = (\<lambda>k. Inr (64, k)), so_set_ip_ttl = (\<lambda>_ k. Inr ((), k)),
      so_set_ipv6_unicast_hops = (\<lambda>_ k. Inr ((), k)), so_recv_buffer_size = (\<lambda>k. Inr (4096, k)),
      so_set_recv_buffer_size = (\<lambda>_ k. Inr ((), k)), so_send_buffer_size = (\<lambda>k. Inr (4096, k)),
      so_set_send_buffer_size = (\<lambda>_ k. Inr ((), k)), so_set_tcp_keepidle = (\<lambda>_ k. Inr ((), k)),
      so_set_tcp_keepintvl = (\<lambda>_ k. Inr ((), k)), so_set_tcp_keepcnt = (\<lambda>_ k. Inr ((), k)),
      so_bind = (\<lambda>_ k. Inr ((), k)), so_connect = (\<lambda>_ k. Inr ((), k)), so_connect_unspec = (\<lambda>k. Inr ((), k))\<rparr>"

definition echo_os :: "(nat, echo_kernel) udp_os" where
  "echo_os =
     \<lparr>uo_new = (\<lambda>_ k. (Inr 0, k)), uo_writable = (\<lambda>_ k. (Inr (), k)), uo_options = (\<lambda>_. echo_options),
      uo_local_addr = (\<lambda>_ _. Inr (SocketAddrV4 v4_unspecified 40000)),
      uo_peer_addr = (\<lambda>_ _. Inl \<lparr>io_errno = None, io_kind = K_Other\<rparr>),
      uo_try_send = (\<lambda>_ data k. (Inr (length data), k)),
      uo_try_send_to = (\<lambda>_ data addr k. (Inr (length data), k @ [(data, addr)])),
      uo_try_recv_from = (\<lambda>_ _ k. case k of [] \<Rightarrow> (Inl \<lparr>io_errno = None, io_kind = K_Other\<rparr>, []) | x # k \<Rightarrow> (Inr x, k)),
      uo_ready_to_send = (\<lambda>_ _. True)\<rparr>"

definition echo_env :: "(nat, echo_kernel, nat, nat, nat) udp_env" where
  "echo_env =
     \<lparr>ux_os = echo_os,
      ux_chan = \<lparr>dc_channel = (\<lambda>w. (w, Suc w)), dc_send = (\<lambda>_ _ w. Some w), dc_try_recv = (\<lambda>_ w. (None, w)),
        dc_poll_recv = (\<lambda>_ w. (None, w))\<rparr>,
      ux_permits = counter_permits, ux_try_acquire_many = (\<lambda>n p. if n \<le> p then Some (p - n) else None)\<rparr>"

type_synonym echo_world = "(nat, echo_kernel, nat, nat, nat, nat) udp_world"

definition echo_start :: echo_world where
  "echo_start = new_udp_store any_policy 0 [] (new_planes [] Network_default 0 []) demo_shared"

abbreviation first_handle :: "echo_world \<Rightarrow> (nat, nat) udp_handle" where
  "first_handle w \<equiv> uw_handles w ! 0"

definition with_first :: "(nat, nat) udp_handle \<Rightarrow> (echo_kernel, nat, nat, nat, nat) udp_store \<Rightarrow> echo_world \<Rightarrow> echo_world" where
  "with_first h st w = w\<lparr>uw_store := st, uw_handles := (uw_handles w)[0 := h]\<rparr>"

lemma echo_called:
  assumes "udp_call echo_env counter_lib (first_handle w) (uw_store w) h st" "uw_handles w \<noteq> []"
    "(udp_step echo_env counter_lib)\<^sup>*\<^sup>* echo_start w"
  shows "(udp_step echo_env counter_lib)\<^sup>*\<^sup>* echo_start (with_first h st w)"
  using assms udp_step.called [of 0 w echo_env counter_lib h st] by (simp add: with_first_def)

text \<open>A socket is created, bound to the unspecified address, given streams, sends one datagram
  and receives the answer.\<close>

definition do_create :: "echo_world \<Rightarrow> echo_world" where
  "do_create w =
     (case create_udp_socket echo_env counter_lib 0 FamIpv4 (uw_store w) of
        (Inr s, st) \<Rightarrow> w\<lparr>uw_store := st, uw_handles := \<lparr>uh_socket = s, uh_incoming = None, uh_outgoing = None\<rparr> # uw_handles w\<rparr>
      | (Inl _, st) \<Rightarrow> w\<lparr>uw_store := st\<rparr>)"

definition do_start_bind :: "echo_world \<Rightarrow> echo_world" where
  "do_start_bind w =
     (let h = first_handle w in
      (case udp_start_bind echo_env counter_lib 1 (IpSocketV4 (0, 0, 0, 0) 0) (uh_socket h) (uw_store w) of
         (_, s, st) \<Rightarrow> with_first (h\<lparr>uh_socket := s\<rparr>) st w))"

definition do_finish_bind :: "echo_world \<Rightarrow> echo_world" where
  "do_finish_bind w =
     (let h = first_handle w in
      (case udp_finish_bind echo_env (uh_socket h) (uw_store w) of
         (_, s, st) \<Rightarrow> with_first (h\<lparr>uh_socket := s\<rparr>) st w))"

definition do_stream :: "echo_world \<Rightarrow> echo_world" where
  "do_stream w =
     (let h = first_handle w in
      (case udp_stream echo_env counter_lib 2 (has_streams h) None (uh_socket h) (uw_store w) of
         (Inr (i, out), s, st) \<Rightarrow> with_first \<lparr>uh_socket = s, uh_incoming = Some i, uh_outgoing = Some out\<rparr> st w
       | (Inl _, s, st) \<Rightarrow> with_first (h\<lparr>uh_socket := s\<rparr>) st w))"

definition do_check_send :: "echo_world \<Rightarrow> echo_world" where
  "do_check_send w =
     (let h = first_handle w in
      (case uh_outgoing h of
         None \<Rightarrow> w
       | Some out \<Rightarrow>
           (case udp_check_send echo_env out (uw_store w) of
              (_, out, st) \<Rightarrow> with_first (h\<lparr>uh_outgoing := Some out\<rparr>) st w)))"

definition echo_datagram :: OutgoingDatagram where
  "echo_datagram = \<lparr>od_data = [1, 2], od_remote_address = Some (IpSocketV4 (10, 0, 0, 5) 53)\<rparr>"

definition do_send :: "echo_world \<Rightarrow> echo_world" where
  "do_send w =
     (let h = first_handle w in
      (case uh_outgoing h of
         None \<Rightarrow> w
       | Some out \<Rightarrow>
           (case udp_send echo_env counter_lib [(3, echo_datagram)] out (uw_store w) of
              (_, out, st) \<Rightarrow> with_first (h\<lparr>uh_outgoing := Some out\<rparr>) st w)))"

definition do_receive :: "echo_world \<Rightarrow> echo_world" where
  "do_receive w =
     (let h = first_handle w in
      (case uh_incoming h of
         None \<Rightarrow> w
       | Some i \<Rightarrow>
           (case udp_receive echo_env counter_lib 4 False 1 i (uw_store w) of
              None \<Rightarrow> w
            | Some (_, i, st) \<Rightarrow> with_first (h\<lparr>uh_incoming := Some i\<rparr>) st w)))"

definition echo_streaming :: echo_world where
  "echo_streaming = do_stream (do_finish_bind (do_start_bind (do_create echo_start)))"

definition echo_heard :: echo_world where
  "echo_heard = do_receive (do_send (do_check_send echo_streaming))"

abbreviation echo_reaches :: "echo_world \<Rightarrow> bool" where
  "echo_reaches w \<equiv> (udp_step echo_env counter_lib)\<^sup>*\<^sup>* echo_start w \<and> uw_handles w \<noteq> []"

lemma with_first_reaches:
  "udp_call echo_env counter_lib (first_handle w) (uw_store w) h st \<Longrightarrow> echo_reaches w \<Longrightarrow> echo_reaches (with_first h st w)"
  using echo_called by (simp add: with_first_def)

lemma do_create_reaches: "echo_reaches (do_create echo_start)"
proof -
  obtain s st where c: "create_udp_socket echo_env counter_lib 0 FamIpv4 (uw_store echo_start) = (Ok s, st)"
  proof (cases "create_udp_socket echo_env counter_lib 0 FamIpv4 (uw_store echo_start)")
    case (Pair r st)
    moreover have "\<not> isl (fst (create_udp_socket echo_env counter_lib 0 FamIpv4 (uw_store echo_start)))" by code_simp
    ultimately show ?thesis using that by (cases r) auto
  qed
  show ?thesis using r_into_rtranclp [of "udp_step echo_env counter_lib", OF udp_step.created [OF c]] by (simp add: do_create_def c)
qed

lemma do_calls_reach:
  assumes "echo_reaches w"
  shows "echo_reaches (do_start_bind w)" "echo_reaches (do_finish_bind w)" "echo_reaches (do_stream w)"
    "echo_reaches (do_check_send w)" "echo_reaches (do_send w)" "echo_reaches (do_receive w)"
  using assms
  by (auto simp: do_start_bind_def do_finish_bind_def do_stream_def do_check_send_def do_send_def do_receive_def Let_def
      split: prod.splits sum.splits option.splits intro!: with_first_reaches intro: udp_call.intros)

lemma echo_log:
  "map se_addr (ps_sent (ut_planes (uw_store echo_heard))) = [SocketAddrV4 (Ipv4Addr 10 0 0 5) 53]"
  "ps_heard (ut_planes (uw_store echo_heard)) = [(Some 0, SocketAddrV4 (Ipv4Addr 10 0 0 5) 53)]"
  by code_simp+

lemma echo_run: "(udp_step echo_env counter_lib)\<^sup>*\<^sup>* echo_start echo_heard"
  using do_calls_reach(1) [OF do_create_reaches] do_calls_reach by (simp add: echo_heard_def echo_streaming_def)

lemma any_policy_enforces: "sp_egress_mode any_policy = Enforce" "\<not> binds_udp_directly any_policy"
  by code_simp+

abbreviation echo_peer :: socket_addr where "echo_peer \<equiv> SocketAddrV4 (Ipv4Addr 10 0 0 5) 53"

theorem real_datagrams_were_granted_witness:
  "map se_addr (ps_sent (ut_planes (uw_store echo_heard))) = [echo_peer] \<and>
   EgressAddressPolicy_permits (sp_egress_addrs any_policy) (sa_ip echo_peer)"
proof -
  obtain e where e: "e \<in> set (ps_sent (ut_planes (uw_store echo_heard)))" "se_addr e = echo_peer"
    using echo_log(1) by (auto simp: map_eq_Cons_conv)
  have "\<not> sp_host_loopback_enabled any_policy" by code_simp
  with real_datagrams_were_granted [OF echo_run [unfolded echo_start_def] any_policy_enforces e(1)] e(2) echo_log(1)
  show ?thesis by auto
qed

theorem real_senders_were_addressed_witness:
  "ps_heard (ut_planes (uw_store echo_heard)) = [(Some 0, echo_peer)] \<and>
   (\<exists>clock. granted_at any_policy (uw_told echo_heard) echo_peer clock)"
proof -
  have "(Some 0, echo_peer) \<in> set (ps_heard (ut_planes (uw_store echo_heard)))" using echo_log(2) by simp
  from real_senders_were_addressed [OF echo_run [unfolded echo_start_def] any_policy_enforces this] echo_log(2)
  show ?thesis by blast
qed

text \<open>A real stream connected to the peer above, with permission for two datagrams.\<close>

definition echo_out :: "nat NetworkOutgoingDatagramStream" where
  "echo_out = \<lparr>no_inner = 0, no_remote_address = None, no_valid_until = None, no_family = FamIpv4,
     no_socket_addr_check = Some (SC_Policy any_policy), no_check_send_permit_count = 2, no_egress_peers = None\<rparr>"

definition echo_in :: "nat NetworkIncomingDatagramStream" where
  "echo_in = \<lparr>ni_inner = 0, ni_remote_address = None, ni_egress_peers = None, ni_socket_addr_check = None\<rparr>"

abbreviation echo_batch :: "(instant \<times> OutgoingDatagram) list" where
  "echo_batch \<equiv> [(3, echo_datagram), (4, echo_datagram\<lparr>od_remote_address := None\<rparr>)]"

lemma echo_batch_sent: "fst (udp_send echo_env counter_lib echo_batch (OS_Network echo_out) (uw_store echo_start)) = Ok 1"
  by code_simp

theorem batch_reports_what_left_witness:
  "\<exists>new. ps_sent (ut_planes (snd (snd (udp_send echo_env counter_lib echo_batch (OS_Network echo_out) (uw_store echo_start))))) =
      ps_sent (ut_planes (uw_store echo_start)) @ new \<and> map se_data (filter se_ok new) = [[1, 2]]"
proof -
  let ?u = "udp_send echo_env counter_lib echo_batch (OS_Network echo_out) (uw_store echo_start)"
  have u: "?u = (fst ?u, fst (snd ?u), snd (snd ?u))" by simp
  from batch_reports_what_left [OF u] echo_batch_sent show ?thesis by (auto simp: echo_datagram_def)
qed

lemma echo_receive_empty:
  "map_option fst (udp_receive echo_env counter_lib 4 False 1 (IS_Network echo_in) (uw_store echo_start)) = Some (Err (SE_Code P2_Unknown))"
  by code_simp

theorem would_block_is_never_reported_witness:
  "\<exists>i st. udp_receive echo_env counter_lib 4 False 1 (IS_Network echo_in) (uw_store echo_start) = Some (Err (SE_Code P2_Unknown), i, st) \<and>
     (Err (SE_Code P2_Unknown) :: (SocketError, IncomingDatagram list) result) \<noteq> Ok []"
proof -
  let ?u = "udp_send echo_env counter_lib echo_batch (OS_Network echo_out) (uw_store echo_start)"
  have u: "?u = (fst ?u, fst (snd ?u), snd (snd ?u))" by simp
  obtain i st where r: "udp_receive echo_env counter_lib 4 False 1 (IS_Network echo_in) (uw_store echo_start) = Some (Err (SE_Code P2_Unknown), i, st)"
    using echo_receive_empty by auto
  have "unat (1 :: u64) \<noteq> 0" by simp
  from would_block_is_never_reported [OF this _ _ r u] r show ?thesis by simp
qed

theorem receiving_returns_witness:
  "\<exists>r st. udp_receive echo_env counter_lib 4 False 1 (IS_Network echo_in) (uw_store echo_start) = Some (r, IS_Network echo_in, st)"
proof -
  have "drains (ux_os echo_env) (ni_inner echo_in) (ps_kernel (ut_planes (uw_store echo_start)))"
    by (rule drains.dry) (simp add: echo_env_def echo_os_def echo_start_def new_udp_store_def new_planes_def)
  from receiving_returns [OF this] show ?thesis .
qed

end
