(* ===== verification/Wit.thy ===== *)
theory Wit
  imports Interfaces
begin

text \<open>
  WIT interfaces and worlds, \<open>wit.rs\<close>: the entries a workload declares, the worlds plugins
  and components have, and the matching the host does between them.

  \<open>semver\<close> is not part of the repository. A version is the record of its fields, and its
  parser and its \<open>Display\<close> are parameters. A \<open>HashSet<String>\<close> is a set; a world's
  \<open>HashSet<WitInterface>\<close>, which the code only iterates over, is a list of its elements
  in some order.
\<close>

section \<open>Versions\<close>

text \<open>\<open>semver::Version\<close>.\<close>

record version =
  ver_major :: u64
  ver_minor :: u64
  ver_patch :: u64
  ver_pre :: string
  ver_build :: string

definition Version_new :: "u64 \<Rightarrow> u64 \<Rightarrow> u64 \<Rightarrow> version" where
  "Version_new major minor patch =
     \<lparr>ver_major = major, ver_minor = minor, ver_patch = patch, ver_pre = [], ver_build = []\<rparr>"

definition canonical_version :: "version \<Rightarrow> (u64 \<times> u64) option" where
  "canonical_version v =
     (if ver_pre v \<noteq> [] then None
      else if ver_major v = 0 \<and> ver_minor v = 0 then None
      else if ver_major v = 0 then Some (0, ver_minor v)
      else Some (ver_major v, 0))"

definition versions_compatible :: "version option \<Rightarrow> version option \<Rightarrow> bool" where
  "versions_compatible a b =
     (case (a, b) of
        (Some a, Some b) \<Rightarrow>
          (ver_major a, ver_minor a, ver_patch a, ver_pre a)
            = (ver_major b, ver_minor b, ver_patch b, ver_pre b) \<or>
          (case canonical_version a of
             None \<Rightarrow> False
           | Some c \<Rightarrow> Some c = canonical_version b)
      | _ \<Rightarrow> True)"

section \<open>Interfaces\<close>

record WitInterface =
  wi_namespace :: string
  wi_package :: string
  wi_interfaces :: "string set"
  wi_version :: "version option"
  wi_config :: "string \<rightharpoonup> string"
  wi_name :: "string option"

definition WitInterface_instance :: "(version \<Rightarrow> string) \<Rightarrow> WitInterface \<Rightarrow> string" where
  "WitInterface_instance version_show self =
     (let base =
        (case wi_name self of
           Some name \<Rightarrow> wi_namespace self @ '':'' @ wi_package self @ ''/'' @ name
         | None \<Rightarrow> wi_namespace self @ '':'' @ wi_package self)
      in case wi_version self of
           Some v \<Rightarrow> base @ ''@'' @ version_show v
         | None \<Rightarrow> base)"

definition WitInterface_merge ::
  "(version \<Rightarrow> string) \<Rightarrow> WitInterface \<Rightarrow> WitInterface \<Rightarrow> bool \<times> WitInterface" where
  "WitInterface_merge version_show self other =
     (if WitInterface_instance version_show self \<noteq> WitInterface_instance version_show other
      then (False, self)
      else (True, self \<lparr>wi_interfaces := wi_interfaces self \<union> wi_interfaces other,
                        wi_config := wi_config self ++ wi_config other\<rparr>))"

definition same_package :: "WitInterface \<Rightarrow> WitInterface \<Rightarrow> bool" where
  "same_package self other =
     (if wi_namespace self \<noteq> wi_namespace other \<or> wi_package self \<noteq> wi_package other then False
      else versions_compatible (wi_version self) (wi_version other))"

definition WitInterface_contains :: "WitInterface \<Rightarrow> WitInterface \<Rightarrow> bool" where
  "WitInterface_contains self other =
     (if \<not> same_package self other then False
      else if (case (wi_name self, wi_name other) of
                 (Some n, Some m) \<Rightarrow> n \<noteq> m
               | _ \<Rightarrow> False) then False
      else wi_interfaces other \<subseteq> wi_interfaces self)"

definition WASI_BASE_PACKAGES :: "string list" where
  "WASI_BASE_PACKAGES =
     [''io'', ''filesystem'', ''clocks'', ''random'', ''cli'', ''sockets'', ''http'']"

definition wasi_base_versions :: "string \<Rightarrow> version list" where
  "wasi_base_versions package =
     (if package = ''io'' then [Version_new 0 2 0]
      else [Version_new 0 2 0, Version_new 0 3 0])"

definition is_host_builtin :: "WitInterface \<Rightarrow> bool" where
  "is_host_builtin self \<longleftrightarrow>
     wi_namespace self = ''wasi'' \<and>
     wi_package self \<in> set WASI_BASE_PACKAGES \<and>
     list_ex (\<lambda>v. versions_compatible (wi_version self) (Some v))
       (wasi_base_versions (wi_package self))"

definition is_incoming_http_handler :: "WitInterface \<Rightarrow> bool" where
  "is_incoming_http_handler self \<longleftrightarrow>
     wi_namespace self = ''wasi'' \<and> wi_package self = ''http'' \<and>
     (''incoming-handler'' \<in> wi_interfaces self \<or> ''handler'' \<in> wi_interfaces self)"

text \<open>\<open>Display\<close>, given the order in which the interface names are iterated over.\<close>

definition WitInterface_display :: "(version \<Rightarrow> string) \<Rightarrow> string list \<Rightarrow> WitInterface \<Rightarrow> string" where
  "WitInterface_display version_show order self =
     wi_namespace self @ '':'' @ wi_package self @
     (case wi_name self of Some name \<Rightarrow> '' ['' @ name @ '']'' | None \<Rightarrow> []) @
     (if wi_interfaces self \<noteq> {} then ''/'' @ join_with (CHR '','') order else []) @
     (case wi_version self of Some v \<Rightarrow> ''@'' @ version_show v | None \<Rightarrow> [])"

definition WitInterface_from :: "(string \<Rightarrow> version option) \<Rightarrow> string \<Rightarrow> WitInterface" where
  "WitInterface_from version_parse s =
     (let (main, version) =
        (case split_once (CHR ''@'') s of Some (m, v) \<Rightarrow> (m, Some v) | None \<Rightarrow> (s, None));
          (namespace_package, interface) =
        (case split_once (CHR ''/'') main of
           Some (np, iface) \<Rightarrow> (np, Some iface)
         | None \<Rightarrow> (main, None));
          (namespace, package) =
        (case split_once (CHR '':'') namespace_package of
           Some (ns, pkg) \<Rightarrow> (ns, pkg)
         | None \<Rightarrow> ([], namespace_package));
          interfaces =
        (case interface of
           Some iface \<Rightarrow> set (filter (\<lambda>s. s \<noteq> []) (map trim (split_on (CHR '','') iface)))
         | None \<Rightarrow> {})
      in \<lparr>wi_namespace = namespace, wi_package = package, wi_interfaces = interfaces,
          wi_version = Option.bind version version_parse, wi_config = Map.empty, wi_name = None\<rparr>)"

section \<open>Worlds\<close>

record WitWorld =
  ww_imports :: "WitInterface list"
  ww_exports :: "WitInterface list"

definition WitWorld_includes :: "WitWorld \<Rightarrow> WitInterface \<Rightarrow> bool" where
  "WitWorld_includes self interface \<longleftrightarrow>
     list_ex (\<lambda>i. WitInterface_contains i interface) (ww_imports self) \<or>
     list_ex (\<lambda>e. WitInterface_contains e interface) (ww_exports self)"

definition mentions_package :: "WitWorld \<Rightarrow> WitInterface \<Rightarrow> bool" where
  "mentions_package self interface \<longleftrightarrow>
     list_ex (same_package interface) (ww_imports self) \<or>
     list_ex (same_package interface) (ww_exports self)"

text \<open>Whether an entry of the package names interface \<open>i\<close>, the test the three questions share.\<close>

definition names_interface :: "WitInterface \<Rightarrow> string \<Rightarrow> WitInterface \<Rightarrow> bool" where
  "names_interface interface i entry \<longleftrightarrow> same_package interface entry \<and> i \<in> wi_interfaces entry"

definition WitWorld_uses :: "WitWorld \<Rightarrow> WitInterface \<Rightarrow> bool" where
  "WitWorld_uses self interface =
     (if wi_interfaces interface = {} then mentions_package self interface
      else \<exists>i \<in> wi_interfaces interface.
             list_ex (names_interface interface i) (ww_imports self) \<or>
             list_ex (names_interface interface i) (ww_exports self))"

definition includes_bidirectional :: "WitWorld \<Rightarrow> WitInterface \<Rightarrow> bool" where
  "includes_bidirectional self interface =
     (if wi_interfaces interface = {} then mentions_package self interface
      else \<forall>i \<in> wi_interfaces interface.
             list_ex (names_interface interface i) (ww_imports self) \<or>
             list_ex (names_interface interface i) (ww_exports self))"

definition WitWorld_provides :: "WitWorld \<Rightarrow> WitInterface \<Rightarrow> bool" where
  "WitWorld_provides self interface \<longleftrightarrow>
     (\<forall>i \<in> wi_interfaces interface. list_ex (names_interface interface i) (ww_imports self))"

definition satisfies :: "WitWorld \<Rightarrow> WitWorld \<Rightarrow> bool" where
  "satisfies self guest =
     list_all (\<lambda>required.
       let matched = filter (\<lambda>provided. WitInterface_contains provided required) (ww_exports self)
       in if matched = [] then False
          else if length matched > 1
          then length (remdups (List.map_filter wi_version matched)) \<le> 1
          else True) (ww_imports guest)"

section \<open>Compatibility is one class per key\<close>

text \<open>The key a version is compared by: its canonical prefix when it has one, otherwise every
  component but the build metadata.\<close>

definition version_class :: "version \<Rightarrow> u64 \<times> u64 \<times> u64 \<times> string + u64 \<times> u64" where
  "version_class v =
     (case canonical_version v of
        None \<Rightarrow> Inl (ver_major v, ver_minor v, ver_patch v, ver_pre v)
      | Some c \<Rightarrow> Inr c)"

lemma same_components_same_canonical:
  "ver_major a = ver_major b \<Longrightarrow> ver_minor a = ver_minor b \<Longrightarrow> ver_pre a = ver_pre b \<Longrightarrow>
     canonical_version a = canonical_version b"
  by (simp add: canonical_version_def)

lemma compatible_iff_class:
  "versions_compatible (Some a) (Some b) \<longleftrightarrow> version_class a = version_class b"
  using same_components_same_canonical [of a b]
  by (auto simp: versions_compatible_def version_class_def split: option.splits)

lemma compatible_sym: "versions_compatible a b = versions_compatible b a"
  by (cases a; cases b) (auto simp: compatible_iff_class, auto simp: versions_compatible_def)

lemma same_package_refl [simp]: "same_package i i"
  by (cases "wi_version i") (auto simp: same_package_def compatible_iff_class, auto simp: versions_compatible_def)

lemma same_package_sym: "same_package i j = same_package j i"
  by (auto simp: same_package_def compatible_sym [of "wi_version i"])

section \<open>What the three questions have to do with each other\<close>

lemma claimed_entry_is_used:
  "includes_bidirectional w i \<Longrightarrow> WitWorld_uses w i"
  by (auto simp: includes_bidirectional_def WitWorld_uses_def split: if_splits)

lemma provided_entry_is_claimed:
  "WitWorld_provides w i \<Longrightarrow> wi_interfaces i \<noteq> {} \<Longrightarrow> includes_bidirectional w i"
  by (auto simp: includes_bidirectional_def WitWorld_provides_def)

text \<open>A provider of nothing is everybody: an entry that names no interface is provided by every
  world, including one that does not know its package.\<close>

lemma empty_entry_is_provided: "wi_interfaces i = {} \<Longrightarrow> WitWorld_provides w i"
  by (simp add: WitWorld_provides_def)

lemma contains_is_claimed:
  assumes "e \<in> set (ww_imports w @ ww_exports w)" and "WitInterface_contains e i"
  shows "includes_bidirectional w i"
  using assms
  by (auto simp: includes_bidirectional_def mentions_package_def names_interface_def list_ex_iff
      WitInterface_contains_def same_package_sym [of i] split: if_splits)

lemma includes_is_claimed: "WitWorld_includes w i \<Longrightarrow> includes_bidirectional w i"
  by (auto simp: WitWorld_includes_def list_ex_iff intro: contains_is_claimed)

section \<open>The instance of an entry\<close>

definition entry_ok :: "WitInterface \<Rightarrow> bool" where
  "entry_ok i \<longleftrightarrow>
     CHR '':'' \<notin> set (wi_namespace i) \<and>
     (\<forall>c \<in> {CHR ''/'', CHR ''@''}. c \<notin> set (wi_namespace i) \<and> c \<notin> set (wi_package i)) \<and>
     (\<forall>name. wi_name i = Some name \<longrightarrow> CHR ''@'' \<notin> set name)"

definition instance_base :: "WitInterface \<Rightarrow> string" where
  "instance_base i =
     wi_namespace i @ '':'' @ wi_package i @ (case wi_name i of Some name \<Rightarrow> ''/'' @ name | None \<Rightarrow> [])"

lemma instance_split:
  assumes "entry_ok i"
  shows "(case split_once (CHR ''@'') (WitInterface_instance show_v i) of
            None \<Rightarrow> (WitInterface_instance show_v i, None) | Some (b, v) \<Rightarrow> (b, Some v))
         = (instance_base i, map_option show_v (wi_version i))"
proof -
  have base: "CHR ''@'' \<notin> set (instance_base i)"
    using assms by (auto simp: entry_ok_def instance_base_def split: option.splits)
  have inst: "WitInterface_instance show_v i =
      instance_base i @ (case wi_version i of Some v \<Rightarrow> CHR ''@'' # show_v v | None \<Rightarrow> [])"
    by (simp add: WitInterface_instance_def instance_base_def split: option.splits)
  show ?thesis
  proof (cases "wi_version i")
    case None
    then show ?thesis using base by (simp add: inst split_once_None_iff [THEN iffD2])
  next
    case (Some v)
    then have "split_once (CHR ''@'') (WitInterface_instance show_v i) = Some (instance_base i, show_v v)"
      using base by (simp add: inst split_once_Some_iff)
    with Some show ?thesis by simp
  qed
qed

lemma base_split:
  assumes "entry_ok i"
  shows "(let (m, n) = (case split_once (CHR ''/'') (instance_base i) of
                          None \<Rightarrow> (instance_base i, None) | Some (m, n) \<Rightarrow> (m, Some n))
          in (split_once (CHR '':'') m, n)) = (Some (wi_namespace i, wi_package i), wi_name i)"
proof -
  let ?m = "wi_namespace i @ '':'' @ wi_package i"
  have m: "CHR ''/'' \<notin> set ?m" "split_once (CHR '':'') ?m = Some (wi_namespace i, wi_package i)"
    using assms by (auto simp: entry_ok_def split_once_Some_iff)
  show ?thesis
  proof (cases "wi_name i")
    case None
    then have "instance_base i = ?m" by (simp add: instance_base_def)
    with None m show ?thesis by (simp add: split_once_None_iff [THEN iffD2])
  next
    case (Some name)
    then have "split_once (CHR ''/'') (instance_base i) = Some (?m, name)"
      using m by (simp add: instance_base_def split_once_Some_iff)
    with Some m show ?thesis by simp
  qed
qed

lemma instance_injective:
  assumes "entry_ok a" and "entry_ok b" and "inj show_v"
  shows "WitInterface_instance show_v a = WitInterface_instance show_v b \<longleftrightarrow>
     wi_namespace a = wi_namespace b \<and> wi_package a = wi_package b \<and>
     wi_name a = wi_name b \<and> wi_version a = wi_version b"
proof
  assume eq: "WitInterface_instance show_v a = WitInterface_instance show_v b"
  have base: "instance_base a = instance_base b"
    and ver: "map_option show_v (wi_version a) = map_option show_v (wi_version b)"
    using trans [OF instance_split [OF assms(1), of show_v, unfolded eq, symmetric]
        instance_split [OF assms(2), of show_v]] by simp_all
  have "wi_version a = wi_version b"
    using ver by (metis assms(3) injD option.inj_map_strong)
  then show "wi_namespace a = wi_namespace b \<and> wi_package a = wi_package b \<and>
      wi_name a = wi_name b \<and> wi_version a = wi_version b"
    using trans [OF base_split [OF assms(1), unfolded base, symmetric] base_split [OF assms(2)]]
    by simp
qed (auto simp: WitInterface_instance_def cong: option.case_cong)

text \<open>
  Two entries merge exactly when they are the same instance: the same namespace, package,
  name and version. The merge keeps all four and every interface name of both sides, and a
  config key takes the second entry's value where both have one.
\<close>

lemma merge_joins_one_instance:
  assumes "entry_ok a" and "entry_ok b" and "inj show_v"
  shows "fst (WitInterface_merge show_v a b) \<longleftrightarrow>
           (wi_namespace a, wi_package a, wi_name a, wi_version a)
             = (wi_namespace b, wi_package b, wi_name b, wi_version b)"
    and "snd (WitInterface_merge show_v a b) =
           (if fst (WitInterface_merge show_v a b)
            then a \<lparr>wi_interfaces := wi_interfaces a \<union> wi_interfaces b,
                    wi_config := (\<lambda>k. case wi_config b k of None \<Rightarrow> wi_config a k | v \<Rightarrow> v)\<rparr>
            else a)"
  using instance_injective [OF assms]
  by (auto simp: WitInterface_merge_def map_add_def split: option.splits)

section \<open>Reading back what Display prints\<close>

definition interface_name_ok :: "string \<Rightarrow> bool" where
  "interface_name_ok e \<longleftrightarrow> e \<noteq> [] \<and> trim e = e \<and> CHR '','' \<notin> set e \<and> CHR ''@'' \<notin> set e"

lemma split_names:
  assumes "\<forall>e \<in> set order. interface_name_ok e" and "order \<noteq> []"
  shows "filter (\<lambda>s. s \<noteq> []) (map trim (split_on (CHR '','') (join_with (CHR '','') order))) = order"
proof -
  have "split_on (CHR '','') (join_with (CHR '','') order) = order"
    using assms by (intro split_on_join) (auto simp: interface_name_ok_def)
  moreover have "map trim order = order" "filter (\<lambda>s. s \<noteq> []) order = order"
    using assms(1) by (auto simp: interface_name_ok_def map_idI filter_id_conv)
  ultimately show ?thesis by simp
qed

lemma in_join_with: "x \<in> set (join_with c ps) \<Longrightarrow> x = c \<or> (\<exists>p \<in> set ps. x \<in> set p)"
  by (induction c ps rule: join_with.induct) auto

text \<open>
  Printing an entry and reading the text back gives the entry, in whatever order its
  interface names were printed: for an unnamed entry without configuration whose parts do not
  contain the separators, and a version its own parser reads back.
\<close>

theorem display_then_from:
  assumes ok: "entry_ok i" and bare: "wi_name i = None" "wi_config i = Map.empty"
    and order: "set order = wi_interfaces i" "\<forall>e \<in> set order. interface_name_ok e"
    and version: "\<forall>v. wi_version i = Some v \<longrightarrow> parse_v (show_v v) = Some v"
  shows "WitInterface_from parse_v (WitInterface_display show_v order i) = i"
proof -
  let ?np = "wi_namespace i @ '':'' @ wi_package i"
  let ?main = "?np @ (if wi_interfaces i \<noteq> {} then ''/'' @ join_with (CHR '','') order else [])"
  have np: "CHR ''/'' \<notin> set ?np" "split_once (CHR '':'') ?np = Some (wi_namespace i, wi_package i)"
    using ok by (auto simp: entry_ok_def split_once_Some_iff)
  have at: "CHR ''@'' \<notin> set ?main"
    using ok order by (auto simp: entry_ok_def interface_name_ok_def dest!: in_join_with)
  have main: "(case split_once (CHR ''/'') ?main of
      Some (np, iface) \<Rightarrow> (np, Some iface) | None \<Rightarrow> (?main, None))
    = (?np, if wi_interfaces i \<noteq> {} then Some (join_with (CHR '','') order) else None)"
  proof (cases "wi_interfaces i = {}")
    case True
    then show ?thesis using np by (simp add: split_once_None_iff [THEN iffD2])
  next
    case False
    then have "split_once (CHR ''/'') ?main = Some (?np, join_with (CHR '','') order)"
      using np by (simp add: split_once_Some_iff)
    with False show ?thesis by simp
  qed
  have disp: "WitInterface_display show_v order i =
      ?main @ (case wi_version i of Some v \<Rightarrow> CHR ''@'' # show_v v | None \<Rightarrow> [])"
    using bare by (simp add: WitInterface_display_def split: option.split)
  have "split_once (CHR ''@'') (WitInterface_display show_v order i)
      = map_option (\<lambda>v. (?main, show_v v)) (wi_version i)"
    unfolding disp by (cases "wi_version i") (use at in \<open>simp_all only: option.case append_Nil2
      split_once_None_iff split_once_Some_iff option.map if_True simp_thms\<close>)
  then have split: "(case split_once (CHR ''@'') (WitInterface_display show_v order i) of
      Some (m, v) \<Rightarrow> (m, Some v) | None \<Rightarrow> (WitInterface_display show_v order i, None))
    = (?main, map_option show_v (wi_version i))"
    using disp by (cases "wi_version i") simp_all
  have ifs: "(case (if wi_interfaces i \<noteq> {} then Some (join_with (CHR '','') order) else None) of
      Some iface \<Rightarrow> set (filter (\<lambda>s. s \<noteq> []) (map trim (split_on (CHR '','') iface))) | None \<Rightarrow> {})
    = wi_interfaces i"
    using split_names [OF order(2)] order(1)
    by (cases "order = []") (simp_all del: filter_map set_filter set_map)
  have ver: "Option.bind (map_option show_v (wi_version i)) parse_v = wi_version i"
    using version by (cases "wi_version i") auto
  show ?thesis
    unfolding WitInterface_from_def split Let_def prod.case main np option.case ifs ver
    using bare by (cases i) simp
qed

definition http_entry :: WitInterface where
  "http_entry =
     \<lparr>wi_namespace = ''wasi'', wi_package = ''http'',
      wi_interfaces = {''incoming-handler'', ''types''}, wi_version = Some (Version_new 0 2 0),
      wi_config = Map.empty, wi_name = None\<rparr>"

theorem display_then_from_witness:
  "WitInterface_from (\<lambda>s. if s = ''0.2.0'' then Some (Version_new 0 2 0) else None)
     (WitInterface_display (\<lambda>_. ''0.2.0'') [''types'', ''incoming-handler''] http_entry) = http_entry"
  by (rule display_then_from)
    (auto simp: http_entry_def entry_ok_def interface_name_ok_def, code_simp+)

text \<open>\<open>satisfies\<close> refuses a host that exports an interface at two versions the guest could use,
  although each of them alone would do.\<close>

lemma two_usable_versions_are_refused:
  assumes "WitInterface_contains e r" and "WitInterface_contains e' r"
    and "wi_version e = Some v" and "wi_version e' = Some v'" and "v \<noteq> v'"
  shows "satisfies \<lparr>ww_imports = [], ww_exports = [e]\<rparr> \<lparr>ww_imports = [r], ww_exports = []\<rparr>"
    and "\<not> satisfies \<lparr>ww_imports = [], ww_exports = [e, e']\<rparr> \<lparr>ww_imports = [r], ww_exports = []\<rparr>"
  using assms by (simp_all add: satisfies_def List.map_filter_def)

end
