(* ===== verification/Http_Router.thy ===== *)
theory Http_Router
  imports Wit Allowed_Names
begin

text \<open>
  The HTTP routers of \<open>host/http.rs\<close>: the routes a workload's HTTP handler declares
  (\<open>http_ingress_routes\<close>, \<open>parse_local_route\<close>), the hostname router \<open>DynamicRouter\<close> with its
  sharded routing table, and the development router \<open>DevRouter\<close>.

  The writers of a \<open>DynamicRouter\<close> hold one mutex across their whole update, so each update
  is one step here. \<open>fastrand::usize(..n)\<close> is a parameter that picks below \<open>n\<close>; a request's
  header is given by what \<open>HeaderValue::to_str\<close> returns for it. The \<open>imbl\<close> map and set
  are a map and an ordered set.
\<close>

unbundle bit_operations_syntax

section \<open>Hostnames and path prefixes\<close>

definition starts_with :: "char \<Rightarrow> string \<Rightarrow> bool" where
  "starts_with c s \<longleftrightarrow> (case s of [] \<Rightarrow> False | x # _ \<Rightarrow> x = c)"

definition ends_with :: "char \<Rightarrow> string \<Rightarrow> bool" where
  "ends_with c s \<longleftrightarrow> s \<noteq> [] \<and> last s = c"

definition is_valid_hostname :: "string \<Rightarrow> bool" where
  "is_valid_hostname host \<longleftrightarrow>
     host \<noteq> [] \<and> length host \<le> 253 \<and>
     list_all (\<lambda>label.
       label \<noteq> [] \<and> length label \<le> 63 \<and>
       list_all (\<lambda>b. is_ascii_alphanumeric b \<or> b = CHR ''-'') label \<and>
       \<not> starts_with (CHR ''-'') label \<and> \<not> ends_with (CHR ''-'') label)
     (split_on (CHR ''.'') host)"

text \<open>\<open>NormalizedPathPrefix\<close> is a string that only \<open>new\<close> builds.\<close>

type_synonym path_prefix = string

definition NormalizedPathPrefix_new :: "string \<Rightarrow> path_prefix" where
  "NormalizedPathPrefix_new path =
     (let path = trim_end_matches (CHR ''/'') (trim path)
      in if path = [] then []
         else if starts_with (CHR ''/'') path then path
         else CHR ''/'' # path)"

definition is_catch_all :: "path_prefix \<Rightarrow> bool" where
  "is_catch_all self \<longleftrightarrow> self = []"

definition prefix_matches :: "path_prefix \<Rightarrow> string \<Rightarrow> bool" where
  "prefix_matches self path =
     (if is_catch_all self then True
      else case strip_prefix self path of
             Some rest \<Rightarrow> rest = [] \<or> starts_with (CHR ''/'') rest
           | None \<Rightarrow> False)"

section \<open>Routes\<close>

datatype route_scope = Ingress | Local

instantiation route_scope :: linorder
begin

definition less_eq_route_scope :: "route_scope \<Rightarrow> route_scope \<Rightarrow> bool" where
  "less_eq_route_scope a b \<longleftrightarrow> a = Ingress \<or> b = Local"

definition less_route_scope :: "route_scope \<Rightarrow> route_scope \<Rightarrow> bool" where
  "less_route_scope a b \<longleftrightarrow> a = Ingress \<and> b = Local"

instance
  by standard (metis less_eq_route_scope_def less_route_scope_def route_scope.distinct(1) route_scope.exhaust)+

end

record IngressRoute =
  ir_host :: string
  ir_path_prefix :: path_prefix
  ir_scope :: route_scope

text \<open>\<open>split_host_port\<close> of \<open>host/http.rs\<close>.\<close>

definition header_host_port :: "string \<Rightarrow> string \<times> u16 option" where
  "header_host_port host =
     (case strip_prefix ''['' host of
        Some rest \<Rightarrow>
          (case split_once (CHR '']'') rest of
             Some (addr, after) \<Rightarrow> (addr, Option.bind (strip_prefix '':'' after) parse_u16)
           | None \<Rightarrow> (host, None))
      | None \<Rightarrow>
          (case rsplit_once (CHR '':'') host of
             Some (addr, port) \<Rightarrow> (addr, parse_u16 port)
           | None \<Rightarrow> (host, None)))"

definition default_port_for_scheme :: "string option \<Rightarrow> u16" where
  "default_port_for_scheme scheme =
     (case Option.bind scheme default_port of Some port \<Rightarrow> port | None \<Rightarrow> 80)"

definition IngressRoute_new :: "string \<Rightarrow> string \<Rightarrow> route_scope \<Rightarrow> IngressRoute" where
  "IngressRoute_new host path_prefix scope =
     \<lparr>ir_host = to_ascii_lowercase (fst (header_host_port host)),
      ir_path_prefix = NormalizedPathPrefix_new path_prefix, ir_scope = scope\<rparr>"

definition IngressRoute_ingress :: "string \<Rightarrow> IngressRoute" where
  "IngressRoute_ingress host = IngressRoute_new host '''' Ingress"

definition IngressRoute_local :: "string \<Rightarrow> string \<Rightarrow> IngressRoute" where
  "IngressRoute_local host path_prefix = IngressRoute_new host path_prefix Local"

definition parse_local_route :: "url_lib \<Rightarrow> string \<Rightarrow> IngressRoute option" where
  "parse_local_route lib entry =
     (let entry = trim entry
      in if entry = [] then None
         else if url_parse lib entry \<noteq> None then None
         else if starts_with (CHR ''/'') entry then None
         else case url_parse lib (''http://'' @ entry) of
                None \<Rightarrow> None
              | Some url \<Rightarrow>
                  if url_port url \<noteq> None then None
                  else if url_username url \<noteq> [] \<or> url_password url \<noteq> None \<or>
                          url_query url \<noteq> None \<or> url_fragment url \<noteq> None then None
                  else case url_host_str url of
                         None \<Rightarrow> None
                       | Some host \<Rightarrow>
                           if is_valid_hostname host
                           then Some (IngressRoute_local host (url_path url))
                           else None)"

text \<open>The comma-separated entries of a config value, as \<open>host-aliases\<close> and \<open>localRoute\<close>
  read them.\<close>

definition config_entries :: "string \<Rightarrow> string list" where
  "config_entries s = filter (\<lambda>entry. entry \<noteq> []) (map trim (split_on (CHR '','') s))"

definition ingress_aliases :: "WitInterface \<Rightarrow> IngressRoute list" where
  "ingress_aliases http_iface =
     (case wi_config http_iface ''host-aliases'' of
        None \<Rightarrow> []
      | Some aliases \<Rightarrow>
          List.map_filter (\<lambda>entry. if is_valid_hostname entry then Some (IngressRoute_ingress entry) else None)
            (config_entries aliases))"

datatype route_config_error =
    InvalidLocalRoute string
  | NoHttpInterface
  | NoHostConfigured
  | InvalidPrimaryHost string

text \<open>Collecting results stops at the first error.\<close>

fun collect_results :: "('a \<Rightarrow> ('e, 'b) result) \<Rightarrow> 'a list \<Rightarrow> ('e, 'b list) result" where
  "collect_results f [] = Ok []"
| "collect_results f (x # xs) =
     (case f x of
        Err e \<Rightarrow> Err e
      | Ok y \<Rightarrow> (case collect_results f xs of Err e \<Rightarrow> Err e | Ok ys \<Rightarrow> Ok (y # ys)))"

definition local_routes :: "url_lib \<Rightarrow> WitInterface \<Rightarrow> (route_config_error, IngressRoute list) result" where
  "local_routes lib http_iface =
     (case wi_config http_iface ''localRoute'' of
        None \<Rightarrow> Ok []
      | Some declared \<Rightarrow>
          collect_results (\<lambda>entry.
            case parse_local_route lib entry of
              Some route \<Rightarrow> Ok route
            | None \<Rightarrow> Err (InvalidLocalRoute entry)) (config_entries declared))"

definition http_ingress_routes ::
  "url_lib \<Rightarrow> WitInterface list \<Rightarrow> (route_config_error, IngressRoute list) result" where
  "http_ingress_routes lib interfaces =
     (case find is_incoming_http_handler interfaces of
        None \<Rightarrow> Ok []
      | Some http_iface \<Rightarrow>
          let routes =
            (case wi_config http_iface ''host'' of
               Some primary \<Rightarrow> if is_valid_hostname primary then [IngressRoute_ingress primary] else []
             | None \<Rightarrow> [])
          in (case local_routes lib http_iface of
                Err e \<Rightarrow> Err e
              | Ok locals \<Rightarrow> Ok (routes @ ingress_aliases http_iface @ locals)))"

datatype route_error =
    MissingHost
  | NoWorkloadForHost string
  | NoWorkloadForPath string string
  | Unavailable

fun RouteError_status :: "route_error \<Rightarrow> nat" where
  "RouteError_status MissingHost = 400"
| "RouteError_status (NoWorkloadForHost _) = 404"
| "RouteError_status (NoWorkloadForPath _ _) = 404"
| "RouteError_status Unavailable = 503"

section \<open>The routing table\<close>

record PathBucket =
  pb_prefix :: path_prefix
  pb_scope :: route_scope
  pb_workloads :: "string btree_set"

datatype ordering = Less | Equal | Greater

definition compare :: "'a::linorder \<Rightarrow> 'a \<Rightarrow> ordering" where
  "compare a b = (if a < b then Less else if a = b then Equal else Greater)"

definition then_with :: "ordering \<Rightarrow> ordering \<Rightarrow> ordering" where
  "then_with a b = (case a of Equal \<Rightarrow> b | _ \<Rightarrow> a)"

definition PathBucket_cmp :: "PathBucket \<Rightarrow> PathBucket \<Rightarrow> ordering" where
  "PathBucket_cmp self other =
     then_with (compare (length (pb_prefix other)) (length (pb_prefix self)))
       (then_with (compare (pb_prefix self) (pb_prefix other))
         (compare (pb_scope self) (pb_scope other)))"

text \<open>\<open>Vec::sort\<close>, a stable sort by the buckets' order.\<close>

fun insert_bucket :: "PathBucket \<Rightarrow> PathBucket list \<Rightarrow> PathBucket list" where
  "insert_bucket b [] = [b]"
| "insert_bucket b (c # cs) =
     (if PathBucket_cmp b c \<noteq> Greater then b # c # cs else c # insert_bucket b cs)"

definition sort_buckets :: "PathBucket list \<Rightarrow> PathBucket list" where
  "sort_buckets bs = foldr insert_bucket bs []"

type_synonym host_buckets = "string \<rightharpoonup> PathBucket list"

definition ROUTE_SHARDS :: nat where
  "ROUTE_SHARDS = 256"

record DynamicRouter =
  dr_hosts :: "host_buckets list"
  dr_workload_to_host :: "string \<rightharpoonup> IngressRoute list"

definition DynamicRouter_default :: DynamicRouter where
  "DynamicRouter_default =
     \<lparr>dr_hosts = replicate ROUTE_SHARDS Map.empty, dr_workload_to_host = Map.empty\<rparr>"

definition shard_index :: "string \<Rightarrow> nat" where
  "shard_index host =
     unat (fold (\<lambda>byte hash. (hash XOR of_nat (of_char (lower_char byte))) * 0x100000001b3)
             host (0xcbf29ce484222325 :: u64)
           mod of_nat ROUTE_SHARDS)"

text \<open>The slot \<open>shard\<close> reads: \<open>index\<close>, or the first one when it is out of range.\<close>

definition shard_slot :: "host_buckets list \<Rightarrow> nat \<Rightarrow> nat" where
  "shard_slot hosts index = (if index < length hosts then index else 0)"

definition DynamicRouter_shard :: "DynamicRouter \<Rightarrow> nat \<Rightarrow> host_buckets" where
  "DynamicRouter_shard self index = dr_hosts self ! shard_slot (dr_hosts self) index"

text \<open>\<open>slice::chunk_by\<close>: maximal runs of related neighbours.\<close>

fun chunk_by :: "('a \<Rightarrow> 'a \<Rightarrow> bool) \<Rightarrow> 'a list \<Rightarrow> 'a list list" where
  "chunk_by same [] = []"
| "chunk_by same [x] = [[x]]"
| "chunk_by same (x # y # zs) =
     (let rest = chunk_by same (y # zs)
      in if same x y then (x # hd rest) # tl rest else [x] # rest)"

text \<open>One turn of the loop of \<open>edit_shards\<close>: copy the chunk's shard, edit it, store it.\<close>

definition store_group :: "(host_buckets \<Rightarrow> IngressRoute \<Rightarrow> host_buckets) \<Rightarrow> (nat \<times> IngressRoute) list \<Rightarrow>
    DynamicRouter \<Rightarrow> DynamicRouter" where
  "store_group edit chunk self =
     (case chunk of
        [] \<Rightarrow> self
      | (index, _) # _ \<Rightarrow>
          let table = fold (\<lambda>(_, route) table. edit table route) chunk (DynamicRouter_shard self index)
          in self \<lparr>dr_hosts := (dr_hosts self)[shard_slot (dr_hosts self) index := table]\<rparr>)"

definition edit_shards ::
  "DynamicRouter \<Rightarrow> IngressRoute list \<Rightarrow> (host_buckets \<Rightarrow> IngressRoute \<Rightarrow> host_buckets) \<Rightarrow> DynamicRouter" where
  "edit_shards self routes edit =
     (let by_shard = sort_key fst (map (\<lambda>r. (shard_index (ir_host r), r)) routes)
      in fold (store_group edit) (chunk_by (\<lambda>a b. fst a = fst b) by_shard) self)"

definition same_route :: "IngressRoute \<Rightarrow> PathBucket \<Rightarrow> bool" where
  "same_route route b \<longleftrightarrow> pb_prefix b = ir_path_prefix route \<and> pb_scope b = ir_scope route"

text \<open>Editing the first element \<open>iter_mut().find\<close> returns.\<close>

fun update_first :: "('a \<Rightarrow> bool) \<Rightarrow> ('a \<Rightarrow> 'a) \<Rightarrow> 'a list \<Rightarrow> 'a list" where
  "update_first P f [] = []"
| "update_first P f (x # xs) = (if P x then f x # xs else x # update_first P f xs)"

definition register_edit :: "string \<Rightarrow> host_buckets \<Rightarrow> IngressRoute \<Rightarrow> host_buckets" where
  "register_edit workload_id table route =
     (let buckets = (case table (ir_host route) of Some bs \<Rightarrow> bs | None \<Rightarrow> []);
          buckets' =
            (if list_ex (same_route route) buckets
             then update_first (same_route route)
                    (\<lambda>b. b \<lparr>pb_workloads := bs_insert workload_id (pb_workloads b)\<rparr>) buckets
             else sort_buckets (buckets @
                    [\<lparr>pb_prefix = ir_path_prefix route, pb_scope = ir_scope route,
                      pb_workloads = [workload_id]\<rparr>]))
      in table(ir_host route \<mapsto> buckets'))"

definition register_routes :: "DynamicRouter \<Rightarrow> string \<Rightarrow> IngressRoute list \<Rightarrow> DynamicRouter" where
  "register_routes self workload_id routes =
     (let self = self \<lparr>dr_workload_to_host := (dr_workload_to_host self)(workload_id \<mapsto> routes)\<rparr>
      in edit_shards self routes (register_edit workload_id))"

definition unregister_edit :: "string \<Rightarrow> host_buckets \<Rightarrow> IngressRoute \<Rightarrow> host_buckets" where
  "unregister_edit workload_id table route =
     (case table (ir_host route) of
        None \<Rightarrow> table
      | Some buckets \<Rightarrow>
          let buckets = update_first (same_route route)
                          (\<lambda>b. b \<lparr>pb_workloads := bs_remove workload_id (pb_workloads b)\<rparr>) buckets;
              buckets = filter (\<lambda>b. pb_workloads b \<noteq> []) buckets
          in if buckets = [] then table(ir_host route := None)
             else table(ir_host route \<mapsto> buckets))"

definition unregister_routes :: "DynamicRouter \<Rightarrow> string \<Rightarrow> DynamicRouter" where
  "unregister_routes self workload_id =
     (case dr_workload_to_host self workload_id of
        None \<Rightarrow> self
      | Some routes \<Rightarrow>
          edit_shards
            (self \<lparr>dr_workload_to_host := (dr_workload_to_host self)(workload_id := None)\<rparr>)
            routes (unregister_edit workload_id))"

section \<open>Selecting a workload\<close>

text \<open>\<open>Iterator::find\<close> with a closure that keeps state.\<close>

fun find_mut :: "('s \<Rightarrow> 'a \<Rightarrow> bool \<times> 's) \<Rightarrow> 's \<Rightarrow> 'a list \<Rightarrow> 'a option \<times> 's" where
  "find_mut f s [] = (None, s)"
| "find_mut f s (x # xs) = (case f s x of (True, s') \<Rightarrow> (Some x, s') | (False, s') \<Rightarrow> find_mut f s' xs)"

definition request_host :: "string \<Rightarrow> string" where
  "request_host host =
     (let host = fst (header_host_port host)
      in if list_ex is_ascii_upper host then to_ascii_lowercase host else host)"

definition select_serving_workload ::
  "(nat \<Rightarrow> nat) \<Rightarrow> DynamicRouter \<Rightarrow> string \<Rightarrow> string \<Rightarrow> route_scope \<Rightarrow>
   ('s \<Rightarrow> string \<Rightarrow> bool \<times> 's) \<Rightarrow> 's \<Rightarrow> (route_error, string) result \<times> 's" where
  "select_serving_workload usize self host path scope can_serve st =
     (let host = request_host host
      in case DynamicRouter_shard self (shard_index host) host of
           None \<Rightarrow> (Err (NoWorkloadForHost host), st)
         | Some buckets \<Rightarrow>
             let visible = filter (\<lambda>b. pb_scope b = scope \<and> pb_workloads b \<noteq> []) buckets
             in if visible = [] then (Err (NoWorkloadForHost host), st)
                else case find (\<lambda>b. prefix_matches (pb_prefix b) path) visible of
                       None \<Rightarrow> (Err (NoWorkloadForPath host path), st)
                     | Some bucket \<Rightarrow>
                         let start = usize (length (pb_workloads bucket))
                         in case find_mut can_serve st
                                   (drop start (pb_workloads bucket) @ take start (pb_workloads bucket)) of
                              (Some chosen, st) \<Rightarrow> (Ok chosen, st)
                            | (None, st) \<Rightarrow> (Err (NoWorkloadForHost host), st))"

definition select_workload ::
  "(nat \<Rightarrow> nat) \<Rightarrow> DynamicRouter \<Rightarrow> string \<Rightarrow> string \<Rightarrow> route_scope \<Rightarrow> (route_error, string) result" where
  "select_workload usize self host path scope =
     fst (select_serving_workload usize self host path scope (\<lambda>st _. (True, st)) ())"

text \<open>The parts of an inbound request that the ingress reads: its \<open>Host\<close> header, if it has one,
  with the string \<open>to_str\<close> returns for it, if it is one; and the scheme, the authority as
  text, and the path and query of its URI.\<close>

record http_request =
  req_host_header :: "string option option"
  req_uri_scheme :: "string option"
  req_uri_authority :: "string option"
  req_path_and_query :: "(string \<times> string option) option"

definition req_path :: "http_request \<Rightarrow> string" where
  "req_path req = (case req_path_and_query req of Some (path, _) \<Rightarrow> path | None \<Rightarrow> [])"

definition DynamicRouter_route_incoming_request ::
  "(nat \<Rightarrow> nat) \<Rightarrow> DynamicRouter \<Rightarrow> http_request \<Rightarrow> (route_error, string) result" where
  "DynamicRouter_route_incoming_request usize self req =
     (case or_else (Option.bind (req_host_header req) (\<lambda>h. h)) (req_uri_authority req) of
        None \<Rightarrow> Err MissingHost
      | Some workload_host \<Rightarrow> select_workload usize self workload_host (req_path req) Ingress)"

definition DynamicRouter_route_local_egress ::
  "(nat \<Rightarrow> nat) \<Rightarrow> DynamicRouter \<Rightarrow> uri \<Rightarrow> ('s \<Rightarrow> string \<Rightarrow> bool \<times> 's) \<Rightarrow> 's \<Rightarrow> string option \<times> 's" where
  "DynamicRouter_route_local_egress usize self uri can_serve st =
     (if uri_scheme_str uri \<notin> {None, Some ''http'', Some ''https''} then (None, st)
      else if (case uri_port_u16 uri of
                 Some port \<Rightarrow> port \<noteq> default_port_for_scheme (uri_scheme_str uri)
               | None \<Rightarrow> False) then (None, st)
      else case uri_host uri of
             None \<Rightarrow> (None, st)
           | Some host \<Rightarrow>
               (case select_serving_workload usize self host (uri_path uri) Local can_serve st of
                  (Ok chosen, st) \<Rightarrow> (Some chosen, st)
                | (Err _, st) \<Rightarrow> (None, st)))"

text \<open>A resolved workload, as far as a router reads it: its id and its host interfaces.\<close>

record resolved_handle =
  rh_id :: string
  rh_host_interfaces :: "WitInterface list"

definition DynamicRouter_on_workload_resolved ::
  "url_lib \<Rightarrow> DynamicRouter \<Rightarrow> resolved_handle \<Rightarrow> (route_config_error, unit) result \<times> DynamicRouter" where
  "DynamicRouter_on_workload_resolved lib self resolved_handle =
     (case find is_incoming_http_handler (rh_host_interfaces resolved_handle) of
        None \<Rightarrow> (Err NoHttpInterface, self)
      | Some http_iface \<Rightarrow>
          (case wi_config http_iface ''host'' of
             None \<Rightarrow> (Err NoHostConfigured, self)
           | Some primary_host \<Rightarrow>
               if \<not> is_valid_hostname primary_host then (Err (InvalidPrimaryHost primary_host), self)
               else (case local_routes lib http_iface of
                       Err e \<Rightarrow> (Err e, self)
                     | Ok locals \<Rightarrow>
                         (Ok (), register_routes self (rh_id resolved_handle)
                           ([IngressRoute_ingress primary_host] @ ingress_aliases http_iface @ locals)))))"

definition DynamicRouter_on_service_http_resolved ::
  "DynamicRouter \<Rightarrow> string \<Rightarrow> IngressRoute list \<Rightarrow> DynamicRouter" where
  "DynamicRouter_on_service_http_resolved self workload_id routes =
     (if routes = [] then self else register_routes self workload_id routes)"

definition DynamicRouter_on_workload_unbind :: "DynamicRouter \<Rightarrow> string \<Rightarrow> DynamicRouter" where
  "DynamicRouter_on_workload_unbind self workload_id = unregister_routes self workload_id"

section \<open>Shards are transparent\<close>

lemma shard_index_bound: "shard_index h < ROUTE_SHARDS"
proof -
  have "unat (x mod 256 :: u64) < 256" for x :: u64
    by (simp add: unat_mod)
  then show ?thesis by (simp add: shard_index_def ROUTE_SHARDS_def)
qed

lemma concat_chunk_by [simp]: "concat (chunk_by same xs) = xs"
proof (induction same xs rule: chunk_by.induct)
  case (3 same x y zs)
  then obtain c cs where "chunk_by same (y # zs) = c # cs"
    by (cases "chunk_by same (y # zs)") auto
  with 3 show ?case by (auto simp: Let_def)
qed auto

lemma chunk_by_same_key:
  "g \<in> set (chunk_by (\<lambda>a b. k a = k b) xs) \<Longrightarrow> g \<noteq> [] \<and> (\<forall>x \<in> set g. k x = k (hd g))"
proof (induction "\<lambda>a b. k a = k b" xs arbitrary: g rule: chunk_by.induct)
  case (3 x y zs)
  obtain c cs where c: "chunk_by (\<lambda>a b. k a = k b) (y # zs) = c # cs"
    using concat_chunk_by [of "\<lambda>a b. k a = k b" "y # zs"]
    by (cases "chunk_by (\<lambda>a b. k a = k b) (y # zs)") (auto simp del: concat_chunk_by)
  have "c \<noteq> []" using 3(1) [of c] c by simp
  moreover have "hd (concat (c # cs)) = y" unfolding c [symmetric] concat_chunk_by by simp
  ultimately have "hd c = y" by simp
  with 3 c show ?case by (auto simp: Let_def split: if_splits)
qed auto

text \<open>The buckets a router has under a hostname.\<close>

definition buckets_of :: "DynamicRouter \<Rightarrow> string \<Rightarrow> PathBucket list option" where
  "buckets_of r h = DynamicRouter_shard r (shard_index h) h"

definition edit_slot :: "(host_buckets \<Rightarrow> IngressRoute \<Rightarrow> host_buckets) \<Rightarrow> nat \<times> IngressRoute \<Rightarrow>
    host_buckets list \<Rightarrow> host_buckets list" where
  "edit_slot edit = (\<lambda>(i, route) hs. hs[i := edit (hs ! i) route])"

lemma length_edit_slots [simp]: "length (fold (edit_slot edit) rs hs) = length hs"
  by (induction rs arbitrary: hs) (auto simp: edit_slot_def)

lemma edit_group:
  assumes "\<forall>x \<in> set g. fst x = i" and "i < length hs"
  shows "fold (edit_slot edit) g hs = hs[i := fold (\<lambda>(_, route) table. edit table route) g (hs ! i)]"
  using assms
proof (induction g arbitrary: hs)
  case (Cons x g)
  then show ?case by (cases x) (simp add: edit_slot_def)
qed simp

definition one_shard :: "nat \<Rightarrow> (nat \<times> 'a) list \<Rightarrow> bool" where
  "one_shard n g \<longleftrightarrow> g \<noteq> [] \<and> fst ` set g = {fst (hd g)} \<and> fst (hd g) < n"

lemma store_group_slots:
  assumes "one_shard (length (dr_hosts r)) g"
  shows "store_group edit g r = r \<lparr>dr_hosts := fold (edit_slot edit) g (dr_hosts r)\<rparr>"
proof -
  have g: "\<forall>x \<in> set g. fst x = fst (hd g)" "fst (hd g) < length (dr_hosts r)" "g \<noteq> []"
    using assms unfolding one_shard_def by blast+
  show ?thesis
    unfolding edit_group [OF g(1,2)]
    using g(2,3) by (cases g) (auto simp: store_group_def DynamicRouter_shard_def shard_slot_def)
qed

lemma store_groups_slots:
  assumes "\<forall>g \<in> set gs. one_shard (length (dr_hosts r)) g"
  shows "fold (store_group edit) gs r = r \<lparr>dr_hosts := fold (edit_slot edit) (concat gs) (dr_hosts r)\<rparr>"
  using assms
proof (induction gs arbitrary: r)
  case (Cons g gs)
  let ?r = "r \<lparr>dr_hosts := fold (edit_slot edit) g (dr_hosts r)\<rparr>"
  have "store_group edit g r = ?r"
    by (rule store_group_slots) (use Cons.prems in simp_all)
  moreover have "fold (store_group edit) gs ?r = ?r \<lparr>dr_hosts := fold (edit_slot edit) (concat gs) (dr_hosts ?r)\<rparr>"
    by (rule Cons.IH) (use Cons.prems in simp)
  ultimately show ?case by simp
qed simp

lemma edit_shards_slots:
  assumes "length (dr_hosts r) = ROUTE_SHARDS"
  shows "edit_shards r routes edit = r \<lparr>dr_hosts := fold (edit_slot edit)
    (sort_key fst (map (\<lambda>r. (shard_index (ir_host r), r)) routes)) (dr_hosts r)\<rparr>"
proof -
  let ?same = "\<lambda>a b :: nat \<times> IngressRoute. fst a = fst b"
  let ?L = "sort_key fst (map (\<lambda>r. (shard_index (ir_host r), r)) routes)"
  have "one_shard (length (dr_hosts r)) g"
    if g: "g \<in> set (chunk_by ?same ?L)" for g
  proof -
    have "set g \<subseteq> set (concat (chunk_by ?same ?L))" using g by (simp only: set_concat) blast
    then have sub: "set g \<subseteq> set ?L" by simp
    have ne: "g \<noteq> []" and same: "\<forall>x \<in> set g. fst x = fst (hd g)"
      using chunk_by_same_key [OF g] by blast+
    have "fst ` set g = {fst (hd g)}" using same hd_in_set [OF ne] by blast
    moreover obtain route where "hd g = (shard_index (ir_host route), route)"
      using sub hd_in_set [OF ne] by auto
    then have "fst (hd g) < ROUTE_SHARDS" by (simp add: shard_index_bound)
    ultimately show ?thesis using ne by (simp add: one_shard_def assms)
  qed
  then have "\<forall>g \<in> set (chunk_by ?same ?L). one_shard (length (dr_hosts r)) g" by blast
  from store_groups_slots [OF this, of edit] show ?thesis
    unfolding concat_chunk_by edit_shards_def Let_def .
qed

text \<open>An edit of the buckets of one hostname, the contract the two updates have.\<close>

locale host_edit =
  fixes edit :: "host_buckets \<Rightarrow> IngressRoute \<Rightarrow> host_buckets"
    and on_buckets :: "IngressRoute \<Rightarrow> PathBucket list option \<Rightarrow> PathBucket list option"
  assumes edit_local: "edit table route = table(ir_host route := on_buckets route (table (ir_host route)))"
begin

lemma edit_slots_at:
  assumes "\<forall>(i, route) \<in> set rs. i = shard_index (ir_host route)" and "length hs = ROUTE_SHARDS"
  shows "(fold (edit_slot edit) rs hs ! shard_index h) h =
    fold (\<lambda>(_, route). on_buckets route) (filter (\<lambda>(_, route). ir_host route = h) rs)
      ((hs ! shard_index h) h)"
  using assms
proof (induction rs arbitrary: hs)
  case (Cons x rs)
  obtain i route where x: "x = (i, route)" by (cases x)
  with Cons.prems have i: "i = shard_index (ir_host route)" by simp
  have "shard_index h < length hs" using Cons.prems shard_index_bound by simp
  then have at: "(edit_slot edit x hs ! shard_index h) h =
      (if ir_host route = h then on_buckets route ((hs ! shard_index h) h) else (hs ! shard_index h) h)"
    by (cases "shard_index (ir_host route) = shard_index h") (auto simp: x i edit_slot_def edit_local)
  have "length (edit_slot edit x hs) = ROUTE_SHARDS" using Cons.prems by (simp add: x edit_slot_def)
  with Cons at show ?case by (simp add: x)
qed simp

lemma buckets_of_edit_shards:
  assumes "length (dr_hosts r) = ROUTE_SHARDS"
  shows "buckets_of (edit_shards r routes edit) h =
    fold on_buckets (filter (\<lambda>route. ir_host route = h) routes) (buckets_of r h)"
proof -
  let ?M = "map (\<lambda>r. (shard_index (ir_host r), r)) routes"
  let ?L = "sort_key fst ?M"
  have keyed: "filter (\<lambda>(_, route). ir_host route = h) xs =
      filter (\<lambda>(_, route). ir_host route = h) (filter (\<lambda>x. fst x = shard_index h) xs)"
    if "\<forall>(i, route) \<in> set xs. i = shard_index (ir_host route)" for xs
    using that by (induction xs) auto
  have "filter (\<lambda>(_, route). ir_host route = h) ?L = filter (\<lambda>(_, route). ir_host route = h) ?M"
    by (subst (1 2) keyed) (auto simp: sort_key_stable)
  also have "\<dots> = map (\<lambda>r. (shard_index (ir_host r), r)) (filter (\<lambda>route. ir_host route = h) routes)"
    by (simp add: filter_map comp_def)
  finally have L: "filter (\<lambda>(_, route). ir_host route = h) ?L = \<dots>" .
  have "\<forall>(i, route) \<in> set ?L. i = shard_index (ir_host route)" by auto
  from edit_slots_at [OF this assms, of h]
  show ?thesis
    using shard_index_bound [of h]
    by (simp add: edit_shards_slots [OF assms] buckets_of_def DynamicRouter_shard_def shard_slot_def
        assms L fold_map comp_def)
qed

end
section \<open>Buckets\<close>

text \<open>The key the buckets of a hostname are strictly sorted by.\<close>

definition bucket_key :: "PathBucket \<Rightarrow> int \<times> path_prefix \<times> route_scope" where
  "bucket_key b = (- int (length (pb_prefix b)), pb_prefix b, pb_scope b)"

lemma PathBucket_cmp_key: "PathBucket_cmp b c = compare (bucket_key b) (bucket_key c)"
  by (auto simp: PathBucket_cmp_def compare_def then_with_def bucket_key_def less_prod_def
      split: ordering.split)

lemma sort_buckets_key: "sort_buckets bs = sort_key bucket_key bs"
proof -
  have "insert_bucket b cs = insort_key bucket_key b cs" for b cs
    by (induction b cs rule: insert_bucket.induct)
      (auto simp: PathBucket_cmp_key compare_def not_less less_le)
  then have "insert_bucket = insort_key bucket_key" by (intro ext)
  then show ?thesis by (simp add: sort_buckets_def sort_key_def)
qed

lemma bucket_key_eq_iff: "bucket_key b = bucket_key c \<longleftrightarrow> pb_prefix b = pb_prefix c \<and> pb_scope b = pb_scope c"
  by (auto simp: bucket_key_def)

definition bucket_wf :: "PathBucket list \<Rightarrow> bool" where
  "bucket_wf bs \<longleftrightarrow> sorted_wrt (<) (map bucket_key bs) \<and>
     (\<forall>b \<in> set bs. bs_wf (pb_workloads b) \<and> pb_workloads b \<noteq> [])"

text \<open>Whether a workload serves a prefix at a scope, in the buckets of a hostname.\<close>

definition serves :: "PathBucket list option \<Rightarrow> path_prefix \<Rightarrow> route_scope \<Rightarrow> string \<Rightarrow> bool" where
  "serves bs p s w \<longleftrightarrow>
     (\<exists>b \<in> (case bs of None \<Rightarrow> {} | Some bs \<Rightarrow> set bs). pb_prefix b = p \<and> pb_scope b = s \<and> w \<in> set (pb_workloads b))"

definition entry_wf :: "PathBucket list option \<Rightarrow> bool" where
  "entry_wf bs \<longleftrightarrow> (case bs of None \<Rightarrow> True | Some bs \<Rightarrow> bs \<noteq> [] \<and> bucket_wf bs)"

lemma serves_None [simp]: "\<not> serves None p s w"
  by (simp add: serves_def)

definition on_register :: "string \<Rightarrow> IngressRoute \<Rightarrow> PathBucket list option \<Rightarrow> PathBucket list option" where
  "on_register w route bs = register_edit w (\<lambda>_. bs) route (ir_host route)"

definition on_unregister :: "string \<Rightarrow> IngressRoute \<Rightarrow> PathBucket list option \<Rightarrow> PathBucket list option" where
  "on_unregister w route bs = unregister_edit w (\<lambda>_. bs) route (ir_host route)"

interpretation reg: host_edit "register_edit w" "on_register w" for w
  by unfold_locales (auto simp: register_edit_def on_register_def Let_def)

interpretation unreg: host_edit "unregister_edit w" "on_unregister w" for w
  by unfold_locales (auto simp: unregister_edit_def on_unregister_def Let_def split: option.splits)

lemma map_update_first_key:
  "(\<And>x. k (f x) = k x) \<Longrightarrow> map k (update_first P f xs) = map k xs"
  by (induction xs) auto

lemma set_update_first:
  assumes "distinct (map k xs)" and "\<And>x y. x \<in> set xs \<Longrightarrow> y \<in> set xs \<Longrightarrow> P x \<Longrightarrow> P y \<Longrightarrow> k x = k y"
  shows "set (update_first P f xs) = (\<lambda>x. if P x then f x else x) ` set xs"
  using assms
proof (induction xs)
  case (Cons x xs)
  show ?case
  proof (cases "P x")
    case True
    have "\<not> P y" if y: "y \<in> set xs" for y
      using Cons.prems(1) Cons.prems(2) [of x y] y True by auto
    with True show ?thesis by (auto simp: image_iff)
  next
    case False
    with Cons show ?thesis by (auto simp: image_iff)
  qed
qed simp

lemma bucket_wf_distinct: "bucket_wf bs \<Longrightarrow> distinct (map bucket_key bs)"
  by (simp add: bucket_wf_def strict_sorted_iff)

lemma same_route_key: "same_route route b \<Longrightarrow> same_route route c \<Longrightarrow> bucket_key b = bucket_key c"
  by (simp add: same_route_def bucket_key_eq_iff)

lemma update_same_route:
  assumes "bucket_wf bs"
  shows "set (update_first (same_route route) f bs) = (\<lambda>b. if same_route route b then f b else b) ` set bs"
  by (rule set_update_first [OF bucket_wf_distinct [OF assms]]) (rule same_route_key)

lemma on_register_old:
  assumes wf: "bucket_wf bs" and old: "list_ex (same_route route) bs"
  shows "entry_wf (on_register w route (Some bs))"
    and "serves (on_register w route (Some bs)) p s x \<longleftrightarrow> serves (Some bs) p s x \<or>
      x = w \<and> p = ir_path_prefix route \<and> s = ir_scope route"
proof -
  let ?f = "\<lambda>b. b \<lparr>pb_workloads := bs_insert w (pb_workloads b)\<rparr>"
  let ?bs = "update_first (same_route route) ?f bs"
  have reg: "on_register w route (Some bs) = Some ?bs"
    using old by (simp add: on_register_def register_edit_def)
  have keys: "map bucket_key ?bs = map bucket_key bs"
    by (rule map_update_first_key) (simp add: bucket_key_def)
  have set: "set ?bs = (\<lambda>b. if same_route route b then ?f b else b) ` set bs"
    by (rule update_same_route [OF wf])
  have "bs_insert w xs \<noteq> []" for xs :: "string list"
    using set_bs_insert [of w xs] by (metis insert_not_empty set_empty)
  then have "bucket_wf ?bs" using wf unfolding bucket_wf_def keys set by auto
  moreover have "?bs \<noteq> []" using old by (cases bs) auto
  ultimately show "entry_wf (on_register w route (Some bs))" by (simp add: reg entry_wf_def)
  obtain b where b: "b \<in> set bs" "same_route route b" using old by (auto simp: list_ex_iff)
  let ?g = "\<lambda>b. if same_route route b then ?f b else b"
  have "pb_prefix (?g c) = p \<and> pb_scope (?g c) = s \<and> x \<in> set (pb_workloads (?g c)) \<longleftrightarrow>
      pb_prefix c = p \<and> pb_scope c = s \<and> (x \<in> set (pb_workloads c) \<or> same_route route c \<and> x = w)" for c
    by auto
  then show "serves (on_register w route (Some bs)) p s x \<longleftrightarrow> serves (Some bs) p s x \<or>
      x = w \<and> p = ir_path_prefix route \<and> s = ir_scope route"
    unfolding reg serves_def option.case set bex_simps using b
    by (auto simp: same_route_def)
qed

lemma on_register_new:
  assumes wf: "bucket_wf bs" and new: "\<not> list_ex (same_route route) bs"
  shows "entry_wf (on_register w route (Some bs))"
    and "serves (on_register w route (Some bs)) p s x \<longleftrightarrow> serves (Some bs) p s x \<or>
      x = w \<and> p = ir_path_prefix route \<and> s = ir_scope route"
proof -
  let ?b = "\<lparr>pb_prefix = ir_path_prefix route, pb_scope = ir_scope route, pb_workloads = [w]\<rparr>"
  let ?bs = "sort_key bucket_key (bs @ [?b])"
  have reg: "on_register w route (Some bs) = Some ?bs"
    using new by (simp add: on_register_def register_edit_def sort_buckets_key)
  have "bucket_key ?b \<notin> bucket_key ` set bs"
    using new by (auto simp: list_ex_iff same_route_def bucket_key_def)
  then have "distinct (map bucket_key (bs @ [?b]))"
    using bucket_wf_distinct [OF wf] by simp
  then have "sorted_wrt (<) (map bucket_key ?bs)"
    unfolding strict_sorted_iff by (simp only: sorted_sort_key distinct_map distinct_sort set_sort simp_thms)
  then have "bucket_wf ?bs" using wf by (auto simp: bucket_wf_def bs_wf_def)
  then show "entry_wf (on_register w route (Some bs))"
    by (simp add: reg entry_wf_def flip: length_0_conv)
  show "serves (on_register w route (Some bs)) p s x \<longleftrightarrow> serves (Some bs) p s x \<or>
      x = w \<and> p = ir_path_prefix route \<and> s = ir_scope route"
    unfolding reg by (auto simp: serves_def)
qed

lemma on_register_None: "on_register w route None = on_register w route (Some [])"
  by (simp add: on_register_def register_edit_def)

lemma on_register_entry:
  assumes "entry_wf bs"
  shows "entry_wf (on_register w route bs)"
    and "serves (on_register w route bs) p s x \<longleftrightarrow> serves bs p s x \<or>
      x = w \<and> p = ir_path_prefix route \<and> s = ir_scope route"
proof -
  have nil: "bucket_wf []" by (simp add: bucket_wf_def)
  have "entry_wf (on_register w route bs) \<and> (serves (on_register w route bs) p s x \<longleftrightarrow>
      serves bs p s x \<or> x = w \<and> p = ir_path_prefix route \<and> s = ir_scope route)"
  proof (cases bs)
    case None
    then show ?thesis
      using on_register_new [OF nil, of route w] by (simp add: on_register_None serves_def)
  next
    case (Some cs)
    then have "bucket_wf cs" using assms by (simp add: entry_wf_def)
    then show ?thesis
      using on_register_new [of cs route w] on_register_old [of cs route w] Some by blast
  qed
  then show "entry_wf (on_register w route bs)"
    and "serves (on_register w route bs) p s x \<longleftrightarrow> serves bs p s x \<or>
      x = w \<and> p = ir_path_prefix route \<and> s = ir_scope route" by blast+
qed

lemma serves_filter: "serves (Some (filter (\<lambda>b. pb_workloads b \<noteq> []) bs)) = serves (Some bs)"
  by (intro ext) (auto simp: serves_def)

lemma on_unregister_entry:
  assumes "entry_wf bs"
  shows "entry_wf (on_unregister w route bs)"
    and "serves (on_unregister w route bs) p s x \<longleftrightarrow> serves bs p s x \<and>
      \<not> (x = w \<and> p = ir_path_prefix route \<and> s = ir_scope route)"
proof -
  have "entry_wf (on_unregister w route bs) \<and> (serves (on_unregister w route bs) p s x \<longleftrightarrow>
      serves bs p s x \<and> \<not> (x = w \<and> p = ir_path_prefix route \<and> s = ir_scope route))"
  proof (cases bs)
    case None
    then show ?thesis by (simp add: on_unregister_def unregister_edit_def entry_wf_def)
  next
    case (Some cs)
    let ?f = "\<lambda>b. b \<lparr>pb_workloads := bs_remove w (pb_workloads b)\<rparr>"
    let ?u = "update_first (same_route route) ?f cs"
    let ?bs = "filter (\<lambda>b. pb_workloads b \<noteq> []) ?u"
    have wf: "bucket_wf cs" using assms Some by (simp add: entry_wf_def)
    have set: "set ?u = (\<lambda>b. if same_route route b then ?f b else b) ` set cs"
      by (rule update_same_route [OF wf])
    have "map bucket_key ?u = map bucket_key cs"
      by (rule map_update_first_key) (simp add: bucket_key_def)
    then have "sorted_wrt (<) (map bucket_key ?u)" using wf by (simp add: bucket_wf_def)
    then have "sorted_wrt (<) (map bucket_key ?bs)"
      by (simp add: sorted_wrt_map sorted_wrt_filter)
    moreover have "\<forall>b \<in> set ?u. bs_wf (pb_workloads b)" using wf unfolding set by (auto simp: bucket_wf_def)
    ultimately have "bucket_wf ?bs" by (simp add: bucket_wf_def)
    moreover have "on_unregister w route bs = (if ?bs = [] then None else Some ?bs)"
      by (simp add: Some on_unregister_def unregister_edit_def Let_def)
    moreover
    let ?g = "\<lambda>b. if same_route route b then ?f b else b"
    have "pb_prefix (?g c) = p \<and> pb_scope (?g c) = s \<and> x \<in> set (pb_workloads (?g c)) \<longleftrightarrow>
        pb_prefix c = p \<and> pb_scope c = s \<and> x \<in> set (pb_workloads c) \<and> \<not> (same_route route c \<and> x = w)" for c
      by auto
    then have "serves (Some ?bs) p s x \<longleftrightarrow>
        serves bs p s x \<and> \<not> (x = w \<and> p = ir_path_prefix route \<and> s = ir_scope route)"
      unfolding serves_filter unfolding serves_def Some option.case set bex_simps
      by (auto simp: same_route_def)
    moreover have "?bs = [] \<Longrightarrow> \<not> serves (Some ?bs) p s x" by (simp add: serves_def)
    ultimately show ?thesis by (auto simp: entry_wf_def)
  qed
  then show "entry_wf (on_unregister w route bs)"
    and "serves (on_unregister w route bs) p s x \<longleftrightarrow> serves bs p s x \<and>
      \<not> (x = w \<and> p = ir_path_prefix route \<and> s = ir_scope route)" by blast+
qed

lemma fold_register_entry:
  "entry_wf bs \<Longrightarrow> entry_wf (fold (on_register w) routes bs) \<and>
     (serves (fold (on_register w) routes bs) p s x \<longleftrightarrow> serves bs p s x \<or>
        x = w \<and> (\<exists>route \<in> set routes. p = ir_path_prefix route \<and> s = ir_scope route))"
  by (induction routes arbitrary: bs) (auto simp: on_register_entry)

lemma fold_unregister_entry:
  "entry_wf bs \<Longrightarrow> entry_wf (fold (on_unregister w) routes bs) \<and>
     (serves (fold (on_unregister w) routes bs) p s x \<longleftrightarrow> serves bs p s x \<and>
        \<not> (x = w \<and> (\<exists>route \<in> set routes. p = ir_path_prefix route \<and> s = ir_scope route)))"
  by (induction routes arbitrary: bs) (auto simp: on_unregister_entry)
section \<open>The table and the registrations\<close>

text \<open>What the reverse map records: a workload claims a prefix of a hostname at a scope.\<close>

definition claims :: "DynamicRouter \<Rightarrow> string \<Rightarrow> path_prefix \<Rightarrow> route_scope \<Rightarrow> string \<Rightarrow> bool" where
  "claims r h p s w \<longleftrightarrow>
     (\<exists>routes. dr_workload_to_host r w = Some routes \<and>
       (\<exists>route \<in> set routes. ir_host route = h \<and> ir_path_prefix route = p \<and> ir_scope route = s))"

definition router_inv :: "DynamicRouter \<Rightarrow> bool" where
  "router_inv r \<longleftrightarrow> length (dr_hosts r) = ROUTE_SHARDS \<and>
     (\<forall>h. entry_wf (buckets_of r h)) \<and>
     (\<forall>h p s w. serves (buckets_of r h) p s w \<longleftrightarrow> claims r h p s w)"

lemma buckets_of_routes [simp]: "buckets_of (r \<lparr>dr_workload_to_host := m\<rparr>) h = buckets_of r h"
  by (simp add: buckets_of_def DynamicRouter_shard_def)

lemma edit_shards_kept:
  assumes "length (dr_hosts r) = ROUTE_SHARDS"
  shows "length (dr_hosts (edit_shards r routes edit)) = ROUTE_SHARDS"
    and "dr_workload_to_host (edit_shards r routes edit) = dr_workload_to_host r"
  by (simp_all add: edit_shards_slots [OF assms] assms)

lemma router_inv_default: "router_inv DynamicRouter_default"
proof -
  have "buckets_of DynamicRouter_default h = None" for h
    using shard_index_bound [of h]
    by (simp add: buckets_of_def DynamicRouter_shard_def shard_slot_def DynamicRouter_default_def)
  then show ?thesis
    by (simp add: router_inv_def entry_wf_def claims_def) (simp add: DynamicRouter_default_def)
qed

lemma router_inv_register:
  assumes inv: "router_inv r" and same: "dr_workload_to_host r w \<in> {None, Some routes}"
  shows "router_inv (register_routes r w routes)"
proof -
  let ?r = "r \<lparr>dr_workload_to_host := (dr_workload_to_host r)(w \<mapsto> routes)\<rparr>"
  have len: "length (dr_hosts ?r) = ROUTE_SHARDS" using inv by (simp add: router_inv_def)
  note kept = edit_shards_kept [OF len, of routes "register_edit w"]
  have at: "buckets_of (register_routes r w routes) h =
      fold (on_register w) (filter (\<lambda>route. ir_host route = h) routes) (buckets_of r h)" for h
    using reg.buckets_of_edit_shards [OF len, of routes w h] by (simp add: register_routes_def)
  have claims: "claims (register_routes r w routes) h p s x \<longleftrightarrow> claims r h p s x \<or>
      x = w \<and> (\<exists>route \<in> set routes. ir_host route = h \<and> ir_path_prefix route = p \<and> ir_scope route = s)"
    for h p s x
    using same by (auto simp: claims_def register_routes_def kept)
  have entry: "entry_wf (buckets_of r h)" for h using inv by (simp add: router_inv_def)
  show ?thesis
    using inv fold_register_entry [OF entry]
    unfolding router_inv_def claims at
    by (auto simp: register_routes_def kept)
qed

lemma router_inv_unregister:
  assumes inv: "router_inv r"
  shows "router_inv (unregister_routes r w)"
proof (cases "dr_workload_to_host r w")
  case None
  with inv show ?thesis by (simp add: unregister_routes_def)
next
  case (Some routes)
  let ?r = "r \<lparr>dr_workload_to_host := (dr_workload_to_host r)(w := None)\<rparr>"
  have len: "length (dr_hosts ?r) = ROUTE_SHARDS" using inv by (simp add: router_inv_def)
  note kept = edit_shards_kept [OF len, of routes "unregister_edit w"]
  have at: "buckets_of (unregister_routes r w) h =
      fold (on_unregister w) (filter (\<lambda>route. ir_host route = h) routes) (buckets_of r h)" for h
    using unreg.buckets_of_edit_shards [OF len, of routes w h] by (simp add: unregister_routes_def Some)
  have claims: "claims (unregister_routes r w) h p s x \<longleftrightarrow> claims r h p s x \<and>
      \<not> (x = w \<and> (\<exists>route \<in> set routes. ir_host route = h \<and> ir_path_prefix route = p \<and> ir_scope route = s))"
    for h p s x
    using Some by (auto simp: claims_def unregister_routes_def kept)
  have entry: "entry_wf (buckets_of r h)" for h using inv by (simp add: router_inv_def)
  show ?thesis
    using inv fold_unregister_entry [OF entry]
    unfolding router_inv_def claims at
    by (auto simp: unregister_routes_def Some kept)
qed

text \<open>What a host does with its router: workloads resolve through a component or through a
  service, which may restart, and are unbound. A workload's interfaces do not change.\<close>

inductive router_step :: "url_lib \<Rightarrow> (string \<Rightarrow> WitInterface list) \<Rightarrow> DynamicRouter \<Rightarrow> DynamicRouter \<Rightarrow> bool"
  for lib ifaces where
  resolved: "DynamicRouter_on_workload_resolved lib r \<lparr>rh_id = w, rh_host_interfaces = ifaces w\<rparr> = (res, r') \<Longrightarrow>
    router_step lib ifaces r r'"
| service: "http_ingress_routes lib (ifaces w) = Ok routes \<Longrightarrow>
    router_step lib ifaces r (DynamicRouter_on_service_http_resolved r w routes)"
| unbound: "router_step lib ifaces r (DynamicRouter_on_workload_unbind r w)"

text \<open>Both doors register the same routes.\<close>

lemma resolved_registers_ingress_routes:
  assumes "DynamicRouter_on_workload_resolved lib r \<lparr>rh_id = w, rh_host_interfaces = is\<rparr> = (res, r')"
  obtains (refused) e where "res = Err e" and "r' = r"
  | (registered) routes where "res = Ok ()" and "http_ingress_routes lib is = Ok routes"
      and "r' = register_routes r w routes"
  using assms
  by (auto simp: DynamicRouter_on_workload_resolved_def http_ingress_routes_def Let_def
      split: option.splits sum.splits if_splits)

definition routes_inv :: "url_lib \<Rightarrow> (string \<Rightarrow> WitInterface list) \<Rightarrow> DynamicRouter \<Rightarrow> bool" where
  "routes_inv lib ifaces r \<longleftrightarrow> router_inv r \<and>
     (\<forall>w routes. dr_workload_to_host r w = Some routes \<longrightarrow> http_ingress_routes lib (ifaces w) = Ok routes)"

lemma routes_inv_register:
  assumes inv: "routes_inv lib ifaces r" and routes: "http_ingress_routes lib (ifaces w) = Ok routes"
  shows "routes_inv lib ifaces (register_routes r w routes)"
proof -
  have "dr_workload_to_host r w \<in> {None, Some routes}"
    using inv routes by (cases "dr_workload_to_host r w") (auto simp: routes_inv_def)
  with inv have "router_inv (register_routes r w routes)"
    by (intro router_inv_register) (auto simp: routes_inv_def)
  moreover have "dr_workload_to_host (register_routes r w routes) = (dr_workload_to_host r)(w \<mapsto> routes)"
    using inv by (simp add: register_routes_def edit_shards_kept routes_inv_def router_inv_def)
  ultimately show ?thesis using inv routes by (auto simp: routes_inv_def)
qed

lemma routes_inv_unregister:
  assumes inv: "routes_inv lib ifaces r"
  shows "routes_inv lib ifaces (unregister_routes r w)"
proof -
  have "dr_workload_to_host (unregister_routes r w) = (dr_workload_to_host r)(w := None)"
    using inv by (auto simp: unregister_routes_def edit_shards_kept routes_inv_def router_inv_def split: option.splits)
  then show ?thesis
    using inv router_inv_unregister [of r w] by (auto simp: routes_inv_def)
qed

lemma routes_inv_step:
  assumes inv: "routes_inv lib ifaces r" and "router_step lib ifaces r r'"
  shows "routes_inv lib ifaces r'"
  using assms(2)
proof cases
  case (resolved w res)
  then show ?thesis
    by (cases rule: resolved_registers_ingress_routes) (use inv routes_inv_register in auto)
next
  case (service w routes)
  then show ?thesis
    using inv routes_inv_register by (auto simp: DynamicRouter_on_service_http_resolved_def)
next
  case (unbound w)
  then show ?thesis
    using inv routes_inv_unregister by (simp add: DynamicRouter_on_workload_unbind_def)
qed

interpretation routing: transition_system "router_step lib ifaces" "routes_inv lib ifaces" for lib ifaces
  by unfold_locales (rule routes_inv_step)

lemma reachable_router:
  assumes "(router_step lib ifaces)\<^sup>*\<^sup>* DynamicRouter_default r"
  shows "router_inv r" and "routes_inv lib ifaces r"
proof -
  have "routes_inv lib ifaces DynamicRouter_default"
    using router_inv_default by (simp add: routes_inv_def) (simp add: DynamicRouter_default_def)
  from routing.inv_reachable [OF assms this]
  show "router_inv r" and "routes_inv lib ifaces r" by (simp_all add: routes_inv_def)
qed
section \<open>Selection\<close>

lemma find_sorted:
  "sorted_wrt R xs \<Longrightarrow> find P xs = Some x \<Longrightarrow> y \<in> set xs \<Longrightarrow> P y \<Longrightarrow> y = x \<or> R x y"
  by (induction xs) (auto split: if_splits)

lemma find_mut_pure: "find_mut (\<lambda>st x. (P x, st)) st xs = (find P xs, st)"
  by (induction xs) auto

lemma find_mut_Some:
  "find_mut f st xs = (Some x, st') \<Longrightarrow> x \<in> set xs \<and> (\<exists>st0. f st0 x = (True, st'))"
  by (induction xs arbitrary: st) (auto split: prod.splits bool.splits)

lemma find_mut_None:
  "find_mut f st xs = (None, st') \<Longrightarrow> x \<in> set xs \<Longrightarrow> \<exists>st0 st1. f st0 x = (False, st1)"
  by (induction xs arbitrary: st) (auto split: prod.splits bool.splits)

lemma shorter_prefix_later:
  "bucket_key b < bucket_key c \<Longrightarrow> length (pb_prefix c) \<le> length (pb_prefix b)"
  by (auto simp: bucket_key_def less_prod_def split: if_splits)

text \<open>The bucket a request falls in, before a replica is picked.\<close>

definition find_bucket :: "DynamicRouter \<Rightarrow> string \<Rightarrow> string \<Rightarrow> route_scope \<Rightarrow> (route_error, PathBucket) result" where
  "find_bucket r host path scope =
     (case filter (\<lambda>b. pb_scope b = scope \<and> pb_workloads b \<noteq> [])
             (case buckets_of r (request_host host) of None \<Rightarrow> [] | Some bs \<Rightarrow> bs) of
        [] \<Rightarrow> Err (NoWorkloadForHost (request_host host))
      | b # bs \<Rightarrow>
          (case find (\<lambda>b. prefix_matches (pb_prefix b) path) (b # bs) of
             None \<Rightarrow> Err (NoWorkloadForPath (request_host host) path)
           | Some b \<Rightarrow> Ok b))"

lemma select_serving_find_bucket:
  "select_serving_workload usize r host path scope can_serve st =
     (case find_bucket r host path scope of
        Err e \<Rightarrow> (Err e, st)
      | Ok b \<Rightarrow>
          (let start = usize (length (pb_workloads b)) in
           case find_mut can_serve st (drop start (pb_workloads b) @ take start (pb_workloads b)) of
             (Some chosen, st) \<Rightarrow> (Ok chosen, st)
           | (None, st) \<Rightarrow> (Err (NoWorkloadForHost (request_host host)), st)))"
  unfolding select_serving_workload_def find_bucket_def buckets_of_def Let_def
  by (cases "DynamicRouter_shard r (shard_index (request_host host)) (request_host host)")
    (simp_all split: list.split option.split)

definition most_specific :: "(path_prefix \<Rightarrow> bool) \<Rightarrow> string \<Rightarrow> path_prefix \<Rightarrow> bool" where
  "most_specific claimed path p \<longleftrightarrow> claimed p \<and> prefix_matches p path \<and>
     (\<forall>p'. claimed p' \<and> prefix_matches p' path \<longrightarrow> length p' \<le> length p)"

lemma first_match_most_specific:
  assumes sorted: "sorted_wrt (\<lambda>b c. bucket_key b < bucket_key c) vis"
    and vis: "\<And>b. b \<in> set vis \<Longrightarrow> pb_scope b = scope \<and> pb_workloads b \<noteq> []"
    and claimed: "\<And>p w. claimed p w \<longleftrightarrow> (\<exists>b \<in> set vis. pb_prefix b = p \<and> w \<in> set (pb_workloads b))"
    and found: "find (\<lambda>b. prefix_matches (pb_prefix b) path) vis = Some b"
  shows "pb_workloads b \<noteq> []" and "set (pb_workloads b) = {w. claimed (pb_prefix b) w}"
    and "most_specific (\<lambda>p. \<exists>w. claimed p w) path (pb_prefix b)"
proof -
  obtain i where "i < length vis" "prefix_matches (pb_prefix (vis ! i)) path" "b = vis ! i"
    using found unfolding find_Some_iff by blast
  then have b: "b \<in> set vis" "prefix_matches (pb_prefix b) path" using nth_mem by blast+
  then show ne: "pb_workloads b \<noteq> []" using vis by blast
  have first: "c = b \<or> bucket_key b < bucket_key c" if "c \<in> set vis" "prefix_matches (pb_prefix c) path" for c
    by (rule find_sorted [OF sorted found that])
  have "c = b" if c: "c \<in> set vis" "pb_prefix c = pb_prefix b" for c
  proof -
    have "bucket_key c = bucket_key b" using c vis [OF c(1)] vis [OF b(1)] by (simp add: bucket_key_eq_iff)
    with first [OF c(1)] c(2) b(2) show ?thesis by auto
  qed
  then show "set (pb_workloads b) = {w. claimed (pb_prefix b) w}"
    unfolding claimed using b(1) by blast
  have "length p \<le> length (pb_prefix b)" if "claimed p w" "prefix_matches p path" for p w
    using that first shorter_prefix_later unfolding claimed by blast
  moreover have "\<exists>w. claimed (pb_prefix b) w"
    unfolding claimed using b(1) hd_in_set [OF ne] by blast
  ultimately show "most_specific (\<lambda>p. \<exists>w. claimed p w) path (pb_prefix b)"
    using b(2) by (auto simp: most_specific_def)
qed

text \<open>The buckets a lookup at a scope sees under a hostname.\<close>

definition visible :: "DynamicRouter \<Rightarrow> string \<Rightarrow> route_scope \<Rightarrow> PathBucket list" where
  "visible r h scope = filter (\<lambda>b. pb_scope b = scope \<and> pb_workloads b \<noteq> [])
     (case buckets_of r h of None \<Rightarrow> [] | Some bs \<Rightarrow> bs)"

lemma visible_facts:
  assumes inv: "router_inv r"
  shows "sorted_wrt (\<lambda>b c. bucket_key b < bucket_key c) (visible r h scope)"
    and "\<And>b. b \<in> set (visible r h scope) \<Longrightarrow> pb_scope b = scope \<and> pb_workloads b \<noteq> []"
    and "claims r h p scope w \<longleftrightarrow>
      (\<exists>b \<in> set (visible r h scope). pb_prefix b = p \<and> w \<in> set (pb_workloads b))"
proof -
  have "entry_wf (buckets_of r h)" using inv by (simp add: router_inv_def)
  then show "sorted_wrt (\<lambda>b c. bucket_key b < bucket_key c) (visible r h scope)"
    by (auto simp: visible_def entry_wf_def bucket_wf_def sorted_wrt_map sorted_wrt_filter split: option.splits)
  show "\<And>b. b \<in> set (visible r h scope) \<Longrightarrow> pb_scope b = scope \<and> pb_workloads b \<noteq> []"
    by (auto simp: visible_def)
  have "claims r h p scope w \<longleftrightarrow> serves (buckets_of r h) p scope w"
    using inv by (simp add: router_inv_def)
  then show "claims r h p scope w \<longleftrightarrow>
      (\<exists>b \<in> set (visible r h scope). pb_prefix b = p \<and> w \<in> set (pb_workloads b))"
    by (auto simp: visible_def serves_def split: option.splits)
qed

lemma find_bucket_spec:
  assumes inv: "router_inv r" and h: "h = request_host host"
  shows "case find_bucket r host path scope of
      Ok b \<Rightarrow> pb_workloads b \<noteq> [] \<and> set (pb_workloads b) = {w. claims r h (pb_prefix b) scope w} \<and>
        most_specific (\<lambda>p. \<exists>w. claims r h p scope w) path (pb_prefix b)
    | Err (NoWorkloadForHost h') \<Rightarrow> h' = h \<and> (\<forall>p w. \<not> claims r h p scope w)
    | Err (NoWorkloadForPath h' path') \<Rightarrow> h' = h \<and> path' = path \<and>
        (\<exists>p w. claims r h p scope w) \<and> (\<forall>p w. claims r h p scope w \<longrightarrow> \<not> prefix_matches p path)
    | Err _ \<Rightarrow> False"
proof -
  let ?m = "\<lambda>b. prefix_matches (pb_prefix b) path"
  note vis = visible_facts [OF inv, where h = h and scope = scope]
  have fb: "find_bucket r host path scope =
      (case visible r h scope of [] \<Rightarrow> Err (NoWorkloadForHost h)
       | b # bs \<Rightarrow> (case find ?m (b # bs) of None \<Rightarrow> Err (NoWorkloadForPath h path) | Some b \<Rightarrow> Ok b))"
    unfolding find_bucket_def visible_def h ..
  show ?thesis
  proof (cases "visible r h scope")
    case Nil
    then show ?thesis unfolding fb by (simp add: vis(3))
  next
    case (Cons b0 vs)
    show ?thesis
    proof (cases "find ?m (visible r h scope)")
      case None
      have "\<exists>w. w \<in> set (pb_workloads b0)" using vis(2) [of b0] Cons by (cases "pb_workloads b0") auto
      then have "\<exists>p w. claims r h p scope w" unfolding vis(3) Cons by auto
      moreover have "\<forall>p w. claims r h p scope w \<longrightarrow> \<not> prefix_matches p path"
        using None unfolding find_None_iff vis(3) by blast
      ultimately show ?thesis using None unfolding fb Cons by simp
    next
      case (Some b)
      from first_match_most_specific [OF vis(1,2) vis(3) Some] Some
      show ?thesis unfolding fb Cons by simp
    qed
  qed
qed

lemma select_workload_find_bucket:
  assumes "find_bucket r host path scope = Ok b" and "pb_workloads b \<noteq> []"
  obtains w where "select_workload usize r host path scope = Ok w" and "w \<in> set (pb_workloads b)"
proof -
  let ?n = "usize (length (pb_workloads b))"
  let ?ws = "drop ?n (pb_workloads b) @ take ?n (pb_workloads b)"
  have set: "set ?ws = set (pb_workloads b)"
    using set_append [of "take ?n (pb_workloads b)" "drop ?n (pb_workloads b)"] by auto
  then have "?ws \<noteq> []" using assms(2) by (metis set_empty)
  then obtain w ws where ws: "?ws = w # ws" by (cases ?ws) auto
  have "select_workload usize r host path scope = Ok w"
    unfolding select_workload_def select_serving_find_bucket assms(1) Let_def sum.case ws by simp
  moreover have "w \<in> set (pb_workloads b)" using set unfolding ws by auto
  ultimately show thesis by (rule that)
qed

lemma select_workload_Err:
  "find_bucket r host path scope = Err e \<Longrightarrow> select_workload usize r host path scope = Err e"
  by (simp add: select_workload_def select_serving_find_bucket)

lemma request_host_lower: "request_host host = to_ascii_lowercase (fst (header_host_port host))"
proof -
  have "\<not> list_ex is_ascii_upper s \<Longrightarrow> to_ascii_lowercase s = s" for s
    by (induction s) (auto simp: lower_char_def)
  then show ?thesis by (simp add: request_host_def Let_def)
qed

text \<open>
  C4. Whatever workloads a host has resolved, restarted and unbound, a request is routed by
  the registrations that stand: to a workload that registered the most specific prefix
  covering its path, under its hostname without case and port and at the scope asked for;
  and it is refused for its hostname or for its path exactly when no registration at that
  scope has the hostname, or none covers the path. The random choice of a replica does not
  matter to any of it, and a request from the network (scope \<open>Ingress\<close>) never lands on a
  route declared for co-located callers only, nor the other way round.
\<close>

theorem requests_go_to_the_most_specific_route:
  assumes "(router_step lib ifaces)\<^sup>*\<^sup>* DynamicRouter_default r"
    and "h = to_ascii_lowercase (fst (header_host_port host))"
  shows "case select_workload usize r host path scope of
      Ok w \<Rightarrow> \<exists>p. claims r h p scope w \<and> most_specific (\<lambda>p. \<exists>w. claims r h p scope w) path p
    | Err (NoWorkloadForHost h') \<Rightarrow> h' = h \<and> (\<forall>p w. \<not> claims r h p scope w)
    | Err (NoWorkloadForPath h' path') \<Rightarrow> h' = h \<and> path' = path \<and>
        (\<exists>p w. claims r h p scope w) \<and> (\<forall>p w. claims r h p scope w \<longrightarrow> \<not> prefix_matches p path)
    | Err _ \<Rightarrow> False"
proof -
  have h: "h = request_host host" by (simp add: assms(2) request_host_lower)
  note spec = find_bucket_spec [OF reachable_router(1) [OF assms(1)] h, where path = path and scope = scope]
  show ?thesis
  proof (cases "find_bucket r host path scope")
    case (Inl e)
    then show ?thesis using spec by (simp add: select_workload_Err)
  next
    case (Inr b)
    with spec have b: "pb_workloads b \<noteq> []" "set (pb_workloads b) = {w. claims r h (pb_prefix b) scope w}"
      "most_specific (\<lambda>p. \<exists>w. claims r h p scope w) path (pb_prefix b)" by simp_all
    obtain w where "select_workload usize r host path scope = Ok w" "w \<in> set (pb_workloads b)"
      by (rule select_workload_find_bucket [OF Inr b(1)])
    with b(2,3) show ?thesis by auto
  qed
qed
section \<open>Declared routes are well formed\<close>

definition route_wf :: "IngressRoute \<Rightarrow> bool" where
  "route_wf route \<longleftrightarrow>
     is_valid_hostname (ir_host route) \<and> to_ascii_lowercase (ir_host route) = ir_host route \<and>
     (if ir_path_prefix route = [] then True
      else hd (ir_path_prefix route) = CHR ''/'' \<and> last (ir_path_prefix route) \<noteq> CHR ''/'') \<and>
     (if ir_scope route = Ingress then ir_path_prefix route = [] else True)"

text \<open>The hostnames the router accepts are the names without a root dot that the lookup
  allowlist accepts: the same labels.\<close>

lemma valid_hostname_labels:
  "is_valid_hostname h \<longleftrightarrow> h \<noteq> [] \<and> length h \<le> 253 \<and> (\<forall>l \<in> set (split_on (CHR ''.'') h). label_ok l)"
proof -
  have "starts_with c l \<longleftrightarrow> l \<noteq> [] \<and> hd l = c" for c l by (cases l) (auto simp: starts_with_def)
  then show ?thesis by (auto simp: is_valid_hostname_def label_ok_def list_all_iff ends_with_def)
qed

lemma label_char_cases:
  assumes "label_ok l" and "c \<in> set l"
  shows "c \<noteq> CHR '':''" and "c \<noteq> CHR ''[''"
  using assms
  by (auto simp: label_ok_def is_ascii_alphanumeric_def is_ascii_digit_def is_ascii_upper_def is_ascii_lower_def)

lemma hostname_no_port:
  assumes "is_valid_hostname h"
  shows "CHR '':'' \<notin> set h" and "CHR ''['' \<notin> set h"
proof -
  have "c = CHR ''.'' \<or> (\<exists>l \<in> set (split_on (CHR ''.'') h). c \<in> set l)" if "c \<in> set h" for c
    using in_join_with [of c "CHR ''.''" "split_on (CHR ''.'') h"] that by simp
  moreover have "label_ok l" if "l \<in> set (split_on (CHR ''.'') h)" for l
    using assms that by (simp add: valid_hostname_labels)
  ultimately show "CHR '':'' \<notin> set h" and "CHR ''['' \<notin> set h"
    using label_char_cases by blast+
qed

lemma header_of_hostname:
  assumes "CHR '':'' \<notin> set name" and "CHR ''['' \<notin> set name" and "name \<noteq> []"
    and tail: "tail = [] \<or> (\<exists>port. tail = CHR '':'' # port \<and> CHR '':'' \<notin> set port)"
  shows "fst (header_host_port (name @ tail)) = name"
proof -
  have "strip_prefix ''['' (name @ tail) = None"
    using assms(2,3) by (cases name) (auto simp: strip_prefix_def)
  moreover have "(case rsplit_once (CHR '':'') (name @ tail) of Some (addr, port) \<Rightarrow> addr | None \<Rightarrow> name @ tail) = name"
    using tail
  proof
    assume "tail = []"
    then show ?thesis using assms(1) by (simp add: rsplit_once_None_iff [THEN iffD2])
  next
    assume "\<exists>port. tail = CHR '':'' # port \<and> CHR '':'' \<notin> set port"
    then obtain port where "tail = CHR '':'' # port" "CHR '':'' \<notin> set port" by blast
    then have "rsplit_once (CHR '':'') (name @ tail) = Some (name, port)"
      by (simp add: rsplit_once_Some_iff)
    then show ?thesis by simp
  qed
  ultimately show ?thesis by (simp add: header_host_port_def split: option.splits prod.splits)
qed

lemma split_on_lower: "split_on (CHR ''.'') (to_ascii_lowercase s) = map to_ascii_lowercase (split_on (CHR ''.'') s)"
proof (induction s)
  case (Cons c s)
  then show ?case by (cases "split_on (CHR ''.'') s") (auto simp: lower_dot)
qed simp

lemma label_ok_lower: "label_ok l \<Longrightarrow> label_ok (to_ascii_lowercase l)"
proof -
  have dash: "lower_char c = CHR ''-'' \<longleftrightarrow> c = CHR ''-''" for c
    by (rule lower_char_eq_iff) (simp_all add: is_ascii_upper_def is_ascii_lower_def)
  have "is_ascii_alphanumeric (lower_char c)" if "is_ascii_alphanumeric c" for c
    using that by (auto simp: lower_char_def is_ascii_alphanumeric_def is_ascii_digit_def
        is_ascii_upper_def is_ascii_lower_def)
  then show "label_ok l \<Longrightarrow> label_ok (to_ascii_lowercase l)"
    by (auto simp: label_ok_def to_ascii_lowercase_def hd_map last_map dash)
qed

lemma valid_hostname_lower: "is_valid_hostname h \<Longrightarrow> is_valid_hostname (to_ascii_lowercase h)"
  by (auto simp: valid_hostname_labels split_on_lower label_ok_lower)

lemma trim_end_matches_last: "trim_end_matches c s \<noteq> [] \<Longrightarrow> last (trim_end_matches c s) \<noteq> c"
  using hd_dropWhile [of "\<lambda>x. x = c" "rev s"] by (auto simp: trim_end_matches_def last_rev)

lemma normalized_prefix:
  "NormalizedPathPrefix_new p = [] \<or>
     hd (NormalizedPathPrefix_new p) = CHR ''/'' \<and> last (NormalizedPathPrefix_new p) \<noteq> CHR ''/''"
  using trim_end_matches_last [of "CHR ''/''" "trim p"]
  by (auto simp: NormalizedPathPrefix_new_def Let_def starts_with_def split: list.splits)

lemma new_route_wf:
  assumes "is_valid_hostname host" and "scope = Ingress \<Longrightarrow> NormalizedPathPrefix_new p = []"
  shows "route_wf (IngressRoute_new host p scope)"
proof -
  have "fst (header_host_port host) = host"
    using header_of_hostname [of host "[]"] hostname_no_port [OF assms(1)] assms(1)
    by (simp add: is_valid_hostname_def)
  then show ?thesis
    using assms normalized_prefix [of p] valid_hostname_lower [OF assms(1)]
    by (auto simp: route_wf_def IngressRoute_new_def)
qed

lemma empty_prefix: "NormalizedPathPrefix_new [] = []"
  by code_simp

lemma ingress_route_wf: "is_valid_hostname host \<Longrightarrow> route_wf (IngressRoute_ingress host)"
  by (simp add: IngressRoute_ingress_def new_route_wf empty_prefix)

lemma local_route_wf: "parse_local_route lib entry = Some route \<Longrightarrow> route_wf route"
  by (auto simp: parse_local_route_def Let_def IngressRoute_local_def intro!: new_route_wf
      split: if_splits option.splits)

lemma collect_results_Ok: "collect_results f xs = Ok ys \<Longrightarrow> y \<in> set ys \<Longrightarrow> \<exists>x. x \<in> set xs \<and> f x = Ok y"
  by (induction xs arbitrary: ys) (fastforce split: sum.splits)+

lemma collect_results_Err: "collect_results f xs = Err e \<Longrightarrow> \<exists>x. x \<in> set xs \<and> f x = Err e"
  by (induction xs) (auto split: sum.splits)

lemma local_routes_wf: "local_routes lib iface = Ok routes \<Longrightarrow> list_all route_wf routes"
  by (auto simp: local_routes_def list_all_iff local_route_wf dest!: collect_results_Ok
      split: option.splits)

lemma local_routes_Err:
  assumes "local_routes lib iface = Err e"
  obtains declared entry where "wi_config iface ''localRoute'' = Some declared"
    and "entry \<in> set (config_entries declared)" and "parse_local_route lib entry = None"
    and "e = InvalidLocalRoute entry"
  using assms by (auto simp: local_routes_def dest!: collect_results_Err split: option.splits)

text \<open>
  C37. Every route an HTTP handler's configuration declares is a value of the routing table's
  types: a valid lower-case hostname without a port, and a prefix that is empty or starts with
  a slash and does not end in one; a network-reachable route serves every path. The
  configuration is refused only for a \<open>localRoute\<close> entry that does not parse, and the error
  names it.
\<close>

theorem declared_routes_are_well_formed:
  "case http_ingress_routes lib interfaces of
     Ok routes \<Rightarrow> list_all route_wf routes
   | Err e \<Rightarrow> \<exists>iface declared entry. find is_incoming_http_handler interfaces = Some iface \<and>
       wi_config iface ''localRoute'' = Some declared \<and> entry \<in> set (config_entries declared) \<and>
       parse_local_route lib entry = None \<and> e = InvalidLocalRoute entry"
proof -
  have aliases: "list_all route_wf (ingress_aliases iface)" for iface
    by (auto simp: ingress_aliases_def list_all_iff List.map_filter_def ingress_route_wf split: option.splits if_splits)
  show ?thesis
  proof (cases "find is_incoming_http_handler interfaces")
    case None
    then show ?thesis by (simp add: http_ingress_routes_def)
  next
    case (Some iface)
    show ?thesis
    proof (cases "local_routes lib iface")
      case (Inl e)
      then show ?thesis
        by (rule local_routes_Err) (use Some Inl in \<open>auto simp: http_ingress_routes_def Let_def\<close>)
    next
      case (Inr locals)
      then show ?thesis
        using aliases [of iface] local_routes_wf [OF Inr]
        by (auto simp: http_ingress_routes_def Let_def Some ingress_route_wf split: option.splits)
    qed
  qed
qed

section \<open>A resolved workload is reachable, an unbound one is not\<close>

lemma registered_claims:
  assumes "router_inv r"
  shows "claims (register_routes r w routes) h p s w \<longleftrightarrow>
    (\<exists>route \<in> set routes. ir_host route = h \<and> ir_path_prefix route = p \<and> ir_scope route = s)"
proof -
  have "dr_workload_to_host (register_routes r w routes) = (dr_workload_to_host r)(w \<mapsto> routes)"
    using assms by (simp add: register_routes_def edit_shards_kept router_inv_def)
  then show ?thesis by (simp add: claims_def)
qed

lemma unregistered_claims:
  assumes "router_inv r"
  shows "\<not> claims (unregister_routes r w) h p s w"
proof -
  have "dr_workload_to_host (unregister_routes r w) w = None"
    using assms by (auto simp: unregister_routes_def edit_shards_kept router_inv_def split: option.splits)
  then show ?thesis by (simp add: claims_def)
qed

lemma catch_all_served:
  assumes inv: "router_inv r" and "claims r (request_host host) [] scope w"
  shows "\<exists>x. select_workload usize r host path scope = Ok x"
proof -
  have "prefix_matches [] path" by (simp add: prefix_matches_def is_catch_all_def)
  with find_bucket_spec [OF inv refl, where host = host and path = path and scope = scope] assms(2)
  obtain b where "find_bucket r host path scope = Ok b" "pb_workloads b \<noteq> []"
    by (auto split: sum.splits route_error.splits)
  then show ?thesis by (metis select_workload_find_bucket)
qed


text \<open>
  C24. Once a workload is unbound no request reaches it, from the network or from a co-located
  caller, whatever it had registered and however often its service had restarted; the other
  workloads keep exactly the routes they had.
\<close>

theorem unbound_workload_gets_no_requests:
  assumes run: "(router_step lib ifaces)\<^sup>*\<^sup>* DynamicRouter_default r"
    and r': "r' = DynamicRouter_on_workload_unbind r w"
  shows "select_workload usize r' host path scope \<noteq> Ok w \<and>
    (x \<noteq> w \<longrightarrow> claims r' h p s x = claims r h p s x)"
proof
  have inv: "router_inv r'" and gone: "\<not> claims r' h' p' s' w" for h' p' s'
    using router_inv_unregister [OF reachable_router(1) [OF run], of w]
      unregistered_claims [OF reachable_router(1) [OF run], of w]
    by (simp_all add: r' DynamicRouter_on_workload_unbind_def)
  show "select_workload usize r' host path scope \<noteq> Ok w"
  proof (cases "find_bucket r' host path scope")
    case (Inl e)
    then show ?thesis by (simp add: select_workload_Err)
  next
    case (Inr b)
    with find_bucket_spec [OF inv refl, where host = host and path = path and scope = scope]
    have b: "pb_workloads b \<noteq> []" "w \<notin> set (pb_workloads b)" using gone by auto
    obtain x where "select_workload usize r' host path scope = Ok x" "x \<in> set (pb_workloads b)"
      by (rule select_workload_find_bucket [OF Inr b(1)])
    with b(2) show ?thesis by auto
  qed
  show "x \<noteq> w \<longrightarrow> claims r' h p s x = claims r h p s x"
    using reachable_router(1) [OF run]
    by (auto simp: r' DynamicRouter_on_workload_unbind_def claims_def unregister_routes_def
        edit_shards_kept router_inv_def split: option.splits)
qed
section \<open>Examples\<close>

definition demo_iface :: WitInterface where
  "demo_iface =
     \<lparr>wi_namespace = ''wasi'', wi_package = ''http'', wi_interfaces = {''incoming-handler''},
      wi_version = None, wi_config = [''host'' \<mapsto> ''Hello.example''], wi_name = None\<rparr>"

definition demo_resolved :: "(route_config_error, unit) result \<times> DynamicRouter" where
  "demo_resolved = DynamicRouter_on_workload_resolved text_lib DynamicRouter_default
     \<lparr>rh_id = ''w1'', rh_host_interfaces = [demo_iface]\<rparr>"

lemma demo_run: "(router_step text_lib (\<lambda>_. [demo_iface]))\<^sup>*\<^sup>* DynamicRouter_default (snd demo_resolved)"
  by (rule r_into_rtranclp, rule router_step.resolved [of _ _ "''w1''" _ "fst demo_resolved"])
    (simp add: demo_resolved_def)

lemma demo_ok: "fst demo_resolved = Ok ()"
  by code_simp

theorem requests_go_to_the_most_specific_route_witness:
  "\<exists>p. claims (snd demo_resolved) ''hello.example'' p Ingress ''w1'' \<and>
     most_specific (\<lambda>p. \<exists>w. claims (snd demo_resolved) ''hello.example'' p Ingress w) ''/a/b'' p"
proof -
  have h: "''hello.example'' = to_ascii_lowercase (fst (header_host_port ''HELLO.example:80''))" by code_simp
  have "select_workload (\<lambda>_. 0) (snd demo_resolved) ''HELLO.example:80'' ''/a/b'' Ingress = Ok ''w1''" by code_simp
  with requests_go_to_the_most_specific_route [OF demo_run h, where usize = "\<lambda>_. 0" and path = "''/a/b''"
      and scope = Ingress]
  show ?thesis by simp
qed


theorem unbound_workload_gets_no_requests_witness:
  "select_workload (\<lambda>_. 0) (DynamicRouter_on_workload_unbind (snd demo_resolved) ''w1'') ''hello.example'' ''/'' Ingress
     \<noteq> Ok ''w1''"
  using unbound_workload_gets_no_requests [OF demo_run refl, of "\<lambda>_. 0" "''w1''" "''hello.example''" "''/''" Ingress]
  by blast

end
