(* ===== verification/Http_Ingress.thy ===== *)
theory Http_Ingress
  imports Http_Router Quota
begin

text \<open>
  The HTTP ingress of \<open>host/http.rs\<close>: the connection ceiling and its readiness
  (\<open>ConnectionLimit\<close>), what an inbound request is normalized to and where it is dispatched
  (\<open>normalize_ingress_uri\<close>, \<open>handle_http_request\<close>), what becomes of a workload's outgoing
  request (\<open>outgoing_request\<close> with the same-host short-circuit \<open>local_destination\<close>), the
  registration of handlers, and the life of a locally routed request (\<open>LocalRequest\<close>).

  The ingress is generic in its router; the model has the hostname router. Component
  handles, channel senders and the body of an upload are values of type parameters, since
  the code here only passes them on. Semaphores are those of \<open>Quota\<close>. Whether a \<open>try_read\<close> of
  a handler map succeeds, and what a third-party parser returns, are parameters.
\<close>

section \<open>The connection ceiling\<close>

record 's ConnectionLimit =
  cl_max :: nat
  cl_permits :: 's
  cl_stopped :: bool
  cl_has_headroom :: bool
  cl_offered :: nat
  cl_shed :: nat

definition MAX_PERMITS :: nat where
  "MAX_PERMITS = usize_max div 8"

text \<open>\<open>IngressBuilder::max_connections\<close> and the default \<open>build\<close> takes without it.\<close>

definition IngressBuilder_max_connections :: "nat \<Rightarrow> nat" where
  "IngressBuilder_max_connections m = clamp m 1 MAX_PERMITS"

definition ConnectionLimit_new :: "'s semaphore_lib \<Rightarrow> nat \<Rightarrow> 's ConnectionLimit" where
  "ConnectionLimit_new lib m =
     \<lparr>cl_max = m, cl_permits = sem_new lib m, cl_stopped = False, cl_has_headroom = True,
      cl_offered = 0, cl_shed = 0\<rparr>"

definition stopped_accepting :: "'s ConnectionLimit \<Rightarrow> 's ConnectionLimit" where
  "stopped_accepting self = self \<lparr>cl_stopped := True\<rparr>"

definition accepting :: "'s ConnectionLimit \<Rightarrow> bool" where
  "accepting self \<longleftrightarrow> \<not> cl_stopped self"

text \<open>\<open>take\<close>: a permit, or none at the ceiling. Every offer is counted, a refused one also as
  shed. A connection's permit returns to the semaphore when the connection ends.\<close>

definition ConnectionLimit_take :: "'s semaphore_lib \<Rightarrow> 's ConnectionLimit \<Rightarrow> bool \<times> 's ConnectionLimit" where
  "ConnectionLimit_take lib self =
     (case sem_try_acquire lib (cl_permits self) of
        Some permits \<Rightarrow> (True, self \<lparr>cl_permits := permits, cl_offered := Suc (cl_offered self)\<rparr>)
      | None \<Rightarrow> (False, self \<lparr>cl_offered := Suc (cl_offered self), cl_shed := Suc (cl_shed self)\<rparr>))"

definition connection_closed :: "'s semaphore_lib \<Rightarrow> 's ConnectionLimit \<Rightarrow> 's ConnectionLimit" where
  "connection_closed lib self = self \<lparr>cl_permits := sem_release lib (cl_permits self)\<rparr>"

definition READY_RECOVER_PERCENT :: nat where
  "READY_RECOVER_PERCENT = 10"

text \<open>The free permits a saturated host waits for; the product is a \<open>usize\<close> and wraps.\<close>

definition recover_mark :: "nat \<Rightarrow> nat" where
  "recover_mark m = min (max (m * READY_RECOVER_PERCENT mod Suc usize_max div 100) 1) m"

definition ConnectionLimit_name :: "'s ConnectionLimit \<Rightarrow> string" where
  "ConnectionLimit_name self =
     (if accepting self then ''http_ingress_saturated'' else ''http_ingress_stopped'')"

definition ConnectionLimit_ready :: "'s semaphore_lib \<Rightarrow> 's ConnectionLimit \<Rightarrow> bool \<times> 's ConnectionLimit" where
  "ConnectionLimit_ready lib self =
     (if \<not> accepting self then (False, self)
      else let recover = recover_mark (cl_max self);
               free = sem_available lib (cl_permits self);
               ready = (if cl_has_headroom self then free > 0 else free \<ge> recover)
           in (ready, self \<lparr>cl_has_headroom := ready\<rparr>))"

definition unrecoverable :: "'s ConnectionLimit \<Rightarrow> bool" where
  "unrecoverable self \<longleftrightarrow> \<not> accepting self"

section \<open>Inbound requests\<close>

definition host_header :: "http_request \<Rightarrow> string" where
  "host_header req = (case Option.bind (req_host_header req) (\<lambda>h. h) of Some h \<Rightarrow> h | None \<Rightarrow> ''unknown'')"

text \<open>\<open>normalize_ingress_uri\<close>: whether the request is usable, and the request with the URI the
  guest sees. \<open>from_parts\<close> stands for \<open>Uri::from_parts\<close>, which may refuse the parts.\<close>

definition normalize_ingress_uri ::
  "url_lib \<Rightarrow> (string \<Rightarrow> string \<Rightarrow> string \<times> string option \<Rightarrow> bool) \<Rightarrow> http_request \<Rightarrow> string \<Rightarrow> bool \<times> http_request" where
  "normalize_ingress_uri lib from_parts req scheme =
     (let header_authority =
        (case req_host_header req of
           Some host \<Rightarrow>
             (case Option.bind host (authority_from_str lib) of
                Some authority \<Rightarrow> Ok (Some (auth_str authority))
              | None \<Rightarrow> Err ())
         | None \<Rightarrow> Ok None)
      in case header_authority of
           Err _ \<Rightarrow> (False, req)
         | Ok header_authority \<Rightarrow>
             let uri_authority = req_uri_authority req
             in if (case (header_authority, uri_authority) of
                      (Some header, Some uri) \<Rightarrow> \<not> eq_ignore_ascii_case header uri
                    | _ \<Rightarrow> False) then (False, req)
                else if req_path req = ''*'' then (True, req)
                else case or_else uri_authority header_authority of
                       None \<Rightarrow> (True, req)
                     | Some authority \<Rightarrow>
                         let path_and_query =
                           (case req_path_and_query req of Some pq \<Rightarrow> pq | None \<Rightarrow> (''/'', None))
                         in if from_parts scheme authority path_and_query
                            then (True, req \<lparr>req_uri_scheme := Some scheme,
                                             req_uri_authority := Some authority,
                                             req_path_and_query := Some path_and_query\<rparr>)
                            else (False, req))"

definition is_grpc_request :: "string option \<Rightarrow> bool" where
  "is_grpc_request content_type =
     (case content_type of Some ct \<Rightarrow> prefix ''application/grpc'' ct | None \<Rightarrow> False)"

section \<open>The ingress\<close>

text \<open>The router, the three handler tables, the local-routing switch, the quotas a locally
  routed call draws from, and the connection ceiling.\<close>

record ('s, 'h, 'j, 'm) Ingress =
  ig_router :: DynamicRouter
  ig_workload_handles :: "string \<rightharpoonup> 'h"
  ig_service_handlers :: "string \<rightharpoonup> 'j"
  ig_messaging_handlers :: "string \<rightharpoonup> 'm"
  ig_local_routing :: bool
  ig_quotas :: "'s QuotaRegistry"
  ig_connections :: "'s ConnectionLimit"

text \<open>What \<open>build\<close> makes of a builder's settings, with the default ceiling and the default
  quotas where they are not set.\<close>

definition Ingress_build ::
  "'s semaphore_lib \<Rightarrow> nat option \<Rightarrow> nat \<Rightarrow> bool \<Rightarrow> 's QuotaRegistry option \<Rightarrow> ('s, 'h, 'j, 'm) Ingress" where
  "Ingress_build lib max_connections default_ceiling local_routing quotas =
     \<lparr>ig_router = DynamicRouter_default, ig_workload_handles = Map.empty,
      ig_service_handlers = Map.empty, ig_messaging_handlers = Map.empty,
      ig_local_routing = local_routing,
      ig_quotas = (case quotas of Some q \<Rightarrow> q | None \<Rightarrow> QuotaRegistry_new lib QuotaLimits_default None),
      ig_connections = ConnectionLimit_new lib
        (case max_connections of Some m \<Rightarrow> m | None \<Rightarrow> default_ceiling)\<rparr>"

text \<open>Where an inbound request goes: an error response, the workload's service, or its
  component.\<close>

datatype ('h, 'j) dispatch = Respond nat | ToService string 'j | ToComponent string 'h

definition dispatch_request ::
  "(nat \<Rightarrow> nat) \<Rightarrow> url_lib \<Rightarrow> (string \<Rightarrow> string \<Rightarrow> string \<times> string option \<Rightarrow> bool) \<Rightarrow>
   ('s, 'h, 'j, 'm) Ingress \<Rightarrow> http_request \<Rightarrow> string \<Rightarrow> ('h, 'j) dispatch \<times> http_request" where
  "dispatch_request usize lib from_parts self req scheme =
     (case normalize_ingress_uri lib from_parts req scheme of
        (False, req) \<Rightarrow> (Respond 400, req)
      | (True, req) \<Rightarrow>
          (case DynamicRouter_route_incoming_request usize (ig_router self) req of
             Err e \<Rightarrow> (Respond (RouteError_status e), req)
           | Ok workload_id \<Rightarrow>
               (case ig_service_handlers self workload_id of
                  Some sender \<Rightarrow> (ToService workload_id sender, req)
                | None \<Rightarrow>
                    (case ig_workload_handles self workload_id of
                       Some handle \<Rightarrow> (ToComponent workload_id handle, req)
                     | None \<Rightarrow> (Respond 404, req)))))"

text \<open>What comes back over the service's channel: a send that fails because the instance is gone, a
  response, a failure of the handler, a dropped response channel, or nothing before the deadline.
  \<open>serve\<close> and \<open>invoke\<close> stand for the guests.\<close>

datatype 'r service_reply = NotRunning | Answered 'r | HandlerFailed | ResponseDropped | NoResponse

datatype 'r response = ErrorResponse nat | Response 'r

definition handle_http_request ::
  "(nat \<Rightarrow> nat) \<Rightarrow> url_lib \<Rightarrow> (string \<Rightarrow> string \<Rightarrow> string \<times> string option \<Rightarrow> bool) \<Rightarrow>
   ('j \<Rightarrow> http_request \<Rightarrow> 'r service_reply) \<Rightarrow> ('h \<Rightarrow> http_request \<Rightarrow> 'r option) \<Rightarrow>
   ('s, 'h, 'j, 'm) Ingress \<Rightarrow> http_request \<Rightarrow> string \<Rightarrow> 'r response" where
  "handle_http_request usize lib from_parts serve invoke self req scheme =
     (case dispatch_request usize lib from_parts self req scheme of
        (Respond status, _) \<Rightarrow> ErrorResponse status
      | (ToService _ sender, req) \<Rightarrow>
          (case serve sender req of
             NotRunning \<Rightarrow> ErrorResponse 503
           | Answered resp \<Rightarrow> Response resp
           | HandlerFailed \<Rightarrow> ErrorResponse 500
           | ResponseDropped \<Rightarrow> ErrorResponse 500
           | NoResponse \<Rightarrow> ErrorResponse 500)
      | (ToComponent _ handle, req) \<Rightarrow>
          (case invoke handle req of
             Some resp \<Rightarrow> Response resp
           | None \<Rightarrow> ErrorResponse 500))"

section \<open>Outgoing requests\<close>

datatype ('h, 'j) LocalTarget = LT_Service 'j | LT_Component 'h

text \<open>\<open>take_local_slot\<close>: a slot of the caller's allowance, recorded with the registry.\<close>

definition take_local_slot ::
  "'s semaphore_lib \<Rightarrow> ('s, 'h, 'j, 'm) Ingress \<Rightarrow> string \<Rightarrow> ConnectionSlot option \<times> ('s, 'h, 'j, 'm) Ingress" where
  "take_local_slot lib self caller =
     (let (q, r) = QuotaRegistry_for_guest lib caller (ig_quotas self);
          (slot, quota, g) = try_acquire_outbound_http lib (qr_minted r ! q) (qr_global r);
          r = r \<lparr>qr_minted := (qr_minted r)[q := quota], qr_global := g,
                 qr_slots := (case slot of Some slot \<Rightarrow> (q, slot) # qr_slots r | None \<Rightarrow> qr_slots r)\<rparr>
      in (slot, self \<lparr>ig_quotas := r\<rparr>))"

text \<open>Whether the two handler maps can be read right now, and whether a service's channel is
  closed.\<close>

record 'j handler_state =
  hs_services_readable :: bool
  hs_handles_readable :: bool
  hs_closed :: "'j \<Rightarrow> bool"

definition resolve_local_target ::
  "'j handler_state \<Rightarrow> ('s, 'h, 'j, 'm) Ingress \<Rightarrow> string \<Rightarrow> ('h, 'j) LocalTarget option" where
  "resolve_local_target hs self target =
     (case (if hs_services_readable hs then ig_service_handlers self target else None) of
        Some sender \<Rightarrow> if hs_closed hs sender then None else Some (LT_Service sender)
      | None \<Rightarrow>
          if hs_handles_readable hs then map_option LT_Component (ig_workload_handles self target)
          else None)"

text \<open>The closure of \<open>local_destination\<close> keeps whether a replica was offered and the destination
  it resolved last.\<close>

definition local_can_serve ::
  "'j handler_state \<Rightarrow> ('s, 'h, 'j, 'm) Ingress \<Rightarrow> bool \<times> (string \<times> ('h, 'j) LocalTarget) option \<Rightarrow> string \<Rightarrow>
   bool \<times> bool \<times> (string \<times> ('h, 'j) LocalTarget) option" where
  "local_can_serve hs self st workload =
     (case resolve_local_target hs self workload of
        Some destination \<Rightarrow> (True, (True, Some (workload, destination)))
      | None \<Rightarrow> (False, (True, snd st)))"

definition local_destination ::
  "(nat \<Rightarrow> nat) \<Rightarrow> 'j handler_state \<Rightarrow> ('s, 'h, 'j, 'm) Ingress \<Rightarrow> uri \<Rightarrow>
   (string \<times> ('h, 'j) LocalTarget) option" where
  "local_destination usize hs self uri =
     (if \<not> ig_local_routing self then None
      else case DynamicRouter_route_local_egress usize (ig_router self) uri
                  (local_can_serve hs self) (False, None) of
             (None, _) \<Rightarrow> None
           | (Some target, (_, resolved)) \<Rightarrow>
               (case resolved of
                  Some (workload, destination) \<Rightarrow>
                    if workload = target then Some (target, destination)
                    else map_option (Pair target) (resolve_local_target hs self target)
                | None \<Rightarrow> map_option (Pair target) (resolve_local_target hs self target)))"

text \<open>Which way an outgoing request goes. A local one carries the slot it took; \<open>None\<close> is the
  \<open>ConnectionLimitReached\<close> error.\<close>

datatype ('h, 'j) sent =
    Denied
  | Grpc
  | LocalDispatch string "('h, 'j) LocalTarget" "ConnectionSlot option"
  | Network

definition outgoing_request ::
  "'s semaphore_lib \<Rightarrow> (nat \<Rightarrow> nat) \<Rightarrow> 'j handler_state \<Rightarrow> ('s, 'h, 'j, 'm) Ingress \<Rightarrow> string \<Rightarrow> uri \<Rightarrow>
   string option \<Rightarrow> allowed_host list \<Rightarrow> ('h, 'j) sent \<times> ('s, 'h, 'j, 'm) Ingress" where
  "outgoing_request lib usize hs self workload_id uri content_type allowed_hosts =
     (if check_allowed_hosts uri allowed_hosts \<noteq> Ok () then (Denied, self)
      else if is_grpc_request content_type then (Grpc, self)
      else case local_destination usize hs self uri of
             Some (target, destination) \<Rightarrow>
               let (slot, self) = take_local_slot lib self workload_id
               in (LocalDispatch target destination slot, self)
           | None \<Rightarrow> (Network, self))"

section \<open>Registering handlers\<close>

text \<open>\<open>pre\<close> is what \<open>instantiate_pre\<close> and the lookups after it make of the component: nothing when
  that fails, otherwise a handle and whether the component exports \<open>wasi:http\<close>.\<close>

definition Ingress_on_workload_resolved ::
  "url_lib \<Rightarrow> ('s, 'h, 'j, 'm) Ingress \<Rightarrow> resolved_handle \<Rightarrow> ('h \<times> bool) option \<Rightarrow>
   bool \<times> ('s, 'h, 'j, 'm) Ingress" where
  "Ingress_on_workload_resolved lib self resolved_handle pre =
     (case DynamicRouter_on_workload_resolved lib (ig_router self) resolved_handle of
        (Err _, router) \<Rightarrow> (False, self \<lparr>ig_router := router\<rparr>)
      | (Ok _, router) \<Rightarrow>
          let self = self \<lparr>ig_router := router\<rparr>
          in case pre of
               None \<Rightarrow> (False, self)
             | Some (handle, exports_wasi_http) \<Rightarrow>
                 if exports_wasi_http
                 then (True, self \<lparr>ig_workload_handles :=
                        (ig_workload_handles self)(rh_id resolved_handle \<mapsto> handle)\<rparr>)
                 else (True, self))"

definition Ingress_on_workload_unbind ::
  "('s, 'h, 'j, 'm) Ingress \<Rightarrow> string \<Rightarrow> ('s, 'h, 'j, 'm) Ingress" where
  "Ingress_on_workload_unbind self workload_id =
     self \<lparr>ig_router := DynamicRouter_on_workload_unbind (ig_router self) workload_id,
           ig_workload_handles := (ig_workload_handles self)(workload_id := None),
           ig_service_handlers := (ig_service_handlers self)(workload_id := None),
           ig_messaging_handlers := (ig_messaging_handlers self)(workload_id := None)\<rparr>"

definition Ingress_on_service_http_resolved ::
  "('s, 'h, 'j, 'm) Ingress \<Rightarrow> string \<Rightarrow> IngressRoute list \<Rightarrow> 'j \<Rightarrow> ('s, 'h, 'j, 'm) Ingress" where
  "Ingress_on_service_http_resolved self workload_id routes sender =
     self \<lparr>ig_router := DynamicRouter_on_service_http_resolved (ig_router self) workload_id routes,
           ig_service_handlers := (ig_service_handlers self)(workload_id \<mapsto> sender)\<rparr>"

definition Ingress_on_service_http_unbind ::
  "('s, 'h, 'j, 'm) Ingress \<Rightarrow> string \<Rightarrow> ('s, 'h, 'j, 'm) Ingress" where
  "Ingress_on_service_http_unbind self workload_id =
     self \<lparr>ig_router := DynamicRouter_on_workload_unbind (ig_router self) workload_id,
           ig_service_handlers := (ig_service_handlers self)(workload_id := None)\<rparr>"

definition on_trigger_service_messaging_resolved ::
  "('s, 'h, 'j, 'm) Ingress \<Rightarrow> string \<Rightarrow> 'm \<Rightarrow> ('s, 'h, 'j, 'm) Ingress" where
  "on_trigger_service_messaging_resolved self workload_id sender =
     self \<lparr>ig_messaging_handlers := (ig_messaging_handlers self)(workload_id \<mapsto> sender)\<rparr>"

definition on_trigger_service_messaging_unbind ::
  "('s, 'h, 'j, 'm) Ingress \<Rightarrow> string \<Rightarrow> ('s, 'h, 'j, 'm) Ingress" where
  "on_trigger_service_messaging_unbind self workload_id =
     self \<lparr>ig_messaging_handlers := (ig_messaging_handlers self)(workload_id := None)\<rparr>"

definition has_trigger_service_messaging :: "('s, 'h, 'j, 'm) Ingress \<Rightarrow> string \<Rightarrow> bool" where
  "has_trigger_service_messaging self workload_id \<longleftrightarrow> ig_messaging_handlers self workload_id \<noteq> None"

text \<open>The release at the end of \<open>release_when_drained\<close>, and \<open>routed_workloads\<close>.\<close>

definition release_handlers :: "('s, 'h, 'j, 'm) Ingress \<Rightarrow> ('s, 'h, 'j, 'm) Ingress" where
  "release_handlers self =
     self \<lparr>ig_workload_handles := Map.empty, ig_service_handlers := Map.empty,
           ig_messaging_handlers := Map.empty\<rparr>"

definition routed_workloads :: "('s, 'h, 'j, 'm) Ingress \<Rightarrow> nat" where
  "routed_workloads self =
     card (dom (ig_workload_handles self)) + card (dom (ig_service_handlers self)) +
     card (dom (ig_messaging_handlers self))"

section \<open>The development router\<close>

text \<open>\<open>DevRouter\<close>: the last workload resolved, behind a lock that may be poisoned, or briefly
  held by a writer.\<close>

record DevRouter =
  dv_last_workload_id :: "string option"
  dv_poisoned :: bool

definition DevRouter_on_workload_resolved :: "DevRouter \<Rightarrow> string \<Rightarrow> bool \<times> DevRouter" where
  "DevRouter_on_workload_resolved self workload_id =
     (if dv_poisoned self then (False, self)
      else (True, self \<lparr>dv_last_workload_id := Some workload_id\<rparr>))"

definition DevRouter_on_workload_unbind :: "DevRouter \<Rightarrow> string \<Rightarrow> bool \<times> DevRouter" where
  "DevRouter_on_workload_unbind self workload_id =
     (if dv_poisoned self then (False, self)
      else if dv_last_workload_id self = Some workload_id
      then (True, self \<lparr>dv_last_workload_id := None\<rparr>)
      else (True, self))"

definition DevRouter_route_incoming_request :: "bool \<Rightarrow> DevRouter \<Rightarrow> (route_error, string) result" where
  "DevRouter_route_incoming_request readable self =
     (if \<not> readable \<or> dv_poisoned self then Err Unavailable
      else case dv_last_workload_id self of
             Some workload_id \<Rightarrow> Ok workload_id
           | None \<Rightarrow> Err (NoWorkloadForHost []))"

section \<open>A locally routed request\<close>

text \<open>\<open>LocalRequestInner\<close>: the slot, while it is held, and the upload. \<open>'u\<close> is the body the
  caller uploads.\<close>

datatype 'u LocalUpload = LU_Open 'u | LU_Done | LU_Closed

record 'u LocalRequest =
  lr_slot :: "ConnectionSlot option"
  lr_body :: "'u LocalUpload"

definition LocalRequest_new :: "ConnectionSlot \<Rightarrow> 'u \<Rightarrow> 'u LocalRequest" where
  "LocalRequest_new slot body = \<lparr>lr_slot = Some slot, lr_body = LU_Open body\<rparr>"

text \<open>\<open>fail\<close> returns the slot it drops.\<close>

definition LocalRequest_fail :: "'u LocalRequest \<Rightarrow> ConnectionSlot option \<times> 'u LocalRequest" where
  "LocalRequest_fail self =
     (lr_slot self,
      \<lparr>lr_slot = None, lr_body = (case lr_body self of LU_Open _ \<Rightarrow> LU_Closed | body \<Rightarrow> body)\<rparr>)"

definition finish_upload :: "'u LocalRequest \<Rightarrow> 'u LocalRequest" where
  "finish_upload self = self \<lparr>lr_body := LU_Done\<rparr>"

text \<open>What reading a body gives: nothing yet, a frame, an error, or its end.\<close>

datatype ('f, 'e) polled = Pending | Frame 'f | Failed 'e | Ended

datatype 'e read_error = Terminated | Upload 'e

text \<open>\<open>ended\<close> and \<open>poll\<close> are \<open>is_end_stream\<close> and \<open>poll_frame\<close> of the upload.\<close>

definition needs_drain :: "('u \<Rightarrow> bool) \<Rightarrow> 'u LocalRequest \<Rightarrow> bool \<times> 'u LocalRequest" where
  "needs_drain ended self =
     (if (case lr_body self of LU_Open body \<Rightarrow> \<not> ended body | _ \<Rightarrow> False) then (True, self)
      else (False, self \<lparr>lr_body := LU_Done\<rparr>))"

definition LocalRequest_poll_frame ::
  "('u \<Rightarrow> ('f, 'e) polled \<times> 'u) \<Rightarrow> 'u LocalRequest \<Rightarrow> ('f, 'e read_error) polled \<times> 'u LocalRequest" where
  "LocalRequest_poll_frame poll self =
     (case lr_body self of
        LU_Open inner \<Rightarrow>
          (case poll inner of
             (Pending, inner) \<Rightarrow> (Pending, self \<lparr>lr_body := LU_Open inner\<rparr>)
           | (Frame f, inner) \<Rightarrow> (Frame f, self \<lparr>lr_body := LU_Open inner\<rparr>)
           | (Failed e, _) \<Rightarrow> (Failed (Upload e), self \<lparr>lr_body := LU_Done\<rparr>)
           | (Ended, _) \<Rightarrow> (Ended, self \<lparr>lr_body := LU_Done\<rparr>))
      | LU_Done \<Rightarrow> (Ended, self)
      | LU_Closed \<Rightarrow> (Failed Terminated, self \<lparr>lr_body := LU_Done\<rparr>))"

definition LocalRequest_is_end_stream :: "('u \<Rightarrow> bool) \<Rightarrow> 'u LocalRequest \<Rightarrow> bool" where
  "LocalRequest_is_end_stream ended self =
     (case lr_body self of LU_Open body \<Rightarrow> ended body | LU_Done \<Rightarrow> True | LU_Closed \<Rightarrow> False)"

section \<open>The ceiling holds and readiness recovers\<close>

text \<open>A ceiling with the number of connections that hold a permit.\<close>

inductive limit_step :: "'s semaphore_lib \<Rightarrow> 's ConnectionLimit \<times> nat \<Rightarrow> 's ConnectionLimit \<times> nat \<Rightarrow> bool"
  for lib where
  held: "ConnectionLimit_take lib cl = (True, cl') \<Longrightarrow> limit_step lib (cl, n) (cl', Suc n)"
| shed: "ConnectionLimit_take lib cl = (False, cl') \<Longrightarrow> limit_step lib (cl, n) (cl', n)"
| closed: "limit_step lib (cl, Suc n) (connection_closed lib cl, n)"
| probed: "ConnectionLimit_ready lib cl = (b, cl') \<Longrightarrow> limit_step lib (cl, n) (cl', n)"
| stopped: "limit_step lib (cl, n) (stopped_accepting cl, n)"

definition limit_inv :: "'s semaphore_lib \<Rightarrow> nat \<Rightarrow> 's ConnectionLimit \<times> nat \<Rightarrow> bool" where
  "limit_inv lib m = (\<lambda>(cl, n). semaphore_laws lib \<and> cl_max cl = m \<and> sem_available lib (cl_permits cl) + n = m)"

lemma limit_inv_step:
  assumes "limit_inv lib m s" and "limit_step lib s s'"
  shows "limit_inv lib m s'"
  using assms(2,1)
proof (induction rule: limit_step.induct)
  case (held cl cl' n)
  then obtain s where "sem_try_acquire lib (cl_permits cl) = Some s" "cl_permits cl' = s" "cl_max cl' = cl_max cl"
    by (auto simp: ConnectionLimit_take_def split: option.splits)
  moreover from this held(2) have "Suc (sem_available lib s) = sem_available lib (cl_permits cl)"
    by (simp add: limit_inv_def semaphore_laws_def)
  ultimately show ?case using held(2) by (auto simp: limit_inv_def)
qed (auto simp: limit_inv_def ConnectionLimit_take_def connection_closed_def ConnectionLimit_ready_def
    stopped_accepting_def semaphore_laws_def Let_def split: option.splits if_splits)

interpretation ceiling: transition_system "limit_step lib" "limit_inv lib m" for lib m
  by unfold_locales (rule limit_inv_step)

lemma recover_mark_bounds: "1 \<le> m \<Longrightarrow> 1 \<le> recover_mark m \<and> recover_mark m \<le> m"
  by (simp add: recover_mark_def)

text \<open>
  C38. The ingress never holds more connections than its ceiling, and its readiness follows
  from the connections it holds: a host that was ready stays ready while one more connection
  fits; a host that was found full becomes ready again as soon as the recovery mark is free,
  which is at least one connection and never more than the ceiling, so an idle host is
  ready whatever happened before. A host whose accept loop has ended is not ready.
\<close>

theorem readiness_follows_the_held_connections:
  assumes laws: "semaphore_laws lib" and m: "1 \<le> m"
    and run: "(limit_step lib)\<^sup>*\<^sup>* (ConnectionLimit_new lib m, 0) (cl, n)"
  shows "n \<le> m \<and> 1 \<le> recover_mark m \<and> recover_mark m \<le> m \<and>
    fst (ConnectionLimit_ready lib cl) =
      (if accepting cl then n + (if cl_has_headroom cl then 1 else recover_mark m) \<le> m else False)"
proof -
  have "limit_inv lib m (ConnectionLimit_new lib m, 0)"
    using laws by (simp add: limit_inv_def ConnectionLimit_new_def semaphore_laws_def)
  from ceiling.inv_reachable [OF run this]
  have inv: "cl_max cl = m" "sem_available lib (cl_permits cl) + n = m" by (simp_all add: limit_inv_def)
  then have free: "sem_available lib (cl_permits cl) = m - n" by simp
  show ?thesis
    using inv recover_mark_bounds [OF m]
    by (auto simp: ConnectionLimit_ready_def Let_def free)
qed

theorem readiness_follows_the_held_connections_witness:
  "fst (ConnectionLimit_ready counter_lib (ConnectionLimit_new counter_lib 256))"
  using readiness_follows_the_held_connections [OF counter_lib_laws _ rtranclp.rtrancl_refl, of 256]
  by (simp add: ConnectionLimit_new_def accepting_def)

section \<open>Routing and the guest agree on the authority\<close>

text \<open>The documented behaviour of \<open>Authority::from_str\<close> the code relies on: the text is kept.\<close>

definition authority_text_law :: "url_lib \<Rightarrow> bool" where
  "authority_text_law lib \<longleftrightarrow> (\<forall>s a. authority_from_str lib s = Some a \<longrightarrow> auth_str a = s)"

lemma split_once_lower:
  assumes "\<And>x. lower_char x = c \<longleftrightarrow> x = c"
  shows "split_once c (to_ascii_lowercase s) =
    map_option (\<lambda>(a, b). (to_ascii_lowercase a, to_ascii_lowercase b)) (split_once c s)"
  by (induction s) (auto simp: assms option.map_comp comp_def split_def)

lemma rsplit_once_lower:
  assumes "\<And>x. lower_char x = c \<longleftrightarrow> x = c"
  shows "rsplit_once c (to_ascii_lowercase s) =
    map_option (\<lambda>(a, b). (to_ascii_lowercase a, to_ascii_lowercase b)) (rsplit_once c s)"
  by (induction s) (auto simp: assms split: option.splits)

lemma lower_punctuation:
  "lower_char x = CHR '']'' \<longleftrightarrow> x = CHR '']''" "lower_char x = CHR ''['' \<longleftrightarrow> x = CHR ''[''"
  by (rule lower_char_eq_iff; simp add: is_ascii_upper_def is_ascii_lower_def)+

lemma request_host_of_lower: "request_host (to_ascii_lowercase s) = request_host s"
proof -
  have "strip_prefix ''['' (to_ascii_lowercase s) = map_option to_ascii_lowercase (strip_prefix ''['' s)"
    by (cases s) (auto simp: strip_prefix_def lower_punctuation eq_commute [of "CHR ''[''"])
  then show ?thesis
    by (auto simp: request_host_lower header_host_port_def split_once_lower [OF lower_punctuation(1)]
        rsplit_once_lower [OF lower_separators(1)] split: option.splits)
qed

lemma request_host_cong: "eq_ignore_ascii_case a b \<Longrightarrow> request_host a = request_host b"
  by (metis eq_ignore_ascii_case_def request_host_of_lower)

lemma select_workload_host:
  "request_host a = request_host b \<Longrightarrow>
     select_workload usize r a path scope = select_workload usize r b path scope"
  by (simp add: select_workload_def select_serving_workload_def)



text \<open>What an inbound request is answered with when no guest answers it.\<close>

lemma ingress_error_statuses:
  "handle_http_request usize lib from_parts serve invoke ig req scheme = ErrorResponse status \<Longrightarrow>
   status \<in> {400, 404, 500, 503}"
proof -
  have "RouteError_status e \<in> {400, 404, 503}" for e by (cases e) simp_all
  then show "handle_http_request usize lib from_parts serve invoke ig req scheme = ErrorResponse status \<Longrightarrow> ?thesis"
    by (fastforce simp: handle_http_request_def dispatch_request_def
        split: prod.splits bool.splits sum.splits option.splits service_reply.splits dispatch.splits)
qed

section \<open>The short-circuit stays within the policy\<close>

lemma route_local_egress_Some:
  assumes inv: "router_inv r"
    and egress: "DynamicRouter_route_local_egress usize r uri can_serve st = (Some w, st')"
  shows "\<exists>host p st0. uri_host uri = Some host \<and> claims r (request_host host) p Local w \<and>
    most_specific (\<lambda>p. \<exists>w. claims r (request_host host) p Local w) (uri_path uri) p \<and>
    can_serve st0 w = (True, st')"
proof -
  obtain host where host: "uri_host uri = Some host"
    and sel: "select_serving_workload usize r host (uri_path uri) Local can_serve st = (Ok w, st')"
    using egress by (auto simp: DynamicRouter_route_local_egress_def split: if_splits option.splits sum.splits prod.splits)
  from sel obtain b where b: "find_bucket r host (uri_path uri) Local = Ok b"
    unfolding select_serving_find_bucket by (auto split: sum.splits)
  let ?n = "usize (length (pb_workloads b))"
  have "find_mut can_serve st (drop ?n (pb_workloads b) @ take ?n (pb_workloads b)) = (Some w, st')"
    using sel unfolding select_serving_find_bucket b Let_def by (auto split: prod.splits option.splits)
  from find_mut_Some [OF this] obtain st0 where w: "w \<in> set (pb_workloads b)" "can_serve st0 w = (True, st')"
    by (auto dest: in_set_dropD in_set_takeD)
  from find_bucket_spec [OF inv refl, where host = host and path = "uri_path uri" and scope = Local] b w host
  show ?thesis by auto
qed

lemma local_destination_Some:
  assumes inv: "router_inv (ig_router ig)" and "local_destination usize hs ig uri = Some (target, dest)"
  shows "ig_local_routing ig \<and> resolve_local_target hs ig target = Some dest \<and>
    (\<exists>host p. uri_host uri = Some host \<and> claims (ig_router ig) (request_host host) p Local target \<and>
      most_specific (\<lambda>p. \<exists>w. claims (ig_router ig) (request_host host) p Local w) (uri_path uri) p)"
proof -
  obtain m res where egress: "DynamicRouter_route_local_egress usize (ig_router ig) uri (local_can_serve hs ig) (False, None) = (Some target, (m, res))"
    and on: "ig_local_routing ig"
    and res: "(case res of Some (workload, destination) \<Rightarrow> if workload = target then Some (target, destination)
        else map_option (Pair target) (resolve_local_target hs ig target)
      | None \<Rightarrow> map_option (Pair target) (resolve_local_target hs ig target)) = Some (target, dest)"
    using assms(2) by (auto simp: local_destination_def Let_def split: if_splits prod.splits option.splits)
  from route_local_egress_Some [OF inv egress] obtain host p st0 where r: "uri_host uri = Some host"
    "claims (ig_router ig) (request_host host) p Local target"
    "most_specific (\<lambda>p. \<exists>w. claims (ig_router ig) (request_host host) p Local w) (uri_path uri) p"
    "local_can_serve hs ig st0 target = (True, (m, res))" by blast
  have "resolve_local_target hs ig target = Some dest"
    using r(4) res by (auto simp: local_can_serve_def split: option.splits)
  with on r(1-3) show ?thesis by blast
qed

lemma take_local_slot_quota:
  assumes inv: "quota_inv lib limits hw (ig_quotas ig)" and "take_local_slot lib ig caller = (slot, ig')"
  shows "quota_inv lib limits hw (ig_quotas ig') \<and> ig_router ig' = ig_router ig"
proof -
  obtain q r where f: "QuotaRegistry_for_guest lib caller (ig_quotas ig) = (q, r)" by fastforce
  obtain s quota g where t: "try_acquire_outbound_http lib (qr_minted r ! q) (qr_global r) = (s, quota, g)"
    by (metis prod_cases3)
  have r: "quota_inv lib limits hw r" by (rule quota_inv_looked_up [OF inv f])
  have q: "q < length (qr_minted r)"
    using f inv by (auto simp: QuotaRegistry_for_guest_def quota_inv_def split: option.splits)
  note acq = t [unfolded try_acquire_outbound_http_def]
  have "quota_inv lib limits hw (ig_quotas ig')"
    using assms(2) quota_inv_acquired [OF r q] quota_inv_refused [OF r q] acq
    by (cases s) (auto simp: take_local_slot_def f t)
  moreover have "ig_router ig' = ig_router ig"
    using assms(2) by (auto simp: take_local_slot_def f t)
  ultimately show ?thesis ..
qed

text \<open>What happens to an ingress: workloads come and go through its three doors, guests send
  requests, and the slots they hold are released while the registry's other users go on.\<close>

inductive ingress_step ::
  "'s semaphore_lib \<Rightarrow> url_lib \<Rightarrow> (string \<Rightarrow> WitInterface list) \<Rightarrow>
   ('s, 'h, 'j, 'm) Ingress \<Rightarrow> ('s, 'h, 'j, 'm) Ingress \<Rightarrow> bool"
  for slib lib ifaces where
  resolved: "Ingress_on_workload_resolved lib ig \<lparr>rh_id = w, rh_host_interfaces = ifaces w\<rparr> pre = (ok, ig') \<Longrightarrow>
    ingress_step slib lib ifaces ig ig'"
| unbound: "ingress_step slib lib ifaces ig (Ingress_on_workload_unbind ig w)"
| service: "http_ingress_routes lib (ifaces w) = Ok routes \<Longrightarrow>
    ingress_step slib lib ifaces ig (Ingress_on_service_http_resolved ig w routes sender)"
| service_unbound: "ingress_step slib lib ifaces ig (Ingress_on_service_http_unbind ig w)"
| messaging: "ingress_step slib lib ifaces ig (on_trigger_service_messaging_resolved ig w tx)"
| messaging_unbound: "ingress_step slib lib ifaces ig (on_trigger_service_messaging_unbind ig w)"
| sent: "outgoing_request slib usize hs ig caller uri content_type allowed = (way, ig') \<Longrightarrow>
    ingress_step slib lib ifaces ig ig'"
| quotas: "quota_step slib (ig_quotas ig) r \<Longrightarrow> ingress_step slib lib ifaces ig (ig \<lparr>ig_quotas := r\<rparr>)"
| released: "ingress_step slib lib ifaces ig (release_handlers ig)"

definition ingress_inv where
  "ingress_inv slib lib ifaces limits hw ig \<longleftrightarrow>
     routes_inv lib ifaces (ig_router ig) \<and> quota_inv slib limits hw (ig_quotas ig)"

lemma outgoing_request_kept:
  assumes "quota_inv slib limits hw (ig_quotas ig)"
    and "outgoing_request slib usize hs ig caller uri content_type allowed = (way, ig')"
  shows "quota_inv slib limits hw (ig_quotas ig') \<and> ig_router ig' = ig_router ig"
  using assms take_local_slot_quota [OF assms(1)]
  by (auto simp: outgoing_request_def split: if_splits option.splits prod.splits)

lemma Ingress_resolved_router:
  assumes "Ingress_on_workload_resolved lib ig h pre = (ok, ig')"
  shows "ig_router ig' = snd (DynamicRouter_on_workload_resolved lib (ig_router ig) h) \<and> ig_quotas ig' = ig_quotas ig"
  using assms by (auto simp: Ingress_on_workload_resolved_def Let_def split: prod.splits sum.splits option.splits if_splits)

lemma ingress_inv_step:
  assumes inv: "ingress_inv slib lib ifaces limits hw ig" and "ingress_step slib lib ifaces ig ig'"
  shows "ingress_inv slib lib ifaces limits hw ig'"
  using assms(2)
proof cases
  case (resolved w pre ok)
  note router = Ingress_resolved_router [OF this]
  have "router_step lib ifaces (ig_router ig)
      (snd (DynamicRouter_on_workload_resolved lib (ig_router ig) \<lparr>rh_id = w, rh_host_interfaces = ifaces w\<rparr>))"
    by (rule router_step.resolved) (rule prod.collapse [symmetric])
  with inv show ?thesis by (simp add: ingress_inv_def router) (blast intro: routes_inv_step)
next
  case (service w routes sender)
  with inv show ?thesis
    by (simp add: ingress_inv_def Ingress_on_service_http_resolved_def)
      (blast intro: routes_inv_step router_step.service)
next
  case (sent usize hs caller uri content_type allowed way)
  then have "quota_inv slib limits hw (ig_quotas ig') \<and> ig_router ig' = ig_router ig"
    using inv by (intro outgoing_request_kept) (simp_all add: ingress_inv_def)
  with inv show ?thesis by (simp add: ingress_inv_def)
next
  case (quotas r)
  with inv show ?thesis by (auto simp: ingress_inv_def intro: quota_inv_step)
qed (use inv in \<open>auto simp: ingress_inv_def Ingress_on_workload_unbind_def Ingress_on_service_http_unbind_def
    on_trigger_service_messaging_resolved_def on_trigger_service_messaging_unbind_def release_handlers_def
    DynamicRouter_on_workload_unbind_def routes_inv_unregister\<close>)

interpretation ingress: transition_system "ingress_step slib lib ifaces" "ingress_inv slib lib ifaces limits hw"
  for slib lib ifaces limits hw
  by unfold_locales (rule ingress_inv_step)

lemma ingress_inv_build:
  assumes "semaphore_laws slib"
  shows "ingress_inv slib lib ifaces limits hw
    (Ingress_build slib m d local_routing (Some (QuotaRegistry_new slib limits hw)))"
  using router_inv_default quota_inv_new [OF assms]
  by (simp add: ingress_inv_def Ingress_build_def routes_inv_def) (simp add: DynamicRouter_default_def)


definition demo_local_iface :: WitInterface where
  "demo_local_iface = demo_iface \<lparr>wi_config := [''localRoute'' \<mapsto> ''a.internal/v'']\<rparr>"

definition demo_url :: url where
  "demo_url = \<lparr>url_scheme = ''http'', url_username = [], url_password = None,
     url_host_str = Some ''a.internal'', url_port = None, url_port_or_known_default = Some 80,
     url_path = ''/v'', url_query = None, url_fragment = None, url_str = ''http://a.internal/v''\<rparr>"

definition demo_lib :: url_lib where
  "demo_lib = text_lib \<lparr>url_parse := (\<lambda>s. if s = ''http://a.internal/v'' then Some demo_url else None)\<rparr>"

definition demo_route :: IngressRoute where
  "demo_route = \<lparr>ir_host = ''a.internal'', ir_path_prefix = ''/v'', ir_scope = Local\<rparr>"

lemma demo_routes: "http_ingress_routes demo_lib [demo_local_iface] = Ok [demo_route]"
  by code_simp

definition demo_ingress :: "(nat, string, string, string) Ingress" where
  "demo_ingress = Ingress_on_service_http_resolved
     (Ingress_build counter_lib None 256 True (Some (QuotaRegistry_new counter_lib QuotaLimits_default None)))
     ''w1'' [demo_route] ''tx''"

definition demo_uri :: uri where
  "demo_uri = \<lparr>uri_host = Some ''A.internal'', uri_scheme_str = Some ''http'', uri_port_u16 = None, uri_path = ''/v/x''\<rparr>"

definition demo_out :: "(string, string) sent \<times> (nat, string, string, string) Ingress" where
  "demo_out = outgoing_request counter_lib (\<lambda>_. 0)
     \<lparr>hs_services_readable = True, hs_handles_readable = True, hs_closed = (\<lambda>_. False)\<rparr>
     demo_ingress ''w2'' demo_uri None [AH_Any]"

lemma demo_way:
  "fst demo_out = LocalDispatch ''w1'' (LT_Service ''tx'') (Some \<lparr>slot_surface = OutboundHttp, slot_global = False\<rparr>)"
  by code_simp

lemma demo_minted: "0 < length (qr_minted (ig_quotas (snd demo_out)))"
  by code_simp


section \<open>The slot of a local request\<close>

text \<open>A local request with the handles that share it (the response, the body the callee holds,
  the drain, the dispatch) and the number of times its slot was returned. The last handle to
  go drops what is left.\<close>

record 'u shared_request =
  sr_request :: "'u LocalRequest"
  sr_handles :: nat
  sr_returned :: nat

inductive local_step :: "('u \<Rightarrow> bool) \<Rightarrow> ('u \<Rightarrow> ('f, 'e) polled \<times> 'u) \<Rightarrow> 'u shared_request \<Rightarrow> 'u shared_request \<Rightarrow> bool"
  for ended poll where
  cloned: "0 < sr_handles s \<Longrightarrow> local_step ended poll s (s \<lparr>sr_handles := Suc (sr_handles s)\<rparr>)"
| failed: "0 < sr_handles s \<Longrightarrow> LocalRequest_fail (sr_request s) = (slot, r) \<Longrightarrow>
    local_step ended poll s (s \<lparr>sr_request := r,
      sr_returned := sr_returned s + (if slot = None then 0 else 1)\<rparr>)"
| finished: "0 < sr_handles s \<Longrightarrow> local_step ended poll s (s \<lparr>sr_request := finish_upload (sr_request s)\<rparr>)"
| drained: "0 < sr_handles s \<Longrightarrow> needs_drain ended (sr_request s) = (b, r) \<Longrightarrow>
    local_step ended poll s (s \<lparr>sr_request := r\<rparr>)"
| polled: "0 < sr_handles s \<Longrightarrow> LocalRequest_poll_frame poll (sr_request s) = (p, r) \<Longrightarrow>
    local_step ended poll s (s \<lparr>sr_request := r\<rparr>)"
| dropped: "1 < sr_handles s \<Longrightarrow> local_step ended poll s (s \<lparr>sr_handles := sr_handles s - 1\<rparr>)"
| last_dropped: "sr_handles s = 1 \<Longrightarrow>
    local_step ended poll s (s \<lparr>sr_handles := 0, sr_request := (sr_request s) \<lparr>lr_slot := None\<rparr>,
      sr_returned := sr_returned s + (if lr_slot (sr_request s) = None then 0 else 1)\<rparr>)"

definition local_inv :: "'u shared_request \<Rightarrow> bool" where
  "local_inv s \<longleftrightarrow> sr_returned s = (if lr_slot (sr_request s) = None then 1 else 0) \<and>
     (if sr_handles s = 0 then lr_slot (sr_request s) = None else True)"

lemma request_keeps_slot:
  "lr_slot (finish_upload r) = lr_slot r"
  "needs_drain ended r = (b, r') \<Longrightarrow> lr_slot r' = lr_slot r"
  "LocalRequest_poll_frame poll r = (p, r') \<Longrightarrow> lr_slot r' = lr_slot r"
  by (auto simp: finish_upload_def needs_drain_def LocalRequest_poll_frame_def
      split: LocalUpload.splits polled.splits prod.splits if_splits)

lemma local_inv_step:
  assumes inv: "local_inv s" and "local_step ended poll s s'"
  shows "local_inv s'"
  using assms(2) inv
  by cases (auto simp: local_inv_def request_keeps_slot LocalRequest_fail_def split: if_splits)

interpretation local_requests: transition_system "local_step ended poll" local_inv for ended poll
  by unfold_locales (rule local_inv_step)



text \<open>After a failure the holder of an upload that was still open reads a terminated
  connection, never a clean end.\<close>

lemma failed_upload_is_not_a_clean_end:
  assumes "lr_body r = LU_Open body"
  shows "fst (LocalRequest_poll_frame poll (snd (LocalRequest_fail r))) = Failed Terminated"
    and "\<not> LocalRequest_is_end_stream ended (snd (LocalRequest_fail r))"
  using assms by (simp_all add: LocalRequest_fail_def LocalRequest_poll_frame_def LocalRequest_is_end_stream_def)

end
