(* ===== verification/Plugin_Egress.thy ===== *)
theory Plugin_Egress
  imports Socket_Policy
begin

text \<open>
  The egress policy of native host plugins, \<open>plugin/egress.rs\<close>: the schemes that stand for one
  another, the check of an endpoint before a native client connects, and how it relates to
  the policy a workload's sockets are under.

  The \<open>url\<close> crate is the \<open>url_lib\<close> of \<open>Allowed_Hosts\<close>; parsing a request URI and parsing a NATS
  server address are parameters. A refusal is a value naming its cause; the message texts
  are left out, except for the redaction of credentials, which is modelled.
\<close>

section \<open>Schemes\<close>

definition SCHEME_ALIASES :: "string list list" where
  "SCHEME_ALIASES = [[''postgres'', ''postgresql''], [''redis'', ''valkey''], [''rediss'', ''valkeys'']]"

definition TLS_UPGRADES :: "(string \<times> string) list" where
  "TLS_UPGRADES = [(''rediss'', ''redis''), (''tls'', ''nats'')]"

definition aliases_of :: "string \<Rightarrow> string list" where
  "aliases_of scheme =
     scheme # (case find (list_ex (\<lambda>s. eq_ignore_ascii_case s scheme)) SCHEME_ALIASES of
                 Some aliases \<Rightarrow> aliases
               | None \<Rightarrow> [])"

text \<open>\<open>Vec::dedup_by\<close>: of neighbours that are the same, the first stays.\<close>

fun dedup_by :: "('a \<Rightarrow> 'a \<Rightarrow> bool) \<Rightarrow> 'a list \<Rightarrow> 'a list" where
  "dedup_by same (x # y # zs) =
     (if same y x then dedup_by same (x # zs) else x # dedup_by same (y # zs))"
| "dedup_by same xs = xs"

text \<open>The sort of the source is unstable; the schemes it reorders are equal but for their letter
  case, which nothing that follows tells apart.\<close>

definition admitting_schemes :: "string \<Rightarrow> string list" where
  "admitting_schemes scheme =
     (let schemes = aliases_of scheme;
          upgraded = find (\<lambda>(tls, _). list_ex (\<lambda>s. eq_ignore_ascii_case s tls) schemes) TLS_UPGRADES;
          schemes = (case upgraded of Some (_, plaintext) \<Rightarrow> schemes @ aliases_of plaintext | None \<Rightarrow> schemes)
      in dedup_by eq_ignore_ascii_case (sort_key to_ascii_lowercase schemes))"

definition scheme_permits :: "allowed_host \<Rightarrow> string list \<Rightarrow> bool" where
  "scheme_permits allowed admitting =
     (case allowed of
        AH_Url url \<Rightarrow> list_ex (\<lambda>s. eq_ignore_ascii_case s (url_scheme url)) admitting
      | _ \<Rightarrow> True)"

definition redact_userinfo :: "string \<Rightarrow> string" where
  "redact_userinfo server =
     (let (pre, rest) =
        (case split_once_str ''://'' server of
           Some (scheme, rest) \<Rightarrow> (scheme @ ''://'', rest)
         | None \<Rightarrow> ('''', server))
      in case rsplit_once (CHR ''@'') rest of
           Some (_, after) \<Rightarrow> pre @ ''***@'' @ after
         | None \<Rightarrow> server)"

section \<open>The policy\<close>

record PluginEgressPolicy =
  pe_allowed_hosts :: "allowed_host list"
  pe_allowed_ip_name_lookups :: "allowed_ip_name list"
  pe_allowed_host_loopback_ports :: "AllowedLoopbackPort list"
  pe_host_loopback_enabled :: bool
  pe_host_owned_ports :: bool
  pe_egress_addrs :: EgressAddressPolicy
  pe_egress_mode :: EgressMode
  pe_meters :: bool

definition PluginEgressPolicy_new ::
  "allowed_host list \<Rightarrow> allowed_ip_name list \<Rightarrow> AllowedLoopbackPort list \<Rightarrow> SocketPolicy \<Rightarrow> PluginEgressPolicy" where
  "PluginEgressPolicy_new allowed_hosts lookups loopback_ports socket_policy =
     \<lparr>pe_allowed_hosts = allowed_hosts, pe_allowed_ip_name_lookups = lookups,
      pe_allowed_host_loopback_ports = loopback_ports,
      pe_host_loopback_enabled = sp_host_loopback_enabled socket_policy,
      pe_host_owned_ports = sp_host_owned_ports socket_policy,
      pe_egress_addrs = sp_egress_addrs socket_policy,
      pe_egress_mode = sp_egress_mode socket_policy, pe_meters = sp_meters socket_policy\<rparr>"

definition same_declaration :: "PluginEgressPolicy \<Rightarrow> PluginEgressPolicy \<Rightarrow> bool" where
  "same_declaration self other \<longleftrightarrow>
     pe_allowed_hosts self = pe_allowed_hosts other \<and>
     pe_allowed_ip_name_lookups self = pe_allowed_ip_name_lookups other \<and>
     pe_allowed_host_loopback_ports self = pe_allowed_host_loopback_ports other \<and>
     pe_host_loopback_enabled self = pe_host_loopback_enabled other"

definition disabled_loopback_grants :: "PluginEgressPolicy \<Rightarrow> bool" where
  "disabled_loopback_grants self \<longleftrightarrow>
     \<not> pe_host_loopback_enabled self \<and> pe_allowed_host_loopback_ports self \<noteq> []"

datatype endpoint_denied =
    InvalidUrl
  | NoHost
  | InvalidHost
  | LoopbackDisabled
  | LoopbackPortNotPermitted
  | ReachesHostOwnedPort
  | Refused deny_reason
  | LookupDenied denial_cause
  | InvalidUri
  | InvalidNatsServer string

definition plugin_gate ::
  "PluginEgressPolicy \<Rightarrow> deny_reason \<Rightarrow> 's host_shared \<Rightarrow> (endpoint_denied, unit) result \<times> 's host_shared" where
  "plugin_gate self reason sh =
     (case pe_egress_mode self of
        Enforce \<Rightarrow> (Err (Refused reason), sh)
      | Count \<Rightarrow> (Ok (), if pe_meters self then sh \<lparr>sh_meters := record_would_deny reason (sh_meters sh)\<rparr> else sh))"

definition host_literal :: "url_host \<Rightarrow> ipaddr option" where
  "host_literal host = (case host of Ipv4 addr \<Rightarrow> Some (V4 addr) | Ipv6 addr \<Rightarrow> Some (V6 addr) | Domain _ \<Rightarrow> None)"

definition endpoint_is_loopback :: "string \<Rightarrow> ipaddr option \<Rightarrow> bool" where
  "endpoint_is_loopback host literal_ip \<longleftrightarrow>
     (case literal_ip of
        Some addr \<Rightarrow> let addr = to_canonical addr in is_loopback addr \<or> is_unspecified addr
      | None \<Rightarrow> False) \<or>
     eq_ignore_ascii_case (trim_end_matches (CHR ''.'') host) ''localhost''"

definition check_loopback_endpoint ::
  "PluginEgressPolicy \<Rightarrow> ipaddr option \<Rightarrow> protocol \<Rightarrow> u16 \<Rightarrow> 's host_shared \<Rightarrow> (endpoint_denied, unit) result" where
  "check_loopback_endpoint self literal_ip protocol port sh =
     (if \<not> pe_host_loopback_enabled self then Err LoopbackDisabled
      else if \<not> check_allowed_loopback (pe_allowed_host_loopback_ports self)
                  (sa_new (V4 v4_localhost) port) protocol then Err LoopbackPortNotPermitted
      else if pe_host_owned_ports self \<and>
              (let ipv4 = PortTable_is_published protocol (sa_new (V4 v4_localhost) port) (sh_ports sh);
                   ipv6 = PortTable_is_published protocol (sa_new (V6 v6_localhost) port) (sh_ports sh)
               in case map_option to_canonical literal_ip of
                    Some (V4 _) \<Rightarrow> ipv4
                  | Some (V6 _) \<Rightarrow> ipv6
                  | None \<Rightarrow> ipv4 \<or> ipv6) then Err ReachesHostOwnedPort
      else Ok ())"

definition check_literal_endpoint ::
  "PluginEgressPolicy \<Rightarrow> string list \<Rightarrow> ipaddr \<Rightarrow> u16 \<Rightarrow> 's host_shared \<Rightarrow>
   (endpoint_denied, unit) result \<times> 's host_shared" where
  "check_literal_endpoint self admitting ip port sh =
     (let addr = sa_new ip port;
          permitted = list_ex (\<lambda>allowed. AllowedHost_permits_client_addr allowed addr \<and>
                                         scheme_permits allowed admitting) (pe_allowed_hosts self)
      in case (if \<not> permitted then plugin_gate self NotPermitted sh else (Ok (), sh)) of
           (Err e, sh) \<Rightarrow> (Err e, sh)
         | (Ok _, sh) \<Rightarrow>
             if \<not> EgressAddressPolicy_permits (pe_egress_addrs self) ip
             then plugin_gate self BlockedRange sh
             else (Ok (), sh))"

text \<open>All of a list, or nothing.\<close>

fun collect_options :: "('a \<Rightarrow> 'b option) \<Rightarrow> 'a list \<Rightarrow> 'b list option" where
  "collect_options f [] = Some []"
| "collect_options f (x # xs) =
     (case f x of
        None \<Rightarrow> None
      | Some y \<Rightarrow> map_option ((#) y) (collect_options f xs))"

definition entry_permits_name :: "uri list \<Rightarrow> string option \<Rightarrow> u16 \<Rightarrow> allowed_host \<Rightarrow> bool" where
  "entry_permits_name uris name port allowed =
     (case allowed of
        AH_Any \<Rightarrow> True
      | _ \<Rightarrow> list_ex (AllowedHost_matches allowed) uris \<and>
             (case name of Some name \<Rightarrow> AllowedHost_permits_client_name allowed name port | None \<Rightarrow> False))"

definition check_named_endpoint ::
  "(string \<Rightarrow> uri option) \<Rightarrow> PluginEgressPolicy \<Rightarrow> string list \<Rightarrow> string \<Rightarrow> url_host \<Rightarrow> u16 \<Rightarrow> 's host_shared \<Rightarrow>
   (endpoint_denied, unit) result \<times> 's host_shared" where
  "check_named_endpoint parse_uri self admitting host parsed_host port sh =
     (if \<not> check_allowed_lookup (pe_allowed_ip_name_lookups self) (pe_allowed_hosts self) parsed_host
      then (Err (LookupDenied (lookup_denial (pe_allowed_hosts self) parsed_host)), sh)
      else case collect_options (\<lambda>scheme. parse_uri (scheme @ ''://'' @ host @ '':'' @ show_u16 port)) admitting of
             None \<Rightarrow> (Err InvalidUri, sh)
           | Some uris \<Rightarrow>
               if \<not> list_ex (entry_permits_name uris (normalize_name parsed_host) port) (pe_allowed_hosts self)
               then plugin_gate self NotPermitted sh
               else (Ok (), sh))"

definition check_url ::
  "url_lib \<Rightarrow> (string \<Rightarrow> uri option) \<Rightarrow> PluginEgressPolicy \<Rightarrow> string \<Rightarrow> protocol \<Rightarrow> u16 \<Rightarrow> 's host_shared \<Rightarrow>
   (endpoint_denied, unit) result \<times> 's host_shared" where
  "check_url lib parse_uri self target protocol dflt sh =
     (case url_parse lib target of
        None \<Rightarrow> (Err InvalidUrl, sh)
      | Some url \<Rightarrow>
          (case url_host_str url of
             None \<Rightarrow> (Err NoHost, sh)
           | Some host \<Rightarrow>
               let port = (case url_port_or_known_default url of Some port \<Rightarrow> port | None \<Rightarrow> dflt)
               in case host_parse lib host of
                    None \<Rightarrow> (Err InvalidHost, sh)
                  | Some parsed_host \<Rightarrow>
                      let literal_ip = host_literal parsed_host
                      in if endpoint_is_loopback host literal_ip
                         then (check_loopback_endpoint self literal_ip protocol port sh, sh)
                         else let admitting = admitting_schemes (url_scheme url)
                              in case literal_ip of
                                   Some ip \<Rightarrow> check_literal_endpoint self admitting ip port sh
                                 | None \<Rightarrow> check_named_endpoint parse_uri self admitting host parsed_host port sh))"

definition check_host_port ::
  "url_lib \<Rightarrow> (string \<Rightarrow> uri option) \<Rightarrow> PluginEgressPolicy \<Rightarrow> string \<Rightarrow> string \<Rightarrow> u16 \<Rightarrow> 's host_shared \<Rightarrow>
   (endpoint_denied, unit) result \<times> 's host_shared" where
  "check_host_port lib parse_uri self scheme host port sh =
     (let target =
        (case parse_ipv6_addr host of
           Some _ \<Rightarrow> scheme @ ''://['' @ host @ '']:'' @ show_u16 port
         | None \<Rightarrow> scheme @ ''://'' @ host @ '':'' @ show_u16 port)
      in check_url lib parse_uri self target Tcp port sh)"

text \<open>\<open>server_addr\<close> is \<open>async_nats::ServerAddr::from_str\<close>: scheme, host and port.\<close>

definition check_nats_server ::
  "url_lib \<Rightarrow> (string \<Rightarrow> uri option) \<Rightarrow> (string \<Rightarrow> (string \<times> string \<times> u16) option) \<Rightarrow> PluginEgressPolicy \<Rightarrow> string \<Rightarrow>
   's host_shared \<Rightarrow> (endpoint_denied, unit) result \<times> 's host_shared" where
  "check_nats_server lib parse_uri server_addr self server sh =
     (case server_addr server of
        None \<Rightarrow> (Err (InvalidNatsServer (redact_userinfo server)), sh)
      | Some (scheme, host, port) \<Rightarrow> check_host_port lib parse_uri self scheme host port sh)"

section \<open>What an admitted endpoint rests on\<close>

text \<open>The grants behind an endpoint the policy admits while it enforces.\<close>

definition endpoint_granted ::
  "PluginEgressPolicy \<Rightarrow> 's host_shared \<Rightarrow> string \<Rightarrow> string \<Rightarrow> url_host \<Rightarrow> protocol \<Rightarrow> u16 \<Rightarrow> bool" where
  "endpoint_granted p sh scheme host parsed protocol port =
     (if endpoint_is_loopback host (host_literal parsed)
      then pe_host_loopback_enabled p \<and>
           (\<exists>entry \<in> set (pe_allowed_host_loopback_ports p). lp_port entry = port \<and> lp_protocol entry = protocol) \<and>
           (if pe_host_owned_ports p \<and>
               map_option to_canonical (host_literal parsed) \<in> {None, Some (V4 v4_localhost)}
            then \<not> PortTable_is_published protocol (sa_new (V4 v4_localhost) port) (sh_ports sh) else True)
      else case host_literal parsed of
             Some ip \<Rightarrow>
               (\<exists>entry \<in> set (pe_allowed_hosts p). AllowedHost_permits_client_addr entry (sa_new ip port) \<and>
                  scheme_permits entry (admitting_schemes scheme)) \<and>
               EgressAddressPolicy_permits (pe_egress_addrs p) ip
           | None \<Rightarrow>
               check_allowed_lookup (pe_allowed_ip_name_lookups p) (pe_allowed_hosts p) parsed \<and>
               (\<exists>entry \<in> set (pe_allowed_hosts p). entry = AH_Any \<or>
                  (\<exists>name. normalize_name parsed = Some name \<and> AllowedHost_permits_client_name entry name port)))"

lemma plugin_gate_Enforce: "pe_egress_mode p = Enforce \<Longrightarrow> plugin_gate p reason sh = (Err (Refused reason), sh)"
  by (simp add: plugin_gate_def)

lemma literal_endpoint_Ok:
  assumes "pe_egress_mode p = Enforce" and "check_literal_endpoint p admitting ip port sh = (Ok (), sh')"
  shows "(\<exists>entry \<in> set (pe_allowed_hosts p). AllowedHost_permits_client_addr entry (sa_new ip port) \<and>
      scheme_permits entry admitting) \<and> EgressAddressPolicy_permits (pe_egress_addrs p) ip"
  using assms
  by (auto simp: check_literal_endpoint_def plugin_gate_Enforce Let_def list_ex_iff split: if_splits)

lemma named_endpoint_Ok:
  assumes "pe_egress_mode p = Enforce"
    and "check_named_endpoint parse_uri p admitting host parsed port sh = (Ok (), sh')"
  shows "check_allowed_lookup (pe_allowed_ip_name_lookups p) (pe_allowed_hosts p) parsed \<and>
    (\<exists>entry \<in> set (pe_allowed_hosts p). entry = AH_Any \<or>
       (\<exists>name. normalize_name parsed = Some name \<and> AllowedHost_permits_client_name entry name port))"
proof -
  have "entry = AH_Any \<or> (\<exists>name. normalize_name parsed = Some name \<and> AllowedHost_permits_client_name entry name port)"
    if "entry_permits_name uris (normalize_name parsed) port entry" for uris entry
    using that by (cases entry) (auto simp: entry_permits_name_def split: option.splits)
  then show ?thesis
    using assms
    by (auto simp: check_named_endpoint_def plugin_gate_Enforce list_ex_iff split: if_splits option.splits) blast+
qed

lemma loopback_endpoint_Ok:
  assumes "check_loopback_endpoint p literal_ip protocol port sh = Ok ()"
  shows "pe_host_loopback_enabled p \<and>
    (\<exists>entry \<in> set (pe_allowed_host_loopback_ports p). lp_port entry = port \<and> lp_protocol entry = protocol) \<and>
    (if pe_host_owned_ports p \<and> map_option to_canonical literal_ip \<in> {None, Some (V4 v4_localhost)}
     then \<not> PortTable_is_published protocol (sa_new (V4 v4_localhost) port) (sh_ports sh) else True)"
  using assms
  by (auto simp: check_loopback_endpoint_def check_allowed_loopback_def AllowedLoopbackPort_permits_def
      list_ex_iff split: if_splits)

text \<open>
  C28. While a host enforces its policy, a native plugin's endpoint is admitted only on the
  operator's grants: host loopback needs the host-wide switch and the port with its protocol,
  and \<open>localhost\<close> or 127.0.0.1 must not be a port the host itself published there;
  an address needs an entry for that address and port whose scheme admits the endpoint's,
  and an allowed range; a name needs a lookup grant and an entry for the name and port.
\<close>

theorem plugin_endpoint_is_granted:
  assumes "pe_egress_mode p = Enforce"
    and "url_parse lib target = Some url" and "url_host_str url = Some host" and "host_parse lib host = Some parsed"
    and "check_url lib parse_uri p target protocol dflt sh = (Ok (), sh')"
  shows "endpoint_granted p sh (url_scheme url) host parsed protocol
    (case url_port_or_known_default url of Some port \<Rightarrow> port | None \<Rightarrow> dflt)"
proof -
  let ?port = "case url_port_or_known_default url of Some port \<Rightarrow> port | None \<Rightarrow> dflt"
  show ?thesis
  proof (cases "endpoint_is_loopback host (host_literal parsed)")
    case True
    then have "check_loopback_endpoint p (host_literal parsed) protocol ?port sh = Ok ()"
      using assms by (auto simp: check_url_def Let_def)
    then show ?thesis
      unfolding endpoint_granted_def if_P [OF True] by (rule loopback_endpoint_Ok)
  next
    case False
    show ?thesis
    proof (cases "host_literal parsed")
      case None
      then have "check_named_endpoint parse_uri p (admitting_schemes (url_scheme url)) host parsed ?port sh = (Ok (), sh')"
        using assms False by (simp add: check_url_def Let_def)
      from named_endpoint_Ok [OF assms(1) this] None False show ?thesis by (simp add: endpoint_granted_def)
    next
      case (Some ip)
      then have "check_literal_endpoint p (admitting_schemes (url_scheme url)) ip ?port sh = (Ok (), sh')"
        using assms False by (simp add: check_url_def Let_def)
      from literal_endpoint_Ok [OF assms(1) this] Some False show ?thesis by (simp add: endpoint_granted_def)
    qed
  qed
qed


section \<open>Plugins and workloads under one policy\<close>

text \<open>
  C29. A plugin's policy and a workload's policy that carry the same list are made to mean the
  same: an address the plugin policy admits, outside the machine itself, a workload of the
  host may connect to as well, under the same range policy and with the same protocol.
\<close>

theorem plugin_endpoint_within_socket_policy:
  assumes mode: "sp_egress_mode sp = Enforce" and hosts: "sp_allowed_hosts sp = hosts"
    and p: "p = PluginEgressPolicy_new hosts lookups ports sp"
    and ok: "check_literal_endpoint p admitting ip port sh = (Ok (), sh')"
    and away: "\<not> is_host_sentinel ip" "\<not> is_loopback (to_canonical ip)" "\<not> is_unspecified (to_canonical ip)"
  shows "sh' = sh \<and> fst (resolve_connect clock sp (sa_new ip port) protocol history sh)
    = Ok (Route_standing (sa_new ip port) PlaneHost)"
proof -
  have enforce: "pe_egress_mode p = Enforce" by (simp add: p PluginEgressPolicy_new_def mode)
  from literal_endpoint_Ok [OF enforce ok] obtain entry where
    entry: "entry \<in> set hosts" "AllowedHost_permits_client_addr entry (sa_new ip port)"
    and range: "EgressAddressPolicy_permits (sp_egress_addrs sp) ip"
    by (auto simp: p PluginEgressPolicy_new_def)
  have "check_allowed_addr (sp_allowed_hosts sp) (sa_new ip port)"
    using entry client_addr_permitted by (auto simp: check_allowed_addr_def list_ex_iff hosts)
  then have "named_until clock sp (sa_new ip port) history = Some None" by (simp add: named_until_def)
  moreover have "sa_ip (sa_new ip port) = ip" by (cases ip) simp_all
  moreover have "sh' = sh"
    using ok by (auto simp: check_literal_endpoint_def plugin_gate_Enforce [OF enforce] Let_def split: if_splits)
  ultimately show ?thesis
    using away range by (simp add: resolve_connect_def resolve_egress_def Let_def Route_standing_def)
qed

definition plugin_demo :: PluginEgressPolicy where
  "plugin_demo = PluginEgressPolicy_new
     [AH_Authority \<lparr>auth_host = ''10.0.0.5'', auth_port_u16 = Some 5432, auth_str = ''10.0.0.5:5432''\<rparr>] []
     [AllowedLoopbackPort_tcp 4222] demo_policy"

definition demo_endpoint :: url where
  "demo_endpoint = \<lparr>url_scheme = ''postgres'', url_username = [], url_password = None,
     url_host_str = Some ''10.0.0.5'', url_port = Some 5432, url_port_or_known_default = Some 5432,
     url_path = [], url_query = None, url_fragment = None, url_str = ''postgres://10.0.0.5:5432''\<rparr>"

definition demo_url_lib :: url_lib where
  "demo_url_lib = \<lparr>scheme_from_str = (\<lambda>s. Some s), authority_from_str = (\<lambda>_. None),
     url_parse = (\<lambda>s. if s = ''postgres://10.0.0.5:5432'' then Some demo_endpoint else None),
     host_parse = (\<lambda>s. if s = ''10.0.0.5'' then Some (Ipv4 (Ipv4Addr 10 0 0 5)) else None)\<rparr>"

theorem plugin_endpoint_is_granted_witness:
  "endpoint_granted plugin_demo demo_shared ''postgres'' ''10.0.0.5'' (Ipv4 (Ipv4Addr 10 0 0 5)) Tcp 5432"
proof -
  have "fst (check_url demo_url_lib (\<lambda>_. None) plugin_demo ''postgres://10.0.0.5:5432'' Tcp 0 demo_shared) = Ok ()"
    by code_simp
  then have ok: "check_url demo_url_lib (\<lambda>_. None) plugin_demo ''postgres://10.0.0.5:5432'' Tcp 0 demo_shared =
      (Ok (), snd (check_url demo_url_lib (\<lambda>_. None) plugin_demo ''postgres://10.0.0.5:5432'' Tcp 0 demo_shared))"
    by (simp add: prod_eq_iff)
  from plugin_endpoint_is_granted [OF _ _ _ _ ok, of demo_endpoint "''10.0.0.5''" "Ipv4 (Ipv4Addr 10 0 0 5)"]
  show ?thesis
    by (simp add: demo_url_lib_def demo_endpoint_def plugin_demo_def PluginEgressPolicy_new_def demo_policy_def
        SocketPolicy_default_def)
qed

theorem plugin_endpoint_within_socket_policy_witness:
  "fst (resolve_connect 0 (demo_policy\<lparr>sp_allowed_hosts := pe_allowed_hosts plugin_demo\<rparr>)
     (SocketAddrV4 (Ipv4Addr 10 0 0 5) 5432) Tcp None demo_shared)
   = Ok (Route_standing (SocketAddrV4 (Ipv4Addr 10 0 0 5) 5432) PlaneHost)"
proof -
  let ?sp = "demo_policy\<lparr>sp_allowed_hosts := pe_allowed_hosts plugin_demo\<rparr>"
  let ?p = "PluginEgressPolicy_new (pe_allowed_hosts plugin_demo) [] [] ?sp"
  have "fst (check_literal_endpoint ?p [''postgres''] (V4 (Ipv4Addr 10 0 0 5)) 5432 demo_shared) = Ok ()" by code_simp
  then have ok: "check_literal_endpoint ?p [''postgres''] (V4 (Ipv4Addr 10 0 0 5)) 5432 demo_shared =
      (Ok (), snd (check_literal_endpoint ?p [''postgres''] (V4 (Ipv4Addr 10 0 0 5)) 5432 demo_shared))"
    by (simp add: prod_eq_iff)
  have "sp_egress_mode ?sp = Enforce" "\<not> is_host_sentinel (V4 (Ipv4Addr 10 0 0 5))"
    "\<not> is_loopback (to_canonical (V4 (Ipv4Addr 10 0 0 5)))" "\<not> is_unspecified (to_canonical (V4 (Ipv4Addr 10 0 0 5)))"
    by code_simp+
  from plugin_endpoint_within_socket_policy [OF this(1) _ refl ok this(2-4)] show ?thesis by simp
qed

section \<open>Schemes and loopback spellings\<close>

text \<open>A TLS endpoint is admitted by a plaintext entry, a plaintext endpoint never by a TLS entry.\<close>

lemma tls_upgrades_only:
  "admitting_schemes ''rediss'' = [''redis'', ''rediss'', ''valkey'', ''valkeys'']"
  "admitting_schemes ''valkeys'' = [''redis'', ''rediss'', ''valkey'', ''valkeys'']"
  "admitting_schemes ''redis'' = [''redis'', ''valkey'']"
  "admitting_schemes ''tls'' = [''nats'', ''tls'']"
  "admitting_schemes ''nats'' = [''nats'']"
  "admitting_schemes ''postgresql'' = [''postgres'', ''postgresql'']"
  by code_simp+

text \<open>The host-owned check asks the table about 127.0.0.1 and ::1 only. A port a host component
  plugin reserved on another loopback address, 127.0.0.2 say, is not found, and an endpoint
  naming that address is admitted.\<close>

lemma other_loopback_address_hides_owned_port:
  assumes "pe_host_loopback_enabled p" and "check_allowed_loopback (pe_allowed_host_loopback_ports p) (sa_new (V4 v4_localhost) port) protocol"
    and "PortTable_is_published protocol (SocketAddrV4 (Ipv4Addr 127 0 0 2) port) (sh_ports sh)"
    and "\<not> PortTable_is_published protocol (sa_new (V4 v4_localhost) port) (sh_ports sh)"
  shows "endpoint_is_loopback host (Some (V4 (Ipv4Addr 127 0 0 2)))"
    and "check_loopback_endpoint p (Some (V4 (Ipv4Addr 127 0 0 2))) protocol port sh = Ok ()"
  using assms by (simp_all add: endpoint_is_loopback_def check_loopback_endpoint_def Let_def)

text \<open>A redacted NATS address holds nothing that stood before its last at sign but the scheme.\<close>

lemma redacted_keeps_no_userinfo:
  assumes "CHR ''@'' \<notin> set host"
  shows "redact_userinfo (''nats://'' @ userinfo @ ''@'' @ host) = ''nats://***@'' @ host"
proof -
  have "rsplit_once (CHR ''@'') (userinfo @ CHR ''@'' # host) = Some (userinfo, host)"
    using assms by (simp add: rsplit_once_Some_iff)
  then show ?thesis by (simp add: redact_userinfo_def strip_prefix_def)
qed

end
