(* ===== verification/Host_Lifecycle.thy ===== *)
theory Host_Lifecycle
  imports Interfaces
begin

text \<open>
  The lifecycle of workloads on a host: the slots of \<open>Host\<close> in \<open>host/mod.rs\<close>, the recoveries of
  \<open>host/cleanup.rs\<close> that keep what a cancelled start or stop still owes, and the bounded start of
  \<open>washlet/mod.rs\<close>.

  Starts, stops, failures and recoveries run concurrently and only meet in two maps behind
  locks. Each section that runs under a lock is a function on the host; \<open>lifecycle_step\<close>
  interleaves the sections of any number of operations, with the awaits between them, their
  cancellation at any await, and releases that fail half-way. A resolved workload is a value
  of a type parameter; in the interleaved model it is the reservation of the start that built
  it, so that a binding can be told to be somebody else's. What the engine makes of a start,
  whether a release succeeds, and whether the memory guard admits a start are arguments.
\<close>

section \<open>Slots and statuses\<close>

type_synonym Reservation = u64

datatype 'w HostWorkload =
    Starting Reservation
  | Running 'w
  | Stopping Reservation
  | Failing Reservation string
  | Error string

datatype WorkloadState =
  WS_Unspecified | WS_Starting | WS_Running | WS_Completed | WS_Stopping | WS_Error | WS_NotFound

record WorkloadStatus =
  ws_workload_id :: string
  ws_workload_state :: WorkloadState
  ws_message :: string

fun HostWorkload_display :: "'w HostWorkload \<Rightarrow> string" where
  "HostWorkload_display (Starting _) = ''Starting''"
| "HostWorkload_display (Running _) = ''Running''"
| "HostWorkload_display (Stopping _) = ''Stopping''"
| "HostWorkload_display (Failing _ err) = ''Failing: '' @ err"
| "HostWorkload_display (Error err) = ''Error: '' @ err"

fun WorkloadState_from :: "'w HostWorkload \<Rightarrow> WorkloadState" where
  "WorkloadState_from (Starting _) = WS_Starting"
| "WorkloadState_from (Running _) = WS_Running"
| "WorkloadState_from (Stopping _) = WS_Stopping"
| "WorkloadState_from (Failing _ _) = WS_Stopping"
| "WorkloadState_from (Error _) = WS_Error"

datatype StopAction = Mark Reservation | Leave | Drop

text \<open>A recovery keeps the reservation of the operation it finishes. Its serial lock is part of
  the interleaved model below, the resources it releases are those bound under its workload.\<close>

record WorkloadRecovery =
  wr_reservation :: Reservation
  wr_retain_failure :: bool

record 'w Host =
  h_id :: string
  h_workloads :: "string \<rightharpoonup> 'w HostWorkload"
  h_recoveries :: "string \<rightharpoonup> WorkloadRecovery"
  h_reservations :: u64
  h_stopped :: bool
  h_plugins :: "string list"

definition Host_new :: "string \<Rightarrow> string list \<Rightarrow> 'w Host" where
  "Host_new host_id plugins =
     \<lparr>h_id = host_id, h_workloads = Map.empty, h_recoveries = Map.empty, h_reservations = 0,
      h_stopped = False, h_plugins = plugins\<rparr>"

abbreviation set_slot :: "string \<Rightarrow> 'w HostWorkload option \<Rightarrow> 'w Host \<Rightarrow> 'w Host" where
  "set_slot workload_id v self \<equiv> self \<lparr>h_workloads := (h_workloads self)(workload_id := v)\<rparr>"

abbreviation put :: "string \<Rightarrow> 'w HostWorkload \<Rightarrow> 'w Host \<Rightarrow> 'w Host" where
  "put workload_id slot \<equiv> set_slot workload_id (Some slot)"

abbreviation take_out :: "string \<Rightarrow> 'w Host \<Rightarrow> 'w Host" where
  "take_out workload_id \<equiv> set_slot workload_id None"

section \<open>Reservations and teardowns\<close>

text \<open>\<open>fetch_add\<close> returns the counter and increments it, wrapping around.\<close>

definition Host_reserve :: "'w Host \<Rightarrow> Reservation \<times> 'w Host" where
  "Host_reserve self = (h_reservations self, self \<lparr>h_reservations := h_reservations self + 1\<rparr>)"

definition or_reason :: "string option \<Rightarrow> string option \<Rightarrow> string option" where
  "or_reason reason failure = (case reason of Some r \<Rightarrow> Some r | None \<Rightarrow> failure)"

definition finish_teardown :: "'w Host \<Rightarrow> string \<Rightarrow> Reservation \<Rightarrow> string option \<Rightarrow> 'w Host" where
  "finish_teardown self workload_id reservation reason =
     (let close = (\<lambda>failure. case or_reason reason failure of
                     Some reason \<Rightarrow> put workload_id (Error reason) self
                   | None \<Rightarrow> take_out workload_id self)
      in case h_workloads self workload_id of
           Some (Stopping held) \<Rightarrow> if held = reservation then close None else self
         | Some (Failing held failure) \<Rightarrow> if held = reservation then close (Some failure) else self
         | _ \<Rightarrow> self)"

text \<open>The section of \<open>fail_workload\<close> under the lock: a running workload is taken out for a
  teardown under the failure's own reservation, a starting one is left to its start.\<close>

definition fail_mark :: "'w Host \<Rightarrow> string \<Rightarrow> Reservation \<Rightarrow> string \<Rightarrow> 'w option \<times> 'w Host" where
  "fail_mark self workload_id reservation reason =
     (case h_workloads self workload_id of
        Some (Running rw) \<Rightarrow> (Some rw, put workload_id (Stopping reservation) self)
      | Some (Starting held) \<Rightarrow> (None, put workload_id (Failing held reason) self)
      | _ \<Rightarrow> (None, self))"

text \<open>A failure releases whatever it took and publishes its reason whether or not the release
  worked.\<close>

definition fail_workload :: "'w Host \<Rightarrow> string \<Rightarrow> string \<Rightarrow> 'w Host" where
  "fail_workload self workload_id reason =
     (let (reservation, self) = Host_reserve self;
          (resolved, self) = fail_mark self workload_id reservation reason
      in case resolved of
           Some _ \<Rightarrow> finish_teardown self workload_id reservation (Some reason)
         | None \<Rightarrow> self)"

definition consume_workload_failures :: "'w Host \<Rightarrow> (string \<times> string) list \<Rightarrow> 'w Host" where
  "consume_workload_failures = foldl (\<lambda>host (workload_id, reason). fail_workload host workload_id reason)"

text \<open>\<open>Host::stop\<close> first closes the door and, after the plugins have stopped, forgets the
  recoveries that are left.\<close>

definition stop_admitting :: "'w Host \<Rightarrow> 'w Host" where
  "stop_admitting self = self \<lparr>h_stopped := True\<rparr>"

definition clear_recoveries :: "'w Host \<Rightarrow> 'w Host" where
  "clear_recoveries self = self \<lparr>h_recoveries := Map.empty\<rparr>"

section \<open>Recoveries\<close>

definition recorded :: "'w Host \<Rightarrow> string \<Rightarrow> WorkloadRecovery \<Rightarrow> bool" where
  "recorded self workload_id recovery \<longleftrightarrow>
     (case h_recoveries self workload_id of
        Some entry \<Rightarrow> wr_reservation entry = wr_reservation recovery
      | None \<Rightarrow> False)"

definition forget :: "'w Host \<Rightarrow> string \<Rightarrow> WorkloadRecovery \<Rightarrow> 'w Host" where
  "forget self workload_id recovery =
     (if recorded self workload_id recovery
      then self \<lparr>h_recoveries := (h_recoveries self)(workload_id := None)\<rparr> else self)"

text \<open>The drop of an armed guard.\<close>

definition guard_drop :: "'w Host \<Rightarrow> string \<Rightarrow> Reservation \<Rightarrow> bool \<Rightarrow> 'w Host" where
  "guard_drop self workload_id reservation retain_failure =
     self \<lparr>h_recoveries := (h_recoveries self)(workload_id \<mapsto>
       \<lparr>wr_reservation = reservation, wr_retain_failure = retain_failure\<rparr>)\<rparr>"

text \<open>The first section of \<open>recover\<close>: nothing when the teardown is to go on, otherwise what the
  attempt ends with.\<close>

definition lost_reservation_message :: string where
  "lost_reservation_message = ''interrupted operation no longer owns its workload reservation''"

definition recovery_mark ::
  "'w Host \<Rightarrow> string \<Rightarrow> WorkloadRecovery \<Rightarrow> (string, unit) result option \<times> 'w Host" where
  "recovery_mark self workload_id recovery =
     (let mine = (\<lambda>held. held = wr_reservation recovery);
          lost = (Some (Err lost_reservation_message),
                  forget self workload_id recovery);
          mark = (None, put workload_id (Stopping (wr_reservation recovery)) self)
      in case h_workloads self workload_id of
           None \<Rightarrow> (Some (Ok ()), forget self workload_id recovery)
         | Some (Failing held _) \<Rightarrow>
             if mine held \<and> wr_retain_failure recovery then (None, self)
             else if mine held then mark else lost
         | Some (Starting held) \<Rightarrow> if mine held then mark else lost
         | Some (Stopping held) \<Rightarrow> if mine held then mark else lost
         | Some _ \<Rightarrow> lost)"

definition recover_finish :: "'w Host \<Rightarrow> string \<Rightarrow> WorkloadRecovery \<Rightarrow> 'w Host" where
  "recover_finish self workload_id recovery =
     (case h_workloads self workload_id of
        Some (Stopping held) \<Rightarrow>
          if held = wr_reservation recovery
          then take_out workload_id (forget self workload_id recovery) else self
      | Some (Failing held reason) \<Rightarrow>
          if held = wr_reservation recovery
          then put workload_id (Error reason) (forget self workload_id recovery) else self
      | _ \<Rightarrow> self)"

definition recover ::
  "'w Host \<Rightarrow> string \<Rightarrow> WorkloadRecovery \<Rightarrow> (string, unit) result \<Rightarrow> (string, unit) result \<times> 'w Host" where
  "recover self workload_id recovery release =
     (if \<not> recorded self workload_id recovery then (Ok (), self)
      else case recovery_mark self workload_id recovery of
             (Some ended, self) \<Rightarrow> (ended, self)
           | (None, self) \<Rightarrow>
               (case release of
                  Err error \<Rightarrow> (Err error, self)
                | Ok _ \<Rightarrow> (Ok (), recover_finish self workload_id recovery)))"

text \<open>How long the background task of a dropped guard waits before its next attempt, in
  milliseconds.\<close>

definition RECOVERY_RETRY_INITIAL :: nat where
  "RECOVERY_RETRY_INITIAL = 250"

definition RECOVERY_RETRY_MAX :: nat where
  "RECOVERY_RETRY_MAX = 30000"

text \<open>The retry loop on the outcomes its attempts will have: the waits it makes, ending with the
  first attempt that succeeds.\<close>

fun retry_waits :: "nat \<Rightarrow> (string, unit) result list \<Rightarrow> nat list" where
  "retry_waits backoff (Err _ # attempts) =
     backoff # retry_waits (min (backoff * 2) RECOVERY_RETRY_MAX) attempts"
| "retry_waits backoff _ = []"

section \<open>The operations of the host API\<close>

definition workload_status :: "'w Host \<Rightarrow> string \<Rightarrow> WorkloadStatus" where
  "workload_status self workload_id =
     (case h_workloads self workload_id of
        Some workload \<Rightarrow>
          \<lparr>ws_workload_id = workload_id, ws_workload_state = WorkloadState_from workload,
           ws_message = (case workload of Error reason \<Rightarrow> reason | _ \<Rightarrow> '''')\<rparr>
      | None \<Rightarrow>
          \<lparr>ws_workload_id = workload_id, ws_workload_state = WS_NotFound,
           ws_message = ''Workload not found: '' @ workload_id\<rparr>)"

text \<open>The section of \<open>workload_stop\<close> under the lock.\<close>

definition stop_action :: "'w Host \<Rightarrow> string \<Rightarrow> Reservation \<Rightarrow> StopAction" where
  "stop_action self workload_id reservation =
     (case h_workloads self workload_id of
        Some (Running _) \<Rightarrow> Mark reservation
      | Some (Starting held) \<Rightarrow> Mark held
      | Some (Failing held _) \<Rightarrow> Mark held
      | Some (Stopping _) \<Rightarrow> Leave
      | Some (Error _) \<Rightarrow> Drop
      | None \<Rightarrow> Drop)"

definition stop_mark :: "'w Host \<Rightarrow> string \<Rightarrow> Reservation \<Rightarrow> 'w option \<times> 'w Host" where
  "stop_mark self workload_id reservation =
     (case stop_action self workload_id reservation of
        Mark held \<Rightarrow>
          (case h_workloads self workload_id of Some (Running rw) \<Rightarrow> Some rw | _ \<Rightarrow> None,
           put workload_id (Stopping held) self)
      | Leave \<Rightarrow> (None, self)
      | Drop \<Rightarrow> (None, take_out workload_id self))"

definition collect_error :: "'w Host \<Rightarrow> string \<Rightarrow> 'w Host" where
  "collect_error self workload_id =
     (case h_workloads self workload_id of
        Some (Error _) \<Rightarrow> take_out workload_id self
      | _ \<Rightarrow> self)"

definition workload_stop ::
  "'w Host \<Rightarrow> string \<Rightarrow> (string, unit) result \<Rightarrow> WorkloadStatus \<times> 'w Host" where
  "workload_stop self workload_id release =
     (let reply = (\<lambda>state message.
            \<lparr>ws_workload_id = workload_id, ws_workload_state = state, ws_message = message\<rparr>)
      in case h_recoveries self workload_id of
           Some recovery \<Rightarrow>
             let (recovered, self) = recover self workload_id recovery release;
                 message = (case recovered of
                     Ok _ \<Rightarrow> ''interrupted workload resources released''
                   | Err error \<Rightarrow> ''interrupted workload cleanup failed and is being retried: '' @ error)
             in (reply WS_Stopping message, collect_error self workload_id)
         | None \<Rightarrow>
             if h_workloads self workload_id = None then (reply WS_NotFound ''Workload not found'', self)
             else
               let (reservation, self) = Host_reserve self;
                   (resolved, self) = stop_mark self workload_id reservation;
                   done = reply WS_Stopping ''Workload stopped successfully''
               in case resolved of
                    None \<Rightarrow> (done, self)
                  | Some _ \<Rightarrow>
                      (case release of
                         Ok _ \<Rightarrow> (done, finish_teardown self workload_id reservation None)
                       | Err error \<Rightarrow>
                           (reply WS_Stopping (''workload cleanup failed and is being retried: '' @ error),
                            guard_drop self workload_id reservation False)))"

text \<open>Why a reservation is refused.\<close>

definition stopped_message :: "string \<Rightarrow> string" where
  "stopped_message host_id = ''Host ['' @ host_id @ ''] is stopped and accepts no new workloads''"

definition plugin_id_message :: "string \<Rightarrow> string" where
  "plugin_id_message workload_id =
     ''Workload ID ['' @ workload_id @ ''] is reserved by host plugin ['' @ workload_id @ '']''"

definition existing_id_message :: "string \<Rightarrow> string" where
  "existing_id_message workload_id =
     ''Workload ID ['' @ workload_id @
     ''] already exists (the existing workload must be stopped to reuse the ID)''"

definition workload_reserve ::
  "(string, unit) result \<Rightarrow> 'w Host \<Rightarrow> string \<Rightarrow> (string, Reservation) result \<times> 'w Host" where
  "workload_reserve admit_start self workload_id =
     (let (reservation, self) = Host_reserve self
      in if h_stopped self then (Err (stopped_message (h_id self)), self)
         else if workload_id \<in> set (h_plugins self) then (Err (plugin_id_message workload_id), self)
         else if h_workloads self workload_id \<noteq> None then (Err (existing_id_message workload_id), self)
         else case admit_start of
                Err message \<Rightarrow> (Err message, self)
              | Ok _ \<Rightarrow> (Ok reservation, put workload_id (Starting reservation) self))"

definition workload_release :: "'w Host \<Rightarrow> string \<Rightarrow> Reservation \<Rightarrow> 'w Host" where
  "workload_release self workload_id reservation =
     (case h_workloads self workload_id of
        Some (Starting held) \<Rightarrow> if held = reservation then take_out workload_id self else self
      | Some (Stopping held) \<Rightarrow> if held = reservation then take_out workload_id self else self
      | Some (Failing held reason) \<Rightarrow>
          if held = reservation then put workload_id (Error reason) self else self
      | _ \<Rightarrow> self)"

text \<open>The section of a start that commits it: the state and the message to answer with, and
  whether what was built is to be released.\<close>

definition start_commit ::
  "'w Host \<Rightarrow> string \<Rightarrow> Reservation \<Rightarrow> (string, 'w) result \<Rightarrow> (WorkloadState \<times> string \<times> bool) \<times> 'w Host" where
  "start_commit self workload_id reservation started =
     (let slot = h_workloads self workload_id;
          mine = (slot = Some (Starting reservation));
          failed_reason = (case slot of
              Some (Failing held reason) \<Rightarrow> if held = reservation then Some reason else None
            | _ \<Rightarrow> None)
      in case started of
           Ok resolved \<Rightarrow>
             if mine then ((WS_Running, ''Workload started successfully'', False),
                           put workload_id (Running resolved) self)
             else (case failed_reason of
                     Some reason \<Rightarrow> ((WS_Error, reason, True), self)
                   | None \<Rightarrow> ((WS_Stopping, ''Workload was stopped while starting'', True), self))
         | Err message \<Rightarrow>
             ((WS_Error, message, True),
              if mine then put workload_id (Failing reservation message) self else self))"

definition workload_start_reserved ::
  "'w Host \<Rightarrow> Reservation \<Rightarrow> string \<Rightarrow> (string, 'w) result \<Rightarrow> (string, unit) result \<Rightarrow>
   WorkloadStatus \<times> 'w Host" where
  "workload_start_reserved self reservation workload_id started release =
     (let ((workload_state, message, release_start_resources), self) =
            start_commit self workload_id reservation started
      in (\<lparr>ws_workload_id = workload_id, ws_workload_state = workload_state, ws_message = message\<rparr>,
          if release_start_resources then
            (case release of
               Ok _ \<Rightarrow> finish_teardown self workload_id reservation None
             | Err _ \<Rightarrow> guard_drop self workload_id reservation True)
          else self))"

definition workload_start ::
  "(string, unit) result \<Rightarrow> 'w Host \<Rightarrow> string \<Rightarrow> (string, 'w) result \<Rightarrow> (string, unit) result \<Rightarrow>
   WorkloadStatus \<times> 'w Host" where
  "workload_start admit_start self workload_id started release =
     (case workload_reserve admit_start self workload_id of
        (Ok reservation, self) \<Rightarrow> workload_start_reserved self reservation workload_id started release
      | (Err message, self) \<Rightarrow>
          (\<lparr>ws_workload_id = workload_id, ws_workload_state = WS_Error, ws_message = message\<rparr>, self))"

text \<open>How a start the control plane asked for goes, under its time limit: preparing it fails, it
  runs, or the limit expires in one of the two halves. Dropping the native half drops its armed
  guard.\<close>

datatype 'w start_attempt =
    PrepareFailed string
  | Native "(string, 'w) result" "(string, unit) result"
  | ExpiredPreparing
  | ExpiredNative

definition start_bounded ::
  "'w Host \<Rightarrow> string \<Rightarrow> Reservation \<Rightarrow> 'w start_attempt \<Rightarrow> string \<Rightarrow> WorkloadStatus \<times> 'w Host" where
  "start_bounded self workload_id reservation attempt limit =
     (let workload_start_error = (\<lambda>message.
            \<lparr>ws_workload_id = workload_id, ws_workload_state = WS_Error, ws_message = message\<rparr>);
          expired = workload_start_error (''timed out starting workload after '' @ limit)
      in case attempt of
           Native started release \<Rightarrow> workload_start_reserved self reservation workload_id started release
         | PrepareFailed message \<Rightarrow>
             (workload_start_error message, workload_release self workload_id reservation)
         | ExpiredPreparing \<Rightarrow> (expired, workload_release self workload_id reservation)
         | ExpiredNative \<Rightarrow> (expired, guard_drop self workload_id reservation False))"

section \<open>Concurrent operations\<close>

text \<open>An operation in progress, by its reservation: a start before and after its guard passed to
  the native half, a start, stop or failure that releases what was built, and a teardown whose
  release is over. Only a failure carries the reason it will publish.\<close>

datatype phase = Reserved | Building | StartReleasing | StopReleasing | FailReleasing string
  | Finishing "string option"

datatype attempt_phase = Entered | Releasing | Released

text \<open>The host with the operations in progress, the attempts of recoveries, by the reservation whose
  serial lock they hold, what is bound under which workload by which start, the workloads a
  failure released without success, and whether \<open>Host::stop\<close> has forgotten recoveries.\<close>

record world =
  wd_host :: "Reservation Host"
  wd_tasks :: "Reservation \<rightharpoonup> string \<times> phase"
  wd_attempts :: "Reservation \<rightharpoonup> string \<times> WorkloadRecovery \<times> attempt_phase"
  wd_bound :: "(string \<times> Reservation) set"
  wd_leaked :: "string set"
  wd_cleared :: bool

definition world_init :: "string \<Rightarrow> string list \<Rightarrow> world" where
  "world_init host_id plugins =
     \<lparr>wd_host = Host_new host_id plugins, wd_tasks = Map.empty, wd_attempts = Map.empty,
      wd_bound = {}, wd_leaked = {}, wd_cleared = False\<rparr>"

text \<open>A release unbinds by workload: whatever is bound under it goes, whoever bound it.\<close>

definition unbind_all :: "string \<Rightarrow> (string \<times> Reservation) set \<Rightarrow> (string \<times> Reservation) set" where
  "unbind_all workload_id bound = {x \<in> bound. fst x \<noteq> workload_id}"

text \<open>The 64-bit counter has not come to its end.\<close>

definition can_mint :: "world \<Rightarrow> bool" where
  "can_mint s \<longleftrightarrow> h_reservations (wd_host s) + 1 \<noteq> 0"

text \<open>The phases an armed guard watches over.\<close>

fun guarded :: "phase \<Rightarrow> bool" where
  "guarded (FailReleasing _) = False"
| "guarded (Finishing (Some _)) = False"
| "guarded _ = True"

fun releasing :: "phase \<Rightarrow> bool" where
  "releasing StartReleasing = True"
| "releasing StopReleasing = True"
| "releasing (FailReleasing _) = True"
| "releasing _ = False"

fun publishes :: "phase \<Rightarrow> string option" where
  "publishes (FailReleasing reason) = Some reason"
| "publishes _ = None"

inductive lifecycle_step :: "world \<Rightarrow> world \<Rightarrow> bool" where
  reserve: "can_mint s \<Longrightarrow> workload_reserve admit (wd_host s) w = (Ok r, h) \<Longrightarrow>
    lifecycle_step s (s \<lparr>wd_host := h, wd_tasks := (wd_tasks s)(r \<mapsto> (w, Reserved))\<rparr>)"
| refuse: "can_mint s \<Longrightarrow> workload_reserve admit (wd_host s) w = (Err m, h) \<Longrightarrow>
    lifecycle_step s (s \<lparr>wd_host := h\<rparr>)"
| give_back: "wd_tasks s r = Some (w, Reserved) \<Longrightarrow>
    lifecycle_step s (s \<lparr>wd_host := workload_release (wd_host s) w r, wd_tasks := (wd_tasks s)(r := None)\<rparr>)"
| begin_native: "wd_tasks s r = Some (w, Reserved) \<Longrightarrow>
    lifecycle_step s (s \<lparr>wd_tasks := (wd_tasks s)(r \<mapsto> (w, Building))\<rparr>)"
| bind: "wd_tasks s r = Some (w, Building) \<Longrightarrow>
    lifecycle_step s (s \<lparr>wd_bound := insert (w, r) (wd_bound s)\<rparr>)"
| commit: "wd_tasks s r = Some (w, Building) \<Longrightarrow> started = Ok r \<and> (w, r) \<in> wd_bound s \<or> started = Err m \<Longrightarrow>
    start_commit (wd_host s) w r started = ((state, message, release), h) \<Longrightarrow>
    lifecycle_step s (s \<lparr>wd_host := h,
      wd_tasks := (wd_tasks s)(r := if release then Some (w, StartReleasing) else None)\<rparr>)"
| start_release_fails: "wd_tasks s r = Some (w, StartReleasing) \<Longrightarrow>
    lifecycle_step s (s \<lparr>wd_host := guard_drop (wd_host s) w r True, wd_tasks := (wd_tasks s)(r := None)\<rparr>)"
| cancelled: "wd_tasks s r = Some (w, p) \<Longrightarrow> guarded p \<Longrightarrow>
    lifecycle_step s (s \<lparr>wd_host := guard_drop (wd_host s) w r False, wd_tasks := (wd_tasks s)(r := None)\<rparr>)"
| stop_takes: "can_mint s \<Longrightarrow> Host_reserve (wd_host s) = (r, h) \<Longrightarrow> stop_mark h w r = (Some b, h') \<Longrightarrow>
    lifecycle_step s (s \<lparr>wd_host := h', wd_tasks := (wd_tasks s)(r \<mapsto> (w, StopReleasing))\<rparr>)"
| stop_marks: "can_mint s \<Longrightarrow> Host_reserve (wd_host s) = (r, h) \<Longrightarrow> stop_mark h w r = (None, h') \<Longrightarrow>
    lifecycle_step s (s \<lparr>wd_host := h'\<rparr>)"
| collect: "lifecycle_step s (s \<lparr>wd_host := collect_error (wd_host s) w\<rparr>)"
| fail_takes: "can_mint s \<Longrightarrow> Host_reserve (wd_host s) = (r, h) \<Longrightarrow> fail_mark h w r reason = (Some b, h') \<Longrightarrow>
    lifecycle_step s (s \<lparr>wd_host := h', wd_tasks := (wd_tasks s)(r \<mapsto> (w, FailReleasing reason))\<rparr>)"
| fail_marks: "can_mint s \<Longrightarrow> Host_reserve (wd_host s) = (r, h) \<Longrightarrow> fail_mark h w r reason = (None, h') \<Longrightarrow>
    lifecycle_step s (s \<lparr>wd_host := h'\<rparr>)"
| release_part: "wd_tasks s r = Some (w, p) \<and> releasing p \<or> wd_attempts s r = Some (w, rec, Releasing) \<Longrightarrow>
    unbind_all w (wd_bound s) \<subseteq> bound \<Longrightarrow> bound \<subseteq> wd_bound s \<Longrightarrow>
    lifecycle_step s (s \<lparr>wd_bound := bound\<rparr>)"
| released: "wd_tasks s r = Some (w, p) \<Longrightarrow> releasing p \<Longrightarrow>
    lifecycle_step s (s \<lparr>wd_bound := unbind_all w (wd_bound s),
      wd_tasks := (wd_tasks s)(r \<mapsto> (w, Finishing (publishes p)))\<rparr>)"
| fail_release_fails: "wd_tasks s r = Some (w, FailReleasing reason) \<Longrightarrow>
    lifecycle_step s (s \<lparr>wd_leaked := insert w (wd_leaked s),
      wd_tasks := (wd_tasks s)(r \<mapsto> (w, Finishing (Some reason)))\<rparr>)"
| finished: "wd_tasks s r = Some (w, Finishing reason) \<Longrightarrow>
    lifecycle_step s (s \<lparr>wd_host := finish_teardown (wd_host s) w r reason, wd_tasks := (wd_tasks s)(r := None)\<rparr>)"
| recover_enters: "h_recoveries (wd_host s) w = Some rec \<Longrightarrow>
    wd_attempts s (wr_reservation rec) = None \<Longrightarrow>
    lifecycle_step s (s \<lparr>wd_attempts := (wd_attempts s)(wr_reservation rec \<mapsto> (w, rec, Entered))\<rparr>)"
| recover_marks: "wd_attempts s r = Some (w, rec, Entered) \<Longrightarrow> recovery_mark (wd_host s) w rec = (ended, h) \<Longrightarrow>
    lifecycle_step s (s \<lparr>wd_host := h,
      wd_attempts := (wd_attempts s)(r := if ended = None then Some (w, rec, Releasing) else None)\<rparr>)"
| recover_released: "wd_attempts s r = Some (w, rec, Releasing) \<Longrightarrow>
    lifecycle_step s (s \<lparr>wd_bound := unbind_all w (wd_bound s),
      wd_attempts := (wd_attempts s)(r \<mapsto> (w, rec, Released))\<rparr>)"
| recover_ends: "wd_attempts s r = Some (w, rec, p) \<Longrightarrow>
    lifecycle_step s (s \<lparr>wd_attempts := (wd_attempts s)(r := None)\<rparr>)"
| recover_finishes: "wd_attempts s r = Some (w, rec, Released) \<Longrightarrow>
    lifecycle_step s (s \<lparr>wd_host := recover_finish (wd_host s) w rec, wd_attempts := (wd_attempts s)(r := None)\<rparr>)"
| host_stops: "lifecycle_step s (s \<lparr>wd_host := stop_admitting (wd_host s)\<rparr>)"
| host_clears: "h_stopped (wd_host s) \<Longrightarrow>
    lifecycle_step s (s \<lparr>wd_host := clear_recoveries (wd_host s), wd_cleared := True\<rparr>)"

section \<open>Who holds a workload\<close>

text \<open>The reservation a slot is held under.\<close>

fun holder :: "'w HostWorkload option \<Rightarrow> Reservation option" where
  "holder (Some (Starting r)) = Some r"
| "holder (Some (Stopping r)) = Some r"
| "holder (Some (Failing r _)) = Some r"
| "holder _ = None"

text \<open>A slot nobody holds and nothing runs in.\<close>

fun vacant :: "'w HostWorkload option \<Rightarrow> bool" where
  "vacant None = True"
| "vacant (Some (Error _)) = True"
| "vacant _ = False"

text \<open>Who is to finish with a workload under a reservation.\<close>

definition owns :: "world \<Rightarrow> Reservation \<Rightarrow> string \<Rightarrow> bool" where
  "owns s r w \<longleftrightarrow>
     (\<exists>p. wd_tasks s r = Some (w, p)) \<or>
     (\<exists>rec. h_recoveries (wd_host s) w = Some rec \<and> wr_reservation rec = r)"

definition minted :: "world \<Rightarrow> Reservation \<Rightarrow> bool" where
  "minted s r \<longleftrightarrow> r < h_reservations (wd_host s)"

definition unused :: "world \<Rightarrow> string \<Rightarrow> bool" where
  "unused s w \<longleftrightarrow> w \<in> wd_leaked s \<or> (\<forall>b. (w, b) \<notin> wd_bound s)"

definition slot :: "world \<Rightarrow> string \<Rightarrow> Reservation HostWorkload option" where
  "slot s w = h_workloads (wd_host s) w"

definition tasks_inv :: "world \<Rightarrow> bool" where
  "tasks_inv s \<longleftrightarrow> (\<forall>r w p. wd_tasks s r = Some (w, p) \<longrightarrow>
     holder (slot s w) = Some r \<and> (p \<notin> {Reserved, Building} \<longrightarrow> slot s w \<noteq> Some (Starting r)))"

definition recoveries_inv :: "world \<Rightarrow> bool" where
  "recoveries_inv s \<longleftrightarrow> (\<forall>w rec. h_recoveries (wd_host s) w = Some rec \<longrightarrow>
     holder (slot s w) = Some (wr_reservation rec) \<and> wd_tasks s (wr_reservation rec) = None)"

definition attempts_inv :: "world \<Rightarrow> bool" where
  "attempts_inv s \<longleftrightarrow> (\<forall>r w rec p. wd_attempts s r = Some (w, rec, p) \<longrightarrow>
     wr_reservation rec = r \<and> holder (slot s w) = Some r \<and> wd_tasks s r = None \<and>
     (h_recoveries (wd_host s) w = Some rec \<or> wd_cleared s) \<and>
     (p \<noteq> Entered \<longrightarrow> slot s w \<noteq> Some (Starting r)))"

definition owned_inv :: "world \<Rightarrow> bool" where
  "owned_inv s \<longleftrightarrow> (\<forall>w r. holder (slot s w) = Some r \<longrightarrow> minted s r \<and> (owns s r w \<or> wd_cleared s))"

definition bound_inv :: "world \<Rightarrow> bool" where
  "bound_inv s \<longleftrightarrow>
     (\<forall>w b. slot s w = Some (Running b) \<longrightarrow> (w, b) \<in> wd_bound s) \<and>
     (\<forall>w. vacant (slot s w) \<longrightarrow> unused s w) \<and>
     (\<forall>r w p. wd_tasks s r = Some (w, p) \<longrightarrow> p = Reserved \<or> (\<exists>q. p = Finishing q) \<longrightarrow> unused s w) \<and>
     (\<forall>r w rec. wd_attempts s r = Some (w, rec, Released) \<longrightarrow> unused s w)"

definition lifecycle_inv :: "world \<Rightarrow> bool" where
  "lifecycle_inv s \<longleftrightarrow> tasks_inv s \<and> recoveries_inv s \<and> attempts_inv s \<and> owned_inv s \<and> bound_inv s"

lemma minted_step:
  assumes "can_mint s"
  shows "r < h_reservations (wd_host s) \<Longrightarrow> r < h_reservations (wd_host s) + 1"
    and "h_reservations (wd_host s) < h_reservations (wd_host s) + 1"
proof -
  have "unat (1 + h_reservations (wd_host s)) = Suc (unat (h_reservations (wd_host s)))"
    using assms by (intro unatSuc) (simp add: can_mint_def add.commute)
  then show "r < h_reservations (wd_host s) \<Longrightarrow> r < h_reservations (wd_host s) + 1"
    and "h_reservations (wd_host s) < h_reservations (wd_host s) + 1"
    by (simp_all add: word_less_nat_alt add.commute)
qed

lemma holder_eq_Some:
  "holder x = Some r \<longleftrightarrow> x = Some (Starting r) \<or> x = Some (Stopping r) \<or> (\<exists>e. x = Some (Failing r e))"
  by (induction x rule: holder.induct) auto

lemma reserve_claims:
  assumes "workload_reserve admit h w = (Ok r, h')"
  shows "r = h_reservations h" and "h_workloads h w = None" and "w \<notin> set (h_plugins h)" and "\<not> h_stopped h"
    and "h' = put w (Starting r) (h \<lparr>h_reservations := r + 1\<rparr>)"
  using assms by (auto simp: workload_reserve_def Host_reserve_def Let_def split: if_splits sum.splits)

lemma reserve_refuses:
  "workload_reserve admit h w = (Err m, h') \<Longrightarrow> h' = h \<lparr>h_reservations := h_reservations h + 1\<rparr>"
  by (auto simp: workload_reserve_def Host_reserve_def Let_def split: if_splits sum.splits)

text \<open>What marking a slot may do to it: it stays held by whom it was held, or it is vacant.\<close>

definition marked :: "'w HostWorkload option \<Rightarrow> 'w HostWorkload option \<Rightarrow> bool" where
  "marked old new \<longleftrightarrow> new = old \<or>
     (\<exists>r. holder old = Some r \<and> holder new = Some r \<and> new \<noteq> Some (Starting r)) \<or>
     vacant old \<and> vacant new"

lemma stop_mark_takes:
  "stop_mark h w r = (Some b, h') \<Longrightarrow> h_workloads h w = Some (Running b) \<and> h' = put w (Stopping r) h"
  by (auto simp: stop_mark_def stop_action_def split: option.splits HostWorkload.splits)

lemma stop_mark_marks:
  "stop_mark h w r = (None, h') \<Longrightarrow>
   marked (h_workloads h w) (h_workloads h' w) \<and> h' = set_slot w (h_workloads h' w) h"
  by (auto simp: stop_mark_def stop_action_def marked_def fun_upd_idem split: option.splits HostWorkload.splits)

lemma fail_mark_takes:
  "fail_mark h w r reason = (Some b, h') \<Longrightarrow> h_workloads h w = Some (Running b) \<and> h' = put w (Stopping r) h"
  by (auto simp: fail_mark_def split: option.splits HostWorkload.splits)

lemma fail_mark_marks:
  "fail_mark h w r reason = (None, h') \<Longrightarrow>
   marked (h_workloads h w) (h_workloads h' w) \<and> h' = set_slot w (h_workloads h' w) h"
  by (auto simp: fail_mark_def marked_def fun_upd_idem split: option.splits HostWorkload.splits)

lemma collect_error_marks:
  "collect_error h w = h' \<Longrightarrow> marked (h_workloads h w) (h_workloads h' w) \<and> h' = set_slot w (h_workloads h' w) h"
  by (auto simp: collect_error_def marked_def fun_upd_idem split: option.splits HostWorkload.splits)

lemma recovery_mark_marks:
  assumes "holder (h_workloads h w) = Some (wr_reservation rec)" and "recovery_mark h w rec = (ended, h')"
  shows "ended = None \<and> h_workloads h' w \<noteq> Some (Starting (wr_reservation rec)) \<and> (marked (h_workloads h w) (h_workloads h' w) \<and> h' = set_slot w (h_workloads h' w) h)"
  using assms by (auto simp: recovery_mark_def holder_eq_Some marked_def fun_upd_idem split: if_splits)

lemma workload_release_frees:
  assumes "holder (h_workloads h w) = Some r"
  and h': "workload_release h w r = h'"
  shows "vacant (h_workloads h' w) \<and> h' = set_slot w (h_workloads h' w) h"
  using assms by (auto simp: workload_release_def holder_eq_Some)

lemma finish_teardown_frees:
  assumes "holder (h_workloads h w) = Some r" and "h_workloads h w \<noteq> Some (Starting r)"
  and h': "finish_teardown h w r reason = h'"
  shows "vacant (h_workloads h' w) \<and> h' = set_slot w (h_workloads h' w) h"
  using assms by (auto simp: finish_teardown_def holder_eq_Some or_reason_def split: option.split)

lemma recover_finish_frees:
  assumes "holder (h_workloads h w) = Some (wr_reservation rec)" and "h_workloads h w \<noteq> Some (Starting (wr_reservation rec))"
  and h': "recover_finish h w rec = h'"
  shows "vacant (h_workloads h' w) \<and> h' = set_slot w (h_workloads h' w) (forget h w rec)"
  using assms by (auto simp: recover_finish_def holder_eq_Some forget_def)

lemma start_commit_commits:
  assumes "holder (h_workloads h w) = Some r" and "start_commit h w r started = ((state, message, release), h')"
  shows "if release then marked (h_workloads h w) (h_workloads h' w) \<and> h_workloads h' w \<noteq> Some (Starting r) \<and> h' = set_slot w (h_workloads h' w) h
         else \<exists>b. started = Ok b \<and> h_workloads h w = Some (Starting r) \<and> h' = put w (Running b) h"
  using assms by (auto simp: start_commit_def holder_eq_Some marked_def fun_upd_idem Let_def split: sum.splits if_splits option.splits)

lemmas lifecycle_inv_defs = lifecycle_inv_def tasks_inv_def recoveries_inv_def attempts_inv_def
  owned_inv_def bound_inv_def slot_def owns_def minted_def unused_def

lemma vacant_not_held:
  assumes "vacant v"
  shows "holder v = None" and "v \<noteq> Some (Running b)" and "v \<noteq> Some (Starting r)"
  using assms by (auto elim: vacant.elims)

lemma marked_holder: "marked x v \<Longrightarrow> holder v = holder x"
  by (auto simp: marked_def vacant_not_held)

lemma marked_starting: "marked x v \<Longrightarrow> v = Some (Starting r) \<Longrightarrow> x = Some (Starting r)"
  by (auto simp: marked_def vacant_not_held)

lemma marked_vacant: "marked x v \<Longrightarrow> vacant v \<Longrightarrow> vacant x"
  by (auto simp: marked_def vacant_not_held)

lemma marked_running: "marked x v \<Longrightarrow> v = Some (Running b) \<Longrightarrow> x = Some (Running b)"
  by (auto simp: marked_def vacant_not_held)

lemma inv_marked:
  assumes inv: "lifecycle_inv s" and v: "marked (slot s w) v" and h: "h_workloads h = (h_workloads (wd_host s))(w := v)"
    "h_recoveries h = h_recoveries (wd_host s)" "\<And>r. minted s r \<Longrightarrow> r < h_reservations h"
  shows "lifecycle_inv (s \<lparr>wd_host := h\<rparr>)"
proof -
  let ?t = "s \<lparr>wd_host := h\<rparr>"
  have slots: "marked (slot s w') (slot ?t w')" for w'
    using v h(1) by (simp add: slot_def marked_def)
  note m = slots [THEN marked_holder] slots [THEN marked_starting] slots [THEN marked_vacant] slots [THEN marked_running]
  have "tasks_inv ?t" using inv m by (fastforce simp: lifecycle_inv_def tasks_inv_def)
  moreover have "recoveries_inv ?t" using inv m h(2) by (auto simp: lifecycle_inv_def recoveries_inv_def)
  moreover have "attempts_inv ?t" using inv m h(2) by (fastforce simp: lifecycle_inv_def attempts_inv_def)
  moreover have "owned_inv ?t" using inv m h by (auto simp: lifecycle_inv_def owned_inv_def owns_def minted_def)
  moreover have "bound_inv ?t" using inv m by (auto simp: lifecycle_inv_def bound_inv_def unused_def)
  ultimately show ?thesis by (simp add: lifecycle_inv_def)
qed

text \<open>A new reservation takes a slot that was vacant, or that ran a workload.\<close>

lemma inv_new_task:
  assumes inv: "lifecycle_inv s" and mint: "can_mint s" and r: "r = h_reservations (wd_host s)"
    and v: "slot s w = None \<and> v = Starting r \<and> p = Reserved \<or> (\<exists>b. slot s w = Some (Running b)) \<and> v = Stopping r \<and> releasing p"
    and h: "h = put w v (wd_host s \<lparr>h_reservations := r + 1\<rparr>)"
  shows "lifecycle_inv (s \<lparr>wd_host := h, wd_tasks := (wd_tasks s)(r \<mapsto> (w, p))\<rparr>)"
proof -
  let ?t = "s \<lparr>wd_host := h, wd_tasks := (wd_tasks s)(r \<mapsto> (w, p))\<rparr>"
  have mine: "holder (slot s w) = None" using v by auto
  have fresh: "holder (slot s w') \<noteq> Some r" for w'
    using inv by (auto simp: lifecycle_inv_def owned_inv_def minted_def r)
  have slots: "slot ?t w' = (if w' = w then Some v else slot s w')" for w' by (simp add: slot_def h)
  have v': "holder (Some v) = Some r" "\<not> vacant (Some v)" "\<And>b. v \<noteq> Running b"
    "p \<notin> {Reserved, Building} \<Longrightarrow> v \<noteq> Starting r" "p = Reserved \<Longrightarrow> unused s w" "p \<noteq> Finishing q" for q
    using v inv by (auto simp: lifecycle_inv_def bound_inv_def)
  have "tasks_inv ?t" using inv mine slots v'(1,4) by (auto simp: lifecycle_inv_def tasks_inv_def)
  moreover have "recoveries_inv ?t"
    using inv mine fresh slots by (auto simp: lifecycle_inv_def recoveries_inv_def h)
  moreover have "attempts_inv ?t"
    using inv mine fresh slots by (fastforce simp: lifecycle_inv_def attempts_inv_def h)
  moreover have "owned_inv ?t"
    using inv mine slots v' minted_step [OF mint] by (auto simp: lifecycle_inv_def owned_inv_def owns_def minted_def h r)
  moreover have "bound_inv ?t"
    using inv slots v' by (auto simp: lifecycle_inv_def bound_inv_def unused_def split: if_splits)
  ultimately show ?thesis by (simp add: lifecycle_inv_def)
qed

text \<open>An owner that has nothing bound left gives its slot up.\<close>

lemma inv_task_frees:
  assumes inv: "lifecycle_inv s" and task: "wd_tasks s r = Some (w, p)" and u: "unused s w" and v: "vacant v"
    and h: "h = set_slot w v (wd_host s)"
  shows "lifecycle_inv (s \<lparr>wd_host := h, wd_tasks := (wd_tasks s)(r := None)\<rparr>)"
proof -
  let ?t = "s \<lparr>wd_host := h, wd_tasks := (wd_tasks s)(r := None)\<rparr>"
  have mine: "holder (slot s w) = Some r" using inv task by (auto simp: lifecycle_inv_def tasks_inv_def)
  note none = vacant_not_held [OF v]
  have slots: "slot ?t w' = (if w' = w then v else slot s w')" for w' by (simp add: slot_def h)
  have "tasks_inv ?t" using inv mine slots by (auto simp: lifecycle_inv_def tasks_inv_def)
  moreover have "recoveries_inv ?t"
    using inv mine task slots by (auto simp: lifecycle_inv_def recoveries_inv_def h)
  moreover have "attempts_inv ?t"
    using inv mine task slots by (auto simp: lifecycle_inv_def attempts_inv_def h)
  moreover have "owned_inv ?t"
    using inv task slots none by (fastforce simp: lifecycle_inv_def owned_inv_def owns_def minted_def h split: if_splits)
  moreover have "bound_inv ?t"
    using inv slots none u by (auto simp: lifecycle_inv_def bound_inv_def unused_def split: if_splits)
  ultimately show ?thesis by (simp add: lifecycle_inv_def)
qed

lemma inv_attempt_frees:
  assumes inv: "lifecycle_inv s" and att: "wd_attempts s r = Some (w, rec, p)" and u: "unused s w" and v: "vacant v"
    and h: "h = set_slot w v (forget (wd_host s) w rec)"
  shows "lifecycle_inv (s \<lparr>wd_host := h, wd_attempts := (wd_attempts s)(r := None)\<rparr>)"
proof -
  let ?t = "s \<lparr>wd_host := h, wd_attempts := (wd_attempts s)(r := None)\<rparr>"
  have mine: "holder (slot s w) = Some r" "wr_reservation rec = r" "wd_tasks s r = None"
    using inv att by (auto simp: lifecycle_inv_def attempts_inv_def)
  note none = vacant_not_held [OF v]
  have slots: "slot ?t w' = (if w' = w then v else slot s w')" for w' by (simp add: slot_def h forget_def)
  have recs: "h_recoveries h = (h_recoveries (wd_host s))(w := None)" "h_reservations h = h_reservations (wd_host s)"
    using inv mine by (auto simp: h forget_def recorded_def lifecycle_inv_def recoveries_inv_def fun_upd_idem split: option.splits)
  have "tasks_inv ?t" using inv mine slots by (auto simp: lifecycle_inv_def tasks_inv_def)
  moreover have "recoveries_inv ?t"
    using inv mine slots by (auto simp: lifecycle_inv_def recoveries_inv_def recs)
  moreover have "attempts_inv ?t"
    using inv mine slots by (auto simp: lifecycle_inv_def attempts_inv_def recs)
  moreover have "owned_inv ?t"
    using inv mine slots none by (auto simp: lifecycle_inv_def owned_inv_def owns_def minted_def recs)
  moreover have "bound_inv ?t"
    using inv slots none u by (auto simp: lifecycle_inv_def bound_inv_def unused_def split: if_splits)
  ultimately show ?thesis by (simp add: lifecycle_inv_def)
qed

lemma inv_guard_drop:
  assumes inv: "lifecycle_inv s" and task: "wd_tasks s r = Some (w, p)"
  shows "lifecycle_inv (s \<lparr>wd_host := guard_drop (wd_host s) w r retain, wd_tasks := (wd_tasks s)(r := None)\<rparr>)"
proof -
  let ?t = "s \<lparr>wd_host := guard_drop (wd_host s) w r retain, wd_tasks := (wd_tasks s)(r := None)\<rparr>"
  have mine: "holder (slot s w) = Some r" using inv task by (auto simp: lifecycle_inv_def tasks_inv_def)
  have slots: "slot ?t = slot s" by (simp add: slot_def fun_eq_iff guard_drop_def)
  have "tasks_inv ?t" using inv mine slots by (auto simp: lifecycle_inv_def tasks_inv_def)
  moreover have "recoveries_inv ?t"
    using inv mine task slots by (auto simp: lifecycle_inv_def recoveries_inv_def guard_drop_def)
  moreover have "attempts_inv ?t"
    using inv mine task slots by (auto simp: lifecycle_inv_def attempts_inv_def guard_drop_def)
  moreover have "owned_inv ?t"
    using inv mine task slots
    by (fastforce simp: lifecycle_inv_def owned_inv_def owns_def minted_def guard_drop_def split: if_splits)
  moreover have "bound_inv ?t"
    using inv slots by (auto simp: lifecycle_inv_def bound_inv_def unused_def)
  ultimately show ?thesis by (simp add: lifecycle_inv_def)
qed

lemma inv_task_phase:
  assumes inv: "lifecycle_inv s" and task: "wd_tasks s r = Some (w, p)"
    and p': "p' \<notin> {Reserved, Building} \<Longrightarrow> slot s w \<noteq> Some (Starting r)"
    and bound: "bound = wd_bound s \<or> bound = unbind_all w (wd_bound s)" "wd_leaked s \<subseteq> leaked"
    and over: "p' = Reserved \<or> (\<exists>q. p' = Finishing q) \<Longrightarrow> bound = unbind_all w (wd_bound s) \<or> w \<in> leaked"
  shows "lifecycle_inv (s \<lparr>wd_bound := bound, wd_leaked := leaked, wd_tasks := (wd_tasks s)(r \<mapsto> (w, p'))\<rparr>)"
proof -
  let ?t = "s \<lparr>wd_bound := bound, wd_leaked := leaked, wd_tasks := (wd_tasks s)(r \<mapsto> (w, p'))\<rparr>"
  have mine: "holder (slot s w) = Some r" using inv task by (auto simp: lifecycle_inv_def tasks_inv_def)
  have slots: "slot ?t = slot s" by (simp add: slot_def fun_eq_iff)
  have unused: "unused s w' \<Longrightarrow> unused ?t w'" for w' using bound by (auto simp: unused_def unbind_all_def)
  have mine_done: "p' = Reserved \<or> (\<exists>q. p' = Finishing q) \<Longrightarrow> unused ?t w"
    using over by (auto simp: unused_def unbind_all_def)
  have kept: "slot s w' = Some (Running b) \<Longrightarrow> (w', b) \<in> bound" for w' b
    using inv mine bound by (auto simp: lifecycle_inv_def bound_inv_def unbind_all_def)
  have "tasks_inv ?t" using inv mine slots p' by (auto simp: lifecycle_inv_def tasks_inv_def)
  moreover have "recoveries_inv ?t"
    using inv mine task slots by (auto simp: lifecycle_inv_def recoveries_inv_def)
  moreover have "attempts_inv ?t"
    using inv mine task slots by (auto simp: lifecycle_inv_def attempts_inv_def)
  moreover have "owned_inv ?t"
    using inv task slots by (fastforce simp: lifecycle_inv_def owned_inv_def owns_def minted_def)
  moreover have "bound_inv ?t"
    using inv slots kept unused mine_done by (auto simp: lifecycle_inv_def bound_inv_def split: if_splits)
  ultimately show ?thesis by (simp add: lifecycle_inv_def)
qed

text \<open>What is bound or unbound under a workload somebody holds concerns no other workload.\<close>

lemma inv_bound:
  assumes inv: "lifecycle_inv s" and mine: "holder (slot s w) = Some r"
    and other: "\<And>w' b. w' \<noteq> w \<Longrightarrow> (w', b) \<in> bound \<longleftrightarrow> (w', b) \<in> wd_bound s"
    and mine_done: "bound \<subseteq> wd_bound s \<or> wd_tasks s r = Some (w, Building)"
  shows "lifecycle_inv (s \<lparr>wd_bound := bound\<rparr>)"
proof -
  let ?t = "s \<lparr>wd_bound := bound\<rparr>"
  have slots: "slot ?t = slot s" by (simp add: slot_def fun_eq_iff)
  have others: "w' \<noteq> w \<Longrightarrow> unused s w' \<Longrightarrow> unused ?t w'" for w' using other by (auto simp: unused_def)
  have unused: "unused s w' \<Longrightarrow> unused ?t w'" if "bound \<subseteq> wd_bound s" for w' using that by (auto simp: unused_def)
  have building: "wd_tasks s r' = Some (w, p) \<Longrightarrow> r' = r" "wd_attempts s r' = Some (w, rec, q) \<Longrightarrow> wd_tasks s r = None" for r' p rec q
    using inv mine by (auto simp: lifecycle_inv_def tasks_inv_def attempts_inv_def)
  have "bound_inv ?t"
  proof -
    have "slot s w' = Some (Running b) \<Longrightarrow> (w', b) \<in> bound" for w' b
      using inv mine other [of w' b] by (cases "w' = w") (auto simp: lifecycle_inv_def bound_inv_def)
    moreover have "vacant (slot s w') \<Longrightarrow> unused ?t w'" for w'
      using inv mine others [of w'] vacant_not_held [of "slot s w'"]
      by (cases "w' = w") (auto simp: lifecycle_inv_def bound_inv_def)
    moreover have "wd_tasks s r' = Some (w', p) \<Longrightarrow> p = Reserved \<or> (\<exists>q. p = Finishing q) \<Longrightarrow> unused ?t w'" for r' w' p
      using inv building(1) [of r' p] others [of w'] unused [of w'] mine_done
      by (cases "w' = w") (auto simp: lifecycle_inv_def bound_inv_def)
    moreover have "wd_attempts s r' = Some (w', rec, Released) \<Longrightarrow> unused ?t w'" for r' w' rec
      using inv building(2) [of r' rec Released] others [of w'] unused [of w'] mine_done
      by (cases "w' = w") (fastforce simp: lifecycle_inv_def bound_inv_def)+
    ultimately show ?thesis by (auto simp: bound_inv_def slots)
  qed
  then show ?thesis
    using inv by (auto simp: lifecycle_inv_def tasks_inv_def recoveries_inv_def attempts_inv_def owned_inv_def
        owns_def minted_def slots)
qed

lemma inv_attempt_phase:
  assumes inv: "lifecycle_inv s" and mine: "holder (slot s w) = Some r" "wr_reservation rec = r" "wd_tasks s r = None"
    "h_recoveries (wd_host s) w = Some rec \<or> wd_cleared s"
    and q: "q \<noteq> Entered \<Longrightarrow> slot s w \<noteq> Some (Starting r)" "q = Released \<Longrightarrow> unused s w"
  shows "lifecycle_inv (s \<lparr>wd_attempts := (wd_attempts s)(r \<mapsto> (w, rec, q))\<rparr>)"
proof -
  let ?t = "s \<lparr>wd_attempts := (wd_attempts s)(r \<mapsto> (w, rec, q))\<rparr>"
  have slots: "slot ?t = slot s" by (simp add: slot_def fun_eq_iff)
  have "attempts_inv ?t" using inv mine q slots by (auto simp: lifecycle_inv_def attempts_inv_def)
  moreover have "bound_inv ?t" using inv q slots by (auto simp: lifecycle_inv_def bound_inv_def unused_def)
  ultimately show ?thesis
    using inv by (auto simp: lifecycle_inv_def tasks_inv_def recoveries_inv_def owned_inv_def owns_def minted_def slots)
qed

lemma inv_attempt_ends:
  assumes "lifecycle_inv s"
  shows "lifecycle_inv (s \<lparr>wd_attempts := (wd_attempts s)(r := None)\<rparr>)"
proof -
  have "slot (s \<lparr>wd_attempts := (wd_attempts s)(r := None)\<rparr>) = slot s" by (simp add: slot_def fun_eq_iff)
  then show ?thesis
    using assms by (auto simp: lifecycle_inv_def tasks_inv_def recoveries_inv_def attempts_inv_def owned_inv_def
        bound_inv_def owns_def minted_def unused_def)
qed

lemma task_holds:
  "lifecycle_inv s \<Longrightarrow> wd_tasks s r = Some (w, p) \<Longrightarrow>
   holder (slot s w) = Some r \<and> (p \<notin> {Reserved, Building} \<longrightarrow> slot s w \<noteq> Some (Starting r))"
  by (auto simp: lifecycle_inv_def tasks_inv_def)

lemma attempt_holds:
  "lifecycle_inv s \<Longrightarrow> wd_attempts s r = Some (w, rec, p) \<Longrightarrow>
   wr_reservation rec = r \<and> holder (slot s w) = Some r \<and> wd_tasks s r = None \<and>
   (h_recoveries (wd_host s) w = Some rec \<or> wd_cleared s) \<and> (p \<noteq> Entered \<longrightarrow> slot s w \<noteq> Some (Starting r))"
  unfolding lifecycle_inv_def attempts_inv_def by blast

lemma inv_committed:
  assumes inv: "lifecycle_inv s" and task: "wd_tasks s r = Some (w, Building)"
    and slot: "slot s w = Some (Starting r)" and bound: "(w, r) \<in> wd_bound s"
    and h: "h = put w (Running r) (wd_host s)"
  shows "lifecycle_inv (s \<lparr>wd_host := h, wd_tasks := (wd_tasks s)(r := None)\<rparr>)"
proof -
  let ?t = "s \<lparr>wd_host := h, wd_tasks := (wd_tasks s)(r := None)\<rparr>"
  have mine: "holder (slot s w) = Some r" using slot by simp
  have none: "h_recoveries (wd_host s) w = None"
    using inv mine task by (cases "h_recoveries (wd_host s) w") (auto simp: lifecycle_inv_def recoveries_inv_def)
  have slots: "slot ?t w' = (if w' = w then Some (Running r) else slot s w')" for w' by (simp add: slot_def h)
  have "tasks_inv ?t" using inv mine slots by (auto simp: lifecycle_inv_def tasks_inv_def)
  moreover have "recoveries_inv ?t"
    using inv mine task slots none by (auto simp: lifecycle_inv_def recoveries_inv_def h)
  moreover have "attempts_inv ?t"
    using inv mine task slots by (auto simp: lifecycle_inv_def attempts_inv_def h)
  moreover have "owned_inv ?t"
    using inv task slots by (fastforce simp: lifecycle_inv_def owned_inv_def owns_def minted_def h split: if_splits)
  moreover have "bound_inv ?t"
    using inv slots bound by (auto simp: lifecycle_inv_def bound_inv_def unused_def split: if_splits)
  ultimately show ?thesis by (simp add: lifecycle_inv_def)
qed

lemma inv_step_start:
  assumes inv: "lifecycle_inv s" and task: "wd_tasks s r = Some (w, Building)"
    and started: "started = Ok r \<and> (w, r) \<in> wd_bound s \<or> started = Err m"
    and c: "start_commit (wd_host s) w r started = ((state, message, release), h)"
  shows "lifecycle_inv (s \<lparr>wd_host := h, wd_tasks := (wd_tasks s)(r := if release then Some (w, StartReleasing) else None)\<rparr>)"
proof -
  have mine: "holder (h_workloads (wd_host s) w) = Some r" using task_holds [OF inv task] by (simp add: slot_def)
  note c = start_commit_commits [OF mine c]
  show ?thesis
  proof (cases release)
    case True
    with c have m: "marked (slot s w) (h_workloads h w)" "h_workloads h w \<noteq> Some (Starting r)"
      and h: "h = set_slot w (h_workloads h w) (wd_host s)" by (auto simp: slot_def)
    have "lifecycle_inv (s \<lparr>wd_host := h\<rparr>)"
      by (rule inv_marked [OF inv m(1)]; subst h) (simp_all add: minted_def)
    from inv_task_phase [OF this, of r w Building StartReleasing "wd_bound s" "wd_leaked s"] m task True
    show ?thesis by (simp add: slot_def)
  next
    case False
    with c started have "slot s w = Some (Starting r)" "(w, r) \<in> wd_bound s" "h = put w (Running r) (wd_host s)"
      by (auto simp: slot_def)
    from inv_committed [OF inv task this] False show ?thesis by simp
  qed
qed

lemma inv_step_mark:
  assumes inv: "lifecycle_inv s" and mint: "can_mint s" and r: "Host_reserve (wd_host s) = (r, h)"
    and m: "marked (h_workloads h w) (h_workloads h' w)" "h' = set_slot w (h_workloads h' w) h"
  shows "lifecycle_inv (s \<lparr>wd_host := h'\<rparr>)"
proof -
  have h: "h = wd_host s \<lparr>h_reservations := h_reservations (wd_host s) + 1\<rparr>"
    using r by (auto simp: Host_reserve_def)
  have "marked (slot s w) (h_workloads h' w)" using m(1) by (simp add: slot_def h)
  then show ?thesis
    by (rule inv_marked [OF inv]; subst m(2)) (simp_all add: h minted_def minted_step [OF mint])
qed

lemma inv_step_recover:
  assumes inv: "lifecycle_inv s" and att: "wd_attempts s r = Some (w, rec, Entered)"
    and m: "recovery_mark (wd_host s) w rec = (ended, h)"
  shows "lifecycle_inv (s \<lparr>wd_host := h, wd_attempts := (wd_attempts s)(r := if ended = None then Some (w, rec, Releasing) else None)\<rparr>)"
proof -
  note a = attempt_holds [OF inv att]
  then have "holder (h_workloads (wd_host s) w) = Some (wr_reservation rec)" by (simp add: slot_def)
  note m = recovery_mark_marks [OF this m]
  then have mk: "marked (slot s w) (h_workloads h w)" and h: "h = set_slot w (h_workloads h w) (wd_host s)"
    by (simp_all add: slot_def)
  have "lifecycle_inv (s \<lparr>wd_host := h\<rparr>)"
    by (rule inv_marked [OF inv mk]; subst h) (simp_all add: minted_def)
  moreover have "h_recoveries h = h_recoveries (wd_host s)" by (subst h) simp
  ultimately show ?thesis
    using a m inv_attempt_phase [of "s \<lparr>wd_host := h\<rparr>" w r rec Releasing] marked_holder [OF mk]
    by (simp add: slot_def)
qed

lemma lifecycle_inv_step:
  assumes inv: "lifecycle_inv s" and step: "lifecycle_step s s'"
  shows "lifecycle_inv s'"
  using step
proof cases
  case (reserve admit w r h)
  note c = reserve_claims [OF reserve(3)]
  show ?thesis unfolding reserve(1)
    by (rule inv_new_task [OF inv reserve(2) c(1) _ c(5)]) (use c(2) in \<open>simp add: slot_def\<close>)
next
  case (refuse admit w m h)
  have "marked (slot s w) (slot s w)" by (simp add: marked_def)
  from inv_marked [OF inv this, of h] show ?thesis unfolding refuse(1)
    by (simp add: reserve_refuses [OF refuse(3)] minted_def minted_step [OF refuse(2)] slot_def)
next
  case (give_back r w)
  have "holder (h_workloads (wd_host s) w) = Some r" using task_holds [OF inv give_back(2)] by (simp add: slot_def)
  note f = workload_release_frees [OF this refl]
  have "unused s w" using inv give_back(2) by (auto simp: lifecycle_inv_def bound_inv_def)
  from inv_task_frees [OF inv give_back(2) this] f show ?thesis unfolding give_back(1) by blast
next
  case (begin_native r w)
  from inv_task_phase [OF inv begin_native(2), of Building "wd_bound s" "wd_leaked s"]
  show ?thesis unfolding begin_native(1) by simp
next
  case (bind r w)
  show ?thesis unfolding bind(1)
    by (rule inv_bound [OF inv, of w r]) (use task_holds [OF inv bind(2)] bind(2) in auto)
next
  case (commit r w started m state message release h)
  show ?thesis unfolding commit(1) by (rule inv_step_start [OF inv commit(2-4)])
next
  case (start_release_fails r w)
  show ?thesis unfolding start_release_fails(1) by (rule inv_guard_drop [OF inv start_release_fails(2)])
next
  case (cancelled r w p)
  show ?thesis unfolding cancelled(1) by (rule inv_guard_drop [OF inv cancelled(2)])
next
  case (stop_takes r h w b h')
  note t = stop_mark_takes [OF stop_takes(4)]
  have h: "r = h_reservations (wd_host s)" "h = wd_host s \<lparr>h_reservations := r + 1\<rparr>"
    using stop_takes(3) by (auto simp: Host_reserve_def)
  show ?thesis unfolding stop_takes(1)
    by (rule inv_new_task [OF inv stop_takes(2) h(1), where v = "Stopping r"]) (use t h(2) in \<open>simp_all add: slot_def\<close>)
next
  case (stop_marks r h w h')
  from stop_mark_marks [OF stop_marks(4)] show ?thesis unfolding stop_marks(1)
    by (intro inv_step_mark [OF inv stop_marks(2,3)]) auto
next
  case (collect w)
  have m: "marked (slot s w) (h_workloads (collect_error (wd_host s) w) w)"
    and h: "collect_error (wd_host s) w = set_slot w (h_workloads (collect_error (wd_host s) w) w) (wd_host s)"
    using collect_error_marks [OF refl] by (auto simp: slot_def)
  show ?thesis unfolding collect
    by (rule inv_marked [OF inv m]; subst h) (simp_all add: minted_def)
next
  case (fail_takes r h w reason b h')
  note t = fail_mark_takes [OF fail_takes(4)]
  have h: "r = h_reservations (wd_host s)" "h = wd_host s \<lparr>h_reservations := r + 1\<rparr>"
    using fail_takes(3) by (auto simp: Host_reserve_def)
  show ?thesis unfolding fail_takes(1)
    by (rule inv_new_task [OF inv fail_takes(2) h(1), where v = "Stopping r"]) (use t h(2) in \<open>simp_all add: slot_def\<close>)
next
  case (fail_marks r h w reason h')
  from fail_mark_marks [OF fail_marks(4)] show ?thesis unfolding fail_marks(1)
    by (intro inv_step_mark [OF inv fail_marks(2,3)]) auto
next
  case (release_part r w p rec bound)
  have "holder (slot s w) = Some r" using release_part(2) task_holds [OF inv] attempt_holds [OF inv] by blast
  then show ?thesis unfolding release_part(1)
    by (rule inv_bound [OF inv]) (use release_part(3,4) in \<open>auto simp: unbind_all_def\<close>)
next
  case (released r w p)
  have "slot s w \<noteq> Some (Starting r)" using task_holds [OF inv released(2)] released(3) by (cases p) auto
  with inv_task_phase [OF inv released(2), of "Finishing (publishes p)" "unbind_all w (wd_bound s)" "wd_leaked s"]
  show ?thesis unfolding released(1) by simp
next
  case (fail_release_fails r w reason)
  have "slot s w \<noteq> Some (Starting r)" using task_holds [OF inv fail_release_fails(2)] by auto
  with inv_task_phase [OF inv fail_release_fails(2), of "Finishing (Some reason)" "wd_bound s" "insert w (wd_leaked s)"]
  show ?thesis unfolding fail_release_fails(1) by auto
next
  case (finished r w reason)
  have "holder (h_workloads (wd_host s) w) = Some r" "h_workloads (wd_host s) w \<noteq> Some (Starting r)"
    using task_holds [OF inv finished(2)] by (auto simp: slot_def)
  note f = finish_teardown_frees [OF this refl]
  have "unused s w" using inv finished(2) by (auto simp: lifecycle_inv_def bound_inv_def)
  from inv_task_frees [OF inv finished(2) this] f show ?thesis unfolding finished(1) by blast
next
  case (recover_enters w rec)
  have "holder (slot s w) = Some (wr_reservation rec)" "wd_tasks s (wr_reservation rec) = None"
    using inv recover_enters(2) by (auto simp: lifecycle_inv_def recoveries_inv_def)
  with inv_attempt_phase [OF inv, of w "wr_reservation rec" rec Entered] recover_enters(2)
  show ?thesis unfolding recover_enters(1) by simp
next
  case (recover_marks r w rec ended h)
  show ?thesis unfolding recover_marks(1) by (rule inv_step_recover [OF inv recover_marks(2,3)])
next
  case (recover_released r w rec)
  note a = attempt_holds [OF inv recover_released(2)]
  let ?u = "s \<lparr>wd_bound := unbind_all w (wd_bound s)\<rparr>"
  have u: "lifecycle_inv ?u"
    by (rule inv_bound [OF inv, of w r]) (use a in \<open>auto simp: unbind_all_def\<close>)
  have "unused ?u w" by (simp add: unused_def unbind_all_def)
  with inv_attempt_phase [OF u, of w r rec Released] a show ?thesis unfolding recover_released(1) by (simp add: slot_def)
next
  case (recover_ends r w rec p)
  show ?thesis unfolding recover_ends(1) by (rule inv_attempt_ends [OF inv])
next
  case (recover_finishes r w rec)
  have "holder (h_workloads (wd_host s) w) = Some (wr_reservation rec)"
    "h_workloads (wd_host s) w \<noteq> Some (Starting (wr_reservation rec))"
    using attempt_holds [OF inv recover_finishes(2)] by (auto simp: slot_def)
  note f = recover_finish_frees [OF this refl]
  have "unused s w" using inv recover_finishes(2) unfolding lifecycle_inv_def bound_inv_def by blast
  from inv_attempt_frees [OF inv recover_finishes(2) this] f show ?thesis unfolding recover_finishes(1) by fastforce
next
  case host_stops
  then show ?thesis using inv by (auto simp: lifecycle_inv_defs stop_admitting_def)
next
  case host_clears
  then show ?thesis using inv by (auto simp: lifecycle_inv_defs clear_recoveries_def)
qed

interpretation lifecycle: transition_system lifecycle_step lifecycle_inv
  by unfold_locales (rule lifecycle_inv_step)

lemma lifecycle_inv_init: "lifecycle_inv (world_init host_id plugins)"
  by (simp add: lifecycle_inv_defs world_init_def Host_new_def)


section \<open>What the host guarantees\<close>

lemmas lifecycle_reachable = lifecycle.inv_reachable [OF _ lifecycle_inv_init]

text \<open>
  C3. However starts, stops, plugin failures, cancellations and recoveries interleave, a
  teardown only ever touches what is its own, although unbinding goes by the workload's name:
  a workload that is reported running has its bindings; whoever is building or tearing down a
  workload holds its slot under their own reservation; no two of them are at work on one
  workload, and none on a running one.
\<close>

theorem teardowns_touch_only_their_own:
  assumes run: "lifecycle_step\<^sup>*\<^sup>* (world_init host_id plugins) s"
  shows "(\<forall>w b. slot s w = Some (Running b) \<longrightarrow>
            (w, b) \<in> wd_bound s \<and> (\<forall>r p. wd_tasks s r \<noteq> Some (w, p)) \<and>
            (\<forall>r rec q. wd_attempts s r \<noteq> Some (w, rec, q))) \<and>
         (\<forall>r w p. wd_tasks s r = Some (w, p) \<longrightarrow>
            holder (slot s w) = Some r \<and> (\<forall>r' p'. wd_tasks s r' = Some (w, p') \<longrightarrow> r' = r) \<and>
            (\<forall>r' rec q. wd_attempts s r' \<noteq> Some (w, rec, q))) \<and>
         (\<forall>r w rec q. wd_attempts s r = Some (w, rec, q) \<longrightarrow>
            holder (slot s w) = Some r \<and> (\<forall>r' rec' q'. wd_attempts s r' = Some (w, rec', q') \<longrightarrow> r' = r))"
proof -
  note inv = lifecycle_reachable [OF run]
  have task: "wd_tasks s r = Some (w, p) \<Longrightarrow> holder (slot s w) = Some r" for r w p
    using task_holds [OF inv] by blast
  have att: "wd_attempts s r = Some (w, rec, q) \<Longrightarrow> holder (slot s w) = Some r \<and> wd_tasks s r = None" for r w rec q
    using attempt_holds [OF inv] by blast
  have bound: "slot s w = Some (Running b) \<Longrightarrow> (w, b) \<in> wd_bound s \<and> holder (slot s w) = None" for w b
    using inv by (auto simp: lifecycle_inv_def bound_inv_def)
  show ?thesis
  proof (intro conjI allI impI)
    fix w b r p assume "slot s w = Some (Running b)"
    then show "(w, b) \<in> wd_bound s" "wd_tasks s r \<noteq> Some (w, p)" using bound [of w b] task [of r w p] by auto
  next
    fix w b r rec q assume "slot s w = Some (Running b)"
    then show "wd_attempts s r \<noteq> Some (w, rec, q)" using bound [of w b] att [of r w rec q] by auto
  next
    fix r w p assume "wd_tasks s r = Some (w, p)"
    then show "holder (slot s w) = Some r" by (rule task)
  next
    fix r w p r' p' assume "wd_tasks s r = Some (w, p)" "wd_tasks s r' = Some (w, p')"
    then show "r' = r" using task [of r w p] task [of r' w p'] by simp
  next
    fix r w p r' rec q assume "wd_tasks s r = Some (w, p)"
    then show "wd_attempts s r' \<noteq> Some (w, rec, q)" using task [of r w p] att [of r' w rec q] by auto
  next
    fix r w rec q assume "wd_attempts s r = Some (w, rec, q)"
    then show "holder (slot s w) = Some r" using att by simp
  next
    fix r w rec q r' rec' q' assume "wd_attempts s r = Some (w, rec, q)" "wd_attempts s r' = Some (w, rec', q')"
    then show "r' = r" using att [of r w rec q] att [of r' w rec' q'] by simp
  qed
qed

text \<open>Some continuation brings the slot to an end.\<close>

definition can_finish :: "world \<Rightarrow> string \<Rightarrow> bool" where
  "can_finish s w \<longleftrightarrow> (\<exists>s'. lifecycle_step\<^sup>*\<^sup>* s s' \<and> vacant (slot s' w))"

lemma can_finish_now: "vacant (slot s w) \<Longrightarrow> can_finish s w"
  by (auto simp: can_finish_def)

lemma can_finish_step: "lifecycle_step s t \<Longrightarrow> can_finish t w \<Longrightarrow> can_finish s w"
  by (auto simp: can_finish_def intro: converse_rtranclp_into_rtranclp)

lemma recorded_can_finish:
  assumes inv: "lifecycle_inv s" and rec: "h_recoveries (wd_host s) w = Some rec"
  shows "can_finish s w"
proof -
  let ?r = "wr_reservation rec"
  define s0 where "s0 = s \<lparr>wd_attempts := (wd_attempts s)(?r := None)\<rparr>"
  have s0: "s0 = s \<or> lifecycle_step s s0"
    by (cases "wd_attempts s ?r") (auto simp: s0_def fun_upd_idem intro: recover_ends)
  define s1 where "s1 = s0 \<lparr>wd_attempts := (wd_attempts s0)(?r \<mapsto> (w, rec, Entered))\<rparr>"
  have s1: "lifecycle_step s0 s1" unfolding s1_def by (rule recover_enters) (simp_all add: s0_def rec)
  obtain ended h where m: "recovery_mark (wd_host s1) w rec = (ended, h)" by fastforce
  have held: "holder (h_workloads (wd_host s1) w) = Some ?r"
    using inv rec by (auto simp: lifecycle_inv_def recoveries_inv_def s1_def s0_def slot_def)
  note mk = recovery_mark_marks [OF held m]
  define s2 where "s2 = s1 \<lparr>wd_host := h, wd_attempts := (wd_attempts s1)(?r \<mapsto> (w, rec, Releasing))\<rparr>"
  have s2: "lifecycle_step s1 s2"
    using recover_marks [of s1 ?r w rec ended h] m mk by (simp add: s1_def s2_def)
  define s3 where "s3 = s2 \<lparr>wd_bound := unbind_all w (wd_bound s2), wd_attempts := (wd_attempts s2)(?r \<mapsto> (w, rec, Released))\<rparr>"
  have s3: "lifecycle_step s2 s3" unfolding s3_def by (rule recover_released) (simp add: s2_def)
  define s4 where "s4 = s3 \<lparr>wd_host := recover_finish (wd_host s3) w rec, wd_attempts := (wd_attempts s3)(?r := None)\<rparr>"
  have s4: "lifecycle_step s3 s4" unfolding s4_def by (rule recover_finishes) (simp add: s3_def)
  have "holder (h_workloads h w) = Some ?r" using mk held marked_holder [of "h_workloads (wd_host s1) w" "h_workloads h w"] by simp
  from recover_finish_frees [OF this _ refl] mk have "vacant (slot s4 w)"
    by (simp add: s4_def s3_def s2_def slot_def)
  then have "can_finish s0 w"
    by (rule can_finish_step [OF s1 can_finish_step [OF s2 can_finish_step [OF s3 can_finish_step [OF s4 can_finish_now]]]])
  with s0 show ?thesis by (auto intro: can_finish_step)
qed

lemma finishing_can_finish:
  assumes inv: "lifecycle_inv s" and task: "wd_tasks s r = Some (w, Finishing reason)"
  shows "can_finish s w"
proof -
  have "holder (h_workloads (wd_host s) w) = Some r" "h_workloads (wd_host s) w \<noteq> Some (Starting r)"
    using task_holds [OF inv task] by (auto simp: slot_def)
  then have "vacant (h_workloads (finish_teardown (wd_host s) w r reason) w)" by (rule finish_teardown_frees [OF _ _ refl, THEN conjunct1])
  then show ?thesis
    by (intro can_finish_step [OF finished [OF task]] can_finish_now) (simp add: slot_def)
qed

lemma task_can_finish:
  assumes inv: "lifecycle_inv s" and task: "wd_tasks s r = Some (w, p)"
  shows "can_finish s w"
proof (cases "guarded p")
  case True
  let ?t = "s \<lparr>wd_host := guard_drop (wd_host s) w r False, wd_tasks := (wd_tasks s)(r := None)\<rparr>"
  have step: "lifecycle_step s ?t" by (rule cancelled [OF task True])
  show ?thesis
    by (rule can_finish_step [OF step], rule recorded_can_finish [OF lifecycle_inv_step [OF inv step]])
      (simp add: guard_drop_def)
next
  case False
  show ?thesis
  proof (cases p)
    case (FailReleasing reason)
    with task have "wd_tasks s r = Some (w, FailReleasing reason)" by simp
    then have step: "lifecycle_step s (s \<lparr>wd_bound := unbind_all w (wd_bound s),
      wd_tasks := (wd_tasks s)(r \<mapsto> (w, Finishing (Some reason)))\<rparr>)"
      using released [of s r w "FailReleasing reason"] by simp
    show ?thesis
      by (rule can_finish_step [OF step], rule finishing_can_finish [OF lifecycle_inv_step [OF inv step], of r w "Some reason"])
        simp
  next
    case (Finishing q)
    with task show ?thesis by (auto intro: finishing_can_finish [OF inv])
  qed (use False in simp_all)
qed


text \<open>
  C19. A workload's name comes free, or is left with a failure a stop may collect, only when
  nothing is bound under it any more, unless a plugin failure could not unbind it.
\<close>

theorem freed_names_leave_nothing_bound:
  assumes "lifecycle_step\<^sup>*\<^sup>* (world_init host_id plugins) s" and "vacant (slot s w)" and "w \<notin> wd_leaked s"
  shows "(w, b) \<notin> wd_bound s"
  using lifecycle_reachable [OF assms(1)] assms(2,3) by (auto simp: lifecycle_inv_def bound_inv_def unused_def)

text \<open>A workload that started undisturbed, one a stop is tearing down, and one a plugin failed.\<close>

definition demo_running :: world where
  "demo_running = \<lparr>wd_host = \<lparr>h_id = ''h'', h_workloads = [''w'' \<mapsto> Running 0], h_recoveries = Map.empty,
     h_reservations = 1, h_stopped = False, h_plugins = []\<rparr>, wd_tasks = Map.empty, wd_attempts = Map.empty,
     wd_bound = {(''w'', 0)}, wd_leaked = {}, wd_cleared = False\<rparr>"

definition demo_stopping :: world where
  "demo_stopping = demo_running \<lparr>wd_host := wd_host demo_running
     \<lparr>h_workloads := [''w'' \<mapsto> Stopping 1], h_reservations := 2\<rparr>, wd_tasks := [1 \<mapsto> (''w'', StopReleasing)]\<rparr>"

definition demo_failing :: world where
  "demo_failing = demo_stopping \<lparr>wd_tasks := [1 \<mapsto> (''w'', FailReleasing ''crash loop'')]\<rparr>"

lemma demo_starts: "lifecycle_step\<^sup>*\<^sup>* (world_init ''h'' []) demo_running"
proof -
  define s0 where "s0 = world_init ''h'' []"
  define s1 where "s1 = s0 \<lparr>wd_host := put ''w'' (Starting 0) (wd_host s0 \<lparr>h_reservations := 1\<rparr>),
    wd_tasks := [0 \<mapsto> (''w'', Reserved)]\<rparr>"
  have 1: "lifecycle_step s0 s1"
    using reserve [of s0 "Ok ()" "''w''" 0 "wd_host s1"]
    by (simp add: s1_def s0_def world_init_def Host_new_def can_mint_def workload_reserve_def Host_reserve_def)
  define s2 where "s2 = s1 \<lparr>wd_tasks := [0 \<mapsto> (''w'', Building)]\<rparr>"
  have 2: "lifecycle_step s1 s2" using begin_native [of s1 0 "''w''"] by (simp add: s2_def s1_def)
  define s3 where "s3 = s2 \<lparr>wd_bound := {(''w'', 0)}\<rparr>"
  have 3: "lifecycle_step s2 s3"
    using bind [of s2 0 "''w''"] by (simp add: s3_def s2_def s1_def s0_def world_init_def)
  have 4: "lifecycle_step s3 demo_running"
    using commit [of s3 0 "''w''" "Ok 0" "''''" WS_Running "''Workload started successfully''" False "wd_host demo_running"]
    by (simp add: s3_def s2_def s1_def s0_def world_init_def Host_new_def start_commit_def demo_running_def)
  show ?thesis using 1 2 3 4 unfolding s0_def by (meson rtranclp.rtrancl_into_rtrancl r_into_rtranclp)
qed

lemma demo_stops: "lifecycle_step\<^sup>*\<^sup>* (world_init ''h'' []) demo_stopping"
proof -
  have "lifecycle_step demo_running demo_stopping"
    using stop_takes [of demo_running 1 "wd_host demo_running \<lparr>h_reservations := 2\<rparr>" "''w''" 0 "wd_host demo_stopping"]
    by (simp add: demo_running_def demo_stopping_def can_mint_def Host_reserve_def stop_mark_def stop_action_def)
  with demo_starts show ?thesis by (rule rtranclp.rtrancl_into_rtrancl)
qed

lemma demo_fails: "lifecycle_step\<^sup>*\<^sup>* (world_init ''h'' []) demo_failing"
proof -
  have "lifecycle_step demo_running demo_failing"
    using fail_takes [of demo_running 1 "wd_host demo_running \<lparr>h_reservations := 2\<rparr>" "''w''" "''crash loop''" 0
        "wd_host demo_failing"]
    by (simp add: demo_running_def demo_stopping_def demo_failing_def can_mint_def Host_reserve_def fail_mark_def)
  with demo_starts show ?thesis by (rule rtranclp.rtrancl_into_rtrancl)
qed

theorem teardowns_touch_only_their_own_witness:
  "slot demo_running ''w'' = Some (Running 0) \<and> (''w'', 0) \<in> wd_bound demo_running"
proof -
  have "slot demo_running ''w'' = Some (Running 0)" by (simp add: slot_def demo_running_def)
  with teardowns_touch_only_their_own [OF demo_starts, THEN conjunct1, rule_format, of "''w''" 0] show ?thesis by simp
qed


definition demo_stopped :: world where
  "demo_stopped = demo_stopping \<lparr>wd_host := wd_host demo_stopping \<lparr>h_workloads := Map.empty\<rparr>,
     wd_tasks := Map.empty, wd_bound := {}\<rparr>"

theorem freed_names_leave_nothing_bound_witness:
  "vacant (slot demo_stopped ''w'') \<and> (''w'', 0) \<notin> wd_bound demo_stopped"
proof -
  define s1 where "s1 = demo_stopping \<lparr>wd_bound := {}, wd_tasks := [1 \<mapsto> (''w'', Finishing None)]\<rparr>"
  have "unbind_all ''w'' (wd_bound demo_stopping) = {}"
    by (auto simp: demo_stopping_def demo_running_def unbind_all_def)
  then have "lifecycle_step demo_stopping s1"
    using released [of demo_stopping 1 "''w''" StopReleasing]
    by (simp add: s1_def demo_stopping_def demo_running_def)
  moreover have "lifecycle_step s1 demo_stopped"
    using finished [of s1 1 "''w''" None]
    by (simp add: s1_def demo_stopped_def demo_stopping_def demo_running_def finish_teardown_def or_reason_def)
  ultimately have run: "lifecycle_step\<^sup>*\<^sup>* (world_init ''h'' []) demo_stopped"
    using demo_stops by (meson rtranclp.rtrancl_into_rtrancl)
  have "vacant (slot demo_stopped ''w'')" "''w'' \<notin> wd_leaked demo_stopped"
    by (simp_all add: slot_def demo_stopped_def demo_stopping_def demo_running_def)
  with freed_names_leave_nothing_bound [OF run] show ?thesis by blast
qed

text \<open>What a plugin failure cannot unbind stays bound when its workload's name is free again, since
  the failure publishes its \<open>Error\<close> whether or not the release worked and a stop then drops it.\<close>

lemma failed_unbind_outlives_the_name:
  "\<exists>s. lifecycle_step\<^sup>*\<^sup>* (world_init ''h'' []) s \<and> slot s ''w'' = None \<and> (''w'', 0) \<in> wd_bound s"
proof -
  define s1 where "s1 = demo_failing \<lparr>wd_leaked := {''w''}, wd_tasks := [1 \<mapsto> (''w'', Finishing (Some ''crash loop''))]\<rparr>"
  have 1: "lifecycle_step demo_failing s1"
    using fail_release_fails [of demo_failing 1 "''w''" "''crash loop''"]
    by (simp add: s1_def demo_failing_def demo_stopping_def demo_running_def)
  define s2 where "s2 = s1 \<lparr>wd_host := wd_host s1 \<lparr>h_workloads := [''w'' \<mapsto> Error ''crash loop'']\<rparr>, wd_tasks := Map.empty\<rparr>"
  have 2: "lifecycle_step s1 s2"
    using finished [of s1 1 "''w''" "Some ''crash loop''"]
    by (simp add: s1_def s2_def demo_failing_def demo_stopping_def demo_running_def finish_teardown_def or_reason_def)
  define s3 where "s3 = s2 \<lparr>wd_host := collect_error (wd_host s2) ''w''\<rparr>"
  have 3: "lifecycle_step s2 s3" unfolding s3_def by (rule collect)
  have "lifecycle_step\<^sup>*\<^sup>* (world_init ''h'' []) s3"
    using demo_fails 1 2 3 by (meson rtranclp.rtrancl_into_rtrancl)
  moreover have "slot s3 ''w'' = None \<and> (''w'', 0) \<in> wd_bound s3"
    by (simp add: s3_def s2_def s1_def demo_failing_def demo_stopping_def demo_running_def slot_def collect_error_def)
  ultimately show ?thesis by blast
qed

text \<open>Only a reservation fills a slot that was empty, and every operation leaves the stop flag set.\<close>

definition keeps_closed :: "'w Host \<Rightarrow> 'w Host \<Rightarrow> bool" where
  "keeps_closed h h' \<longleftrightarrow>
     h_stopped h' = h_stopped h \<and> (\<forall>w. h_workloads h w = None \<longrightarrow> h_workloads h' w = None)"

lemma ops_keep_closed:
  "finish_teardown h w r reason = h' \<Longrightarrow> keeps_closed h h'"
  "workload_release h w r = h' \<Longrightarrow> keeps_closed h h'"
  "collect_error h w = h' \<Longrightarrow> keeps_closed h h'"
  "recover_finish h w rec = h' \<Longrightarrow> keeps_closed h h'"
  "recovery_mark h w rec = (ended, h') \<Longrightarrow> keeps_closed h h'"
  "stop_mark h w r = (taken, h') \<Longrightarrow> keeps_closed h h'"
  "fail_mark h w r failure = (taken, h') \<Longrightarrow> keeps_closed h h'"
  "start_commit h w r started = (answer, h') \<Longrightarrow> keeps_closed h h'"
  by (auto simp: keeps_closed_def finish_teardown_def workload_release_def collect_error_def recover_finish_def
      recovery_mark_def stop_mark_def stop_action_def fail_mark_def start_commit_def forget_def Let_def
      split: option.splits HostWorkload.splits if_splits StopAction.splits sum.splits)

lemma keeps_closed_refl: "keeps_closed h h"
  by (simp add: keeps_closed_def)

lemma keeps_closed_reserve: "Host_reserve h = (r, h') \<Longrightarrow> keeps_closed h' h'' \<Longrightarrow> keeps_closed h h''"
  by (auto simp: Host_reserve_def keeps_closed_def)

lemma step_keeps_closed:
  assumes "lifecycle_step s s'" and "h_stopped (wd_host s)"
  shows "keeps_closed (wd_host s) (wd_host s')"
  using assms(1)
proof cases
  case (reserve admit v r h)
  with reserve_claims [OF reserve(3)] assms(2) show ?thesis by simp
next
  case (refuse admit w m h)
  with reserve_refuses [OF refuse(3)] show ?thesis by (simp add: keeps_closed_def)
next
  case host_stops
  then show ?thesis using assms(2) by (simp add: keeps_closed_def stop_admitting_def)
qed (simp_all add: keeps_closed_refl ops_keep_closed(1-4) [OF refl] ops_keep_closed(5-8)
    keeps_closed_reserve [OF _ ops_keep_closed(6)] keeps_closed_reserve [OF _ ops_keep_closed(7)],
    simp_all add: keeps_closed_def guard_drop_def clear_recoveries_def)

text \<open>
  A host that has been told to stop admits nobody: a name that is free stays free whatever
  else still runs to its end.
\<close>

theorem stopped_host_admits_nothing:
  assumes "lifecycle_step\<^sup>*\<^sup>* s s'" and "h_stopped (wd_host s)"
  shows "h_stopped (wd_host s') \<and> (\<forall>w. slot s w = None \<longrightarrow> slot s' w = None)"
  using assms
proof (induction rule: rtranclp_induct)
  case (step t u)
  note IH = step.IH [OF step.prems]
  from step_keeps_closed [OF step.hyps(2)] IH show ?case by (simp add: keeps_closed_def slot_def)
qed simp

definition demo_closed :: world where
  "demo_closed = (world_init ''h'' []) \<lparr>wd_host := stop_admitting (Host_new ''h'' [])\<rparr>"

theorem stopped_host_admits_nothing_witness:
  "workload_reserve (Ok ()) (wd_host demo_closed) ''w'' =
     (Err (stopped_message ''h''), wd_host demo_closed \<lparr>h_reservations := 1\<rparr>) \<and>
   slot (demo_closed \<lparr>wd_host := wd_host demo_closed \<lparr>h_reservations := 1\<rparr>\<rparr>) ''w'' = None"
proof -
  have r: "workload_reserve (Ok ()) (wd_host demo_closed) ''w'' =
      (Err (stopped_message ''h''), wd_host demo_closed \<lparr>h_reservations := 1\<rparr>)"
    by (simp add: demo_closed_def world_init_def Host_new_def stop_admitting_def workload_reserve_def Host_reserve_def)
  have "can_mint demo_closed" "h_stopped (wd_host demo_closed)" "slot demo_closed ''w'' = None"
    by (simp_all add: demo_closed_def world_init_def Host_new_def stop_admitting_def can_mint_def slot_def)
  with stopped_host_admits_nothing [OF r_into_rtranclp [where r = lifecycle_step], OF refuse [OF _ r]] r
  show ?thesis by blast
qed

section \<open>Handlers that run undisturbed\<close>

text \<open>
  C39. A start, stop or failure that nothing interrupts does what it reports. A started workload
  is reported running; starting it again is refused and changes no slot; a stop gives the host
  its old slots back; a failure is reported with the plugin's reason; and a stop whose cleanup
  fails reports the workload as stopping and keeps its name until a later stop cleans it up.
\<close>

theorem undisturbed_workload_starts_and_stops:
  assumes free: "h_workloads h w = None" "h_recoveries h w = None" and admitted: "w \<notin> set (h_plugins h)" "\<not> h_stopped h"
    and h1: "workload_start (Ok ()) h w (Ok b) release = (st, h1)"
  shows "ws_workload_state st = WS_Running \<and> ws_workload_state (workload_status h1 w) = WS_Running \<and>
    ws_workload_state (fst (workload_start admit h1 w started release')) = WS_Error \<and>
    h_workloads (snd (workload_start admit h1 w started release')) = h_workloads h1 \<and>
    h_workloads (snd (workload_stop h1 w (Ok ()))) = h_workloads h \<and>
    workload_status (fail_workload h1 w reason) w =
      \<lparr>ws_workload_id = w, ws_workload_state = WS_Error, ws_message = reason\<rparr> \<and>
    (let h2 = snd (workload_stop h1 w (Err e)) in
       ws_workload_state (workload_status h2 w) = WS_Stopping \<and>
       h_workloads (snd (workload_stop h2 w (Ok ()))) = h_workloads h \<and>
       h_recoveries (snd (workload_stop h2 w (Ok ()))) = h_recoveries h)"
proof -
  let ?c = "h_reservations h"
  have st: "st = \<lparr>ws_workload_id = w, ws_workload_state = WS_Running, ws_message = ''Workload started successfully''\<rparr>"
    and h1: "h1 = put w (Running b) (h \<lparr>h_reservations := ?c + 1\<rparr>)"
    using h1 free admitted
    by (auto simp: workload_start_def workload_reserve_def Host_reserve_def workload_start_reserved_def start_commit_def)
  have again: "workload_reserve admit h1 w = (Err (existing_id_message w), h1 \<lparr>h_reservations := ?c + 1 + 1\<rparr>)"
    using admitted by (simp add: workload_reserve_def Host_reserve_def h1)
  have stopped: "snd (workload_stop h1 w (Ok ())) = h \<lparr>h_reservations := ?c + 1 + 1\<rparr>"
    using free by (simp add: workload_stop_def h1 Host_reserve_def stop_mark_def stop_action_def finish_teardown_def
        or_reason_def fun_upd_idem)
  have failed: "h_workloads (fail_workload h1 w reason) w = Some (Error reason)"
    by (simp add: fail_workload_def h1 Host_reserve_def fail_mark_def finish_teardown_def or_reason_def)
  define h2 where "h2 = snd (workload_stop h1 w (Err e))"
  have h2: "h2 = h \<lparr>h_reservations := ?c + 1 + 1, h_workloads := (h_workloads h)(w \<mapsto> Stopping (?c + 1)),
      h_recoveries := (h_recoveries h)(w \<mapsto> \<lparr>wr_reservation = ?c + 1, wr_retain_failure = False\<rparr>)\<rparr>"
    using free by (simp add: h2_def workload_stop_def h1 Host_reserve_def stop_mark_def stop_action_def guard_drop_def)
  have again': "snd (workload_stop h2 w (Ok ())) = h \<lparr>h_reservations := ?c + 1 + 1\<rparr>"
    using free by (simp add: workload_stop_def h2 recover_def recorded_def recovery_mark_def recover_finish_def forget_def
        collect_error_def fun_upd_idem Let_def)
  show ?thesis
    unfolding h2_def [symmetric]
    using st again stopped failed again' by (simp add: workload_start_def workload_status_def h1 h2)
qed

theorem undisturbed_workload_starts_and_stops_witness:
  "h_workloads (snd (workload_stop (snd (workload_start (Ok ()) (Host_new ''h'' []) ''w'' (Ok ''app'') (Ok ())))
     ''w'' (Ok ()))) = Map.empty"
proof -
  obtain st h1 where h1: "workload_start (Ok ()) (Host_new ''h'' []) ''w'' (Ok ''app'') (Ok ()) = (st, h1)" by fastforce
  have "h_workloads (snd (workload_stop h1 ''w'' (Ok ()))) = h_workloads (Host_new ''h'' [])"
    using undisturbed_workload_starts_and_stops [OF _ _ _ _ h1] by (simp add: Host_new_def)
  then show ?thesis by (simp add: h1) (simp add: Host_new_def)
qed

text \<open>
  C40. A start that fails says why, and the reason is not lost with it: when its cleanup works the
  failure is the workload's status at once; when the cleanup fails the name stays held, and once
  a recovery has cleaned up, the reason of the failed start is its status.
\<close>

theorem failed_start_keeps_its_reason:
  assumes free: "h_workloads h w = None" and admitted: "w \<notin> set (h_plugins h)" "\<not> h_stopped h"
  shows "(let h1 = snd (workload_start (Ok ()) h w (Err m) (Ok ())) in
           workload_status h1 w = \<lparr>ws_workload_id = w, ws_workload_state = WS_Error, ws_message = m\<rparr>) \<and>
         (let h2 = snd (workload_start (Ok ()) h w (Err m) (Err e)) in
           ws_workload_state (workload_status h2 w) = WS_Stopping \<and>
           (case h_recoveries h2 w of
              None \<Rightarrow> False
            | Some rec \<Rightarrow>
                workload_status (snd (recover h2 w rec (Err e))) w = workload_status h2 w \<and>
                workload_status (snd (recover h2 w rec (Ok ()))) w =
                  \<lparr>ws_workload_id = w, ws_workload_state = WS_Error, ws_message = m\<rparr>))"
proof -
  have r: "workload_reserve (Ok ()) h w =
      (Ok (h_reservations h), put w (Starting (h_reservations h)) (h \<lparr>h_reservations := h_reservations h + 1\<rparr>))"
    using free admitted by (simp add: workload_reserve_def Host_reserve_def)
  show ?thesis
    by (simp add: workload_start_def r workload_start_reserved_def start_commit_def finish_teardown_def or_reason_def
        guard_drop_def workload_status_def recover_def recorded_def recovery_mark_def recover_finish_def forget_def Let_def)
qed

theorem failed_start_keeps_its_reason_witness:
  "ws_message (workload_status (snd (workload_start (Ok ()) (Host_new ''h'' [] :: nat Host) ''w''
     (Err ''no such image'') (Ok ()))) ''w'') = ''no such image''"
  using failed_start_keeps_its_reason [of "Host_new ''h'' [] :: nat Host" "''w''" "''no such image''"]
  by (simp add: Host_new_def Let_def)

section \<open>The handlers as runs of the interleaved system\<close>

definition reaches :: "world \<Rightarrow> Reservation Host \<Rightarrow> bool" where
  "reaches s h \<longleftrightarrow> (\<exists>s'. lifecycle_step\<^sup>*\<^sup>* s s' \<and> wd_host s' = h)"

lemma reaches_now: "wd_host s = h \<Longrightarrow> reaches s h"
  by (auto simp: reaches_def)

lemma reaches_step: "lifecycle_step s t \<Longrightarrow> reaches t h \<Longrightarrow> reaches s h"
  by (auto simp: reaches_def intro: converse_rtranclp_into_rtranclp)

text \<open>Once an operation holds what it took, its release goes through or its guard is dropped.\<close>

lemma releasing_reaches_teardown:
  assumes "wd_tasks s r = Some (w, p)" and "releasing p"
  shows "reaches s (finish_teardown (wd_host s) w r (publishes p))"
  by (rule reaches_step [OF released [OF assms]], rule reaches_step [OF finished]) (auto intro: reaches_now)

lemma recover_reaches:
  assumes inv: "lifecycle_inv s" and rec: "h_recoveries (wd_host s) w = Some rec"
    and idle: "wd_attempts s (wr_reservation rec) = None"
  shows "reaches s (collect_error (snd (recover (wd_host s) w rec release)) w)"
proof -
  let ?r = "wr_reservation rec"
  let ?s1 = "s \<lparr>wd_attempts := (wd_attempts s)(?r \<mapsto> (w, rec, Entered))\<rparr>"
  have held: "holder (h_workloads (wd_host s) w) = Some ?r"
    using inv rec by (auto simp: lifecycle_inv_def recoveries_inv_def slot_def)
  obtain ended h where m: "recovery_mark (wd_host s) w rec = (ended, h)" by fastforce
  have "ended = None" using recovery_mark_marks [OF held m] by simp
  let ?s2 = "?s1 \<lparr>wd_host := h, wd_attempts := (wd_attempts s)(?r \<mapsto> (w, rec, Releasing))\<rparr>"
  have s1: "lifecycle_step s ?s1" by (rule recover_enters [OF rec idle])
  have s2: "lifecycle_step ?s1 ?s2"
    using recover_marks [of ?s1 ?r w rec ended h] m \<open>ended = None\<close> by simp
  have "reaches ?s2 (collect_error (case release of Err _ \<Rightarrow> h | Ok _ \<Rightarrow> recover_finish h w rec) w)"
  proof (cases release)
    case (Inl error)
    have "lifecycle_step ?s2 (?s2 \<lparr>wd_attempts := (wd_attempts ?s2)(?r := None)\<rparr>)"
      by (rule recover_ends) simp
    then show ?thesis
      by (rule reaches_step) (rule reaches_step [OF collect], rule reaches_now, simp add: Inl)
  next
    case (Inr ok)
    let ?s3 = "?s2 \<lparr>wd_bound := unbind_all w (wd_bound ?s2), wd_attempts := (wd_attempts ?s2)(?r \<mapsto> (w, rec, Released))\<rparr>"
    have s3: "lifecycle_step ?s2 ?s3" by (rule recover_released) simp
    have s4: "lifecycle_step ?s3 (?s3 \<lparr>wd_host := recover_finish (wd_host ?s3) w rec, wd_attempts := (wd_attempts ?s3)(?r := None)\<rparr>)"
      by (rule recover_finishes) simp
    show ?thesis
      by (rule reaches_step [OF s3], rule reaches_step [OF s4], rule reaches_step [OF collect], rule reaches_now)
        (simp add: Inr)
  qed
  moreover have "snd (recover (wd_host s) w rec release) = (case release of Err _ \<Rightarrow> h | Ok _ \<Rightarrow> recover_finish h w rec)"
    using rec m \<open>ended = None\<close> by (simp add: recover_def recorded_def split: sum.split)
  ultimately show ?thesis by (simp add: reaches_step [OF s1 reaches_step [OF s2]])
qed

lemma stop_reaches:
  assumes inv: "lifecycle_inv s" and mint: "can_mint s" and idle: "wd_attempts s = Map.empty"
  shows "reaches s (snd (workload_stop (wd_host s) w release))"
proof (cases "h_recoveries (wd_host s) w")
  case (Some rec)
  then show ?thesis
    using recover_reaches [OF inv Some, of release] idle by (simp add: workload_stop_def Let_def case_prod_beta)
next
  case None
  obtain r h where r: "Host_reserve (wd_host s) = (r, h)" by fastforce
  obtain taken h' where m: "stop_mark h w r = (taken, h')" by fastforce
  have stop: "snd (workload_stop (wd_host s) w release) =
      (if h_workloads (wd_host s) w = None then wd_host s
       else case taken of None \<Rightarrow> h'
            | Some _ \<Rightarrow> (case release of Ok _ \<Rightarrow> finish_teardown h' w r None | Err _ \<Rightarrow> guard_drop h' w r False))"
    using None r m by (simp add: workload_stop_def split: option.split sum.split)
  show ?thesis
  proof (cases taken)
    case None
    have "reaches s h'" by (rule reaches_step [OF stop_marks [OF mint r m [unfolded None]]], rule reaches_now) simp
    then show ?thesis using None by (simp add: stop reaches_now)
  next
    case (Some b)
    let ?t = "s \<lparr>wd_host := h', wd_tasks := (wd_tasks s)(r \<mapsto> (w, StopReleasing))\<rparr>"
    have t: "lifecycle_step s ?t" by (rule stop_takes [OF mint r m [unfolded Some]])
    have "reaches ?t (finish_teardown h' w r None)" using releasing_reaches_teardown [of ?t r w StopReleasing] by simp
    moreover have "reaches ?t (guard_drop h' w r False)"
      by (rule reaches_step [OF cancelled [of ?t r w StopReleasing]], simp, simp, rule reaches_now) simp
    ultimately show ?thesis
      by (auto simp: stop Some reaches_now split: sum.split intro: reaches_step [OF t])
  qed
qed

lemma fail_reaches:
  assumes mint: "can_mint s"
  shows "reaches s (fail_workload (wd_host s) w reason)"
proof -
  obtain r h where r: "Host_reserve (wd_host s) = (r, h)" by fastforce
  obtain taken h' where m: "fail_mark h w r reason = (taken, h')" by fastforce
  show ?thesis
  proof (cases taken)
    case None
    have "reaches s h'" by (rule reaches_step [OF fail_marks [OF mint r m [unfolded None]]], rule reaches_now) simp
    then show ?thesis using None r m by (simp add: fail_workload_def)
  next
    case (Some b)
    let ?t = "s \<lparr>wd_host := h', wd_tasks := (wd_tasks s)(r \<mapsto> (w, FailReleasing reason))\<rparr>"
    have t: "lifecycle_step s ?t" by (rule fail_takes [OF mint r m [unfolded Some]])
    have "reaches ?t (finish_teardown h' w r (Some reason))"
      using releasing_reaches_teardown [of ?t r w "FailReleasing reason"] by simp
    then show ?thesis using reaches_step [OF t] Some r m by (simp add: fail_workload_def)
  qed
qed

text \<open>A start that succeeds has bound what it built and is known by its own reservation.\<close>

lemma start_reaches:
  assumes mint: "can_mint s" and started: "started = Ok (h_reservations (wd_host s)) \<or> started = Err m"
  shows "reaches s (snd (workload_start admit (wd_host s) w started release))"
proof (cases "workload_reserve admit (wd_host s) w")
  case (Pair answer h)
  show ?thesis
  proof (cases answer)
    case (Inl message)
    show ?thesis
      by (rule reaches_step [OF refuse [OF mint Pair [unfolded Inl]]], rule reaches_now)
        (simp add: workload_start_def Pair Inl)
  next
    case (Inr r)
    have r: "r = h_reservations (wd_host s)" using reserve_claims(1) [OF Pair [unfolded Inr]] .
    let ?s1 = "s \<lparr>wd_host := h, wd_tasks := (wd_tasks s)(r \<mapsto> (w, Reserved))\<rparr>"
    let ?s2 = "?s1 \<lparr>wd_tasks := (wd_tasks ?s1)(r \<mapsto> (w, Building))\<rparr>"
    let ?s3 = "?s2 \<lparr>wd_bound := insert (w, r) (wd_bound ?s2)\<rparr>"
    have s1: "lifecycle_step s ?s1" by (rule reserve [OF mint Pair [unfolded Inr]])
    have s2: "lifecycle_step ?s1 ?s2" by (rule begin_native) simp
    have s3: "lifecycle_step ?s2 ?s3" by (rule bind) simp
    obtain state message rel h' where c: "start_commit h w r started = ((state, message, rel), h')"
      by (metis prod.exhaust)
    let ?s4 = "?s3 \<lparr>wd_host := h', wd_tasks := (wd_tasks ?s3)(r := if rel then Some (w, StartReleasing) else None)\<rparr>"
    have s4: "lifecycle_step ?s3 ?s4"
      by (rule commit [where started = started and m = m]) (use started c r in auto)
    have "reaches ?s4 (if rel then case release of Ok _ \<Rightarrow> finish_teardown h' w r None | Err _ \<Rightarrow> guard_drop h' w r True else h')"
      using releasing_reaches_teardown [of ?s4 r w StartReleasing]
        reaches_step [OF start_release_fails [of ?s4 r w] reaches_now [OF refl]] reaches_now [of ?s4]
      by (auto split: sum.split)
    then have "reaches ?s4 (snd (workload_start admit (wd_host s) w started release))"
      by (simp add: workload_start_def Pair Inr workload_start_reserved_def c)
    then show ?thesis by (rule reaches_step [OF s1 reaches_step [OF s2 reaches_step [OF s3 reaches_step [OF s4]]]])
  qed
qed



text \<open>The waits of the retry loop: one for each attempt that failed before the first that did not,
  each between the initial wait and the maximum, and none shorter than the one before.\<close>

lemma retry_waits_bounds:
  assumes "RECOVERY_RETRY_INITIAL \<le> backoff" and "backoff \<le> RECOVERY_RETRY_MAX"
  shows "length (retry_waits backoff attempts) = length (takeWhile (\<lambda>a. \<exists>e. a = Err e) attempts) \<and>
    sorted (retry_waits backoff attempts) \<and> set (retry_waits backoff attempts) \<subseteq> {backoff..RECOVERY_RETRY_MAX}"
  using assms
proof (induction backoff attempts rule: retry_waits.induct)
  case (1 backoff e attempts)
  then show ?case by (fastforce simp: RECOVERY_RETRY_INITIAL_def RECOVERY_RETRY_MAX_def min_def split: if_splits)
qed auto

end
