(* ===== verification/Spec2Isabelle.thy ===== *)
theory Spec2Isabelle
  imports Allowed_Hosts Allowed_Names Egress_Policy Internal_Names Loopback_Ports Nats_Policy Port_Table Quota Resolved_Names Socket_Host Udp_Runs Http_Ingress Plugin_Egress Host_Lifecycle
begin

text \<open>
  A verification development for the wasmCloud host runtime, \<open>src/crates/wash-runtime\<close>. File names
  below are relative to its \<open>src\<close> directory.

  \<^bold>\<open>The program.\<close> A host runs workloads made of WebAssembly components. It starts and stops them
  (\<open>host/mod.rs\<close>, \<open>host/cleanup.rs\<close>) on commands of a control plane (\<open>washlet/mod.rs\<close>), routes HTTP
  requests to them (\<open>host/http.rs\<close>), and mediates everything they reach: sockets and name lookups
  (\<open>sockets/\<close>), outgoing HTTP (\<open>host/http.rs\<close>) and what native plugins connect to on their behalf
  (\<open>plugin/egress.rs\<close>). Every such call asks a policy assembled from allowlists, an address-range
  policy, the names the guest has resolved, the ports the host itself has published, and quotas.
  A guest's socket lives on one of two planes: the real network, or a virtual network inside the
  process that stands for its loopback.

  \<^bold>\<open>Conventions.\<close> A string is its list of UTF-8 bytes. A \<open>Result\<close> is a sum with \<open>Err\<close> on the left;
  \<open>?\<close> is \<open>bind_result\<close>. Integers whose width the code can exhaust are words; \<open>usize\<close> counts are
  naturals with the bounds written out; an \<open>Instant\<close> or \<open>Duration\<close> is a number of nanoseconds. A
  \<open>BTreeMap\<close> is a sorted association list, a \<open>HashMap\<close> a map. A method that mutates takes its state
  and returns it. A panic is \<open>None\<close> or a value of its own, and a panic under a lock sets the poison
  flag of that lock. Code that holds a lock is one function; what other tasks may do between two
  such functions is an inductive step relation, and its invariants come from the locale
  \<open>transition_system\<close>.

  A definition for one expression or inner block of a function (such as \<open>token_meets\<close> in
  \<open>NatsSubjectPattern_overlaps\<close>) belongs to the lines of the function that uses it.

  Third-party code is a parameter: the \<open>http\<close> and \<open>url\<close> parsers, \<open>semver\<close>, the random choice of a
  route, tokio's semaphores and channels, and the operating system's sockets. What a theorem needs
  of one is a named predicate (such as \<open>permits_laws\<close>), and each witness instantiates it.

  \<^bold>\<open>Theories.\<close>

  \<^item> \<open>Prelude\<close>, \<open>Interfaces\<close>: the standard library as the sources use it, and the contracts
    \<open>allowlist\<close> (a list of entries permits what an entry permits), \<open>keyed_store\<close> (maps) and
    \<open>transition_system\<close> (reachability and invariants), interpreted where the code provides them.
  \<^item> \<open>Net_Addr\<close>, \<open>Net_Text\<close>: addresses of \<open>core::net\<close>, their classification, parser and printer.
  \<^item> \<open>Allowed_Hosts\<close>, \<open>Allowed_Names\<close>, \<open>Loopback_Ports\<close>, \<open>Declared_Ports\<close>, \<open>Egress_Policy\<close>,
    \<open>Internal_Names\<close>: \<open>host/allowed_hosts.rs\<close>, \<open>host/allowed_ip_name.rs\<close>, \<open>host/allowed_loopback.rs\<close>,
    \<open>host/declared_port.rs\<close>, \<open>host/egress_policy.rs\<close>, \<open>sockets/internal_names.rs\<close>. What each entry
    admits, that printing and parsing agree, which lists are accepted, that denied ranges are
    denied in every spelling of an address, and that the reserved zone is closed.
  \<^item> \<open>Port_Table\<close>: \<open>host/ports.rs\<close>. Over every interleaving of reservations and drops no two live
    reservations share a port.
  \<^item> \<open>Quota\<close>: \<open>host/quota.rs\<close>. Descriptor budgets, per-guest allowances and the host-wide ceiling;
    slots are conserved and never exceed the ceiling.
  \<^item> \<open>Resolved_Names\<close>: \<open>sockets/resolved_names.rs\<close>. The bounded history behind grants by name: its
    four indexes agree, its loops (\<open>while_option\<close>) end, and a grant rests on a current answer.
  \<^item> \<open>Nats_Policy\<close>: \<open>plugin/wasmcloud_nats/policy.rs\<close>. \<open>contains\<close> and \<open>overlaps\<close> decide inclusion and
    intersection of the subjects matched; accepted subscriptions and streams are safe.
  \<^item> \<open>Socket_Util\<close>, \<open>Virtual_Network\<close>, \<open>Tcp_Socket\<close>: \<open>sockets/util.rs\<close>, \<open>sockets/loopback/\<close> and
    \<open>sockets/tcp.rs\<close>. Error codes, the virtual network, and the stream socket as a state machine
    over both planes; no two sockets own one virtual port.
  \<^item> \<open>Socket_Policy\<close>: \<open>sockets/policy.rs\<close> and the check of \<open>sockets/mod.rs\<close>. Every decision, its
    metering and its slots; enforced egress is granted, counting mode records exactly what
    enforcing refuses, the ingress cannot be reached through the loopback sentinel.
  \<^item> \<open>Socket_Host\<close>: \<open>sockets/host_tcp.rs\<close>, \<open>host_tcp_create_socket.rs\<close>, \<open>host_network.rs\<close>,
    \<open>network.rs\<close>, \<open>p2_tcp.rs\<close>, \<open>host_ip_name_lookup.rs\<close>. The calls of a guest over policy, sockets,
    virtual network and lookup history: every dial was granted, every real socket holds a slot.
  \<^item> \<open>Udp_Socket\<close>, \<open>Udp_Host\<close>, \<open>Udp_Runs\<close>: \<open>sockets/udp.rs\<close>, \<open>p2_udp.rs\<close>, \<open>host_udp.rs\<close> and
    \<open>host_udp_create_socket.rs\<close>. The datagram socket over both planes, its streams and the calls of a
    guest. Over every run what reaches the real network was granted at that instant, and what the
    guest hears came from a peer it had addressed; a batch reports what left. Receiving loops are
    \<open>partial_function\<close>s, with a proof that they return once the operating system runs dry and one
    that nothing else bounds them.
  \<^item> \<open>Wit\<close>: \<open>wit.rs\<close>. Interfaces and worlds, their matching, printing and reading.
  \<^item> \<open>Http_Router\<close>, \<open>Http_Ingress\<close>: \<open>host/http.rs\<close>. Route declarations, the sharded table, selection of
    a workload, the connection ceiling, dispatch of inbound requests and the short-circuit of
    outgoing ones: requests go to the most specific route, an unbound workload gets none, local
    dispatch stays within the caller's policy and returns its slot exactly once.
  \<^item> \<open>Plugin_Egress\<close>: \<open>plugin/egress.rs\<close>. Endpoints of native plugins are granted, and within what
    the socket policy would grant.
  \<^item> \<open>Host_Lifecycle\<close>: \<open>host/mod.rs\<close>, \<open>host/cleanup.rs\<close>, \<open>start_bounded\<close> of \<open>washlet/mod.rs\<close>. Slots of
    workloads and the reservations that own them. The interleaved system of starts, stops,
    failures, cancellations and recoveries keeps running workloads intact, can always finish a
    held slot, and leaves nothing bound under a free name; the sequential handlers are runs of it.

  \<^bold>\<open>Bounds and fuel.\<close> No definition is given more fuel than the code's own limits: accepting gives up
  after \<open>MAX_REFUSED_ACCEPTS_PER_CALL\<close> refusals, retries of a recovery wait as \<open>retry_waits\<close> lists,
  a port search counts down from 65535. The loops of the lookup history are \<open>while_option\<close> and
  proved to end; every other recursion is on a list or has a measure.

  \<^bold>\<open>Not modelled.\<close> The engine (\<open>engine/\<close>) drives wasmtime: nearly every line is a call of that
  library, so a model of it would be a model of made-up code; what the lifecycle needs of it is an
  argument (what a build returns, whether a release succeeds). The HTTP client and the TLS
  identities, the storage, messaging, NATS and Postgres backends, image pulls, observability and
  the probe listeners are input and output over libraries the sources only call. The byte streams
  of sockets and the 0.3 interfaces of \<open>wasi:sockets\<close> are asynchronous producers of the engine; the
  plain option getters and setters of sockets only forward. The generated protocol code, the
  command-line tool, the operator and gateway written in Go, and the build tools are separate
  programs.
\<close>

end
